(* ===== verification/Prelude.thy ===== *)
theory Prelude
  imports Main "HOL-Library.Word" "HOL-Library.Monad_Syntax"
begin

text \<open>
  What every component shares: the machine integer types, C strings as char lists, decimal
  formatting and parsing as \<^verbatim>\<open>printf\<close> and \<^verbatim>\<open>strtoll\<close> do them, little-endian byte
  groups, cyclic index arithmetic, and the collections of simplification rules the component
  theories extend.

  A call of \<^verbatim>\<open>abort()\<close> is the value \<open>None\<close> of an option; an allocation failure
  (\<^verbatim>\<open>xmalloc\<close> and its kin abort on it) is not modelled.
\<close>

named_theorems cursor_simps \<open>reading and writing through cursors and buffers\<close>
named_theorems scope_simps \<open>variable scopes and the scope chain\<close>
named_theorems vm_simps \<open>one step of the bytecode machine\<close>

unbundle bit_operations_syntax

subsection \<open>Machine integers\<close>

type_synonym byte = "8 word"
type_synonym u16 = "16 word"
type_synonym u32 = "32 word"
type_synonym i32 = "32 word"
type_synonym i64 = "64 word"

definition SIZE_MAX :: nat where
  "SIZE_MAX = 2 ^ 64 - 1"

definition INT64_MIN :: int where
  "INT64_MIN = - (2 ^ 63)"

definition INT64_MAX :: int where
  "INT64_MAX = 2 ^ 63 - 1"

text \<open>A C \<^verbatim>\<open>int\<close> cast of a 64-bit value keeps the low 32 bits, read as two's complement.\<close>

definition int_of_i64 :: "i64 \<Rightarrow> int" where
  "int_of_i64 w = sint (ucast w :: 32 word)"

lemma sint_word_of_int64 [simp]:
  assumes "INT64_MIN \<le> i" "i \<le> INT64_MAX"
  shows "sint (word_of_int i :: i64) = i"
proof -
  have "- (2 ^ 63) \<le> i" and "i < 2 ^ 63"
    using assms by (simp_all add: INT64_MIN_def INT64_MAX_def)
  then show ?thesis
    by (simp add: sint_sbintrunc' signed_take_bit_int_eq_self)
qed

subsection \<open>Bytes and characters\<close>

definition byte_of_char :: "char \<Rightarrow> byte" where
  "byte_of_char c = of_char c"

definition char_of_byte :: "byte \<Rightarrow> char" where
  "char_of_byte b = char_of (unat b)"

lemma unat_of_char [simp]: "unat (of_char c :: byte) = of_char c"
proof -
  have "unat (of_nat (of_char c) :: byte) = of_char c mod 256"
    by (simp only: unat_of_nat take_bit_eq_mod) simp
  moreover have "(of_nat (of_char c) :: byte) = of_char c"
    by (simp add: of_char_def)
  ultimately show ?thesis
    by (simp only: of_char_mod_256)
qed

lemma char_of_byte_of_char [simp]: "char_of_byte (byte_of_char c) = c"
  by (simp add: byte_of_char_def char_of_byte_def)

lemma byte_of_char_of_byte [simp]: "byte_of_char (char_of_byte b) = b"
proof -
  have "unat b < 256"
    by (rule order_less_le_trans [OF unsigned_less]) simp
  then have "(of_char (char_of (unat b)) :: nat) = unat b"
    by simp
  moreover have "(of_char (char_of (unat b)) :: byte) = of_nat (of_char (char_of (unat b)))"
    by (simp add: of_char_def)
  ultimately show ?thesis
    by (simp add: byte_of_char_def char_of_byte_def)
qed

definition NUL :: char where
  "NUL = CHR 0x00"

text \<open>A C string is the bytes before its terminator, so it holds no NUL.\<close>

definition cstr :: "string \<Rightarrow> bool" where
  "cstr s \<longleftrightarrow> NUL \<notin> set s"

text \<open>Reading \<^verbatim>\<open>s[i]\<close> of a C string through a pointer: at the end stands the terminator.\<close>

definition peek :: "string \<Rightarrow> nat \<Rightarrow> char" where
  "peek s i = (if i < length s then s ! i else NUL)"

lemma peek_Nil [simp]: "peek [] i = NUL"
  by (simp add: peek_def)

lemma peek_Cons_0 [simp]: "peek (c # s) 0 = c"
  by (simp add: peek_def)

lemma peek_Cons_Suc [simp]: "peek (c # s) (Suc i) = peek s i"
  by (simp add: peek_def)

lemma peek_Cons_1 [simp]: "peek (c # s) 1 = peek s 0"
  by (simp add: peek_def)

lemma peek_Cons_numeral [simp]: "peek (c # s) (numeral k) = peek s (numeral k - 1)"
  by (simp add: peek_def nth_Cons')

subsection \<open>Little-endian byte groups\<close>

definition le16 :: "u16 \<Rightarrow> byte list" where
  "le16 v = [ucast (v AND 0xFF), ucast (drop_bit 8 v AND 0xFF)]"

definition le32 :: "u32 \<Rightarrow> byte list" where
  "le32 v = [ucast (v AND 0xFF), ucast (drop_bit 8 v AND 0xFF),
             ucast (drop_bit 16 v AND 0xFF), ucast (drop_bit 24 v AND 0xFF)]"

definition of_le16 :: "byte \<Rightarrow> byte \<Rightarrow> u16" where
  "of_le16 lo hi = ucast lo OR push_bit 8 (ucast hi)"

definition of_le32 :: "byte \<Rightarrow> byte \<Rightarrow> byte \<Rightarrow> byte \<Rightarrow> u32" where
  "of_le32 b0 b1 b2 b3 =
     ucast b0 OR push_bit 8 (ucast b1) OR push_bit 16 (ucast b2) OR push_bit 24 (ucast b3)"

lemma length_le16 [simp]: "length (le16 v) = 2"
  by (simp add: le16_def)

lemma length_le32 [simp]: "length (le32 v) = 4"
  by (simp add: le32_def)

lemma and_255: "(x :: 'a::len word) AND 255 = take_bit 8 x"
  by (simp add: take_bit_eq_mask mask_numeral)

lemma of_le16_le16 [simp]:
  "of_le16 (ucast (v AND 0xFF)) (ucast (drop_bit 8 v AND 0xFF)) = v"
  unfolding of_le16_def and_255
  by (rule bit_word_eqI) (auto simp: bit_simps)

lemma of_le32_le32 [simp]:
  "of_le32 (ucast (v AND 0xFF)) (ucast (drop_bit 8 v AND 0xFF))
     (ucast (drop_bit 16 v AND 0xFF)) (ucast (drop_bit 24 v AND 0xFF)) = v"
proof (rule bit_word_eqI)
  fix n
  assume "n < LENGTH(32)"
  moreover have "n \<ge> 24 \<Longrightarrow> 24 + (n - 24) = n" "n \<ge> 16 \<Longrightarrow> 16 + (n - 16) = n"
    "n \<ge> 8 \<Longrightarrow> 8 + (n - 8) = n"
    by simp_all
  ultimately show "bit (of_le32 (ucast (v AND 0xFF)) (ucast (drop_bit 8 v AND 0xFF))
     (ucast (drop_bit 16 v AND 0xFF)) (ucast (drop_bit 24 v AND 0xFF))) n = bit v n"
    unfolding of_le32_def and_255
    by (cases "n < 8"; cases "n < 16"; cases "n < 24") (auto simp: bit_simps)
qed

subsection \<open>Folding an operation that may fail\<close>

fun foldM :: "('b \<Rightarrow> 'a \<Rightarrow> 'b option) \<Rightarrow> 'b \<Rightarrow> 'a list \<Rightarrow> 'b option" where
  "foldM f b [] = Some b"
| "foldM f b (x # xs) = (case f b x of None \<Rightarrow> None | Some b' \<Rightarrow> foldM f b' xs)"

lemma foldM_append: "foldM f b (xs @ ys) = Option.bind (foldM f b xs) (\<lambda>b'. foldM f b' ys)"
  by (induction xs arbitrary: b) (auto split: option.splits)

text \<open>Whatever a computation returns satisfies \<open>Q\<close>.\<close>

definition sat :: "'a option \<Rightarrow> ('a \<Rightarrow> bool) \<Rightarrow> bool" where
  "sat m Q \<longleftrightarrow> (\<forall>r. m = Some r \<longrightarrow> Q r)"

lemma sat_None [simp]: "sat None Q"
  by (simp add: sat_def)

lemma sat_Some: "Q r \<Longrightarrow> sat (Some r) Q"
  by (simp add: sat_def)

lemma sat_bind: "sat m P \<Longrightarrow> (\<And>r. P r \<Longrightarrow> sat (k r) Q) \<Longrightarrow> sat (Option.bind m k) Q"
  unfolding sat_def by (metis bind_eq_Some_conv)

lemma sat_weaken: "sat m P \<Longrightarrow> (\<And>r. P r \<Longrightarrow> Q r) \<Longrightarrow> sat m Q"
  by (simp add: sat_def)

end
