(* ===== verification/Hashtable.thy ===== *)
theory Hashtable
  imports Prelude
begin

text \<open>
  \<^verbatim>\<open>src/foundation/hashtable.c\<close>: open addressing with linear probing, FNV-1a hashes kept beside
  the keys, growth by doubling at a load of 3/4, and deletion by backward shift. The entry array
  is a list of slots; a slot whose \<^verbatim>\<open>key\<close> is NULL is \<open>None\<close>. The probe loops \<^verbatim>\<open>for (;;)\<close> get the
  capacity as fuel: after that many steps a probe is back where it started, so running out of fuel
  is the loop of the code that never ends, and \<open>ht_find_total\<close> shows that it does not happen
  in a table that satisfies \<open>ht_inv\<close>, which every operation keeps.
\<close>

subsection \<open>The code\<close>

record 'v ht_entry =
  ht_key :: string
  ht_value :: 'v
  ht_hash :: u32

record 'v hashtable =
  ht_entries :: "'v ht_entry option list"
  ht_cnt :: nat

abbreviation ht_capacity :: "'v hashtable \<Rightarrow> nat" where
  "ht_capacity ht \<equiv> length (ht_entries ht)"

definition fnv_step :: "u32 \<Rightarrow> char \<Rightarrow> u32" where
  "fnv_step hash c = (hash XOR ucast (byte_of_char c)) * 16777619"

definition ht_fnv1a :: "string \<Rightarrow> u32" where
  "ht_fnv1a key = foldl fnv_step 2166136261 key"

definition HT_INITIAL_CAP :: nat where
  "HT_INITIAL_CAP = 16"

definition ht_init :: "'v hashtable" where
  "ht_init = \<lparr>ht_entries = replicate HT_INITIAL_CAP None, ht_cnt = 0\<rparr>"

text \<open>For evaluation: the empty table as a function, so that its type of values stays open.\<close>

definition ht_fresh :: "unit \<Rightarrow> 'v hashtable" where
  "ht_fresh u = \<lparr>ht_entries = replicate HT_INITIAL_CAP None, ht_cnt = 0\<rparr>"

lemma ht_init_fresh [code_unfold]: "ht_init = ht_fresh ()"
  by (simp add: ht_init_def ht_fresh_def)

definition ht_count :: "'v hashtable \<Rightarrow> nat" where
  "ht_count ht = ht_cnt ht"

text \<open>\<^verbatim>\<open>hash & mask\<close> and \<^verbatim>\<open>(idx + 1) & mask\<close> with \<^verbatim>\<open>mask = capacity - 1\<close>.\<close>

definition home_slot :: "nat \<Rightarrow> u32 \<Rightarrow> nat" where
  "home_slot cap hash = unat hash AND (cap - 1)"

definition next_slot :: "nat \<Rightarrow> nat \<Rightarrow> nat" where
  "next_slot cap idx = (idx + 1) AND (cap - 1)"

text \<open>The probe loop of \<^verbatim>\<open>ht_set\<close>, \<^verbatim>\<open>ht_get\<close> and \<^verbatim>\<open>ht_remove\<close>: the first slot that is free or holds
  the key.\<close>

fun ht_find :: "nat \<Rightarrow> 'v ht_entry option list \<Rightarrow> u32 \<Rightarrow> string \<Rightarrow> nat \<Rightarrow> nat option" where
  "ht_find 0 es hash key idx = None"
| "ht_find (Suc n) es hash key idx =
     (case es ! idx of
        None \<Rightarrow> Some idx
      | Some e \<Rightarrow>
          if ht_hash e = hash \<and> ht_key e = key then Some idx
          else ht_find n es hash key (next_slot (length es) idx))"

definition ht_locate :: "'v hashtable \<Rightarrow> string \<Rightarrow> nat option" where
  "ht_locate ht key =
     ht_find (ht_capacity ht) (ht_entries ht) (ht_fnv1a key) key
       (home_slot (ht_capacity ht) (ht_fnv1a key))"

definition ht_get :: "'v hashtable \<Rightarrow> string \<Rightarrow> 'v option" where
  "ht_get ht key =
     (case ht_locate ht key of
        None \<Rightarrow> None
      | Some idx \<Rightarrow> map_option ht_value (ht_entries ht ! idx))"

text \<open>\<^verbatim>\<open>ht_set\<close> after its load check: the new table and the previous value.\<close>

definition ht_insert :: "'v hashtable \<Rightarrow> string \<Rightarrow> 'v \<Rightarrow> 'v hashtable \<times> 'v option" where
  "ht_insert ht key v =
     (case ht_locate ht key of
        None \<Rightarrow> (ht, None)
      | Some idx \<Rightarrow>
          (case ht_entries ht ! idx of
             None \<Rightarrow>
               (\<lparr>ht_entries = (ht_entries ht)
                    [idx := Some \<lparr>ht_key = key, ht_value = v, ht_hash = ht_fnv1a key\<rparr>],
                 ht_cnt = ht_cnt ht + 1\<rparr>, None)
           | Some e \<Rightarrow>
               (ht\<lparr>ht_entries := (ht_entries ht)[idx := Some (e\<lparr>ht_value := v\<rparr>)]\<rparr>,
                Some (ht_value e))))"

text \<open>\<^verbatim>\<open>ht_resize\<close> inserts every entry of the old array, in slot order, by the \<^verbatim>\<open>ht_set\<close> it is given.\<close>

definition ht_resize ::
  "('v hashtable \<Rightarrow> string \<Rightarrow> 'v \<Rightarrow> 'v hashtable \<times> 'v option) \<Rightarrow> 'v hashtable \<Rightarrow> 'v hashtable" where
  "ht_resize setter ht =
     foldl (\<lambda>t slot. case slot of None \<Rightarrow> t | Some e \<Rightarrow> fst (setter t (ht_key e) (ht_value e)))
       \<lparr>ht_entries = replicate (ht_capacity ht * 2) None, ht_cnt = 0\<rparr> (ht_entries ht)"

text \<open>\<^verbatim>\<open>ht_set\<close> and \<^verbatim>\<open>ht_resize\<close> call each other; the first argument bounds the nesting.\<close>

fun ht_set_n :: "nat \<Rightarrow> 'v hashtable \<Rightarrow> string \<Rightarrow> 'v \<Rightarrow> 'v hashtable \<times> 'v option" where
  "ht_set_n 0 ht key v = ht_insert ht key v"
| "ht_set_n (Suc n) ht key v =
     ht_insert (if ht_cnt ht * 4 \<ge> ht_capacity ht * 3 then ht_resize (ht_set_n n) ht else ht) key v"

definition ht_set :: "'v hashtable \<Rightarrow> string \<Rightarrow> 'v \<Rightarrow> 'v hashtable \<times> 'v option" where
  "ht_set = ht_set_n 2"

text \<open>The backward shift: \<open>idx\<close> is the hole, \<open>scan\<close> the slot looked at.\<close>

fun ht_shift :: "nat \<Rightarrow> 'v ht_entry option list \<Rightarrow> nat \<Rightarrow> nat \<Rightarrow> 'v ht_entry option list \<times> nat" where
  "ht_shift 0 es idx scan = (es, idx)"
| "ht_shift (Suc n) es idx scan =
     (case es ! scan of
        None \<Rightarrow> (es, idx)
      | Some ne \<Rightarrow>
          (let natural = home_slot (length es) (ht_hash ne);
               shift = (if scan > idx then natural \<le> idx \<or> natural > scan
                        else natural > scan \<and> natural \<le> idx)
           in if shift then ht_shift n (es[idx := Some ne]) scan (next_slot (length es) scan)
              else ht_shift n es idx (next_slot (length es) scan)))"

definition ht_remove :: "'v hashtable \<Rightarrow> string \<Rightarrow> 'v hashtable \<times> 'v option" where
  "ht_remove ht key =
     (case ht_locate ht key of
        None \<Rightarrow> (ht, None)
      | Some idx \<Rightarrow>
          (case ht_entries ht ! idx of
             None \<Rightarrow> (ht, None)
           | Some e \<Rightarrow>
               (let (es, hole) = ht_shift (ht_capacity ht) (ht_entries ht) idx
                                   (next_slot (ht_capacity ht) idx)
                in (\<lparr>ht_entries = es[hole := None], ht_cnt = ht_cnt ht - 1\<rparr>,
                    Some (ht_value e)))))"

text \<open>Writing through the pointer a lookup returned: the entry's value changes in place.\<close>

definition ht_modify :: "('v \<Rightarrow> 'v) \<Rightarrow> 'v hashtable \<Rightarrow> string \<Rightarrow> 'v hashtable" where
  "ht_modify f ht key =
     (case ht_locate ht key of
        None \<Rightarrow> ht
      | Some idx \<Rightarrow>
          ht\<lparr>ht_entries := (ht_entries ht)
               [idx := map_option (\<lambda>e. e\<lparr>ht_value := f (ht_value e)\<rparr>) (ht_entries ht ! idx)]\<rparr>)"

text \<open>\<^verbatim>\<open>ht_foreach\<close>: the callback sees the entries in slot order and may stop the walk.\<close>

fun ht_foreach_slots ::
  "(string \<Rightarrow> 'v \<Rightarrow> 'c \<Rightarrow> bool \<times> 'c) \<Rightarrow> 'v ht_entry option list \<Rightarrow> 'c \<Rightarrow> 'c" where
  "ht_foreach_slots fn [] ctx = ctx"
| "ht_foreach_slots fn (None # es) ctx = ht_foreach_slots fn es ctx"
| "ht_foreach_slots fn (Some e # es) ctx =
     (let (stop, ctx') = fn (ht_key e) (ht_value e) ctx
      in if stop then ctx' else ht_foreach_slots fn es ctx')"

definition ht_foreach ::
  "'v hashtable \<Rightarrow> (string \<Rightarrow> 'v \<Rightarrow> 'c \<Rightarrow> bool \<times> 'c) \<Rightarrow> 'c \<Rightarrow> 'c" where
  "ht_foreach ht fn ctx = ht_foreach_slots fn (ht_entries ht) ctx"

subsection \<open>Cyclic slot arithmetic\<close>

definition pow2 :: "nat \<Rightarrow> bool" where
  "pow2 n \<longleftrightarrow> (\<exists>k. n = 2 ^ k)"

lemma and_pow2: "pow2 n \<Longrightarrow> x AND (n - 1) = x mod n"
  unfolding pow2_def
  using take_bit_eq_mask [where 'a = nat] mask_eq_exp_minus_1 [where 'a = nat]
    take_bit_eq_mod [where 'a = nat]
  by metis

lemma pow2_pos: "pow2 n \<Longrightarrow> 0 < n"
  by (auto simp: pow2_def)

lemma pow2_double: "pow2 n \<Longrightarrow> pow2 (n * 2)"
  unfolding pow2_def by (metis power_Suc2)

lemma next_slot_eq:
  assumes "pow2 cap" "idx < cap"
  shows "next_slot cap idx = (if Suc idx = cap then 0 else Suc idx)"
proof -
  have "next_slot cap idx = (idx + 1) mod cap"
    using assms(1) by (simp only: next_slot_def and_pow2)
  then show ?thesis
    using assms(2) by auto
qed

lemma next_slot_less: "pow2 cap \<Longrightarrow> idx < cap \<Longrightarrow> next_slot cap idx < cap"
  by (simp add: next_slot_eq)

lemma home_slot_less: "pow2 cap \<Longrightarrow> home_slot cap h < cap"
  by (simp only: home_slot_def and_pow2) (simp add: pow2_pos)

text \<open>\<open>arc n i j\<close>: walking forward from \<open>n\<close>, slot \<open>j\<close> comes before \<open>i\<close>.\<close>

definition arc :: "nat \<Rightarrow> nat \<Rightarrow> nat \<Rightarrow> bool" where
  "arc n i j = (if n \<le> i then n \<le> j \<and> j < i else n \<le> j \<or> j < i)"

text \<open>Steps from \<open>i\<close> forward to \<open>j\<close> in a ring of \<open>cap\<close> slots.\<close>

definition steps_to :: "nat \<Rightarrow> nat \<Rightarrow> nat \<Rightarrow> nat" where
  "steps_to cap i j = (if i \<le> j then j - i else j + cap - i)"

lemma steps_to_next:
  assumes "pow2 cap" "i < cap" "j < cap" "i \<noteq> j"
  shows "Suc (steps_to cap (next_slot cap i) j) = steps_to cap i j"
  using assms(2-) by (auto simp: steps_to_def next_slot_eq [OF assms(1,2)])

lemma steps_to_less: "i < cap \<Longrightarrow> j < cap \<Longrightarrow> steps_to cap i j < cap"
  by (auto simp: steps_to_def)

lemma steps_to_self [simp]: "steps_to cap i i = 0"
  by (simp add: steps_to_def)

lemma arc_self [simp]: "\<not> arc i i j"
  by (simp add: arc_def)

lemma arc_iff_steps:
  assumes "i < cap" "j < cap" "t < cap"
  shows "arc i t j \<longleftrightarrow> steps_to cap i j < steps_to cap i t"
  using assms by (auto simp: arc_def steps_to_def)

lemma arc_next:
  assumes "pow2 cap" "i < cap" "t < cap" "i \<noteq> t" "j < cap"
  shows "arc (next_slot cap i) t j \<longleftrightarrow> arc i t j \<and> j \<noteq> i"
  using assms(2-) by (auto simp: arc_def next_slot_eq [OF assms(1,2)])

lemma arc_extend:
  assumes "pow2 cap" "i < cap" "s < cap" "j < cap" "next_slot cap s \<noteq> i"
  shows "arc i (next_slot cap s) j \<longleftrightarrow> arc i s j \<or> j = s"
  using assms(2-) by (auto simp: arc_def next_slot_eq [OF assms(1,3)] split: if_splits)

lemma arc_prefix:
  assumes "arc n s i" "arc n i j"
  shows "arc n s j"
  using assms by (auto simp: arc_def split: if_splits)

text \<open>The test of the backward shift, in terms of \<open>arc\<close>: the hole lies on the entry's probe path.\<close>

lemma shift_test:
  assumes "scan \<noteq> idx"
  shows "(if scan > idx then natural \<le> idx \<or> natural > scan else natural > scan \<and> natural \<le> idx)
         \<longleftrightarrow> arc natural scan idx"
  using assms by (auto simp: arc_def)

text \<open>An entry beyond the scan position whose path crosses the hole crosses the scan position too.\<close>

lemma arc_beyond:
  assumes "i < cap" "h < cap" "s < cap" "n < cap" "s \<noteq> h" "i \<noteq> h" "i \<noteq> s"
    and "\<not> (steps_to cap h i < steps_to cap h s)" "arc n i h"
  shows "arc n i s"
  using assms by (auto simp: arc_def steps_to_def split: if_splits)

lemma steps_region:
  assumes "pow2 cap" "h < cap" "s < cap" "i < cap" "s \<noteq> h" "i \<noteq> h"
  shows "arc (next_slot cap h) s i \<longleftrightarrow> steps_to cap h i < steps_to cap h s"
  using assms(2-) by (auto simp: arc_def steps_to_def next_slot_eq [OF assms(1,2)])

subsection \<open>The table invariant and the map it stands for\<close>

definition ents :: "'v ht_entry option list \<Rightarrow> 'v ht_entry set" where
  "ents es = {e. Some e \<in> set es}"

definition keys_ok :: "'v ht_entry option list \<Rightarrow> bool" where
  "keys_ok es \<longleftrightarrow>
     (\<forall>e \<in> ents es. ht_hash e = ht_fnv1a (ht_key e)) \<and>
     (\<forall>i < length es. \<forall>j < length es. \<forall>e e'.
        es ! i = Some e \<longrightarrow> es ! j = Some e' \<longrightarrow> ht_key e = ht_key e' \<longrightarrow> i = j)"

definition home :: "'v ht_entry option list \<Rightarrow> 'v ht_entry \<Rightarrow> nat" where
  "home es e = home_slot (length es) (ht_hash e)"

text \<open>Every entry is reached from its home slot without crossing a free slot, \<open>hole\<close> excepted.\<close>

definition chained :: "'v ht_entry option list \<Rightarrow> nat \<Rightarrow> bool" where
  "chained es hole \<longleftrightarrow>
     (\<forall>i < length es. \<forall>e. es ! i = Some e \<longrightarrow> i \<noteq> hole \<longrightarrow>
        (\<forall>j < length es. arc (home es e) i j \<longrightarrow> j \<noteq> hole \<longrightarrow> es ! j \<noteq> None))"

definition occupied :: "'v ht_entry option list \<Rightarrow> nat set" where
  "occupied es = {i. i < length es \<and> es ! i \<noteq> None}"

definition slots_ok :: "'v ht_entry option list \<Rightarrow> bool" where
  "slots_ok es \<longleftrightarrow> pow2 (length es) \<and> HT_INITIAL_CAP \<le> length es \<and> keys_ok es \<and>
     chained es (length es) \<and> card (occupied es) < length es"

definition ht_inv :: "'v hashtable \<Rightarrow> bool" where
  "ht_inv ht \<longleftrightarrow> slots_ok (ht_entries ht) \<and> ht_cnt ht = card (occupied (ht_entries ht)) \<and>
     ht_cnt ht * 4 \<le> ht_capacity ht * 3"

definition slots_map :: "'v ht_entry option list \<Rightarrow> string \<rightharpoonup> 'v" where
  "slots_map es = map_of (map (\<lambda>e. (ht_key e, ht_value e)) (List.map_filter (\<lambda>x. x) es))"

definition ht_map :: "'v hashtable \<Rightarrow> string \<rightharpoonup> 'v" where
  "ht_map ht = slots_map (ht_entries ht)"

lemma ents_iff_nth: "e \<in> ents es \<longleftrightarrow> (\<exists>i < length es. es ! i = Some e)"
  by (auto simp: ents_def in_set_conv_nth)

lemma finite_occupied [simp]: "finite (occupied es)"
  by (simp add: occupied_def)

lemma keys_ok_unique:
  "keys_ok es \<Longrightarrow> e \<in> ents es \<Longrightarrow> e' \<in> ents es \<Longrightarrow> ht_key e = ht_key e' \<Longrightarrow> e = e'"
  by (metis ents_iff_nth keys_ok_def option.inject)

lemma keys_ok_index:
  "keys_ok es \<Longrightarrow> i < length es \<Longrightarrow> j < length es \<Longrightarrow> es ! i = Some e \<Longrightarrow> es ! j = Some e' \<Longrightarrow>
   ht_key e = ht_key e' \<Longrightarrow> i = j"
  by (simp add: keys_ok_def)

lemma keys_ok_hash: "keys_ok es \<Longrightarrow> e \<in> ents es \<Longrightarrow> ht_hash e = ht_fnv1a (ht_key e)"
  by (simp add: keys_ok_def)

lemma set_map_filter_id: "set (List.map_filter (\<lambda>x. x) es) = ents es"
  by (induction es) (auto simp: ents_def List.map_filter_def)

lemma slots_map_iff:
  assumes "keys_ok es"
  shows "slots_map es k = Some v \<longleftrightarrow> (\<exists>e \<in> ents es. ht_key e = k \<and> ht_value e = v)"
proof
  assume "slots_map es k = Some v"
  from map_of_SomeD [OF this [unfolded slots_map_def]]
  show "\<exists>e \<in> ents es. ht_key e = k \<and> ht_value e = v"
    by (auto simp: set_map_filter_id)
next
  assume "\<exists>e \<in> ents es. ht_key e = k \<and> ht_value e = v"
  then obtain e where e: "e \<in> ents es" "ht_key e = k" "ht_value e = v" by blast
  then have "(k, v) \<in> set (map (\<lambda>e. (ht_key e, ht_value e)) (List.map_filter (\<lambda>x. x) es))"
    by (force simp: set_map_filter_id)
  then obtain v' where v': "slots_map es k = Some v'"
    by (metis map_of_eq_None_iff not_None_eq image_eqI fst_conv slots_map_def)
  from map_of_SomeD [OF this [unfolded slots_map_def]]
  obtain e' where "e' \<in> ents es" "ht_key e' = k" "ht_value e' = v'"
    by (auto simp: set_map_filter_id)
  with e v' show "slots_map es k = Some v"
    using keys_ok_unique [OF assms, of e e'] by simp
qed

lemma slots_map_None_iff:
  assumes "keys_ok es"
  shows "slots_map es k = None \<longleftrightarrow> (\<forall>e \<in> ents es. ht_key e \<noteq> k)"
  using slots_map_iff [OF assms] by (metis option.exhaust option.distinct(1))

lemma slots_map_eqI:
  assumes "keys_ok es"
    and "\<And>v. (\<exists>e \<in> ents es. ht_key e = k \<and> ht_value e = v) \<longleftrightarrow> x = Some v"
  shows "slots_map es k = x"
proof (cases x)
  case None
  then show ?thesis
    using assms(2) by (simp add: slots_map_None_iff [OF assms(1)]) blast
next
  case (Some v)
  then show ?thesis
    using assms(2) [of v] by (simp add: slots_map_iff [OF assms(1)])
qed

lemma slots_ok_free:
  assumes "slots_ok es"
  obtains t where "t < length es" "es ! t = None"
proof -
  have "card (occupied es) < card {..<length es}"
    using assms by (simp add: slots_ok_def)
  then obtain t where "t \<in> {..<length es}" "t \<notin> occupied es"
    by (metis card_mono finite_occupied not_le subsetI)
  then show ?thesis
    using that by (simp add: occupied_def)
qed

subsection \<open>The probe loop\<close>

definition stops :: "'v ht_entry option list \<Rightarrow> string \<Rightarrow> nat \<Rightarrow> bool" where
  "stops es key i \<longleftrightarrow>
     (case es ! i of None \<Rightarrow> True | Some e \<Rightarrow> ht_hash e = ht_fnv1a key \<and> ht_key e = key)"

lemma ht_find_reaches:
  assumes "pow2 (length es)" "t < length es" "stops es key t"
  shows "i < length es \<Longrightarrow> (\<forall>j < length es. arc i t j \<longrightarrow> \<not> stops es key j) \<Longrightarrow>
         steps_to (length es) i t < n \<Longrightarrow> ht_find n es (ht_fnv1a key) key i = Some t"
proof (induction n arbitrary: i)
  case 0
  then show ?case by simp
next
  case (Suc n)
  show ?case
  proof (cases "i = t")
    case True
    with assms(3) show ?thesis by (auto simp: stops_def split: option.splits)
  next
    case False
    let ?i = "next_slot (length es) i"
    have "arc i t i"
      using False by (auto simp: arc_def)
    with Suc.prems have "\<not> stops es key i" by blast
    moreover have "ht_find n es (ht_fnv1a key) key ?i = Some t"
    proof (rule Suc.IH)
      show "?i < length es"
        using assms(1) Suc.prems(1) by (rule next_slot_less)
      show "\<forall>j < length es. arc ?i t j \<longrightarrow> \<not> stops es key j"
        using Suc.prems(1,2) assms(2) False by (simp add: arc_next [OF assms(1)])
      show "steps_to (length es) ?i t < n"
        using steps_to_next [OF assms(1) Suc.prems(1) assms(2) False] Suc.prems(3) by simp
    qed
    ultimately show ?thesis
      by (auto simp: stops_def split: option.splits)
  qed
qed

lemma ht_find_total:
  assumes "pow2 (length es)" "t < length es" "stops es key t" "i < length es"
  obtains s where "ht_find (length es) es (ht_fnv1a key) key i = Some s" "s < length es"
    "stops es key s" "\<forall>j < length es. arc i s j \<longrightarrow> \<not> stops es key j"
proof -
  let ?P = "\<lambda>s. s < length es \<and> stops es key s"
  define s where "s = (ARG_MIN (steps_to (length es) i) s. ?P s)"
  have s: "?P s" and min: "\<And>j. ?P j \<Longrightarrow> steps_to (length es) i s \<le> steps_to (length es) i j"
    using arg_min_nat_lemma [of ?P t "steps_to (length es) i"] assms by (auto simp: s_def)
  have arc: "\<forall>j < length es. arc i s j \<longrightarrow> \<not> stops es key j"
    using min s assms(4) by (auto simp: arc_iff_steps not_less[symmetric])
  have "ht_find (length es) es (ht_fnv1a key) key i = Some s"
    using ht_find_reaches [OF assms(1) _ _ assms(4) arc] s assms(4)
    by (simp add: steps_to_less)
  with s arc show ?thesis using that by blast
qed

text \<open>What a probe finds: the key's slot, or the free slot that ends its probe path.\<close>

lemma locate_cases:
  assumes "slots_ok (ht_entries ht)"
  obtains (found) i e where "ht_locate ht key = Some i" "i < ht_capacity ht"
      "ht_entries ht ! i = Some e" "ht_key e = key" "ht_hash e = ht_fnv1a key"
  | (free) i where "ht_locate ht key = Some i" "i < ht_capacity ht" "ht_entries ht ! i = None"
      "\<forall>e \<in> ents (ht_entries ht). ht_key e \<noteq> key"
      "\<forall>j < ht_capacity ht. arc (home_slot (ht_capacity ht) (ht_fnv1a key)) i j \<longrightarrow>
         ht_entries ht ! j \<noteq> None"
proof -
  let ?es = "ht_entries ht" and ?h = "home_slot (ht_capacity ht) (ht_fnv1a key)"
  have p: "pow2 (length ?es)" and ch: "chained ?es (length ?es)" and kk: "keys_ok ?es"
    using assms by (simp_all add: slots_ok_def)
  obtain t where t: "t < length ?es" "?es ! t = None"
    using slots_ok_free [OF assms] .
  obtain i where i: "ht_locate ht key = Some i" "i < length ?es" "stops ?es key i"
      "\<forall>j < length ?es. arc ?h i j \<longrightarrow> \<not> stops ?es key j"
    using ht_find_total [OF p t(1), of key ?h] t(2) home_slot_less [OF p]
    by (auto simp: stops_def ht_locate_def)
  show ?thesis
  proof (cases "?es ! i")
    case (Some e)
    with i show ?thesis by (intro found) (auto simp: stops_def)
  next
    case None
    have occ: "\<forall>j < length ?es. arc ?h i j \<longrightarrow> ?es ! j \<noteq> None"
      using i(4) by (fastforce simp: stops_def split: option.splits)
    have "ht_key e \<noteq> key" if e: "e \<in> ents ?es" for e
    proof
      assume k: "ht_key e = key"
      obtain j where j: "j < length ?es" "?es ! j = Some e"
        using e by (auto simp: ents_iff_nth)
      have h: "ht_hash e = ht_fnv1a key"
        using keys_ok_hash [OF kk e] k by simp
      then have "stops ?es key j"
        using j k by (simp add: stops_def)
      with i(4) j(1) have "\<not> arc ?h i j" by blast
      then have "arc ?h j i \<or> i = j"
        using i(2) j(1) by (auto simp: arc_def split: if_splits)
      moreover have "arc ?h j i \<Longrightarrow> ?es ! i \<noteq> None"
        using ch i(2) j h by (simp add: chained_def home_def)
      ultimately show False
        using None j(2) by auto
    qed
    with i None occ show ?thesis by (intro free) auto
  qed
qed

lemma ht_get_eq_map:
  assumes "ht_inv ht"
  shows "ht_get ht key = ht_map ht key"
proof -
  have ok: "slots_ok (ht_entries ht)"
    using assms by (simp add: ht_inv_def)
  then have kk: "keys_ok (ht_entries ht)"
    by (simp add: slots_ok_def)
  show ?thesis
  proof (cases rule: locate_cases [OF ok, where key = key, case_names found free])
    case (found i e)
    then have "e \<in> ents (ht_entries ht)"
      by (auto simp: ents_iff_nth)
    with found have "ht_map ht key = Some (ht_value e)"
      by (auto simp: ht_map_def slots_map_iff [OF kk])
    with found show ?thesis
      by (simp add: ht_get_def)
  next
    case (free i)
    then have "ht_map ht key = None"
      by (simp add: ht_map_def slots_map_None_iff [OF kk])
    with free show ?thesis
      by (simp add: ht_get_def)
  qed
qed

subsection \<open>Insertion\<close>

lemma ents_update_free:
  "i < length es \<Longrightarrow> es ! i = None \<Longrightarrow> ents (es[i := Some e]) = insert e (ents es)"
  by (auto simp: ents_iff_nth nth_list_update split: if_splits) (metis option.distinct(1))

text \<open>Replacing the entry of a slot whose content stands nowhere else.\<close>

lemma ents_update_unique:
  assumes "i < length es" "es ! i = Some e"
    and uniq: "\<And>j. j < length es \<Longrightarrow> es ! j = Some e \<Longrightarrow> j = i"
  shows "ents (es[i := Some e']) = insert e' (ents es - {e})"
    and "ents (es[i := None]) = ents es - {e}"
proof -
  have A: "(\<exists>j < length es. j \<noteq> i \<and> es ! j = Some x) \<longleftrightarrow> x \<in> ents es \<and> x \<noteq> e" for x
    unfolding ents_iff_nth using assms by (metis option.inject)
  have B: "x \<in> ents (es[i := y]) \<longleftrightarrow> y = Some x \<or> x \<in> ents es \<and> x \<noteq> e" for x y
    unfolding A [symmetric] unfolding ents_iff_nth length_list_update using assms(1)
    by (metis nth_list_update_eq nth_list_update_neq)
  show "ents (es[i := Some e']) = insert e' (ents es - {e})" "ents (es[i := None]) = ents es - {e}"
    by (auto simp: B)
qed

lemma keys_ok_once:
  "keys_ok es \<Longrightarrow> i < length es \<Longrightarrow> es ! i = Some e \<Longrightarrow> j < length es \<Longrightarrow> es ! j = Some e \<Longrightarrow> j = i"
  using keys_ok_index by metis

lemma occupied_update_Some:
  "i < length es \<Longrightarrow> occupied (es[i := Some e]) = insert i (occupied es)"
  by (auto simp: occupied_def nth_list_update split: if_splits)

lemma slots_ok_update_value:
  assumes "slots_ok es" "i < length es" "es ! i = Some e"
    and "ht_key e' = ht_key e" "ht_hash e' = ht_hash e"
  shows "slots_ok (es[i := Some e'])"
    and "occupied (es[i := Some e']) = occupied es"
    and "slots_map (es[i := Some e']) = (slots_map es)(ht_key e \<mapsto> ht_value e')"
proof -
  let ?es = "es[i := Some e']"
  have ee: "ents ?es = insert e' (ents es - {e})"
    using ents_update_unique(1) [OF assms(2,3) keys_ok_once [OF _ assms(2,3)]] assms(1)
    by (simp add: slots_ok_def)
  have e: "e \<in> ents es"
    using assms(2,3) by (auto simp: ents_iff_nth)
  show occ: "occupied ?es = occupied es"
    using assms(2,3) by (simp add: occupied_update_Some) (auto simp: occupied_def)
  have kk: "keys_ok es"
    using assms(1) by (simp add: slots_ok_def)
  have kk': "keys_ok ?es"
    unfolding keys_ok_def
  proof (intro conjI)
    show "\<forall>e \<in> ents ?es. ht_hash e = ht_fnv1a (ht_key e)"
      using kk e assms(4,5) by (auto simp: ee keys_ok_def)
    show "\<forall>i < length ?es. \<forall>j < length ?es. \<forall>e e'. ?es ! i = Some e \<longrightarrow> ?es ! j = Some e' \<longrightarrow>
            ht_key e = ht_key e' \<longrightarrow> i = j"
      using assms(2,3,4) by (auto simp: nth_list_update intro: keys_ok_index [OF kk])
  qed
  moreover have "chained ?es (length ?es)"
    using assms by (auto simp: slots_ok_def chained_def home_def nth_list_update)
  ultimately show "slots_ok ?es"
    using assms(1) occ by (simp add: slots_ok_def)
  show "slots_map ?es = (slots_map es)(ht_key e \<mapsto> ht_value e')"
  proof
    fix k
    show "slots_map ?es k = ((slots_map es)(ht_key e \<mapsto> ht_value e')) k"
    proof (rule slots_map_eqI [OF kk'])
      fix v
      have "ht_key x = ht_key e \<Longrightarrow> x = e" if "x \<in> ents es" for x
        using keys_ok_unique [OF kk that e] by simp
      then show "(\<exists>x \<in> ents ?es. ht_key x = k \<and> ht_value x = v) \<longleftrightarrow>
            ((slots_map es)(ht_key e \<mapsto> ht_value e')) k = Some v"
        using e assms(4) by (auto simp: ee slots_map_iff [OF kk])
    qed
  qed
qed

lemma slots_ok_update_free:
  assumes ok: "slots_ok es" and i: "i < length es" "es ! i = None"
    and new: "\<forall>x \<in> ents es. ht_key x \<noteq> ht_key e" "ht_hash e = ht_fnv1a (ht_key e)"
    and path: "\<forall>j < length es. arc (home es e) i j \<longrightarrow> es ! j \<noteq> None"
    and room: "Suc (card (occupied es)) < length es"
  shows "slots_ok (es[i := Some e])"
    and "card (occupied (es[i := Some e])) = Suc (card (occupied es))"
    and "slots_map (es[i := Some e]) = (slots_map es)(ht_key e \<mapsto> ht_value e)"
proof -
  let ?es = "es[i := Some e]"
  have kk: "keys_ok es"
    using ok by (simp add: slots_ok_def)
  have ee: "ents ?es = insert e (ents es)"
    using i by (rule ents_update_free)
  have kk': "keys_ok ?es"
    unfolding keys_ok_def
  proof (intro conjI)
    show "\<forall>x \<in> ents ?es. ht_hash x = ht_fnv1a (ht_key x)"
      using kk new(2) by (auto simp: ee keys_ok_def)
    show "\<forall>a < length ?es. \<forall>b < length ?es. \<forall>x y. ?es ! a = Some x \<longrightarrow> ?es ! b = Some y \<longrightarrow>
            ht_key x = ht_key y \<longrightarrow> a = b"
    proof (intro allI impI)
      fix a b x y
      assume *: "a < length ?es" "b < length ?es" "?es ! a = Some x" "?es ! b = Some y"
        "ht_key x = ht_key y"
      then have "a \<noteq> i \<Longrightarrow> x \<in> ents es" "b \<noteq> i \<Longrightarrow> y \<in> ents es"
        by (auto simp: ents_iff_nth nth_list_update)
      with * new(1) show "a = b"
        using keys_ok_index [OF kk, of a b] by (cases "a = i"; cases "b = i") auto
    qed
  qed
  show occ: "card (occupied ?es) = Suc (card (occupied es))"
    using i by (simp add: occupied_update_Some card_insert_if) (simp add: occupied_def)
  have "chained ?es (length ?es)"
    using ok i path
    by (auto simp: slots_ok_def chained_def home_def nth_list_update split: if_splits)
  then show "slots_ok ?es"
    using ok kk' occ room by (simp add: slots_ok_def)
  show "slots_map ?es = (slots_map es)(ht_key e \<mapsto> ht_value e)"
  proof
    fix k
    show "slots_map ?es k = ((slots_map es)(ht_key e \<mapsto> ht_value e)) k"
      by (rule slots_map_eqI [OF kk']) (use new(1) in \<open>auto simp: ee slots_map_iff [OF kk]\<close>)
  qed
qed

lemma ht_insert_correct:
  assumes ok: "slots_ok (ht_entries ht)" and cnt: "ht_cnt ht = card (occupied (ht_entries ht))"
    and load: "ht_cnt ht * 4 < ht_capacity ht * 3"
    and ins: "ht_insert ht key v = (ht', old)"
  shows "ht_inv ht'" "ht_map ht' = (ht_map ht)(key \<mapsto> v)" "old = ht_map ht key"
    "ht_capacity ht' = ht_capacity ht" "ht_cnt ht' \<le> Suc (ht_cnt ht)"
proof -
  let ?es = "ht_entries ht"
  have kk: "keys_ok ?es"
    using ok by (simp add: slots_ok_def)
  have le: "Suc (ht_cnt ht) * 4 \<le> ht_capacity ht * 3"
  proof -
    obtain k where "ht_capacity ht = 2 ^ k" "16 \<le> ht_capacity ht"
      using ok by (auto simp: slots_ok_def pow2_def HT_INITIAL_CAP_def)
    have "\<not> k < 2"
    proof
      assume "k < 2"
      then have "(2 :: nat) ^ k \<le> 2 ^ 1" by (intro power_increasing) auto
      with \<open>ht_capacity ht = 2 ^ k\<close> \<open>16 \<le> ht_capacity ht\<close> show False by simp
    qed
    then have "4 dvd ht_capacity ht"
      using \<open>ht_capacity ht = 2 ^ k\<close> le_imp_power_dvd [of 2 k "2 :: nat"] by simp
    with load show ?thesis by (auto elim!: dvdE)
  qed
  have "ht_inv ht' \<and> ht_map ht' = (ht_map ht)(key \<mapsto> v) \<and> old = ht_map ht key \<and>
        ht_capacity ht' = ht_capacity ht \<and> ht_cnt ht' \<le> Suc (ht_cnt ht)"
  proof (cases rule: locate_cases [OF ok, where key = key, case_names found free])
    case (found i e)
    have "e \<in> ents ?es"
      using found by (auto simp: ents_iff_nth)
    then have "ht_map ht key = Some (ht_value e)"
      using found by (auto simp: ht_map_def slots_map_iff [OF kk])
    moreover have "(ht', old) = (ht\<lparr>ht_entries := ?es[i := Some (e\<lparr>ht_value := v\<rparr>)]\<rparr>, Some (ht_value e))"
      using ins found by (simp add: ht_insert_def)
    ultimately show ?thesis
      using slots_ok_update_value [OF ok found(2,3), of "e\<lparr>ht_value := v\<rparr>"] found cnt load
      by (simp add: ht_inv_def ht_map_def)
  next
    case (free i)
    let ?e = "\<lparr>ht_key = key, ht_value = v, ht_hash = ht_fnv1a key\<rparr>"
    have "ht_map ht key = None"
      using free by (simp add: ht_map_def slots_map_None_iff [OF kk])
    moreover have "(ht', old) = (\<lparr>ht_entries = ?es[i := Some ?e], ht_cnt = ht_cnt ht + 1\<rparr>, None)"
      using ins free by (simp add: ht_insert_def)
    moreover have "Suc (card (occupied ?es)) < length ?es"
      using le cnt ok by (simp add: slots_ok_def HT_INITIAL_CAP_def)
    ultimately show ?thesis
      using slots_ok_update_free [OF ok free(2,3), of ?e] free cnt le
      by (simp add: ht_inv_def ht_map_def home_def)
  qed
  then show "ht_inv ht'" "ht_map ht' = (ht_map ht)(key \<mapsto> v)" "old = ht_map ht key"
    "ht_capacity ht' = ht_capacity ht" "ht_cnt ht' \<le> Suc (ht_cnt ht)"
    by blast+
qed

text \<open>An empty table of any power-of-two capacity from 16 on.\<close>

lemma empty_slots:
  assumes "pow2 n" "HT_INITIAL_CAP \<le> n"
  shows "ht_inv (\<lparr>ht_entries = replicate n None, ht_cnt = 0\<rparr> :: 'v hashtable)"
    and "ht_map (\<lparr>ht_entries = replicate n None, ht_cnt = 0\<rparr> :: 'v hashtable) = Map.empty"
proof -
  let ?es = "replicate n None :: 'v ht_entry option list"
  have e: "ents ?es = {}" "occupied ?es = {}"
    by (auto simp: ents_def occupied_def)
  have k: "keys_ok ?es"
    by (simp add: keys_ok_def e)
  show "ht_inv (\<lparr>ht_entries = ?es, ht_cnt = 0\<rparr> :: 'v hashtable)"
    using assms k by (simp add: ht_inv_def slots_ok_def chained_def e HT_INITIAL_CAP_def)
  show "ht_map (\<lparr>ht_entries = ?es, ht_cnt = 0\<rparr> :: 'v hashtable) = Map.empty"
    by (rule ext) (simp add: ht_map_def slots_map_None_iff [OF k] e)
qed

subsection \<open>Growth\<close>

definition upd_slot :: "(string \<rightharpoonup> 'v) \<Rightarrow> 'v ht_entry option \<Rightarrow> string \<rightharpoonup> 'v" where
  "upd_slot m slot = (case slot of None \<Rightarrow> m | Some e \<Rightarrow> m(ht_key e \<mapsto> ht_value e))"

lemma upd_slot_simps [simp]:
  "upd_slot m None = m"
  "upd_slot m (Some e) = m(ht_key e \<mapsto> ht_value e)"
  by (simp_all add: upd_slot_def)

lemma ents_simps [simp]:
  "ents [] = {}"
  "ents (None # es) = ents es"
  "ents (Some e # es) = insert e (ents es)"
  by (auto simp: ents_def)

lemma foldl_upd_slot:
  "(\<forall>e \<in> ents xs. ht_key e = k \<longrightarrow> ht_value e = v) \<Longrightarrow>
   foldl upd_slot m xs k = (if \<exists>e \<in> ents xs. ht_key e = k then Some v else m k)"
proof (induction xs arbitrary: m)
  case Nil
  then show ?case by simp
next
  case (Cons x xs)
  show ?case
  proof (cases x)
    case None
    with Cons show ?thesis by simp
  next
    case (Some e)
    with Cons show ?thesis
      by (cases "ht_key e = k") simp_all
  qed
qed

lemma foldl_upd_slot_keys_ok:
  assumes "keys_ok es"
  shows "foldl upd_slot Map.empty es = slots_map es"
proof
  fix k
  show "foldl upd_slot Map.empty es k = slots_map es k"
  proof (cases "slots_map es k")
    case None
    then have "\<forall>e \<in> ents es. ht_key e \<noteq> k"
      by (simp add: slots_map_None_iff [OF assms])
    then have "foldl upd_slot Map.empty es k = None"
      using foldl_upd_slot [of es k undefined Map.empty] by simp
    with None show ?thesis by simp
  next
    case (Some v)
    then obtain e where e: "e \<in> ents es" "ht_key e = k" "ht_value e = v"
      by (auto simp: slots_map_iff [OF assms])
    then have "\<forall>e \<in> ents es. ht_key e = k \<longrightarrow> ht_value e = v"
      using keys_ok_unique [OF assms] by metis
    then show ?thesis
      using foldl_upd_slot [of es k v Map.empty] e Some by auto
  qed
qed

lemma ht_resize_correct:
  assumes inv: "ht_inv ht"
    and setter: "\<And>t k v. ht_cnt t * 4 < ht_capacity t * 3 \<Longrightarrow> setter t k v = ht_insert t k v"
  shows "ht_inv (ht_resize setter ht)" "ht_map (ht_resize setter ht) = ht_map ht"
    "ht_capacity (ht_resize setter ht) = ht_capacity ht * 2"
    "ht_cnt (ht_resize setter ht) * 4 < ht_capacity (ht_resize setter ht) * 3"
    "ht_resize setter ht = ht_resize ht_insert ht"
proof -
  let ?cap = "ht_capacity ht * 2"
  let ?f = "\<lambda>t slot. case slot of None \<Rightarrow> t | Some e \<Rightarrow> fst (setter t (ht_key e) (ht_value e))"
  let ?g = "\<lambda>t slot. case slot of None \<Rightarrow> t | Some e \<Rightarrow> fst (ht_insert t (ht_key e) (ht_value e))"
  have cap: "pow2 ?cap" "HT_INITIAL_CAP \<le> ?cap"
    using inv by (auto simp: ht_inv_def slots_ok_def pow2_double)
  have pos: "0 < ht_capacity ht"
    using cap(2) unfolding HT_INITIAL_CAP_def by linarith
  have fold: "ht_inv (foldl ?f t xs) \<and> ht_map (foldl ?f t xs) = foldl upd_slot (ht_map t) xs \<and>
      ht_capacity (foldl ?f t xs) = ?cap \<and> ht_cnt (foldl ?f t xs) \<le> ht_cnt t + length xs \<and>
      foldl ?f t xs = foldl ?g t xs"
    if "ht_inv t" "ht_capacity t = ?cap" "ht_cnt t + length xs \<le> ht_capacity ht" for t xs
    using that
  proof (induction xs arbitrary: t)
    case Nil
    then show ?case by simp
  next
    case (Cons x xs)
    show ?case
    proof (cases x)
      case None
      then show ?thesis
        using Cons.IH [of t] Cons.prems by auto
    next
      case (Some e)
      obtain t' old where t': "ht_insert t (ht_key e) (ht_value e) = (t', old)"
        by (cases "ht_insert t (ht_key e) (ht_value e)")
      have load: "ht_cnt t * 4 < ht_capacity t * 3"
        using Cons.prems(2,3) pos by simp
      have ok: "slots_ok (ht_entries t)" "ht_cnt t = card (occupied (ht_entries t))"
        using Cons.prems(1) by (simp_all add: ht_inv_def)
      note new = ht_insert_correct [OF ok load t']
      have IH: "ht_inv (foldl ?f t' xs) \<and> ht_map (foldl ?f t' xs) = foldl upd_slot (ht_map t') xs \<and>
          ht_capacity (foldl ?f t' xs) = ?cap \<and> ht_cnt (foldl ?f t' xs) \<le> ht_cnt t' + length xs \<and>
          foldl ?f t' xs = foldl ?g t' xs"
        using new Cons.prems by (intro Cons.IH) simp_all
      have eqs: "foldl ?f t (x # xs) = foldl ?f t' xs" "foldl ?g t (x # xs) = foldl ?g t' xs"
        "foldl upd_slot (ht_map t) (x # xs) = foldl upd_slot (ht_map t') xs"
        by (simp_all add: Some t' load setter new)
      have "ht_cnt (foldl ?f t' xs) \<le> ht_cnt t' + length xs"
        using IH by blast
      also have "\<dots> \<le> ht_cnt t + length (x # xs)"
        using new(5) by simp
      finally have "ht_cnt (foldl ?f t' xs) \<le> ht_cnt t + length (x # xs)" .
      with IH show ?thesis
        unfolding eqs by blast
    qed
  qed
  note res = fold [of "\<lparr>ht_entries = replicate ?cap None, ht_cnt = 0\<rparr>" "ht_entries ht"]
  have eqs: "foldl ?f \<lparr>ht_entries = replicate ?cap None, ht_cnt = 0\<rparr> (ht_entries ht) = ht_resize setter ht"
    "foldl ?g \<lparr>ht_entries = replicate ?cap None, ht_cnt = 0\<rparr> (ht_entries ht) = ht_resize ht_insert ht"
    by (simp_all only: ht_resize_def)
  have R: "ht_inv (ht_resize setter ht) \<and>
      ht_map (ht_resize setter ht) = foldl upd_slot Map.empty (ht_entries ht) \<and>
      ht_capacity (ht_resize setter ht) = ?cap \<and>
      ht_cnt (ht_resize setter ht) \<le> ht_capacity ht \<and>
      ht_resize setter ht = ht_resize ht_insert ht"
    by (rule res [OF empty_slots(1) [OF cap], unfolded eqs empty_slots(2) [OF cap], simplified])
  then have cnt: "ht_cnt (ht_resize setter ht) \<le> ht_capacity ht"
    and map: "ht_map (ht_resize setter ht) = foldl upd_slot Map.empty (ht_entries ht)"
    by blast+
  show "ht_inv (ht_resize setter ht)" "ht_capacity (ht_resize setter ht) = ht_capacity ht * 2"
    "ht_resize setter ht = ht_resize ht_insert ht"
    using R by blast+
  have "keys_ok (ht_entries ht)"
    using inv by (simp add: ht_inv_def slots_ok_def)
  then show "ht_map (ht_resize setter ht) = ht_map ht"
    unfolding map by (simp only: foldl_upd_slot_keys_ok ht_map_def)
  have "ht_capacity (ht_resize setter ht) = ht_capacity ht * 2"
    using R by blast
  with pos cnt show "ht_cnt (ht_resize setter ht) * 4 < ht_capacity (ht_resize setter ht) * 3"
    by linarith
qed

text \<open>One level of nesting is enough: the doubled table never asks to grow while it is filled.\<close>

lemma ht_set_n_light: "ht_cnt t * 4 < ht_capacity t * 3 \<Longrightarrow> ht_set_n n t k v = ht_insert t k v"
  by (cases n) auto

lemma ht_set_n_correct:
  assumes inv: "ht_inv ht" and set: "ht_set_n (Suc n) ht key v = (ht', old)"
  shows "ht_inv ht'" "ht_map ht' = (ht_map ht)(key \<mapsto> v)" "old = ht_map ht key"
proof -
  define t where "t = (if ht_cnt ht * 4 \<ge> ht_capacity ht * 3 then ht_resize (ht_set_n n) ht else ht)"
  have t: "ht_inv t" "ht_map t = ht_map ht" "ht_cnt t * 4 < ht_capacity t * 3"
    using inv ht_resize_correct [OF inv, of "ht_set_n n"]
    by (auto simp: t_def ht_set_n_light not_le)
  have "ht_insert t key v = (ht', old)"
    using set by (simp add: t_def)
  from ht_insert_correct [OF _ _ t(3) this] t(1,2)
  show "ht_inv ht'" "ht_map ht' = (ht_map ht)(key \<mapsto> v)" "old = ht_map ht key"
    by (simp_all add: ht_inv_def)
qed

lemma ht_set_correct:
  assumes "ht_inv ht" and "ht_set ht key v = (ht', old)"
  shows "ht_inv ht'" "ht_map ht' = (ht_map ht)(key \<mapsto> v)" "old = ht_map ht key"
  using ht_set_n_correct [OF assms(1), of 1 key v ht' old] assms(2)
  by (simp_all add: ht_set_def numeral_2_eq_2)

lemma ht_set_n_agree: "ht_inv ht \<Longrightarrow> ht_set_n (Suc n) ht key v = ht_set_n 1 ht key v"
  using ht_resize_correct(5) [of ht "ht_set_n n"] ht_resize_correct(5) [of ht "ht_set_n 0"]
  by (simp add: ht_set_n_light)

lemma ht_modify_correct:
  assumes inv: "ht_inv ht"
  shows "ht_inv (ht_modify f ht key)"
    and "ht_map (ht_modify f ht key) = (ht_map ht)(key := map_option f (ht_map ht key))"
proof -
  have ok: "slots_ok (ht_entries ht)" and kk: "keys_ok (ht_entries ht)"
    using inv by (simp_all add: ht_inv_def slots_ok_def)
  have "ht_inv (ht_modify f ht key) \<and>
        ht_map (ht_modify f ht key) = (ht_map ht)(key := map_option f (ht_map ht key))"
  proof (cases rule: locate_cases [OF ok, where key = key, case_names found free])
    case (found i e)
    then have "e \<in> ents (ht_entries ht)"
      by (auto simp: ents_iff_nth)
    with found have "ht_map ht key = Some (ht_value e)"
      by (auto simp: ht_map_def slots_map_iff [OF kk])
    then show ?thesis
      using slots_ok_update_value [OF ok found(2,3), of "e\<lparr>ht_value := f (ht_value e)\<rparr>"] found inv
      by (simp add: ht_modify_def ht_inv_def ht_map_def)
  next
    case (free i)
    then have "ht_map ht key = None"
      by (simp add: ht_map_def slots_map_None_iff [OF kk])
    then have m: "ht_map ht = (ht_map ht)(key := map_option f (ht_map ht key))"
      by (simp add: fun_upd_idem)
    have "ht_modify f ht key = ht"
      using free by (simp add: ht_modify_def list_update_same_conv)
    with inv m show ?thesis by simp
  qed
  then show "ht_inv (ht_modify f ht key)"
    and "ht_map (ht_modify f ht key) = (ht_map ht)(key := map_option f (ht_map ht key))"
    by blast+
qed

subsection \<open>Deletion by backward shift\<close>

text \<open>
  The loop invariant. With the hole emptied, the table's keys are in order and every chain is
  intact except where it crosses the hole; the slots between the hole and the scan position
  are occupied, and none of their chains crosses the hole; and the free slot \<open>t\<close> that ends
  the scan is still ahead.
\<close>

definition shift_inv :: "'v ht_entry option list \<Rightarrow> nat \<Rightarrow> nat \<Rightarrow> nat \<Rightarrow> bool" where
  "shift_inv es idx scan t \<longleftrightarrow>
     pow2 (length es) \<and> idx < length es \<and> scan < length es \<and> scan \<noteq> idx \<and>
     keys_ok (es[idx := None]) \<and> chained es idx \<and>
     t < length es \<and> t \<noteq> idx \<and> es ! t = None \<and>
     steps_to (length es) idx scan \<le> steps_to (length es) idx t \<and>
     (\<forall>j < length es. j \<noteq> idx \<longrightarrow> steps_to (length es) idx j < steps_to (length es) idx scan \<longrightarrow>
        (\<exists>e. es ! j = Some e \<and> \<not> arc (home es e) j idx))"

lemma shift_done:
  assumes inv: "shift_inv es idx scan t" and none: "es ! scan = None"
  shows "chained (es[idx := None]) (length es)"
  unfolding chained_def
proof (intro allI impI)
  fix i e j
  let ?n = "length es"
  assume i: "i < length (es[idx := None])" "es[idx := None] ! i = Some e"
    and j: "j < length (es[idx := None])" "arc (home (es[idx := None]) e) i j"
  have p: "pow2 ?n" "idx < ?n" "scan < ?n" "scan \<noteq> idx" and ch: "chained es idx"
    and region: "\<And>j. j < ?n \<Longrightarrow> j \<noteq> idx \<Longrightarrow> steps_to ?n idx j < steps_to ?n idx scan \<Longrightarrow>
        \<exists>e. es ! j = Some e \<and> \<not> arc (home es e) j idx"
    using inv by (auto simp: shift_inv_def)
  have ie: "i \<noteq> idx" "i < ?n" "es ! i = Some e" and j': "j < ?n" "arc (home es e) i j"
    using i j p(2) by (auto simp: nth_list_update home_def split: if_splits)
  have "i \<noteq> scan"
    using ie none by auto
  have "j \<noteq> idx"
  proof
    assume "j = idx"
    with j' have cross: "arc (home es e) i idx" by simp
    then have "\<not> steps_to ?n idx i < steps_to ?n idx scan"
      using region [of i] ie by auto
    then have "arc (home es e) i scan"
      using arc_beyond [OF ie(2) p(2,3) _ p(4) ie(1) \<open>i \<noteq> scan\<close> _ cross] home_slot_less [OF p(1)]
      by (simp add: home_def)
    with ch ie p(3,4) have "es ! scan \<noteq> None"
      by (auto simp: chained_def)
    with none show False by simp
  qed
  moreover have "es ! j \<noteq> None"
    using ch ie j' \<open>j \<noteq> idx\<close> by (auto simp: chained_def)
  ultimately show "es[idx := None] ! j \<noteq> None"
    by simp
qed

lemma shift_skip:
  assumes inv: "shift_inv es idx scan t" and ne: "es ! scan = Some ne"
    and stay: "\<not> arc (home es ne) scan idx"
  shows "shift_inv es idx (next_slot (length es) scan) t"
    and "Suc (steps_to (length es) (next_slot (length es) scan) t) = steps_to (length es) scan t"
proof -
  let ?n = "length es" and ?s = "next_slot (length es) scan"
  have p: "pow2 ?n" "idx < ?n" "scan < ?n" "scan \<noteq> idx" "t < ?n" "t \<noteq> idx" "es ! t = None"
    "steps_to ?n idx scan \<le> steps_to ?n idx t"
    using inv by (auto simp: shift_inv_def)
  have "scan \<noteq> t"
    using p(7) ne by auto
  show "Suc (steps_to ?n ?s t) = steps_to ?n scan t"
    using p(1,3,5) \<open>scan \<noteq> t\<close> by (rule steps_to_next)
  have s: "?s < ?n" "?s \<noteq> idx" "steps_to ?n idx ?s = Suc (steps_to ?n idx scan)"
    using p(2-6,8) \<open>scan \<noteq> t\<close>
    by (auto simp: next_slot_eq [OF p(1,3)] steps_to_def split: if_splits)
  have "steps_to ?n idx scan \<noteq> steps_to ?n idx t"
    using p(2-6) \<open>scan \<noteq> t\<close> by (auto simp: steps_to_def split: if_splits)
  moreover have "j = scan" if "j < ?n" "steps_to ?n idx j = steps_to ?n idx scan" for j
    using that p(2,3) by (auto simp: steps_to_def split: if_splits)
  ultimately show "shift_inv es idx ?s t"
    using inv s ne stay by (auto simp: shift_inv_def less_Suc_eq)
qed

lemma shift_move:
  assumes inv: "shift_inv es idx scan t" and ne: "es ! scan = Some ne"
    and move: "arc (home es ne) scan idx"
  defines "es' \<equiv> es[idx := Some ne]"
  shows "shift_inv es' scan (next_slot (length es) scan) t"
    and "Suc (steps_to (length es) (next_slot (length es) scan) t) = steps_to (length es) scan t"
    and "ents (es'[scan := None]) = ents (es[idx := None])"
    and "card (occupied (es'[scan := None])) = card (occupied (es[idx := None]))"
proof -
  let ?n = "length es" and ?s = "next_slot (length es) scan"
  have p: "pow2 ?n" "idx < ?n" "scan < ?n" "scan \<noteq> idx" "t < ?n" "t \<noteq> idx" "es ! t = None"
    and kk: "keys_ok (es[idx := None])" and ch: "chained es idx"
    using inv by (auto simp: shift_inv_def)
  have "scan \<noteq> t"
    using p(7) ne by auto
  show st: "Suc (steps_to ?n ?s t) = steps_to ?n scan t"
    using p(1,3,5) \<open>scan \<noteq> t\<close> by (rule steps_to_next)
  have s: "?s < ?n" "?s \<noteq> scan" "steps_to ?n scan ?s = 1"
    using p(2-6) by (auto simp: next_slot_eq [OF p(1,3)] steps_to_def split: if_splits)
  have len: "length es' = ?n"
    by (simp add: es'_def)
  have nth: "es'[scan := None] ! j = (if j = scan then None else if j = idx then Some ne else es ! j)"
    if "j < ?n" for j
    using that p(2-4) by (auto simp: es'_def nth_list_update)
  have nth0: "es[idx := None] ! j = (if j = idx then None else es ! j)" if "j < ?n" for j
    using that p(2) by (auto simp: nth_list_update)
  show ents: "ents (es'[scan := None]) = ents (es[idx := None])"
  proof (rule set_eqI)
    fix x
    have "(\<exists>j < ?n. es'[scan := None] ! j = Some x) \<longleftrightarrow>
        x = ne \<or> (\<exists>j < ?n. j \<noteq> idx \<and> j \<noteq> scan \<and> es ! j = Some x)"
      using p(2,4) nth by (metis option.distinct(1) option.inject)
    moreover have "(\<exists>j < ?n. es[idx := None] ! j = Some x) \<longleftrightarrow>
        x = ne \<or> (\<exists>j < ?n. j \<noteq> idx \<and> j \<noteq> scan \<and> es ! j = Some x)"
      using p(3,4) ne nth0 by (metis option.distinct(1) option.inject)
    ultimately have "(\<exists>j < ?n. es'[scan := None] ! j = Some x) \<longleftrightarrow> (\<exists>j < ?n. es[idx := None] ! j = Some x)"
      by simp
    then show "x \<in> ents (es'[scan := None]) \<longleftrightarrow> x \<in> ents (es[idx := None])"
      by (simp add: ents_iff_nth es'_def)
  qed
  have occ: "occupied (es'[scan := None]) = insert idx (occupied (es[idx := None]) - {scan})"
  proof (rule set_eqI)
    fix j
    show "j \<in> occupied (es'[scan := None]) \<longleftrightarrow> j \<in> insert idx (occupied (es[idx := None]) - {scan})"
      using p(2-4) nth [of j] nth0 [of j]
      by (cases "j < ?n"; cases "j = idx"; cases "j = scan") (simp_all add: occupied_def len)
  qed
  have "scan \<in> occupied (es[idx := None])" "idx \<notin> occupied (es[idx := None])"
    using p(2-4) ne by (auto simp: occupied_def nth0)
  then show "card (occupied (es'[scan := None])) = card (occupied (es[idx := None]))"
    using card_Suc_Diff1 [OF finite_occupied, of scan "es[idx := None]"] by (simp add: occ)
  have "keys_ok (es'[scan := None])"
    unfolding keys_ok_def
  proof (intro conjI allI impI)
    show "\<forall>e \<in> ents (es'[scan := None]). ht_hash e = ht_fnv1a (ht_key e)"
      using kk by (simp add: ents keys_ok_def)
    fix a b x y
    assume *: "a < length (es'[scan := None])" "b < length (es'[scan := None])"
      "es'[scan := None] ! a = Some x" "es'[scan := None] ! b = Some y" "ht_key x = ht_key y"
    define g where "g = (\<lambda>j. if j = idx then scan else j)"
    have g: "g c < ?n \<and> c \<noteq> scan \<and> es[idx := None] ! g c = Some z"
      if "c < ?n" "es'[scan := None] ! c = Some z" for c z
    proof (cases "c = idx")
      case True
      with that nth [of idx] p(2,4) have "z = ne" by simp
      with True nth0 [of scan] p(3,4) ne show ?thesis by (simp add: g_def)
    next
      case False
      have "(if c = scan then None else if c = idx then Some ne else es ! c) = Some z"
        using that(2) unfolding nth [OF that(1)] .
      with False have "c \<noteq> scan" "es ! c = Some z" by (simp_all split: if_splits)
      with False nth0 [of c] that(1) show ?thesis by (simp add: g_def)
    qed
    have ab: "g a < ?n" "g b < ?n" "es[idx := None] ! g a = Some x" "es[idx := None] ! g b = Some y"
      "a \<noteq> scan" "b \<noteq> scan"
      using g [of a x] g [of b y] * by (simp_all add: len)
    have "g a = g b"
      by (rule keys_ok_index [OF kk _ _ ab(3,4) *(5)]) (simp_all only: ab(1,2) length_list_update)
    then show "a = b"
      using ab(5,6) by (auto simp: g_def split: if_splits)
  qed
  moreover have "chained es' scan"
    unfolding chained_def
  proof (intro allI impI)
    fix i e j
    assume i: "i < length es'" "es' ! i = Some e" "i \<noteq> scan"
      and j: "j < length es'" "arc (home es' e) i j" "j \<noteq> scan"
    have h: "home es' e = home es e"
      by (simp add: home_def es'_def)
    have "j = idx \<or> es ! j \<noteq> None"
    proof (cases "i = idx")
      case True
      then have "e = ne"
        using i p(2) by (simp add: es'_def)
      then have "arc (home es ne) scan j"
        using True j(2) h arc_prefix [OF move] by simp
      then show ?thesis
        using ch p(3,4) ne j(1) by (auto simp: chained_def es'_def)
    next
      case False
      then show ?thesis
        using ch i j h by (auto simp: chained_def es'_def nth_list_update)
    qed
    then show "es' ! j \<noteq> None"
      using j(1) p(2) by (auto simp: es'_def nth_list_update)
  qed
  moreover have "steps_to ?n scan ?s \<le> steps_to ?n scan t"
    using s(3) st by simp
  moreover have "j = scan" if "j < ?n" "steps_to ?n scan j = 0" for j
    using that p(3) by (auto simp: steps_to_def split: if_splits)
  ultimately show "shift_inv es' scan ?s t"
    using p s \<open>scan \<noteq> t\<close> by (auto simp: shift_inv_def es'_def)
qed

lemma ht_shift_correct:
  "shift_inv es idx scan t \<Longrightarrow> steps_to (length es) scan t < n \<Longrightarrow>
   ht_shift n es idx scan = (es', hole) \<Longrightarrow>
   length es' = length es \<and> hole < length es \<and>
   keys_ok (es'[hole := None]) \<and> chained (es'[hole := None]) (length es) \<and>
   ents (es'[hole := None]) = ents (es[idx := None]) \<and>
   card (occupied (es'[hole := None])) = card (occupied (es[idx := None]))"
proof (induction n arbitrary: es idx scan)
  case 0
  then show ?case by simp
next
  case (Suc n)
  note inv = Suc.prems(1)
  show ?case
  proof (cases "es ! scan")
    case None
    with Suc.prems shift_done [OF inv None] show ?thesis
      by (auto simp: shift_inv_def)
  next
    case (Some ne)
    have "scan \<noteq> idx"
      using inv by (simp add: shift_inv_def)
    note test = shift_test [OF this, of "home_slot (length es) (ht_hash ne)"]
    show ?thesis
    proof (cases "arc (home es ne) scan idx")
      case True
      note move = shift_move [OF inv Some True]
      have "ht_shift n (es[idx := Some ne]) scan (next_slot (length es) scan) = (es', hole)"
        using Suc.prems(3) Some True [unfolded home_def] test by (simp add: Let_def)
      from Suc.IH [OF move(1) _ this] move(2-4) Suc.prems(2) show ?thesis by simp
    next
      case False
      note skip = shift_skip [OF inv Some False]
      have "ht_shift n es idx (next_slot (length es) scan) = (es', hole)"
        using Suc.prems(3) Some False [unfolded home_def] test by (simp add: Let_def)
      from Suc.IH [OF skip(1) _ this] skip(2) Suc.prems(2) show ?thesis by simp
    qed
  qed
qed

text \<open>Emptying an entry's slot leaves the table as the first scan step wants it.\<close>

lemma shift_start:
  assumes ok: "slots_ok es" and i: "i < length es" "es ! i = Some e"
  obtains t where "shift_inv es i (next_slot (length es) i) t"
    "steps_to (length es) (next_slot (length es) i) t < length es"
proof -
  let ?n = "length es"
  obtain t where t: "t < ?n" "es ! t = None"
    using slots_ok_free [OF ok] .
  have p: "pow2 ?n" "2 \<le> ?n" and kk: "keys_ok es" and ch: "chained es ?n"
    using ok by (simp_all add: slots_ok_def HT_INITIAL_CAP_def)
  have ne: "t \<noteq> i"
    using t i by auto
  have s: "next_slot ?n i < ?n" "next_slot ?n i \<noteq> i" "steps_to ?n i (next_slot ?n i) = 1"
    using i(1) p(2) by (auto simp: next_slot_eq [OF p(1) i(1)] steps_to_def)
  have "keys_ok (es[i := None])"
    unfolding keys_ok_def
  proof (intro conjI)
    show "\<forall>x \<in> ents (es[i := None]). ht_hash x = ht_fnv1a (ht_key x)"
      using kk ents_update_unique(2) [OF i keys_ok_once [OF kk i]] by (simp add: keys_ok_def)
    show "\<forall>a < length (es[i := None]). \<forall>b < length (es[i := None]). \<forall>x y.
            es[i := None] ! a = Some x \<longrightarrow> es[i := None] ! b = Some y \<longrightarrow> ht_key x = ht_key y \<longrightarrow> a = b"
      using i(1) by (auto simp: nth_list_update intro: keys_ok_index [OF kk])
  qed
  moreover have "chained es i"
    using ch by (auto simp: chained_def)
  moreover have "steps_to ?n i (next_slot ?n i) \<le> steps_to ?n i t"
    using s(3) steps_to_next [OF p(1) i(1) t(1)] ne by simp
  moreover have "j = i" if "j < ?n" "steps_to ?n i j = 0" for j
    using that i(1) by (auto simp: steps_to_def split: if_splits)
  ultimately have "shift_inv es i (next_slot ?n i) t"
    using p i t s ne by (auto simp: shift_inv_def)
  moreover have "steps_to ?n (next_slot ?n i) t < ?n"
    using s(1) t(1) by (rule steps_to_less)
  ultimately show ?thesis by (rule that)
qed

lemma ht_remove_correct:
  assumes inv: "ht_inv ht" and rem: "ht_remove ht key = (ht', old)"
  shows "ht_inv ht'" "ht_map ht' = (ht_map ht)(key := None)" "old = ht_map ht key"
proof -
  let ?es = "ht_entries ht"
  have ok: "slots_ok ?es" and kk: "keys_ok ?es"
    using inv by (simp_all add: ht_inv_def slots_ok_def)
  have "ht_inv ht' \<and> ht_map ht' = (ht_map ht)(key := None) \<and> old = ht_map ht key"
  proof (cases rule: locate_cases [OF ok, where key = key, case_names found free])
    case (found i e)
    have e: "e \<in> ents ?es"
      using found by (auto simp: ents_iff_nth)
    have get: "ht_map ht key = Some (ht_value e)"
      using e found by (auto simp: ht_map_def slots_map_iff [OF kk])
    obtain es' hole where sh: "ht_shift (length ?es) ?es i (next_slot (length ?es) i) = (es', hole)"
      by (cases "ht_shift (length ?es) ?es i (next_slot (length ?es) i)")
    obtain t where t: "shift_inv ?es i (next_slot (length ?es) i) t"
        "steps_to (length ?es) (next_slot (length ?es) i) t < length ?es"
      using shift_start [OF ok found(2,3)] .
    let ?es' = "es'[hole := None]"
    note res = ht_shift_correct [OF t sh]
    have ents: "ents ?es' = ents ?es - {e}"
      using res ents_update_unique(2) [OF found(2,3) keys_ok_once [OF kk found(2,3)]] by simp
    have "occupied (?es[i := None]) = occupied ?es - {i}" and i: "i \<in> occupied ?es"
      using found by (auto simp: occupied_def nth_list_update split: if_splits)
    then have card: "Suc (card (occupied ?es')) = card (occupied ?es)"
      using res card_Suc_Diff1 [OF finite_occupied i] by simp
    have ht': "ht' = \<lparr>ht_entries = ?es', ht_cnt = ht_cnt ht - 1\<rparr>" and "old = Some (ht_value e)"
      using rem found sh by (auto simp: ht_remove_def)
    have kk': "keys_ok ?es'"
      using res by blast
    have "card (occupied ?es') = card (occupied ?es) - 1"
      using card by simp
    with inv res have "ht_inv ht'"
      by (auto simp: ht' ht_inv_def slots_ok_def)
    moreover have "ht_map ht' = (ht_map ht)(key := None)"
    proof
      fix k
      have "x = e" if "x \<in> ents ?es" "ht_key x = key" for x
        using keys_ok_unique [OF kk that(1) e] that(2) found by simp
      then show "ht_map ht' k = ((ht_map ht)(key := None)) k"
        unfolding ht' ht_map_def hashtable.simps
        by (intro slots_map_eqI [OF kk']) (use found in \<open>auto simp: ents slots_map_iff [OF kk]\<close>)
    qed
    ultimately show ?thesis
      using get \<open>old = Some (ht_value e)\<close> by simp
  next
    case (free i)
    then have "ht_map ht key = None"
      by (simp add: ht_map_def slots_map_None_iff [OF kk])
    with free rem inv show ?thesis
      by (auto simp: ht_remove_def)
  qed
  then show "ht_inv ht'" "ht_map ht' = (ht_map ht)(key := None)" "old = ht_map ht key"
    by blast+
qed

lemma ht_init_correct: "ht_inv ht_init" "ht_map ht_init = Map.empty"
proof -
  have "pow2 HT_INITIAL_CAP"
    by (auto simp: HT_INITIAL_CAP_def pow2_def intro: exI [of _ 4])
  then show "ht_inv ht_init" "ht_map ht_init = Map.empty"
    unfolding ht_init_def by (rule empty_slots [OF _ order_refl])+
qed

subsection \<open>The interface its clients rely on\<close>

text \<open>
  The variable scopes, the compiler's local and import tables and the machine's set of loaded
  modules use a table through these operations only. The laws say that a table in order is a
  finite map; the client lemmas below are proved from the laws.
\<close>

locale string_table =
  fixes init :: 't
    and get :: "'t \<Rightarrow> string \<Rightarrow> 'v option"
    and put :: "'t \<Rightarrow> string \<Rightarrow> 'v \<Rightarrow> 't \<times> 'v option"
    and del :: "'t \<Rightarrow> string \<Rightarrow> 't \<times> 'v option"
    and modify :: "('v \<Rightarrow> 'v) \<Rightarrow> 't \<Rightarrow> string \<Rightarrow> 't"
    and inv :: "'t \<Rightarrow> bool"
    and mapping :: "'t \<Rightarrow> string \<rightharpoonup> 'v"
  assumes init_inv: "inv init"
    and init_map: "mapping init = Map.empty"
    and get_map: "inv t \<Longrightarrow> get t k = mapping t k"
    and put_inv: "inv t \<Longrightarrow> inv (fst (put t k v))"
    and put_map: "inv t \<Longrightarrow> mapping (fst (put t k v)) = (mapping t)(k \<mapsto> v)"
    and put_old: "inv t \<Longrightarrow> snd (put t k v) = mapping t k"
    and del_inv: "inv t \<Longrightarrow> inv (fst (del t k))"
    and del_map: "inv t \<Longrightarrow> mapping (fst (del t k)) = (mapping t)(k := None)"
    and del_old: "inv t \<Longrightarrow> snd (del t k) = mapping t k"
    and modify_inv: "inv t \<Longrightarrow> inv (modify f t k)"
    and modify_map: "inv t \<Longrightarrow> mapping (modify f t k) = (mapping t)(k := map_option f (mapping t k))"
begin

lemmas laws = init_inv init_map put_inv put_map put_old del_inv del_map del_old modify_inv modify_map

lemma get_init: "get init k = None"
  by (simp add: get_map laws)

lemma get_put: "inv t \<Longrightarrow> get (fst (put t k v)) k' = (if k' = k then Some v else get t k')"
  by (simp add: get_map laws)

lemma get_del: "inv t \<Longrightarrow> get (fst (del t k)) k' = (if k' = k then None else get t k')"
  by (simp add: get_map laws)

lemma get_modify:
  "inv t \<Longrightarrow> get (modify f t k) k' = (if k' = k then map_option f (get t k) else get t k')"
  by (simp add: get_map laws)

text \<open>Filling a table from a list: the last binding of a key wins.\<close>

lemma put_all:
  "inv t \<Longrightarrow> inv (foldl (\<lambda>t kv. fst (put t (fst kv) (snd kv))) t kvs) \<and>
     get (foldl (\<lambda>t kv. fst (put t (fst kv) (snd kv))) t kvs) k =
       (case map_of (rev kvs) k of None \<Rightarrow> get t k | Some v \<Rightarrow> Some v)"
proof (induction kvs arbitrary: t)
  case Nil
  then show ?case by simp
next
  case (Cons kv kvs)
  have "inv (fst (put t (fst kv) (snd kv)))"
    using Cons.prems by (rule put_inv)
  from Cons.IH [OF this] show ?case
    using Cons.prems by (auto simp: map_add_def get_put split: option.splits)
qed

end

lemma ht_set_pair:
  assumes "ht_inv ht"
  shows "ht_inv (fst (ht_set ht key v))" "ht_map (fst (ht_set ht key v)) = (ht_map ht)(key \<mapsto> v)"
    "snd (ht_set ht key v) = ht_map ht key"
  using ht_set_correct [OF assms, of key v] by (metis prod.collapse)+

lemma ht_remove_pair:
  assumes "ht_inv ht"
  shows "ht_inv (fst (ht_remove ht key))" "ht_map (fst (ht_remove ht key)) = (ht_map ht)(key := None)"
    "snd (ht_remove ht key) = ht_map ht key"
  using ht_remove_correct [OF assms, of key] by (metis prod.collapse)+

interpretation ht: string_table ht_init ht_get ht_set ht_remove ht_modify ht_inv ht_map
  by unfold_locales
     (simp_all add: ht_init_correct ht_get_eq_map ht_modify_correct
        ht_set_pair ht_remove_pair)

subsection \<open>Walking over a table\<close>

lemma ht_foreach_slots_fold:
  assumes "\<And>k v ctx. fst (fn k v ctx) = False"
  shows "ht_foreach_slots fn es ctx =
           foldl (\<lambda>ctx e. snd (fn (ht_key e) (ht_value e) ctx)) ctx (List.map_filter (\<lambda>x. x) es)"
  using assms
  by (induction fn es ctx rule: ht_foreach_slots.induct)
     (auto simp: map_filter_simps split: prod.splits, metis fst_conv)

lemma slots_keys_distinct:
  "keys_ok es \<Longrightarrow> distinct (map ht_key (List.map_filter (\<lambda>x. x) es))"
proof (induction es)
  case Nil
  then show ?case by (simp add: map_filter_simps)
next
  case (Cons x es)
  have inj: "i = j" if "i < length (x # es)" "j < length (x # es)" "(x # es) ! i = Some e"
    "(x # es) ! j = Some e'" "ht_key e = ht_key e'" for i j e e'
    using keys_ok_index [OF Cons.prems that(1,2) that(3,4)] that(5) by simp
  have "keys_ok es"
    unfolding keys_ok_def
  proof (intro conjI ballI allI impI)
    show "ht_hash e = ht_fnv1a (ht_key e)" if "e \<in> ents es" for e
      using that Cons.prems by (cases x) (auto simp: keys_ok_def)
    show "i = j" if "i < length es" "j < length es" "es ! i = Some e" "es ! j = Some e'"
      "ht_key e = ht_key e'" for i j e e'
      using inj [of "Suc i" "Suc j" e e'] that by simp
  qed
  moreover have "ht_key e \<notin> ht_key ` ents es" if "x = Some e" for e
  proof
    assume "ht_key e \<in> ht_key ` ents es"
    then obtain j e' where "j < length es" "es ! j = Some e'" "ht_key e = ht_key e'"
      by (auto simp: ents_iff_nth)
    with inj [of 0 "Suc j" e e'] that show False
      by simp
  qed
  ultimately show ?case
    using Cons.IH by (cases x) (auto simp: map_filter_simps set_map_filter_id)
qed

subsection \<open>Any sequence of operations\<close>

datatype 'v ht_op = Op_set string 'v | Op_remove string | Op_modify string "'v \<Rightarrow> 'v" | Op_get string

text \<open>The value an operation returns, and the same on a finite map.\<close>

fun ht_apply :: "'v ht_op \<Rightarrow> 'v hashtable \<Rightarrow> 'v hashtable \<times> 'v option" where
  "ht_apply (Op_set k v) t = ht_set t k v"
| "ht_apply (Op_remove k) t = ht_remove t k"
| "ht_apply (Op_modify k f) t = (ht_modify f t k, None)"
| "ht_apply (Op_get k) t = (t, ht_get t k)"

fun map_apply :: "'v ht_op \<Rightarrow> (string \<rightharpoonup> 'v) \<Rightarrow> (string \<rightharpoonup> 'v) \<times> 'v option" where
  "map_apply (Op_set k v) m = (m(k \<mapsto> v), m k)"
| "map_apply (Op_remove k) m = (m(k := None), m k)"
| "map_apply (Op_modify k f) m = (m(k := map_option f (m k)), None)"
| "map_apply (Op_get k) m = (m, m k)"

fun run_ops :: "('o \<Rightarrow> 's \<Rightarrow> 's \<times> 'r) \<Rightarrow> 'o list \<Rightarrow> 's \<Rightarrow> 's \<times> 'r list" where
  "run_ops step [] s = (s, [])"
| "run_ops step (x # xs) s =
     (let (s, r) = step x s; (s, rs) = run_ops step xs s in (s, r # rs))"

lemma ht_apply_map:
  assumes "ht_inv t" "ht_apply x t = (t', r)"
  shows "ht_inv t'" "map_apply x (ht_map t) = (ht_map t', r)"
proof -
  have "ht_inv t' \<and> map_apply x (ht_map t) = (ht_map t', r)"
  proof (cases x)
    case (Op_set k v)
    with assms ht_set_correct [of t k v t' r] show ?thesis by simp
  next
    case (Op_remove k)
    with assms ht_remove_correct [of t k t' r] show ?thesis by simp
  next
    case (Op_modify k f)
    with assms ht_modify_correct [of t f k] show ?thesis by auto
  next
    case (Op_get k)
    with assms show ?thesis by (auto simp: ht_get_eq_map)
  qed
  then show "ht_inv t'" "map_apply x (ht_map t) = (ht_map t', r)"
    by simp_all
qed

lemma run_ops_map:
  "ht_inv t \<Longrightarrow> run_ops ht_apply ops t = (t', rs) \<Longrightarrow>
   ht_inv t' \<and> run_ops map_apply ops (ht_map t) = (ht_map t', rs)"
proof (induction ops arbitrary: t rs)
  case Nil
  then show ?case by simp
next
  case (Cons x ops)
  obtain t1 r rs' where step: "ht_apply x t = (t1, r)" "run_ops ht_apply ops t1 = (t', rs')" "rs = r # rs'"
    using Cons.prems(2) by (auto simp: Let_def split: prod.splits)
  note one = ht_apply_map [OF Cons.prems(1) step(1)]
  from Cons.IH [OF one(1) step(2)] one(2) step(3) show ?case
    by simp
qed

lemma ht_cnt_card:
  assumes "ht_inv t"
  shows "ht_count t = card (dom (ht_map t))"
proof -
  let ?es = "ht_entries t"
  let ?key = "\<lambda>i. ht_key (the (?es ! i))"
  have ok: "keys_ok ?es" and cnt: "ht_cnt t = card (occupied ?es)"
    using assms by (simp_all add: ht_inv_def slots_ok_def)
  have inj: "inj_on ?key (occupied ?es)"
    using ok by (auto simp: inj_on_def occupied_def intro: keys_ok_index)
  have "?key ` occupied ?es = ht_key ` ents ?es"
    by (force simp: occupied_def ents_iff_nth image_iff)
  also have "\<dots> = dom (ht_map t)"
    by (auto simp: ht_map_def slots_map_def dom_map_of_conv_image_fst set_map_filter_id image_image)
  finally show ?thesis
    using card_image [OF inj] cnt by (simp add: ht_count_def)
qed

text \<open>
  C11. The hash table is a finite map: for every sequence of insertions, removals, writes through a
  returned pointer and lookups on a new table, each operation returns what it returns on a map, the
  final table holds exactly the map's bindings, and the count is the number of them. Open
  addressing, the resizes and the backward shift of a removal do not show.
\<close>

theorem ht_refines_map:
  "case run_ops ht_apply ops ht_init of
     (t, rs) \<Rightarrow> run_ops map_apply ops Map.empty = (ht_get t, rs) \<and> ht_inv t \<and>
               ht_count t = card (dom (ht_get t))"
proof (cases "run_ops ht_apply ops ht_init")
  case (Pair t rs)
  then have "ht_inv t" "run_ops map_apply ops Map.empty = (ht_map t, rs)"
    using run_ops_map [OF ht_init_correct(1) Pair] by (simp_all add: ht_init_correct(2))
  moreover from this(1) have "ht_get t = ht_map t"
    by (simp add: fun_eq_iff ht_get_eq_map)
  ultimately show ?thesis
    using Pair by (simp add: ht_cnt_card)
qed

end
