(* ===== verification/Growable.thy ===== *)
theory Growable
  imports Prelude
begin

text \<open>
  \<^verbatim>\<open>src/foundation/util.c\<close> (the checked size arithmetic) and the growth policy the
  buffers share: double the capacity until it fits, and take exactly what is needed when doubling
  would overflow. The locale \<open>growable\<close> is the contract of an append operation on such a
  buffer; the string buffer, the pointer list and the bytecode image provide it.
\<close>

definition checked_add :: "nat \<Rightarrow> nat \<Rightarrow> nat option" where
  "checked_add a b = (if a > SIZE_MAX - b then None else Some ((a + b) mod 2 ^ 64))"

definition checked_mul :: "nat \<Rightarrow> nat \<Rightarrow> nat option" where
  "checked_mul a b = (if a \<noteq> 0 \<and> b > SIZE_MAX div a then None else Some ((a * b) mod 2 ^ 64))"

text \<open>
  The doubling loop. From a capacity of at least 1 it ends within 64 rounds, so with 65 units
  of fuel \<open>None\<close> is the loop that never ends: a capacity of 0 stays 0 when it is doubled.
\<close>

fun grow_loop :: "nat \<Rightarrow> nat \<Rightarrow> nat \<Rightarrow> nat option" where
  "grow_loop 0 new_cap needed = None"
| "grow_loop (Suc n) new_cap needed =
     (if new_cap < needed then
        (case checked_mul new_cap 2 of
           None \<Rightarrow> Some needed
         | Some c \<Rightarrow> grow_loop n c needed)
      else Some new_cap)"

definition grow_cap :: "nat \<Rightarrow> nat \<Rightarrow> nat option" where
  "grow_cap new_cap needed = grow_loop 65 new_cap needed"

lemma checked_add_exact:
  assumes "a \<le> SIZE_MAX" "b \<le> SIZE_MAX"
  shows "checked_add a b = (if a + b \<le> SIZE_MAX then Some (a + b) else None)"
  using assms by (auto simp: checked_add_def SIZE_MAX_def)

lemma mul_fits: "a \<noteq> 0 \<Longrightarrow> b \<le> SIZE_MAX div a \<longleftrightarrow> a * b \<le> (SIZE_MAX :: nat)"
  using less_eq_div_iff_mult_less_eq [of a b SIZE_MAX] by (simp only: mult.commute [of b a] neq0_conv)

lemma checked_mul_exact:
  assumes "a \<le> SIZE_MAX" "b \<le> SIZE_MAX"
  shows "checked_mul a b = (if a * b \<le> SIZE_MAX then Some (a * b) else None)"
proof (cases "a = 0")
  case False
  then have "b > SIZE_MAX div a \<longleftrightarrow> \<not> a * b \<le> SIZE_MAX"
    using mul_fits [of a b] by linarith
  moreover have "a * b \<le> SIZE_MAX \<Longrightarrow> (a * b) mod 2 ^ 64 = a * b"
    by (simp add: SIZE_MAX_def)
  ultimately show ?thesis
    using False by (simp add: checked_mul_def)
qed (simp add: checked_mul_def)

lemma grow_loop_correct:
  "0 < c \<Longrightarrow> c \<le> SIZE_MAX \<Longrightarrow> needed \<le> SIZE_MAX \<Longrightarrow> needed \<le> c * 2 ^ n \<Longrightarrow>
   \<exists>r. grow_loop (Suc n) c needed = Some r \<and> needed \<le> r \<and> c \<le> r \<and> r \<le> SIZE_MAX"
proof (induction n arbitrary: c)
  case 0
  then show ?case by simp
next
  case (Suc n)
  show ?case
  proof (cases "c < needed \<and> c * 2 \<le> SIZE_MAX")
    case True
    with Suc.prems obtain r where "grow_loop (Suc n) (c * 2) needed = Some r" "needed \<le> r"
      "c * 2 \<le> r" "r \<le> SIZE_MAX"
      using Suc.IH [of "c * 2"] by (auto simp: mult.assoc)
    with True Suc.prems show ?thesis
      by (auto simp: checked_mul_exact SIZE_MAX_def simp del: grow_loop.simps(2))
         (simp add: checked_mul_def SIZE_MAX_def)
  next
    case False
    with Suc.prems show ?thesis
      by (auto simp: checked_mul_exact SIZE_MAX_def)
  qed
qed

lemma grow_cap_correct:
  assumes "0 < c" "c \<le> SIZE_MAX" "needed \<le> SIZE_MAX"
  obtains r where "grow_cap c needed = Some r" "needed \<le> r" "c \<le> r" "r \<le> SIZE_MAX"
proof -
  have "needed \<le> c * 2 ^ 64"
    using assms by (simp add: SIZE_MAX_def)
  from grow_loop_correct [OF assms this] that show ?thesis
    by (auto simp: grow_cap_def numeral_eq_Suc)
qed

text \<open>A buffer of capacity 0 (one that was detached) never finishes growing.\<close>

lemma grow_cap_zero: "0 < needed \<Longrightarrow> grow_cap 0 needed = None"
proof -
  assume "0 < needed"
  then have "grow_loop n 0 needed = None" for n
    by (induction n) (auto simp: checked_mul_def)
  then show ?thesis by (simp add: grow_cap_def)
qed

subsection \<open>The contract of appending\<close>

locale growable =
  fixes inv :: "'b \<Rightarrow> bool"
    and contents :: "'b \<Rightarrow> 'a list"
    and append :: "'b \<Rightarrow> 'a \<Rightarrow> 'b option"
    and limit :: nat
  assumes append_returns: "inv b \<Longrightarrow> Suc (length (contents b)) \<le> limit \<Longrightarrow> \<exists>b'. append b x = Some b'"
    and append_inv: "inv b \<Longrightarrow> append b x = Some b' \<Longrightarrow> inv b'"
    and append_contents: "inv b \<Longrightarrow> append b x = Some b' \<Longrightarrow> contents b' = contents b @ [x]"
begin

lemma append_total:
  assumes "inv b" "Suc (length (contents b)) \<le> limit"
  obtains b' where "append b x = Some b'" "inv b'" "contents b' = contents b @ [x]"
  using assms append_returns append_inv append_contents by blast

lemma append_all:
  "inv b \<Longrightarrow> length (contents b) + length xs \<le> limit \<Longrightarrow>
   \<exists>b'. foldM append b xs = Some b' \<and> inv b' \<and> contents b' = contents b @ xs"
proof (induction xs arbitrary: b)
  case Nil
  then show ?case by simp
next
  case (Cons x xs)
  have "Suc (length (contents b)) \<le> limit"
    using Cons.prems(2) by simp
  then obtain b1 where "append b x = Some b1" "inv b1" "contents b1 = contents b @ [x]"
    using Cons.prems(1) append_total by blast
  with Cons.IH [of b1] Cons.prems(2) show ?case by auto
qed

text \<open>Whenever appending returned, the buffer holds the old contents and the new ones.\<close>

lemma append_all_partial:
  "inv b \<Longrightarrow> foldM append b xs = Some b' \<Longrightarrow> inv b' \<and> contents b' = contents b @ xs"
proof (induction xs arbitrary: b)
  case Nil
  then show ?case by simp
next
  case (Cons x xs)
  then obtain b1 where b1: "append b x = Some b1" "foldM append b1 xs = Some b'"
    by (auto split: option.splits)
  with Cons append_inv append_contents have "inv b1" "contents b1 = contents b @ [x]"
    by blast+
  with Cons.IH [of b1] b1 show ?case by simp
qed

end

end
