(* ===== verification/Strbuf.thy ===== *)
theory Strbuf
  imports Growable
begin

text \<open>
  \<^verbatim>\<open>src/foundation/strbuf.c\<close>: the growable string buffer. \<open>sb_mem\<close> holds the bytes written so
  far, so that stale bytes after a clear stay visible and an access past the capacity can be
  stated; the contents are its first \<open>sb_length\<close> bytes, and a NUL stands behind them.
\<close>

record strbuf =
  sb_mem :: string
  sb_length :: nat
  sb_capacity :: nat

definition STRBUF_INITIAL_CAP :: nat where
  "STRBUF_INITIAL_CAP = 64"

text \<open>Writing \<open>s\<close> at offset \<open>i\<close> of the bytes written so far.\<close>

definition poke :: "'a list \<Rightarrow> nat \<Rightarrow> 'a list \<Rightarrow> 'a list" where
  "poke mem i s = take i mem @ s @ drop (i + length s) mem"

definition strbuf_init_with_capacity :: "nat \<Rightarrow> strbuf" where
  "strbuf_init_with_capacity cap =
     (let cap = (if cap < 16 then 16 else cap)
      in \<lparr>sb_mem = [NUL], sb_length = 0, sb_capacity = cap\<rparr>)"

definition strbuf_init :: strbuf where
  "strbuf_init = strbuf_init_with_capacity STRBUF_INITIAL_CAP"

definition strbuf_destroy :: "strbuf \<Rightarrow> strbuf" where
  "strbuf_destroy buf = \<lparr>sb_mem = [], sb_length = 0, sb_capacity = 0\<rparr>"

definition strbuf_ensure_capacity :: "strbuf \<Rightarrow> nat \<Rightarrow> strbuf option" where
  "strbuf_ensure_capacity buf additional =
     do { needed \<leftarrow> checked_add (sb_length buf) additional;
          needed \<leftarrow> checked_add needed 1;
          if needed \<le> sb_capacity buf then Some buf
          else do { new_cap \<leftarrow> grow_cap (sb_capacity buf) needed;
                    Some (buf\<lparr>sb_capacity := new_cap\<rparr>) } }"

definition strbuf_append_byte :: "strbuf \<Rightarrow> char \<Rightarrow> strbuf option" where
  "strbuf_append_byte buf c =
     do { buf \<leftarrow> strbuf_ensure_capacity buf 1;
          let mem = poke (sb_mem buf) (sb_length buf) [c];
          let len = sb_length buf + 1;
          Some (buf\<lparr>sb_mem := poke mem len [NUL], sb_length := len\<rparr>) }"

definition strbuf_append_bytes :: "strbuf \<Rightarrow> string \<Rightarrow> strbuf option" where
  "strbuf_append_bytes buf s =
     do { buf \<leftarrow> strbuf_ensure_capacity buf (length s);
          let mem = poke (sb_mem buf) (sb_length buf) s;
          let len = sb_length buf + length s;
          Some (buf\<lparr>sb_mem := poke mem len [NUL], sb_length := len\<rparr>) }"

text \<open>\<^verbatim>\<open>strlen(s)\<close> and then \<^verbatim>\<open>strbuf_append_bytes\<close>: only the bytes before the first NUL.\<close>

definition strbuf_append_str :: "strbuf \<Rightarrow> string \<Rightarrow> strbuf option" where
  "strbuf_append_str buf s = strbuf_append_bytes buf (takeWhile (\<lambda>c. c \<noteq> NUL) s)"

text \<open>The text \<^verbatim>\<open>vsnprintf\<close> formats is the argument; \<open>None\<close> is its negative return.\<close>

definition strbuf_append_printf :: "strbuf \<Rightarrow> string option \<Rightarrow> strbuf option" where
  "strbuf_append_printf buf formatted =
     (case formatted of
        None \<Rightarrow> Some buf
      | Some s \<Rightarrow>
          do { buf \<leftarrow> strbuf_ensure_capacity buf (length s);
               Some (buf\<lparr>sb_mem := poke (sb_mem buf) (sb_length buf) (s @ [NUL]),
                         sb_length := sb_length buf + length s\<rparr>) })"

definition strbuf_clear :: "strbuf \<Rightarrow> strbuf" where
  "strbuf_clear buf = buf\<lparr>sb_length := 0, sb_mem := poke (sb_mem buf) 0 [NUL]\<rparr>"

definition strbuf_detach :: "strbuf \<Rightarrow> string \<times> strbuf" where
  "strbuf_detach buf = (sb_mem buf, \<lparr>sb_mem = [], sb_length = 0, sb_capacity = 0\<rparr>)"

text \<open>\<^verbatim>\<open>utf8_strlen\<close>: the bytes up to the NUL that are not continuation bytes.\<close>

fun utf8_strlen :: "string \<Rightarrow> nat" where
  "utf8_strlen [] = 0"
| "utf8_strlen (c # s) =
     (if c = NUL then 0
      else (if byte_of_char c AND 0xC0 \<noteq> 0x80 then 1 else 0) + utf8_strlen s)"

definition strbuf_utf8_len :: "strbuf \<Rightarrow> nat" where
  "strbuf_utf8_len buf = utf8_strlen (sb_mem buf)"

subsection \<open>Contents and invariant\<close>

definition sb_contents :: "strbuf \<Rightarrow> string" where
  "sb_contents buf = take (sb_length buf) (sb_mem buf)"

text \<open>
  The terminator is in place, every byte written lies inside the allocation, and the capacity
  is one \<^verbatim>\<open>size_t\<close> can hold.
\<close>

definition sb_inv :: "strbuf \<Rightarrow> bool" where
  "sb_inv buf \<longleftrightarrow>
     sb_length buf < length (sb_mem buf) \<and> length (sb_mem buf) \<le> sb_capacity buf \<and>
     sb_capacity buf \<le> SIZE_MAX \<and> sb_mem buf ! sb_length buf = NUL"

lemma length_poke: "i \<le> length mem \<Longrightarrow> length (poke mem i s) = max (length mem) (i + length s)"
  by (auto simp: poke_def)

lemma take_poke: "i \<le> length mem \<Longrightarrow> take (i + length s) (poke mem i s) = take i mem @ s"
  by (simp add: poke_def)

lemma poke_poke:
  assumes "i \<le> length mem"
  shows "poke (poke mem i s) (i + length s) t = poke mem i (s @ t)"
  using assms by (simp add: poke_def min_absorb2 ac_simps)

lemma length_sb_contents: "sb_inv buf \<Longrightarrow> length (sb_contents buf) = sb_length buf"
  by (simp add: sb_inv_def sb_contents_def)

lemma ensure_capacity_correct:
  assumes inv: "sb_inv buf" and n: "n \<le> SIZE_MAX"
  shows "sb_length buf + n < SIZE_MAX \<Longrightarrow>
           \<exists>cap. strbuf_ensure_capacity buf n = Some (buf\<lparr>sb_capacity := cap\<rparr>) \<and>
                 sb_capacity buf \<le> cap \<and> sb_length buf + n < cap \<and> cap \<le> SIZE_MAX"
    and "\<not> sb_length buf + n < SIZE_MAX \<Longrightarrow> strbuf_ensure_capacity buf n = None"
proof -
  have len: "sb_length buf \<le> SIZE_MAX" and cap: "0 < sb_capacity buf" "sb_capacity buf \<le> SIZE_MAX"
    using inv by (auto simp: sb_inv_def)
  have one: "1 \<le> SIZE_MAX"
    by (simp add: SIZE_MAX_def)
  show "\<exists>cap. strbuf_ensure_capacity buf n = Some (buf\<lparr>sb_capacity := cap\<rparr>) \<and>
          sb_capacity buf \<le> cap \<and> sb_length buf + n < cap \<and> cap \<le> SIZE_MAX"
    if "sb_length buf + n < SIZE_MAX"
  proof -
    have needed: "Suc (sb_length buf + n) \<le> SIZE_MAX"
      using that by simp
    obtain r where "grow_cap (sb_capacity buf) (Suc (sb_length buf + n)) = Some r"
      "Suc (sb_length buf + n) \<le> r" "sb_capacity buf \<le> r" "r \<le> SIZE_MAX"
      by (rule grow_cap_correct [OF cap needed])
    then show ?thesis
      using len n one that cap
      by (auto simp: strbuf_ensure_capacity_def checked_add_exact intro: exI [of _ "sb_capacity buf"])
  qed
  show "strbuf_ensure_capacity buf n = None" if "\<not> sb_length buf + n < SIZE_MAX"
    using that len n one by (auto simp: strbuf_ensure_capacity_def checked_add_exact)
qed

lemma append_bytes_eq:
  assumes inv: "sb_inv buf" and fits: "sb_length buf + length s < SIZE_MAX"
  obtains buf' where "strbuf_append_bytes buf s = Some buf'" "sb_inv buf'"
    "sb_contents buf' = sb_contents buf @ s"
proof -
  obtain cap where cap: "strbuf_ensure_capacity buf (length s) = Some (buf\<lparr>sb_capacity := cap\<rparr>)"
    "sb_capacity buf \<le> cap" "sb_length buf + length s < cap" "cap \<le> SIZE_MAX"
    using ensure_capacity_correct(1) [OF inv _ fits] fits by auto
  have len: "sb_length buf \<le> length (sb_mem buf)" "length (sb_mem buf) \<le> sb_capacity buf"
    using inv by (simp_all add: sb_inv_def)
  let ?mem = "poke (sb_mem buf) (sb_length buf) (s @ [NUL])"
  let ?buf = "buf\<lparr>sb_capacity := cap, sb_mem := ?mem, sb_length := sb_length buf + length s\<rparr>"
  have "strbuf_append_bytes buf s = Some ?buf"
    using cap(1) len(1) by (simp add: strbuf_append_bytes_def poke_poke)
  moreover have "sb_inv ?buf"
    using len cap by (auto simp: sb_inv_def length_poke) (simp add: poke_def nth_append)
  moreover have "sb_contents ?buf = sb_contents buf @ s"
    using len(1) by (simp add: sb_contents_def poke_def)
  ultimately show ?thesis by (rule that)
qed

lemma append_byte_bytes: "strbuf_append_byte buf c = strbuf_append_bytes buf [c]"
  by (simp add: strbuf_append_byte_def strbuf_append_bytes_def)

lemma append_bytes_fails:
  assumes "sb_inv buf" "length s \<le> SIZE_MAX" "\<not> sb_length buf + length s < SIZE_MAX"
  shows "strbuf_append_bytes buf s = None"
  using ensure_capacity_correct(2) [OF assms] by (simp add: strbuf_append_bytes_def)

lemma strbuf_init_inv: "sb_inv strbuf_init" "sb_contents strbuf_init = []"
  by (simp_all add: strbuf_init_def strbuf_init_with_capacity_def sb_inv_def sb_contents_def
      STRBUF_INITIAL_CAP_def SIZE_MAX_def NUL_def)

lemma strbuf_clear_inv: "sb_inv buf \<Longrightarrow> sb_inv (strbuf_clear buf) \<and> sb_contents (strbuf_clear buf) = []"
  by (auto simp: strbuf_clear_def sb_inv_def sb_contents_def length_poke) (simp_all add: poke_def)

interpretation sb: growable sb_inv sb_contents strbuf_append_byte "SIZE_MAX - 1"
proof
  fix b and c :: char
  assume inv: "sb_inv b" and "Suc (length (sb_contents b)) \<le> SIZE_MAX - 1"
  then have "sb_length b + length [c] < SIZE_MAX"
    by (simp add: length_sb_contents)
  with inv show "\<exists>b'. strbuf_append_byte b c = Some b'"
    by (metis append_byte_bytes append_bytes_eq)
next
  fix b b' and c :: char
  assume inv: "sb_inv b" and app: "strbuf_append_byte b c = Some b'"
  then have "sb_length b + length [c] < SIZE_MAX"
    using append_bytes_fails [OF inv, of "[c]"] by (auto simp: append_byte_bytes SIZE_MAX_def)
  from append_bytes_eq [OF inv this] app
  show "sb_inv b'" "sb_contents b' = sb_contents b @ [c]"
    by (metis append_byte_bytes option.inject)+
qed

subsection \<open>Any sequence of operations\<close>

datatype sb_op = Sb_byte char | Sb_bytes string | Sb_str string | Sb_printf "string option" | Sb_clear

fun sb_apply :: "strbuf \<Rightarrow> sb_op \<Rightarrow> strbuf option" where
  "sb_apply b (Sb_byte c) = strbuf_append_byte b c"
| "sb_apply b (Sb_bytes s) = strbuf_append_bytes b s"
| "sb_apply b (Sb_str s) = strbuf_append_str b s"
| "sb_apply b (Sb_printf f) = strbuf_append_printf b f"
| "sb_apply b Sb_clear = Some (strbuf_clear b)"

fun text_apply :: "string \<Rightarrow> sb_op \<Rightarrow> string" where
  "text_apply t (Sb_byte c) = t @ [c]"
| "text_apply t (Sb_bytes s) = t @ s"
| "text_apply t (Sb_str s) = t @ takeWhile (\<lambda>c. c \<noteq> NUL) s"
| "text_apply t (Sb_printf f) = t @ (case f of None \<Rightarrow> [] | Some s \<Rightarrow> s)"
| "text_apply t Sb_clear = []"

fun sb_op_size :: "sb_op \<Rightarrow> nat" where
  "sb_op_size (Sb_byte c) = 1"
| "sb_op_size (Sb_bytes s) = length s"
| "sb_op_size (Sb_str s) = length s"
| "sb_op_size (Sb_printf f) = (case f of None \<Rightarrow> 0 | Some s \<Rightarrow> length s)"
| "sb_op_size Sb_clear = 0"

lemma append_printf_bytes: "sb_inv b \<Longrightarrow> strbuf_append_printf b (Some s) = strbuf_append_bytes b s"
proof -
  assume "sb_inv b"
  then have "sb_length b \<le> length (sb_mem b)"
    by (simp add: sb_inv_def)
  then show ?thesis
    by (cases "strbuf_ensure_capacity b (length s)")
       (auto simp: strbuf_append_printf_def strbuf_append_bytes_def poke_poke strbuf_ensure_capacity_def
          split: if_splits bind_splits)
qed

lemma sb_apply_correct:
  assumes inv: "sb_inv b" and fits: "length (sb_contents b) + sb_op_size x < SIZE_MAX"
  shows "\<exists>b'. sb_apply b x = Some b' \<and> sb_inv b' \<and> sb_contents b' = text_apply (sb_contents b) x \<and>
              length (sb_contents b') \<le> length (sb_contents b) + sb_op_size x"
proof -
  have bytes: "\<exists>b'. strbuf_append_bytes b s = Some b' \<and> sb_inv b' \<and> sb_contents b' = sb_contents b @ s"
    if "length s \<le> sb_op_size x" for s
    using that fits append_bytes_eq [OF inv, of s] by (auto simp: length_sb_contents [OF inv])
  show ?thesis
  proof (cases x)
    case (Sb_byte c)
    with bytes [of "[c]"] show ?thesis by (auto simp: append_byte_bytes)
  next
    case (Sb_bytes s)
    with bytes [of s] show ?thesis by auto
  next
    case (Sb_str s)
    with bytes [of "takeWhile (\<lambda>c. c \<noteq> NUL) s"] show ?thesis
      by (auto simp: strbuf_append_str_def length_takeWhile_le)
  next
    case (Sb_printf f)
    show ?thesis
    proof (cases f)
      case None
      with Sb_printf inv show ?thesis by (simp add: strbuf_append_printf_def)
    next
      case (Some s)
      with Sb_printf bytes [of s] inv show ?thesis
        by (auto simp: append_printf_bytes [OF inv])
    qed
  next
    case Sb_clear
    with inv strbuf_clear_inv show ?thesis by auto
  qed
qed

lemma foldM_sb_apply:
  "sb_inv b \<Longrightarrow> length (sb_contents b) + sum_list (map sb_op_size ops) < SIZE_MAX \<Longrightarrow>
   \<exists>b'. foldM sb_apply b ops = Some b' \<and> sb_inv b' \<and> sb_contents b' = foldl text_apply (sb_contents b) ops"
proof (induction ops arbitrary: b)
  case Nil
  then show ?case by simp
next
  case (Cons x ops)
  then obtain b1 where b1: "sb_apply b x = Some b1" "sb_inv b1"
    "sb_contents b1 = text_apply (sb_contents b) x"
    "length (sb_contents b1) \<le> length (sb_contents b) + sb_op_size x"
    using sb_apply_correct [of b x] by auto
  with Cons.IH [of b1] Cons.prems(2) show ?case by auto
qed

text \<open>
  C23. A string buffer holds the text appended to it: for every sequence of appends (bytes, C
  strings, formatted text) and clears that stays below the size a \<^verbatim>\<open>size_t\<close> can hold, no operation
  aborts, the contents are what appending to a list gives, every byte lies inside the allocation
  and a NUL stands behind the contents.
\<close>

theorem strbuf_refines_text:
  assumes "sum_list (map sb_op_size ops) < SIZE_MAX"
  shows "\<exists>b. foldM sb_apply strbuf_init ops = Some b \<and> sb_contents b = foldl text_apply [] ops \<and>
     length (sb_mem b) \<le> sb_capacity b \<and> sb_mem b ! sb_length b = NUL"
  using foldM_sb_apply [OF strbuf_init_inv(1), of ops] assms
  by (auto simp: strbuf_init_inv(2) sb_inv_def)

lemma strbuf_refines_text_witness:
  "\<exists>b. foldM sb_apply strbuf_init [Sb_str ''ab'', Sb_clear, Sb_bytes ''cd'', Sb_byte CHR ''e''] = Some b \<and>
     sb_contents b = ''cde'' \<and> length (sb_mem b) \<le> sb_capacity b \<and> sb_mem b ! sb_length b = NUL"
  using strbuf_refines_text [of "[Sb_str ''ab'', Sb_clear, Sb_bytes ''cd'', Sb_byte CHR ''e'']"]
  by (simp add: SIZE_MAX_def)

end
