(* ===== verification/Plist.thy ===== *)
theory Plist
  imports Growable Strbuf
begin

text \<open>
  \<^verbatim>\<open>src/foundation/plist.c\<close>: the growable list of pointers, and \<^verbatim>\<open>src/foundation/arena.c\<close>:
  the bump allocator of AST nodes. As in the string buffer, \<open>pl_contents\<close> holds the cells
  written so far, so what a removal or a clear leaves behind stays visible.
\<close>

subsection \<open>Pointer lists\<close>

record 'a plist =
  pl_contents :: "'a list"
  pl_length :: nat
  pl_capacity :: nat

definition PLIST_INITIAL_CAP :: nat where
  "PLIST_INITIAL_CAP = 16"

definition PTR_SIZE :: nat where
  "PTR_SIZE = 8"

definition plist_init :: "'a plist" where
  "plist_init = \<lparr>pl_contents = [], pl_length = 0, pl_capacity = PLIST_INITIAL_CAP\<rparr>"

definition plist_destroy :: "'a plist \<Rightarrow> 'a plist" where
  "plist_destroy pl = \<lparr>pl_contents = [], pl_length = 0, pl_capacity = 0\<rparr>"

definition plist_grow :: "'a plist \<Rightarrow> 'a plist option" where
  "plist_grow pl =
     do { new_cap \<leftarrow> checked_mul (pl_capacity pl) 2;
          byte_size \<leftarrow> checked_mul new_cap PTR_SIZE;
          Some (pl\<lparr>pl_capacity := new_cap\<rparr>) }"

definition plist_add :: "'a plist \<Rightarrow> 'a \<Rightarrow> 'a plist option" where
  "plist_add pl ptr =
     do { pl \<leftarrow> (if pl_length pl \<ge> pl_capacity pl then plist_grow pl else Some pl);
          Some (pl\<lparr>pl_contents := poke (pl_contents pl) (pl_length pl) [ptr],
                   pl_length := pl_length pl + 1\<rparr>) }"

text \<open>\<^verbatim>\<open>plist_remove\<close> asks for an index in range; outside it the \<^verbatim>\<open>memmove\<close> length wraps and the
  behaviour is undefined, which is \<open>None\<close>.\<close>

definition plist_remove :: "'a plist \<Rightarrow> nat \<Rightarrow> ('a \<times> 'a plist) option" where
  "plist_remove pl index =
     (if index \<ge> pl_length pl then None
      else
        (let removed = pl_contents pl ! index;
             tail = pl_length pl - index - 1;
             contents = (if tail > 0
               then poke (pl_contents pl) index (take tail (drop (index + 1) (pl_contents pl)))
               else pl_contents pl)
         in Some (removed, pl\<lparr>pl_contents := contents, pl_length := pl_length pl - 1\<rparr>)))"

definition plist_clear :: "'a plist \<Rightarrow> 'a plist" where
  "plist_clear pl = pl\<lparr>pl_length := 0\<rparr>"

definition plist_items :: "'a plist \<Rightarrow> 'a list" where
  "plist_items pl = take (pl_length pl) (pl_contents pl)"

definition plist_inv :: "'a plist \<Rightarrow> bool" where
  "plist_inv pl \<longleftrightarrow> pl_length pl \<le> length (pl_contents pl) \<and>
     length (pl_contents pl) \<le> pl_capacity pl \<and> 0 < pl_capacity pl \<and>
     pl_capacity pl * PTR_SIZE \<le> SIZE_MAX"

lemma plist_init_inv: "plist_inv plist_init" "plist_items plist_init = []"
  by (simp_all add: plist_inv_def plist_init_def plist_items_def PLIST_INITIAL_CAP_def PTR_SIZE_def
      SIZE_MAX_def)

lemma plist_add_correct:
  assumes inv: "plist_inv pl"
  shows "plist_add pl x = Some pl' \<Longrightarrow> plist_inv pl' \<and> plist_items pl' = plist_items pl @ [x]"
    and "pl_length pl < SIZE_MAX div 16 \<Longrightarrow> \<exists>pl'. plist_add pl x = Some pl'"
proof -
  have cap: "pl_capacity pl \<le> SIZE_MAX" "2 \<le> SIZE_MAX" "PTR_SIZE \<le> SIZE_MAX"
    using inv by (auto simp: plist_inv_def PTR_SIZE_def SIZE_MAX_def)
  show "plist_inv pl' \<and> plist_items pl' = plist_items pl @ [x]" if add: "plist_add pl x = Some pl'"
  proof (cases "pl_length pl < pl_capacity pl")
    case True
    with add inv show ?thesis
      by (auto simp: plist_add_def plist_inv_def plist_items_def length_poke)
         (simp add: poke_def)
  next
    case False
    with add cap inv have fits: "pl_capacity pl * 2 \<le> SIZE_MAX" "pl_capacity pl * 2 * PTR_SIZE \<le> SIZE_MAX"
      and pl': "pl' = pl\<lparr>pl_capacity := pl_capacity pl * 2,
         pl_contents := poke (pl_contents pl) (pl_length pl) [x], pl_length := pl_length pl + 1\<rparr>"
      by (auto simp: plist_add_def plist_grow_def checked_mul_exact split: if_splits)
    with False inv show ?thesis
      by (auto simp: plist_inv_def plist_items_def length_poke) (simp add: poke_def)
  qed
  show "\<exists>pl'. plist_add pl x = Some pl'" if "pl_length pl < SIZE_MAX div 16"
  proof (cases "pl_length pl < pl_capacity pl")
    case False
    then have "pl_capacity pl < SIZE_MAX div 16"
      using that by simp
    then have "pl_capacity pl * 2 \<le> SIZE_MAX" "pl_capacity pl * 2 * PTR_SIZE \<le> SIZE_MAX"
      by (simp_all add: SIZE_MAX_def PTR_SIZE_def)
    with False cap show ?thesis
      by (simp add: plist_add_def plist_grow_def checked_mul_exact)
  qed (simp add: plist_add_def)
qed

interpretation pl: growable plist_inv plist_items plist_add "SIZE_MAX div 16"
proof
  fix b :: "'b plist" and x :: 'b
  assume inv: "plist_inv b" and "Suc (length (plist_items b)) \<le> SIZE_MAX div 16"
  then have "pl_length b < SIZE_MAX div 16"
    by (simp add: plist_inv_def plist_items_def)
  with inv show "\<exists>b'. plist_add b x = Some b'"
    by (rule plist_add_correct(2))
qed (simp_all add: plist_add_correct(1))

lemma plist_remove_correct:
  assumes inv: "plist_inv pl" and i: "i < length (plist_items pl)"
  obtains pl' where "plist_remove pl i = Some (plist_items pl ! i, pl')" "plist_inv pl'"
    "plist_items pl' = take i (plist_items pl) @ drop (Suc i) (plist_items pl)"
proof -
  have len: "i < pl_length pl" "pl_length pl \<le> length (pl_contents pl)"
    using inv i by (simp_all add: plist_inv_def plist_items_def)
  define xs where "xs = take (pl_length pl - i - 1) (drop (i + 1) (pl_contents pl))"
  define mem where "mem = (if pl_length pl - i - 1 > 0 then poke (pl_contents pl) i xs else pl_contents pl)"
  let ?pl = "pl\<lparr>pl_contents := mem, pl_length := pl_length pl - 1\<rparr>"
  have xs: "length xs = pl_length pl - i - 1"
    using len by (simp add: xs_def)
  have mem_len: "length mem = length (pl_contents pl)"
    using len xs by (auto simp: mem_def length_poke)
  have "plist_remove pl i = Some (plist_items pl ! i, ?pl)"
    using len by (simp add: plist_remove_def mem_def xs_def plist_items_def Let_def)
  moreover have "plist_inv ?pl"
    using inv len mem_len by (auto simp: plist_inv_def)
  moreover have "plist_items ?pl = take i (plist_items pl) @ drop (Suc i) (plist_items pl)"
  proof (cases "pl_length pl - i - 1 > 0")
    case True
    have "take (i + length xs) (poke (pl_contents pl) i xs) = take i (pl_contents pl) @ xs"
      using len by (simp add: take_poke)
    with True len xs show ?thesis
      by (simp add: plist_items_def mem_def xs_def drop_take min_def)
  next
    case False
    then have "pl_length pl = Suc i"
      using len by simp
    then show ?thesis
      by (simp add: plist_items_def mem_def)
  qed
  ultimately show ?thesis by (rule that)
qed

subsection \<open>The arena\<close>

record arena_block =
  blk_used :: nat
  blk_capacity :: nat

text \<open>The blocks in list order; the last one is \<^verbatim>\<open>current\<close>.\<close>

type_synonym arena = "arena_block list"

definition ARENA_BLOCK_SIZE :: nat where
  "ARENA_BLOCK_SIZE = 4096"

definition arena_new_block :: "nat \<Rightarrow> arena_block" where
  "arena_new_block min_size =
     \<lparr>blk_used = 0,
      blk_capacity = (if min_size > ARENA_BLOCK_SIZE then min_size else ARENA_BLOCK_SIZE)\<rparr>"

definition arena_init :: arena where
  "arena_init = [arena_new_block 0]"

text \<open>\<^verbatim>\<open>(size + 7) & ~(size_t)7\<close>, in \<^verbatim>\<open>size_t\<close>.\<close>

definition arena_round :: "nat \<Rightarrow> nat" where
  "arena_round nbytes = ((nbytes + 7) mod 2 ^ 64) div 8 * 8"

text \<open>The result is the block's index and the offset in it.\<close>

definition arena_alloc :: "arena \<Rightarrow> nat \<Rightarrow> (nat \<times> nat) \<times> arena" where
  "arena_alloc a nbytes =
     (let nbytes = arena_round nbytes;
          b = last a;
          a = (if (blk_used b + nbytes) mod 2 ^ 64 > blk_capacity b
               then a @ [arena_new_block nbytes] else a);
          b = last a
      in ((length a - 1, blk_used b), butlast a @ [b\<lparr>blk_used := (blk_used b + nbytes) mod 2 ^ 64\<rparr>]))"

definition arena_strndup :: "arena \<Rightarrow> string \<Rightarrow> nat \<Rightarrow> (nat \<times> nat) \<times> arena \<times> string" where
  "arena_strndup a s len =
     (let (ptr, a) = arena_alloc a (len + 1) in (ptr, a, take len s @ [NUL]))"

definition arena_inv :: "arena \<Rightarrow> bool" where
  "arena_inv a \<longleftrightarrow> a \<noteq> [] \<and>
     (\<forall>b \<in> set a. blk_used b \<le> blk_capacity b \<and> 8 dvd blk_used b \<and> blk_capacity b < 2 ^ 63)"

lemma arena_round_bounds:
  assumes "nbytes + 7 < 2 ^ 64"
  shows "nbytes \<le> arena_round nbytes" "arena_round nbytes < nbytes + 8" "8 dvd arena_round nbytes"
  using assms by (simp_all add: arena_round_def)

text \<open>What an allocation promises: an aligned range inside a block, behind everything handed out.\<close>

lemma arena_alloc_correct:
  assumes inv: "arena_inv a" and nbytes: "nbytes < 2 ^ 62" and res: "arena_alloc a nbytes = ((i, off), a')"
  shows "arena_inv a'" "i < length a'" "8 dvd off" "off + nbytes \<le> blk_used (a' ! i)"
    "blk_used (a' ! i) \<le> blk_capacity (a' ! i)" "i < length a \<Longrightarrow> blk_used (a ! i) \<le> off"
    "\<And>j. j < length a \<Longrightarrow> blk_used (a ! j) \<le> blk_used (a' ! j)"
proof -
  define sz where "sz = arena_round nbytes"
  have sz: "nbytes \<le> sz" "sz < 2 ^ 62 + 8" "8 dvd sz"
    using arena_round_bounds [of nbytes] nbytes by (auto simp: sz_def)
  obtain bs b where a: "a = bs @ [b]"
    using inv by (metis arena_inv_def append_butlast_last_id)
  have b: "blk_used b \<le> blk_capacity b" "8 dvd blk_used b" "blk_capacity b < 2 ^ 63"
    using inv by (auto simp: a arena_inv_def)
  have small: "(blk_used b + sz) mod 2 ^ 64 = blk_used b + sz"
    using b sz by simp
  have "arena_inv a' \<and> i < length a' \<and> 8 dvd off \<and> off + nbytes \<le> blk_used (a' ! i) \<and>
        blk_used (a' ! i) \<le> blk_capacity (a' ! i) \<and> (i < length a \<longrightarrow> blk_used (a ! i) \<le> off) \<and>
        (\<forall>j < length a. blk_used (a ! j) \<le> blk_used (a' ! j))"
  proof (cases "blk_used b + sz > blk_capacity b")
    case True
    let ?b = "arena_new_block sz"
    have cap: "sz \<le> blk_capacity ?b" "blk_capacity ?b < 2 ^ 63" "blk_used ?b = 0" "sz mod 2 ^ 64 = sz"
      using sz by (auto simp: arena_new_block_def ARENA_BLOCK_SIZE_def)
    have "i = length a" "off = 0" "a' = a @ [?b\<lparr>blk_used := sz\<rparr>]"
      using res True small cap
      by (auto simp: arena_alloc_def sz_def [symmetric] a Let_def butlast_append)
    with inv cap sz show ?thesis
      by (auto simp: arena_inv_def nth_append)
  next
    case False
    have "i = length bs" "off = blk_used b" "a' = bs @ [b\<lparr>blk_used := blk_used b + sz\<rparr>]"
      using res False small by (auto simp: arena_alloc_def sz_def [symmetric] a Let_def)
    with inv b sz False show ?thesis
      by (auto simp: arena_inv_def a nth_append less_Suc_eq)
  qed
  then show "arena_inv a'" "i < length a'" "8 dvd off" "off + nbytes \<le> blk_used (a' ! i)"
    "blk_used (a' ! i) \<le> blk_capacity (a' ! i)" "i < length a \<Longrightarrow> blk_used (a ! i) \<le> off"
    "\<And>j. j < length a \<Longrightarrow> blk_used (a ! j) \<le> blk_used (a' ! j)"
    by blast+
qed

text \<open>Handing out blocks in sequence: each allocation with the size it was asked for.\<close>

fun arena_allocs :: "arena \<Rightarrow> nat list \<Rightarrow> (nat \<times> nat \<times> nat) list \<times> arena" where
  "arena_allocs a [] = ([], a)"
| "arena_allocs a (n # ns) =
     (let ((i, off), a) = arena_alloc a n; (ps, a) = arena_allocs a ns in ((i, off, n) # ps, a))"

definition apart :: "nat \<times> nat \<times> nat \<Rightarrow> nat \<times> nat \<times> nat \<Rightarrow> bool" where
  "apart p q \<longleftrightarrow> fst p \<noteq> fst q \<or> fst (snd p) + snd (snd p) \<le> fst (snd q) \<or>
     fst (snd q) + snd (snd q) \<le> fst (snd p)"

definition inside :: "arena \<Rightarrow> nat \<times> nat \<times> nat \<Rightarrow> bool" where
  "inside a p \<longleftrightarrow> fst p < length a \<and> 8 dvd fst (snd p) \<and>
     fst (snd p) + snd (snd p) \<le> blk_capacity (a ! fst p)"

lemma arena_alloc_length:
  assumes inv: "arena_inv a" and n: "n < 2 ^ 62" and res: "arena_alloc a n = (p, a')"
  shows "length a \<le> length a'" "\<And>j. j < length a \<Longrightarrow> blk_capacity (a' ! j) = blk_capacity (a ! j)"
proof -
  obtain bs b where a: "a = bs @ [b]"
    using inv by (metis arena_inv_def append_butlast_last_id)
  show "length a \<le> length a'"
    using res by (auto simp: arena_alloc_def a Let_def split: if_splits)
  show "blk_capacity (a' ! j) = blk_capacity (a ! j)" if "j < length a" for j
    using res that by (auto simp: arena_alloc_def a Let_def nth_append less_Suc_eq butlast_append
        split: if_splits)
qed

lemma arena_allocs_correct:
  "arena_inv a \<Longrightarrow> \<forall>n \<in> set ns. n < 2 ^ 62 \<Longrightarrow> arena_allocs a ns = (ps, a') \<Longrightarrow>
   arena_inv a' \<and> length a \<le> length a' \<and>
   (\<forall>j < length a. blk_used (a ! j) \<le> blk_used (a' ! j) \<and> blk_capacity (a' ! j) = blk_capacity (a ! j)) \<and>
   list_all (inside a') ps \<and>
   (\<forall>p \<in> set ps. fst p < length a \<longrightarrow> blk_used (a ! fst p) \<le> fst (snd p)) \<and>
   (\<forall>i < length ps. \<forall>j < i. apart (ps ! j) (ps ! i))"
proof (induction ns arbitrary: a ps)
  case Nil
  then show ?case by simp
next
  case (Cons n ns)
  obtain i off a1 qs where step: "arena_alloc a n = ((i, off), a1)" "arena_allocs a1 ns = (qs, a')"
    "ps = (i, off, n) # qs"
    using Cons.prems(3) by (auto simp: Let_def split: prod.splits)
  have n: "n < 2 ^ 62" "\<forall>n \<in> set ns. n < 2 ^ 62"
    using Cons.prems(2) by simp_all
  note one = arena_alloc_correct [OF Cons.prems(1) n(1) step(1)]
  note len = arena_alloc_length [OF Cons.prems(1) n(1) step(1)]
  note rest = Cons.IH [OF one(1) n(2) step(2)]
  have first: "inside a' (i, off, n)"
    using rest one by (auto simp: inside_def)
  have away: "apart (i, off, n) q" if "q \<in> set qs" for q
    using that rest one(2,4) by (fastforce simp: apart_def)
  have pairs: "apart (ps ! j) (ps ! k)" if "k < length ps" "j < k" for j k
    using that rest away by (cases k; cases j) (auto simp: step(3))
  have behind: "blk_used (a ! fst p) \<le> fst (snd p)" if "p \<in> set ps" "fst p < length a" for p
    using that rest one(6,7) len(1) by (fastforce simp: step(3))
  have mono: "blk_used (a ! j) \<le> blk_used (a' ! j) \<and> blk_capacity (a' ! j) = blk_capacity (a ! j)"
    if "j < length a" for j
    using rest [THEN conjunct2, THEN conjunct2, THEN conjunct1, rule_format, of j]
      one(7) [OF that] less_le_trans [OF that len(1)] len(2) [OF that] by simp
  show ?case
    using rest first pairs behind mono len(1) by (simp add: step(3))
qed

text \<open>
  C24. The arena hands out disjoint memory: for any sequence of requests to a new arena, every
  allocation is 8-byte aligned, lies wholly inside its block, and overlaps no other allocation.
\<close>

theorem arena_allocs_disjoint:
  assumes "\<forall>n \<in> set ns. n < 2 ^ 62" "arena_allocs arena_init ns = (ps, a)"
  shows "list_all (inside a) ps \<and> (\<forall>i < length ps. \<forall>j < i. apart (ps ! j) (ps ! i))"
proof -
  have "arena_inv arena_init"
    by (simp add: arena_inv_def arena_init_def arena_new_block_def ARENA_BLOCK_SIZE_def)
  from arena_allocs_correct [OF this assms] show ?thesis
    by simp
qed

lemma arena_allocs_disjoint_witness:
  "\<exists>a. arena_allocs arena_init [5, 4096, 9] = ([(0, 0, 5), (1, 0, 4096), (2, 0, 9)], a) \<and>
     list_all (inside a) [(0, 0, 5), (1, 0, 4096), (2, 0, 9)] \<and> apart (0, 0, 5) (2, 0, 9)"
proof -
  let ?b = "\<lambda>used. \<lparr>blk_used = used, blk_capacity = 4096\<rparr>"
  let ?a = "[?b 8, ?b 4096, ?b 16]"
  have "arena_alloc arena_init 5 = ((0, 0), [?b 8])"
    by (simp add: arena_init_def arena_new_block_def arena_alloc_def arena_round_def ARENA_BLOCK_SIZE_def)
  moreover have "arena_alloc [?b 8] 4096 = ((1, 0), [?b 8, ?b 4096])"
    by (simp add: arena_new_block_def arena_alloc_def arena_round_def ARENA_BLOCK_SIZE_def)
  moreover have "arena_alloc [?b 8, ?b 4096] 9 = ((2, 0), ?a)"
    by (simp add: arena_new_block_def arena_alloc_def arena_round_def ARENA_BLOCK_SIZE_def)
  ultimately have run: "arena_allocs arena_init [5, 4096, 9] = ([(0, 0, 5), (1, 0, 4096), (2, 0, 9)], ?a)"
    by simp
  have "\<forall>n \<in> set [5, 4096, 9]. n < (2 ^ 62 :: nat)"
    by simp
  note both = arena_allocs_disjoint [OF this run]
  from both [THEN conjunct2, rule_format, of 2 0] both [THEN conjunct1] run show ?thesis
    by (intro exI [of _ ?a] conjI) simp_all
qed

text \<open>
  C25. Removing from a pointer list returns the element at the index and closes the gap: what was
  added is the list of the elements in order, without the one removed, and the \<^verbatim>\<open>memmove\<close> stays
  inside the allocation.
\<close>

theorem plist_remove_closes_gap:
  assumes "foldM plist_add plist_init xs = Some pl" "i < length xs"
  shows "\<exists>pl'. plist_remove pl i = Some (xs ! i, pl') \<and>
     plist_items pl' = take i xs @ drop (Suc i) xs \<and> length (pl_contents pl') \<le> pl_capacity pl'"
proof -
  have "plist_inv pl" "plist_items pl = xs"
    using pl.append_all_partial [OF plist_init_inv(1) assms(1)] by (simp_all add: plist_init_inv(2))
  with assms(2) show ?thesis
    using plist_remove_correct [of pl i] by (metis plist_inv_def)
qed

lemma plist_remove_closes_gap_witness:
  "\<exists>pl. foldM plist_add plist_init [10, 20, 30 :: nat] = Some pl \<and>
     (\<exists>pl'. plist_remove pl 1 = Some (20, pl') \<and> plist_items pl' = [10, 30] \<and>
            length (pl_contents pl') \<le> pl_capacity pl')"
proof -
  obtain pl where pl: "foldM plist_add plist_init [10, 20, 30 :: nat] = Some pl"
    by (simp add: plist_add_def plist_init_def PLIST_INITIAL_CAP_def)
  from plist_remove_closes_gap [OF pl, of 1] pl show ?thesis
    by (simp add: numeral_eq_Suc)
qed

end
