(* ===== verification/Cstd.thy ===== *)
theory Cstd
  imports Prelude
begin

text \<open>
  The functions of the C library the shell computes with: decimal output (\<^verbatim>\<open>%d\<close>, \<^verbatim>\<open>%zu\<close> and
  \<^verbatim>\<open>PRId64\<close> of \<^verbatim>\<open>snprintf\<close>) and \<^verbatim>\<open>strtoll\<close>, as the C standard defines them. They are not code
  of the repository and have no entry in the map.
\<close>

subsection \<open>Decimal output\<close>

definition digit_char :: "nat \<Rightarrow> char" where
  "digit_char d = char_of (48 + d)"

fun show_nat :: "nat \<Rightarrow> string" where
  "show_nat n = (if n < 10 then [digit_char n] else show_nat (n div 10) @ [digit_char (n mod 10)])"

declare show_nat.simps [simp del]

definition show_int :: "int \<Rightarrow> string" where
  "show_int i = (if i < 0 then CHR ''-'' # show_nat (nat (- i)) else show_nat (nat i))"

subsection \<open>Decimal, octal and hexadecimal input\<close>

text \<open>\<^verbatim>\<open>c >= lo && c <= hi\<close>.\<close>

definition between :: "char \<Rightarrow> char \<Rightarrow> char \<Rightarrow> bool" where
  "between lo hi c \<longleftrightarrow> of_char lo \<le> (of_char c :: nat) \<and> of_char c \<le> (of_char hi :: nat)"

definition is_space :: "char \<Rightarrow> bool" where
  "is_space c \<longleftrightarrow> c \<in> {CHR '' '', CHR 0x09, CHR 0x0A, CHR 0x0B, CHR 0x0C, CHR 0x0D}"

definition digit_val :: "char \<Rightarrow> nat option" where
  "digit_val c =
     (let n = of_char c in
      if 48 \<le> n \<and> n \<le> 57 then Some (n - 48)
      else if 97 \<le> n \<and> n \<le> 122 then Some (n - 97 + 10)
      else if 65 \<le> n \<and> n \<le> 90 then Some (n - 65 + 10)
      else None)"

definition is_digit_of :: "nat \<Rightarrow> char \<Rightarrow> bool" where
  "is_digit_of base c = (case digit_val c of None \<Rightarrow> False | Some d \<Rightarrow> d < base)"

definition number_of :: "nat \<Rightarrow> string \<Rightarrow> nat" where
  "number_of base ds = foldl (\<lambda>n c. n * base + the (digit_val c)) 0 ds"

text \<open>Out of range, \<^verbatim>\<open>strtoll\<close> returns the limit on that side.\<close>

definition clamp64 :: "int \<Rightarrow> int" where
  "clamp64 i = max INT64_MIN (min INT64_MAX i)"

text \<open>The base and the length of its prefix, for base 0.\<close>

definition base_prefix :: "nat \<Rightarrow> string \<Rightarrow> nat \<times> nat" where
  "base_prefix base s =
     (if base \<noteq> 0 then (base, 0)
      else if peek s 0 = CHR ''0'' \<and> (peek s 1 = CHR ''x'' \<or> peek s 1 = CHR ''X'')
              \<and> is_digit_of 16 (peek s 2) then (16, 2)
      else if peek s 0 = CHR ''0'' then (8, 0)
      else (10, 0))"

text \<open>The value and the number of characters read; none are read where no digit follows.\<close>

definition strtoll :: "nat \<Rightarrow> string \<Rightarrow> i64 \<times> nat" where
  "strtoll base s =
     (let blanks = length (takeWhile is_space s);
          r = drop blanks s;
          sign = (if peek r 0 = CHR ''-'' \<or> peek r 0 = CHR ''+'' then 1 else 0);
          neg = (peek r 0 = CHR ''-'');
          (b, pre) = base_prefix base (drop sign r);
          ds = takeWhile (is_digit_of b) (drop (sign + pre) r);
          n = int (number_of b ds)
      in if ds = [] then (0, 0)
         else (word_of_int (clamp64 (if neg then - n else n)), blanks + sign + pre + length ds))"

text \<open>\<^verbatim>\<open>atoi\<close> is \<^verbatim>\<open>strtol\<close> cut to an \<^verbatim>\<open>int\<close>.\<close>

definition atoi :: "string \<Rightarrow> int" where
  "atoi s = sint (ucast (fst (strtoll 10 s)) :: 32 word)"

lemma digit_val_digit_char [simp]: "d < 10 \<Longrightarrow> digit_val (digit_char d) = Some d"
  by (simp add: digit_val_def digit_char_def Let_def)

lemma digit_char_not [simp]:
  assumes "d < 10"
  shows "\<not> is_space (digit_char d)" "digit_char d \<noteq> CHR ''-''" "digit_char d \<noteq> CHR ''+''"
    "digit_char d \<noteq> NUL"
proof -
  have "digit_char d \<in> digit_char ` set [0..<10]"
    using assms by auto
  also have "digit_char ` set [0..<10] = set ''0123456789''"
    by (simp add: digit_char_def upt_rec char_of_def bit_0)
  finally have "digit_char d \<in> set ''0123456789''" .
  then show "\<not> is_space (digit_char d)" "digit_char d \<noteq> CHR ''-''" "digit_char d \<noteq> CHR ''+''"
    "digit_char d \<noteq> NUL"
    by (auto simp: is_space_def NUL_def)
qed

lemma show_nat_digits:
  "show_nat n \<noteq> []" "list_all (is_digit_of 10) (show_nat n)" "number_of 10 (show_nat n) = n"
  "\<exists>d ds. show_nat n = digit_char d # ds \<and> d < 10"
proof -
  have "show_nat n \<noteq> [] \<and> list_all (is_digit_of 10) (show_nat n) \<and> number_of 10 (show_nat n) = n \<and>
        (\<exists>d ds. show_nat n = digit_char d # ds \<and> d < 10)"
  proof (induction n rule: show_nat.induct)
    case (1 n)
    show ?case
    proof (cases "n < 10")
      case True
      then have "show_nat n = [digit_char n]"
        by (simp add: show_nat.simps)
      with True show ?thesis
        by (auto simp: number_of_def is_digit_of_def)
    next
      case False
      then have n: "show_nat n = show_nat (n div 10) @ [digit_char (n mod 10)]"
        by (simp add: show_nat.simps)
      obtain d ds where "show_nat (n div 10) = digit_char d # ds" "d < 10"
        using 1 [OF False] by blast
      with 1 [OF False] show ?thesis
        by (simp add: n number_of_def is_digit_of_def)
    qed
  qed
  then show "show_nat n \<noteq> []" "list_all (is_digit_of 10) (show_nat n)"
    "number_of 10 (show_nat n) = n" "\<exists>d ds. show_nat n = digit_char d # ds \<and> d < 10"
    by blast+
qed

lemma show_nat_length: "n < 10 ^ k \<Longrightarrow> 0 < k \<Longrightarrow> length (show_nat n) \<le> k"
proof (induction n arbitrary: k rule: show_nat.induct)
  case (1 n)
  show ?case
  proof (cases "n < 10")
    case True
    with 1 show ?thesis by (simp add: show_nat.simps)
  next
    case False
    with "1.prems" obtain m where k: "k = Suc m" "0 < m"
      by (cases k; cases "k - 1") auto
    then have "n div 10 < 10 ^ m"
      using "1.prems"(1) by (simp add: less_mult_imp_div_less mult.commute)
    from "1.IH" [OF False this k(2)] False show ?thesis
      by (simp add: show_nat.simps [of n] k)
  qed
qed

lemma takeWhile_digits:
  assumes "rest = [] \<or> \<not> is_digit_of 10 (hd rest)"
  shows "takeWhile (is_digit_of 10) (show_nat n @ rest) = show_nat n"
  using show_nat_digits(2) [of n] assms
  by (cases rest) (auto simp: takeWhile_append list_all_iff)

lemma peek_append_Cons [simp]: "peek ((c # s) @ t) 0 = c"
  by simp

lemma show_i64_length: "length (show_int (sint (w :: i64))) \<le> 20"
proof -
  have "nat (sint w) < 10 ^ 19" "nat (- sint w) < 10 ^ 19"
    using sint_ge [of w] sint_lt [of w] by auto
  then have "length (show_nat (nat (sint w))) \<le> 19" "length (show_nat (nat (- sint w))) \<le> 19"
    by (auto intro: show_nat_length)
  then show ?thesis
    by (simp add: show_int_def)
qed

text \<open>What \<^verbatim>\<open>snprintf\<close> wrote, \<^verbatim>\<open>strtoll\<close> reads back, whatever non-digit follows.\<close>

lemma strtoll_show_int:
  assumes range: "INT64_MIN \<le> i" "i \<le> INT64_MAX" and rest: "rest = [] \<or> \<not> is_digit_of 10 (hd rest)"
  shows "strtoll 10 (show_int i @ rest) = (word_of_int i, length (show_int i))"
proof -
  obtain d ds where s: "show_nat (nat (abs i)) = digit_char d # ds" "d < 10"
    using show_nat_digits(4) by metis
  have tw: "takeWhile (is_digit_of 10) (show_nat (nat (abs i)) @ rest) = show_nat (nat (abs i))"
    by (rule takeWhile_digits [OF rest])
  have clamp: "clamp64 i = i"
    using range by (simp add: clamp64_def)
  have num: "int (number_of 10 (show_nat (nat (abs i)))) = abs i"
    by (simp add: show_nat_digits(3))
  show ?thesis
  proof (cases "i < 0")
    case True
    have "show_int i = CHR ''-'' # show_nat (nat (abs i))"
      using True by (simp add: show_int_def)
    then show ?thesis
      using tw clamp num True by (simp add: strtoll_def is_space_def base_prefix_def show_nat_digits(1))
  next
    case False
    have i: "show_int i = show_nat (nat (abs i))"
      using False by (simp add: show_int_def)
    have sp: "takeWhile is_space (show_nat (nat (abs i)) @ rest) = []"
      "peek (show_nat (nat (abs i)) @ rest) 0 \<noteq> CHR ''-''"
      "peek (show_nat (nat (abs i)) @ rest) 0 \<noteq> CHR ''+''"
      using s by (simp_all add: s)
    show ?thesis
      using tw clamp num False sp by (simp add: i strtoll_def base_prefix_def show_nat_digits(1))
  qed
qed

lemma strtoll_show_i64 [simp]: "fst (strtoll 10 (show_int (sint (w :: i64)))) = w"
proof -
  have "INT64_MIN \<le> sint w" "sint w \<le> INT64_MAX"
    using sint_ge [of w] sint_lt [of w] by (simp_all add: INT64_MIN_def INT64_MAX_def)
  then show ?thesis
    using strtoll_show_int [of "sint w" "[]"] by simp
qed

lemma strtoll_consumed: "snd (strtoll base s) \<le> length s"
proof -
  define r where "r = drop (length (takeWhile is_space s)) s"
  have r: "length r = length s - length (takeWhile is_space s)"
    "length (takeWhile is_space s) \<le> length s"
    by (simp_all add: r_def length_takeWhile_le)
  have "k + length (takeWhile P (drop k r)) \<le> length r" if "takeWhile P (drop k r) \<noteq> []" for P k
    using that length_takeWhile_le [of P "drop k r"] by (cases "k < length r") auto
  then have "length (takeWhile is_space s) + k + length (takeWhile P (drop k r)) \<le> length s"
    if "takeWhile P (drop k r) \<noteq> []" for P k
    using that r by (metis add.assoc add_le_mono1 le_diff_conv2 add.commute)
  note within = this
  define sign where "sign = (if peek r 0 = CHR ''-'' \<or> peek r 0 = CHR ''+'' then 1 else 0 :: nat)"
  obtain b pre where bp: "base_prefix base (drop sign r) = (b, pre)"
    by force
  have "snd (strtoll base s) =
     (if takeWhile (is_digit_of b) (drop (sign + pre) r) = [] then 0
      else length (takeWhile is_space s) + sign + pre +
           length (takeWhile (is_digit_of b) (drop (sign + pre) r)))"
    unfolding strtoll_def Let_def r_def [symmetric] sign_def [symmetric] bp by simp
  then show ?thesis
    using within [of "is_digit_of b" "sign + pre"] by (simp add: add.assoc)
qed

subsection \<open>Searching\<close>

text \<open>\<^verbatim>\<open>strstr\<close>: the offset of the first occurrence.\<close>

fun strstr :: "string \<Rightarrow> string \<Rightarrow> nat option" where
  "strstr [] needle = (if needle = [] then Some 0 else None)"
| "strstr (c # s) needle =
     (if take (length needle) (c # s) = needle then Some 0 else map_option Suc (strstr s needle))"

lemma strstr_Some: "strstr s needle = Some i \<Longrightarrow> take (length needle) (drop i s) = needle"
  by (induction s arbitrary: i) (auto split: if_splits)

end
