(* ===== verification/Value.thy ===== *)
theory Value
  imports Cstd "HOL-Library.Multiset"
begin

text \<open>
  \<^verbatim>\<open>src/foundation/rcstr.c\<close> and \<^verbatim>\<open>src/vm/value.c\<close>: reference-counted strings in an explicit heap
  and the tagged values of the machine over them. A pointer is \<open>None\<close> for \<^verbatim>\<open>NULL\<close> or the address
  of a header; an access to a freed address and the overflow of an \<^verbatim>\<open>int\<close> count, which C leaves
  undefined, are \<open>None\<close> results. The ownership theorems show that neither happens to a client that
  owns what it passes, so the later theories may use the value level, \<open>string value_t\<close>, in which a
  value is its text: \<open>value_view\<close> is the map from the one to the other.
\<close>

subsection \<open>Reference-counted strings\<close>

record rcstr_header =
  rc_refcount :: int
  rc_data :: string

record rc_heap =
  rc_cells :: "nat \<rightharpoonup> rcstr_header"
  rc_next :: nat

type_synonym rcstr = "nat option"

definition INT_MAX :: int where
  "INT_MAX = 2 ^ 31 - 1"

definition rcstr_from_buf :: "rc_heap \<Rightarrow> string \<Rightarrow> nat \<Rightarrow> rcstr \<times> rc_heap" where
  "rcstr_from_buf h buf len =
     (Some (rc_next h),
      \<lparr>rc_cells = (rc_cells h)(rc_next h \<mapsto> \<lparr>rc_refcount = 1, rc_data = take len buf\<rparr>),
       rc_next = rc_next h + 1\<rparr>)"

definition rcstr_new :: "rc_heap \<Rightarrow> string \<Rightarrow> rcstr \<times> rc_heap" where
  "rcstr_new h src = rcstr_from_buf h src (length (takeWhile (\<lambda>c. c \<noteq> NUL) src))"

definition rcstr_retain :: "rc_heap \<Rightarrow> rcstr \<Rightarrow> (rcstr \<times> rc_heap) option" where
  "rcstr_retain h s =
     (case s of
        None \<Rightarrow> Some (None, h)
      | Some a \<Rightarrow>
          (case rc_cells h a of
             None \<Rightarrow> None
           | Some c \<Rightarrow>
               if rc_refcount c \<ge> INT_MAX then None
               else Some (s, h\<lparr>rc_cells := (rc_cells h)(a \<mapsto> c\<lparr>rc_refcount := rc_refcount c + 1\<rparr>)\<rparr>)))"

definition rcstr_release :: "rc_heap \<Rightarrow> rcstr \<Rightarrow> rc_heap option" where
  "rcstr_release h s =
     (case s of
        None \<Rightarrow> Some h
      | Some a \<Rightarrow>
          (case rc_cells h a of
             None \<Rightarrow> None
           | Some c \<Rightarrow>
               if rc_refcount c - 1 = 0 then Some (h\<lparr>rc_cells := (rc_cells h)(a := None)\<rparr>)
               else Some (h\<lparr>rc_cells := (rc_cells h)(a \<mapsto> c\<lparr>rc_refcount := rc_refcount c - 1\<rparr>)\<rparr>)))"

text \<open>What a pointer reads: the text of a live string.\<close>

definition rc_text :: "rc_heap \<Rightarrow> rcstr \<Rightarrow> string option" where
  "rc_text h s = (case s of None \<Rightarrow> None | Some a \<Rightarrow> map_option rc_data (rc_cells h a))"

subsection \<open>Values\<close>

datatype 's value_t =
    VT_NONE
  | VT_STRING 's
  | VT_INTEGER i64
  | VT_ARRAY "'s list"
  | VT_ITERATOR "'s list" nat

fun retain_all :: "rc_heap \<Rightarrow> rcstr list \<Rightarrow> (rcstr list \<times> rc_heap) option" where
  "retain_all h [] = Some ([], h)"
| "retain_all h (p # ps) =
     do { (q, h) \<leftarrow> rcstr_retain h p;
          (qs, h) \<leftarrow> retain_all h ps;
          Some (q # qs, h) }"

definition value_destroy :: "rc_heap \<Rightarrow> rcstr value_t \<Rightarrow> (rcstr value_t \<times> rc_heap) option" where
  "value_destroy h v =
     do { h \<leftarrow> (case v of
            VT_STRING s \<Rightarrow> rcstr_release h s
          | VT_ARRAY es \<Rightarrow> foldM rcstr_release h es
          | VT_ITERATOR es pos \<Rightarrow> foldM rcstr_release h es
          | VT_NONE \<Rightarrow> Some h
          | VT_INTEGER i \<Rightarrow> Some h);
          Some (VT_NONE, h) }"

definition value_clone :: "rc_heap \<Rightarrow> rcstr value_t \<Rightarrow> (rcstr value_t \<times> rc_heap) option" where
  "value_clone h v =
     (case v of
        VT_STRING s \<Rightarrow> do { (s, h) \<leftarrow> rcstr_retain h s; Some (VT_STRING s, h) }
      | VT_INTEGER i \<Rightarrow> Some (VT_INTEGER i, h)
      | VT_ARRAY es \<Rightarrow> do { (es, h) \<leftarrow> retain_all h es; Some (VT_ARRAY es, h) }
      | VT_ITERATOR es pos \<Rightarrow> do { (es, h) \<leftarrow> retain_all h es; Some (VT_ITERATOR es pos, h) }
      | VT_NONE \<Rightarrow> Some (VT_NONE, h))"

definition value_to_rcstr :: "rc_heap \<Rightarrow> rcstr value_t \<Rightarrow> (rcstr \<times> rc_heap) option" where
  "value_to_rcstr h v =
     (case v of
        VT_STRING s \<Rightarrow> rcstr_retain h s
      | VT_INTEGER i \<Rightarrow> Some (rcstr_new h (show_int (sint i)))
      | _ \<Rightarrow> Some (rcstr_new h []))"

text \<open>The same conversions on values as texts, the level the machine is modelled at.\<close>

definition value_to_string :: "string value_t \<Rightarrow> string" where
  "value_to_string v =
     (case v of VT_STRING s \<Rightarrow> s | VT_INTEGER i \<Rightarrow> show_int (sint i) | _ \<Rightarrow> [])"

definition value_to_integer :: "string value_t \<Rightarrow> i64" where
  "value_to_integer v =
     (case v of VT_INTEGER i \<Rightarrow> i | VT_STRING s \<Rightarrow> fst (strtoll 10 s) | _ \<Rightarrow> 0)"

subsection \<open>Ownership\<close>

text \<open>The addresses a value owns a reference to, with multiplicity.\<close>

definition ptr_refs :: "rcstr \<Rightarrow> nat multiset" where
  "ptr_refs p = (case p of None \<Rightarrow> {#} | Some a \<Rightarrow> {#a#})"

fun list_refs :: "rcstr list \<Rightarrow> nat multiset" where
  "list_refs [] = {#}"
| "list_refs (p # ps) = ptr_refs p + list_refs ps"

definition value_refs :: "rcstr value_t \<Rightarrow> nat multiset" where
  "value_refs v =
     (case v of VT_STRING s \<Rightarrow> ptr_refs s | VT_ARRAY es \<Rightarrow> list_refs es
      | VT_ITERATOR es pos \<Rightarrow> list_refs es | _ \<Rightarrow> {#})"

text \<open>Every live string has as many owners as its count says, and every owner a live string.\<close>

fun cell_ok :: "rcstr_header option \<Rightarrow> nat \<Rightarrow> bool" where
  "cell_ok None n = (n = 0)"
| "cell_ok (Some c) n = (0 < n \<and> rc_refcount c = int n)"

definition rc_inv :: "rc_heap \<Rightarrow> nat multiset \<Rightarrow> bool" where
  "rc_inv h own \<longleftrightarrow>
     (\<forall>a. cell_ok (rc_cells h a) (count own a)) \<and> (\<forall>a. rc_next h \<le> a \<longrightarrow> rc_cells h a = None)"

lemma rc_invD: "rc_inv h own \<Longrightarrow> cell_ok (rc_cells h a) (count own a)"
  by (simp add: rc_inv_def)

lemma rc_inv_fresh: "rc_inv h own \<Longrightarrow> rc_next h \<le> a \<Longrightarrow> rc_cells h a = None"
  by (simp add: rc_inv_def)

lemma rc_invI:
  assumes "rc_inv h own" and "\<And>b. b \<noteq> a \<Longrightarrow> rc_cells h' b = rc_cells h b \<and> count own' b = count own b"
    and "cell_ok (rc_cells h' a) (count own' a)" and "a < rc_next h'" "rc_next h \<le> rc_next h'"
  shows "rc_inv h' own'"
  unfolding rc_inv_def
proof (intro conjI allI impI)
  fix b
  show "cell_ok (rc_cells h' b) (count own' b)"
    using assms(2,3) rc_invD [OF assms(1), of b] by (cases "b = a") auto
  show "rc_cells h' b = None" if "rc_next h' \<le> b"
    using that assms rc_inv_fresh [OF assms(1), of b] by (cases "b = a") auto
qed

lemma rc_inv_cell:
  assumes "rc_inv h own" "a \<in># own"
  obtains c where "rc_cells h a = Some c" "rc_refcount c = int (count own a)" "a < rc_next h"
proof -
  have "cell_ok (rc_cells h a) (count own a)" "0 < count own a"
    using assms rc_invD by auto
  moreover from this have "rc_cells h a \<noteq> None"
    by (cases "rc_cells h a") auto
  moreover from this have "a < rc_next h"
    using rc_inv_fresh [OF assms(1), of a] by (cases "rc_next h \<le> a") auto
  ultimately show ?thesis
    using that by (cases "rc_cells h a") auto
qed

lemma rc_inv_empty: "rc_inv h {#} \<Longrightarrow> rc_cells h = Map.empty"
proof
  fix a
  assume "rc_inv h {#}"
  then have "cell_ok (rc_cells h a) 0"
    using rc_invD [of h "{#}" a] by simp
  then show "rc_cells h a = None"
    by (cases "rc_cells h a") auto
qed

lemma rcstr_new_correct:
  assumes "rc_inv h own"
  shows "rc_inv (snd (rcstr_new h s)) (own + ptr_refs (fst (rcstr_new h s)))"
    and "cstr s \<Longrightarrow> rc_text (snd (rcstr_new h s)) (fst (rcstr_new h s)) = Some s"
proof -
  have fresh: "count own (rc_next h) = 0"
    using rc_invD [OF assms, of "rc_next h"] rc_inv_fresh [OF assms, of "rc_next h"] by simp
  show "rc_inv (snd (rcstr_new h s)) (own + ptr_refs (fst (rcstr_new h s)))"
    by (rule rc_invI [OF assms, of "rc_next h"])
       (use fresh in \<open>auto simp: rcstr_new_def rcstr_from_buf_def ptr_refs_def\<close>)
  have "takeWhile (\<lambda>c. c \<noteq> NUL) s = s" if "cstr s"
    using that by (auto simp: cstr_def takeWhile_eq_all_conv)
  then show "rc_text (snd (rcstr_new h s)) (fst (rcstr_new h s)) = Some s" if "cstr s"
    using that by (simp add: rc_text_def rcstr_new_def rcstr_from_buf_def
        del: takeWhile_eq_all_conv)
qed

lemma rcstr_retain_correct:
  assumes inv: "rc_inv h own" and p: "ptr_refs p \<subseteq># own" and room: "int (size own) < INT_MAX"
  obtains h' where "rcstr_retain h p = Some (p, h')" "rc_inv h' (own + ptr_refs p)"
    "rc_text h' = rc_text h"
proof (cases p)
  case None
  with inv that show ?thesis
    by (simp add: rcstr_retain_def ptr_refs_def)
next
  case (Some a)
  with p have "a \<in># own"
    by (simp add: ptr_refs_def)
  then obtain c where c: "rc_cells h a = Some c" "rc_refcount c = int (count own a)" "a < rc_next h"
    using inv by (elim rc_inv_cell)
  have "count own a \<le> size own"
    by (rule count_le_size)
  then have few: "rc_refcount c < INT_MAX"
    using room c by linarith
  let ?h = "h\<lparr>rc_cells := (rc_cells h)(a \<mapsto> c\<lparr>rc_refcount := rc_refcount c + 1\<rparr>)\<rparr>"
  have "rcstr_retain h p = Some (p, ?h)"
    using Some c few by (simp add: rcstr_retain_def)
  moreover have "rc_inv ?h (own + ptr_refs p)"
    by (rule rc_invI [OF inv, of a]) (use Some c in \<open>auto simp: ptr_refs_def\<close>)
  moreover have "rc_text ?h = rc_text h"
    using c by (auto simp: rc_text_def fun_eq_iff split: option.splits)
  ultimately show ?thesis by (rule that)
qed

lemma rcstr_release_correct:
  assumes inv: "rc_inv h (own + ptr_refs p)"
  obtains h' where "rcstr_release h p = Some h'" "rc_inv h' own"
    "\<And>q. ptr_refs q \<subseteq># own \<Longrightarrow> rc_text h' q = rc_text h q"
proof (cases p)
  case None
  with inv that show ?thesis
    by (simp add: rcstr_release_def ptr_refs_def)
next
  case (Some a)
  then have "a \<in># own + ptr_refs p"
    by (simp add: ptr_refs_def)
  then obtain c where c: "rc_cells h a = Some c" "rc_refcount c = int (count (own + ptr_refs p) a)"
    "a < rc_next h"
    using inv by (elim rc_inv_cell)
  then have cnt: "rc_refcount c = int (count own a) + 1"
    using Some by (simp add: ptr_refs_def)
  show ?thesis
  proof (cases "count own a = 0")
    case True
    let ?h = "h\<lparr>rc_cells := (rc_cells h)(a := None)\<rparr>"
    have "rcstr_release h p = Some ?h"
      using Some c cnt True by (simp add: rcstr_release_def)
    moreover have "rc_inv ?h own"
      by (rule rc_invI [OF inv, of a]) (use Some True c in \<open>auto simp: ptr_refs_def\<close>)
    moreover have "rc_text ?h q = rc_text h q" if "ptr_refs q \<subseteq># own" for q
      using that True [unfolded count_eq_zero_iff]
      by (auto simp: rc_text_def ptr_refs_def split: option.splits)
    ultimately show ?thesis by (rule that)
  next
    case False
    let ?h = "h\<lparr>rc_cells := (rc_cells h)(a \<mapsto> c\<lparr>rc_refcount := rc_refcount c - 1\<rparr>)\<rparr>"
    have ne: "rc_refcount c \<noteq> 1"
      using cnt False by linarith
    have "rcstr_release h p = Some ?h"
      using Some c(1) ne by (simp add: rcstr_release_def)
    moreover have "rc_inv ?h own"
      by (rule rc_invI [OF inv, of a]) (use Some False c cnt in \<open>auto simp: ptr_refs_def\<close>)
    moreover have "rc_text ?h q = rc_text h q" for q
      using c by (auto simp: rc_text_def split: option.splits)
    ultimately show ?thesis by (rule that)
  qed
qed

lemma retain_all_correct:
  "rc_inv h own \<Longrightarrow> list_refs ps \<subseteq># own \<Longrightarrow> int (size own + length ps) \<le> INT_MAX \<Longrightarrow>
   \<exists>h'. retain_all h ps = Some (ps, h') \<and> rc_inv h' (own + list_refs ps) \<and> rc_text h' = rc_text h"
proof (induction ps arbitrary: h own)
  case Nil
  then show ?case by simp
next
  case (Cons p ps)
  have sub: "ptr_refs p \<subseteq># own"
    using Cons.prems(2) by (auto intro: subset_mset.order_trans [OF mset_subset_eq_add_left])
  obtain h1 where h1: "rcstr_retain h p = Some (p, h1)" "rc_inv h1 (own + ptr_refs p)"
    "rc_text h1 = rc_text h"
    using rcstr_retain_correct [OF Cons.prems(1) sub] Cons.prems(3) by auto
  have "list_refs ps \<subseteq># own + ptr_refs p"
    using Cons.prems(2)
    by (auto intro: subset_mset.order_trans [OF mset_subset_eq_add_right]
        subset_mset.order_trans [OF _ mset_subset_eq_add_left])
  moreover have "int (size (own + ptr_refs p) + length ps) \<le> INT_MAX"
    using Cons.prems(3) by (cases p) (simp_all add: ptr_refs_def)
  ultimately obtain h2 where "retain_all h1 ps = Some (ps, h2)"
    "rc_inv h2 (own + ptr_refs p + list_refs ps)" "rc_text h2 = rc_text h1"
    using Cons.IH [OF h1(2)] by blast
  with h1 show ?case
    by (auto simp: ac_simps)
qed

lemma release_all_correct:
  "rc_inv h (own + list_refs ps) \<Longrightarrow>
   \<exists>h'. foldM rcstr_release h ps = Some h' \<and> rc_inv h' own \<and>
        (\<forall>q. ptr_refs q \<subseteq># own \<longrightarrow> rc_text h' q = rc_text h q)"
proof (induction ps arbitrary: h)
  case Nil
  then show ?case by simp
next
  case (Cons p ps)
  then have "rc_inv h (own + list_refs ps + ptr_refs p)"
    by (simp add: ac_simps)
  then obtain h1 where h1: "rcstr_release h p = Some h1" "rc_inv h1 (own + list_refs ps)"
    "\<forall>q. ptr_refs q \<subseteq># own + list_refs ps \<longrightarrow> rc_text h1 q = rc_text h q"
    using rcstr_release_correct [of h "own + list_refs ps" p] by metis
  obtain h2 where "foldM rcstr_release h1 ps = Some h2" "rc_inv h2 own"
    "\<forall>q. ptr_refs q \<subseteq># own \<longrightarrow> rc_text h2 q = rc_text h1 q"
    using Cons.IH [OF h1(2)] by blast
  then show ?case
    using h1 by (auto intro: subset_mset.order_trans [OF _ mset_subset_eq_add_left])
qed

text \<open>The text of a value, and how many pointers it holds.\<close>

definition value_view :: "rc_heap \<Rightarrow> rcstr value_t \<Rightarrow> string option value_t" where
  "value_view h v = map_value_t (rc_text h) v"

fun value_width :: "'s value_t \<Rightarrow> nat" where
  "value_width VT_NONE = 0"
| "value_width (VT_STRING s) = 1"
| "value_width (VT_INTEGER i) = 0"
| "value_width (VT_ARRAY es) = length es"
| "value_width (VT_ITERATOR es pos) = length es"

lemma value_clone_correct:
  assumes "rc_inv h own" "value_refs v \<subseteq># own" "int (size own + value_width v) \<le> INT_MAX"
  shows "\<exists>h'. value_clone h v = Some (v, h') \<and> rc_inv h' (own + value_refs v) \<and>
              (\<forall>w. value_view h' w = value_view h w)"
proof (cases v)
  case (VT_STRING s)
  then obtain h' where "rcstr_retain h s = Some (s, h')" "rc_inv h' (own + ptr_refs s)"
    "rc_text h' = rc_text h"
    using assms rcstr_retain_correct [of h own s] by (auto simp: value_refs_def)
  with VT_STRING show ?thesis
    by (simp add: value_clone_def value_refs_def value_view_def)
next
  case (VT_ARRAY es)
  then show ?thesis
    using assms retain_all_correct [of h own es]
    by (auto simp: value_clone_def value_refs_def value_view_def)
next
  case (VT_ITERATOR es pos)
  then show ?thesis
    using assms retain_all_correct [of h own es]
    by (auto simp: value_clone_def value_refs_def value_view_def)
qed (use assms in \<open>simp_all add: value_clone_def value_refs_def value_view_def\<close>)

lemma list_refs_mem: "p \<in> set ps \<Longrightarrow> ptr_refs p \<subseteq># list_refs ps"
  by (induction ps) (auto intro: subset_mset.add_increasing)

lemma view_cong:
  assumes "\<forall>q. ptr_refs q \<subseteq># own \<longrightarrow> rc_text h' q = rc_text h q" "value_refs w \<subseteq># own"
  shows "value_view h' w = value_view h w"
proof -
  have "ptr_refs q \<subseteq># own" if "q \<in> set_value_t w" for q
    using that assms(2) list_refs_mem [of q, THEN subset_mset.order_trans, of _ own]
    by (cases w) (auto simp: value_refs_def)
  then show ?thesis
    unfolding value_view_def using assms(1) by (intro value_t.map_cong0) blast
qed

lemma value_destroy_correct:
  assumes "rc_inv h (own + value_refs v)"
  shows "\<exists>h'. value_destroy h v = Some (VT_NONE, h') \<and> rc_inv h' own \<and>
              (\<forall>w. value_refs w \<subseteq># own \<longrightarrow> value_view h' w = value_view h w)"
proof -
  have "\<exists>h'. value_destroy h v = Some (VT_NONE, h') \<and> rc_inv h' own \<and>
             (\<forall>q. ptr_refs q \<subseteq># own \<longrightarrow> rc_text h' q = rc_text h q)"
  proof (cases v)
    case (VT_STRING s)
    then have "rc_inv h (own + ptr_refs s)"
      using assms by (simp add: value_refs_def)
    then show ?thesis
      by (rule rcstr_release_correct) (auto simp: value_destroy_def VT_STRING)
  next
    case (VT_ARRAY es)
    then show ?thesis
      using assms release_all_correct [of h own es]
      by (auto simp: value_destroy_def value_refs_def)
  next
    case (VT_ITERATOR es pos)
    then show ?thesis
      using assms release_all_correct [of h own es]
      by (auto simp: value_destroy_def value_refs_def)
  qed (use assms in \<open>simp_all add: value_destroy_def value_refs_def\<close>)
  then show ?thesis
    using view_cong by blast
qed

lemma cstr_show_int: "cstr (show_int i)"
proof -
  have "NUL \<notin> set (show_nat n)" for n
    using show_nat_digits(2) [of n] by (auto simp: list_all_iff is_digit_of_def digit_val_def NUL_def)
  then show ?thesis
    by (simp add: cstr_def show_int_def NUL_def)
qed

lemma value_to_rcstr_correct:
  assumes inv: "rc_inv h own" and v: "value_refs v \<subseteq># own" and room: "int (size own) < INT_MAX"
    and view: "value_view h v = map_value_t Some w"
  shows "\<exists>p h'. value_to_rcstr h v = Some (p, h') \<and> rc_inv h' (own + ptr_refs p) \<and>
                rc_text h' p = Some (value_to_string w)"
proof (cases v)
  case (VT_STRING s)
  then obtain h' where h': "rcstr_retain h s = Some (s, h')" "rc_inv h' (own + ptr_refs s)"
    "rc_text h' = rc_text h"
    using rcstr_retain_correct [OF inv _ room, of s] v by (auto simp: value_refs_def)
  have "rc_text h s = Some (value_to_string w)"
    using view VT_STRING by (cases w) (auto simp: value_view_def value_to_string_def)
  with h' VT_STRING show ?thesis
    by (simp add: value_to_rcstr_def)
next
  case (VT_INTEGER i)
  then have "w = VT_INTEGER i"
    using view by (cases w) (auto simp: value_view_def)
  with VT_INTEGER rcstr_new_correct [OF inv, of "show_int (sint i)"] show ?thesis
    by (cases "rcstr_new h (show_int (sint i))")
       (auto simp: value_to_rcstr_def value_to_string_def cstr_show_int)
next
  case VT_NONE
  then have "w = VT_NONE"
    using view by (cases w) (auto simp: value_view_def)
  with VT_NONE rcstr_new_correct [OF inv, of "[]"] show ?thesis
    by (cases "rcstr_new h []") (auto simp: value_to_rcstr_def value_to_string_def cstr_def)
next
  case (VT_ARRAY es)
  then have "\<exists>ts. w = VT_ARRAY ts"
    using view by (cases w) (auto simp: value_view_def)
  with VT_ARRAY rcstr_new_correct [OF inv, of "[]"] show ?thesis
    by (cases "rcstr_new h []") (auto simp: value_to_rcstr_def value_to_string_def cstr_def)
next
  case (VT_ITERATOR es pos)
  then have "\<exists>ts k. w = VT_ITERATOR ts k"
    using view by (cases w) (auto simp: value_view_def)
  with VT_ITERATOR rcstr_new_correct [OF inv, of "[]"] show ?thesis
    by (cases "rcstr_new h []") (auto simp: value_to_rcstr_def value_to_string_def cstr_def)
qed

text \<open>
  C16. Reference counts balance: cloning a value its owner holds neither fails nor changes what any
  value reads, adds one reference per string it holds, and destroying the clone again gives those
  references back, frees exactly the strings no one owns any more, and leaves what the remaining
  owners read as it was.
\<close>

theorem value_clone_destroy:
  assumes "rc_inv h own" "value_refs v \<subseteq># own" "int (size own + value_width v) \<le> INT_MAX"
  shows "\<exists>h1 h2. value_clone h v = Some (v, h1) \<and> value_view h1 v = value_view h v \<and>
     rc_inv h1 (own + value_refs v) \<and>
     value_destroy h1 v = Some (VT_NONE, h2) \<and> rc_inv h2 own \<and>
     (\<forall>w. value_refs w \<subseteq># own \<longrightarrow> value_view h2 w = value_view h w)"
proof -
  obtain h1 where h1: "value_clone h v = Some (v, h1)" "rc_inv h1 (own + value_refs v)"
    "\<forall>w. value_view h1 w = value_view h w"
    using value_clone_correct [OF assms] by blast
  then show ?thesis
    using value_destroy_correct [OF h1(2)] by metis
qed

lemma value_clone_destroy_witness:
  "\<exists>h h1 h2. rc_inv h {#0#} \<and> value_clone h (VT_STRING (Some 0)) = Some (VT_STRING (Some 0), h1) \<and>
     rc_inv h1 {#0, 0#} \<and> value_destroy h1 (VT_STRING (Some 0)) = Some (VT_NONE, h2) \<and> rc_inv h2 {#0#}"
proof -
  let ?h = "snd (rcstr_new \<lparr>rc_cells = Map.empty, rc_next = 0\<rparr> ''x'')"
  have h: "rc_inv ?h {#0#}"
    by (simp add: rc_inv_def rcstr_new_def rcstr_from_buf_def)
  have "value_refs (VT_STRING (Some 0)) \<subseteq># {#0#}" "int (size {#0 :: nat#} + value_width (VT_STRING (Some 0))) \<le> INT_MAX"
    by (simp_all add: value_refs_def ptr_refs_def INT_MAX_def)
  from value_clone_destroy [OF h this] h show ?thesis
    by (auto simp: value_refs_def ptr_refs_def)
qed

end
