(* ===== verification/Environ.thy ===== *)
theory Environ
  imports Hashtable Value
begin

text \<open>
  \<^verbatim>\<open>src/exec/variable.c\<close>: variables and the chain of scopes. A scope holds a hash table of
  variables; the chain is the list of its scopes from the current one out to the global one, so
  \<^verbatim>\<open>parent\<close> is the tail and the empty list is \<^verbatim>\<open>NULL\<close>. A pointer \<open>environ_get\<close> returned
  and the code writes through is \<open>environ_modify\<close>. An operation that may complain returns the
  text it wrote to \<^verbatim>\<open>stderr\<close> beside the new chain. Every operation but \<open>environ_get\<close> is called
  with a scope, never \<^verbatim>\<open>NULL\<close>; the equations for the empty list are there to be total.
\<close>

subsection \<open>State\<close>

record variable =
  var_name :: string
  var_value :: "string value_t"
  var_flags :: u32
  var_dirty :: bool
  var_host_origin :: bool

definition VF_EXPORT :: u32 where
  "VF_EXPORT = 1"

definition VF_READONLY :: u32 where
  "VF_READONLY = 2"

definition VF_PREFIX :: u32 where
  "VF_PREFIX = 4"

record scope =
  vars :: "variable hashtable"
  is_temporary :: bool

type_synonym environ = "scope list"

definition variable_new :: "string \<Rightarrow> string value_t \<Rightarrow> u32 \<Rightarrow> variable" where
  "variable_new name v flags =
     \<lparr>var_name = name, var_value = v, var_flags = flags, var_dirty = False, var_host_origin = False\<rparr>"

definition environ_new :: "environ \<Rightarrow> bool \<Rightarrow> environ" where
  "environ_new parent temporary = \<lparr>vars = ht_init, is_temporary = temporary\<rparr> # parent"

text \<open>\<^verbatim>\<open>environ_destroy\<close> after its caller has stepped to the parent: the current scope is gone.\<close>

definition environ_pop :: "environ \<Rightarrow> environ" where
  "environ_pop env = tl env"

definition readonly :: "variable \<Rightarrow> bool" where
  "readonly var \<longleftrightarrow> var_flags var AND VF_READONLY \<noteq> 0"

definition readonly_msg :: "string \<Rightarrow> string" where
  "readonly_msg name = ''opsh: '' @ name @ '': readonly variable'' @ [CHR 0x0A]"

subsection \<open>Operations\<close>

fun environ_get :: "environ \<Rightarrow> string \<Rightarrow> variable option" where
  "environ_get [] name = None"
| "environ_get (s # env) name =
     (case ht_get (vars s) name of Some var \<Rightarrow> Some var | None \<Rightarrow> environ_get env name)"

text \<open>A write through the pointer \<open>environ_get\<close> returns.\<close>

fun environ_modify :: "(variable \<Rightarrow> variable) \<Rightarrow> environ \<Rightarrow> string \<Rightarrow> environ" where
  "environ_modify f [] name = []"
| "environ_modify f (s # env) name =
     (case ht_get (vars s) name of
        Some var \<Rightarrow> s\<lparr>vars := ht_modify f (vars s) name\<rparr> # env
      | None \<Rightarrow> s # environ_modify f env name)"

definition check_readonly :: "environ \<Rightarrow> string \<Rightarrow> bool" where
  "check_readonly env name =
     (case environ_get env name of Some var \<Rightarrow> readonly var | None \<Rightarrow> False)"

fun environ_set_flags ::
  "environ \<Rightarrow> string \<Rightarrow> string value_t \<Rightarrow> u32 \<Rightarrow> environ \<times> string" where
  "environ_set_flags [] name v flags = ([], [])"
| "environ_set_flags (s # env) name v flags =
     (case ht_get (vars s) name of
        Some existing \<Rightarrow>
          if readonly existing then (s # env, readonly_msg name)
          else (s\<lparr>vars := ht_modify (\<lambda>var. var\<lparr>var_value := v, var_flags := var_flags var OR flags\<rparr>)
                     (vars s) name\<rparr> # env, [])
      | None \<Rightarrow>
          if env \<noteq> [] \<and> check_readonly env name then (s # env, readonly_msg name)
          else (s\<lparr>vars := fst (ht_set (vars s) name (variable_new name v flags))\<rparr> # env, []))"

definition environ_set :: "environ \<Rightarrow> string \<Rightarrow> string value_t \<Rightarrow> environ \<times> string" where
  "environ_set env name v = environ_set_flags env name v 0"

text \<open>The loop of \<^verbatim>\<open>environ_assign\<close>; \<open>None\<close> when no scope has the variable.\<close>

fun environ_assign_bound :: "environ \<Rightarrow> string \<Rightarrow> string value_t \<Rightarrow> (environ \<times> string) option" where
  "environ_assign_bound [] name v = None"
| "environ_assign_bound (s # env) name v =
     (case ht_get (vars s) name of
        Some var \<Rightarrow>
          Some (if readonly var then (s # env, readonly_msg name)
                else (s\<lparr>vars := ht_modify (\<lambda>var. var\<lparr>var_value := v\<rparr>) (vars s) name\<rparr> # env, []))
      | None \<Rightarrow>
          (case environ_assign_bound env name v of
             None \<Rightarrow> None
           | Some (env', err) \<Rightarrow> Some (s # env', err)))"

definition environ_assign :: "environ \<Rightarrow> string \<Rightarrow> string value_t \<Rightarrow> environ \<times> string" where
  "environ_assign env name v =
     (case environ_assign_bound env name v of
        Some r \<Rightarrow> r
      | None \<Rightarrow>
          (let (global, err) = environ_set (drop (length env - 1) env) name v
           in (take (length env - 1) env @ global, err)))"

fun environ_set_local :: "environ \<Rightarrow> string \<Rightarrow> string value_t \<Rightarrow> environ" where
  "environ_set_local [] name v = []"
| "environ_set_local (s # env) name v =
     (case ht_get (vars s) name of
        Some existing \<Rightarrow> s\<lparr>vars := ht_modify (\<lambda>var. var\<lparr>var_value := v\<rparr>) (vars s) name\<rparr> # env
      | None \<Rightarrow> s\<lparr>vars := fst (ht_set (vars s) name (variable_new name v 0))\<rparr> # env)"

definition environ_export :: "environ \<Rightarrow> string \<Rightarrow> environ" where
  "environ_export env name =
     environ_modify (\<lambda>var. var\<lparr>var_flags := var_flags var OR VF_EXPORT\<rparr>) env name"

fun environ_unset :: "environ \<Rightarrow> string \<Rightarrow> environ \<times> string" where
  "environ_unset [] name = ([], [])"
| "environ_unset (s # env) name =
     (case ht_get (vars s) name of
        Some var \<Rightarrow>
          if readonly var then (s # env, readonly_msg name)
          else (s\<lparr>vars := fst (ht_remove (vars s) name)\<rparr> # env, [])
      | None \<Rightarrow> (let (env', err) = environ_unset env name in (s # env', err)))"

text \<open>
  The exporter's callback: the table of names seen and the C environment \<^verbatim>\<open>setenv\<close> writes. \<^verbatim>\<open>setenv\<close>
  takes every name here; it refuses an empty one and one with an equals sign, which no assignment makes.
\<close>

type_synonym cenv = "string \<rightharpoonup> string"

definition exportable :: "variable \<Rightarrow> bool" where
  "exportable var \<longleftrightarrow>
     var_flags var AND (VF_EXPORT OR VF_PREFIX) \<noteq> 0 \<and>
     \<not> between CHR ''0'' CHR ''9'' (peek (var_name var) 0) \<and>
     \<not> (peek (var_name var) 0 = CHR ''#'' \<or> peek (var_name var) 0 = CHR ''?'' \<or>
        peek (var_name var) 0 = CHR ''-'')"

definition export_var_cb ::
  "string \<Rightarrow> variable \<Rightarrow> unit hashtable \<times> cenv \<Rightarrow> bool \<times> unit hashtable \<times> cenv" where
  "export_var_cb key var ctx =
     (let (seen, cenv) = ctx in
      if \<not> exportable var then (False, ctx)
      else if ht_get seen (var_name var) \<noteq> None then (False, ctx)
      else (False, fst (ht_set seen (var_name var) ()),
            case var_value var of VT_STRING s \<Rightarrow> cenv(var_name var \<mapsto> s) | _ \<Rightarrow> cenv))"

definition environ_export_to_c :: "environ \<Rightarrow> cenv \<Rightarrow> cenv" where
  "environ_export_to_c env cenv =
     snd (foldl (\<lambda>ctx s. ht_foreach (vars s) export_var_cb ctx) (ht_init, cenv) env)"

subsection \<open>The chain as a list of finite maps\<close>

definition scope_map :: "scope \<Rightarrow> string \<rightharpoonup> variable" where
  "scope_map s = ht_map (vars s)"

text \<open>Every scope's table is in order and files each variable under its own name.\<close>

definition scope_inv :: "scope \<Rightarrow> bool" where
  "scope_inv s \<longleftrightarrow> ht_inv (vars s) \<and> (\<forall>name var. scope_map s name = Some var \<longrightarrow> var_name var = name)"

definition env_inv :: "environ \<Rightarrow> bool" where
  "env_inv env \<longleftrightarrow> list_all scope_inv env"

lemma env_inv_simps [simp]:
  "env_inv []"
  "env_inv (s # env) \<longleftrightarrow> scope_inv s \<and> env_inv env"
  "env_inv (env @ env') \<longleftrightarrow> env_inv env \<and> env_inv env'"
  by (simp_all add: env_inv_def)

lemma scope_get [scope_simps]: "scope_inv s \<Longrightarrow> ht_get (vars s) name = scope_map s name"
  by (simp add: scope_inv_def scope_map_def ht.get_map)

lemma scope_put:
  assumes "scope_inv s" "var_name var = name"
  shows "scope_inv (s\<lparr>vars := fst (ht_set (vars s) name var)\<rparr>)"
    and "scope_map (s\<lparr>vars := fst (ht_set (vars s) name var)\<rparr>) = (scope_map s)(name \<mapsto> var)"
  using assms by (auto simp: scope_inv_def scope_map_def ht.laws)

lemma scope_modify:
  assumes "scope_inv s" "\<And>var. var_name (f var) = var_name var"
  shows "scope_inv (s\<lparr>vars := ht_modify f (vars s) name\<rparr>)"
    and "scope_map (s\<lparr>vars := ht_modify f (vars s) name\<rparr>) =
           (scope_map s)(name := map_option f (scope_map s name))"
  using assms by (auto simp: scope_inv_def scope_map_def ht.laws)

lemma scope_del:
  assumes "scope_inv s"
  shows "scope_inv (s\<lparr>vars := fst (ht_remove (vars s) name)\<rparr>)"
    and "scope_map (s\<lparr>vars := fst (ht_remove (vars s) name)\<rparr>) = (scope_map s)(name := None)"
  using assms by (auto simp: scope_inv_def scope_map_def ht.laws)

lemma scope_name: "scope_inv s \<Longrightarrow> scope_map s name = Some var \<Longrightarrow> var_name var = name"
  by (simp add: scope_inv_def)

lemma scope_gets:
  assumes "scope_inv s"
  shows "ht_get (fst (ht_set (vars s) name var)) n = (if n = name then Some var else scope_map s n)"
    and "ht_get (ht_modify f (vars s) name) n =
           (if n = name then map_option f (scope_map s name) else scope_map s n)"
    and "ht_get (fst (ht_remove (vars s) name)) n = (if n = name then None else scope_map s n)"
  using assms by (simp_all add: scope_inv_def scope_map_def ht.get_map ht.laws)

lemmas scope_laws = scope_get scope_put scope_modify scope_del scope_gets

lemma scope_init: "scope_inv \<lparr>vars = ht_init, is_temporary = b\<rparr>"
  "scope_map \<lparr>vars = ht_init, is_temporary = b\<rparr> = Map.empty"
  by (simp_all add: scope_inv_def scope_map_def ht.laws)

lemma variable_new_name [simp]:
  "var_name (variable_new name v flags) = name" "var_value (variable_new name v flags) = v"
  "var_flags (variable_new name v flags) = flags"
  by (simp_all add: variable_new_def)

text \<open>Lookup in a list of maps: the innermost binding.\<close>

fun chain_get :: "(string \<rightharpoonup> 'v) list \<Rightarrow> string \<Rightarrow> 'v option" where
  "chain_get [] name = None"
| "chain_get (m # ms) name = (case m name of Some v \<Rightarrow> Some v | None \<Rightarrow> chain_get ms name)"

lemma environ_get_eq [scope_simps]:
  "env_inv env \<Longrightarrow> environ_get env name = chain_get (map scope_map env) name"
  by (induction env) (simp_all add: scope_simps split: option.splits)

lemma environ_new_correct:
  "env_inv env \<Longrightarrow> env_inv (environ_new env b)"
  "env_inv env \<Longrightarrow> environ_get (environ_new env b) = environ_get env"
  by (auto simp: environ_new_def scope_init fun_eq_iff ht.get_init)

lemma environ_get_name: "env_inv env \<Longrightarrow> environ_get env name = Some var \<Longrightarrow> var_name var = name"
  by (induction env) (auto simp: scope_get scope_name split: option.splits)

text \<open>The maps of the chain after each operation, as list updates.\<close>

lemma environ_modify_correct:
  assumes "\<And>var. var_name (f var) = var_name var"
  shows "env_inv env \<Longrightarrow> env_inv (environ_modify f env name)"
    and "env_inv env \<Longrightarrow> environ_get (environ_modify f env name) n =
           (if n = name then map_option f (environ_get env name) else environ_get env n)"
    and "length (environ_modify f env name) = length env"
  using assms by (induction env) (auto simp: scope_laws split: option.splits)

text \<open>
  What a chain promises at level \<open>i\<close> for a name that is not the one operated on, and for a readonly
  variable of any name: nothing changes.
\<close>

definition keeps_others :: "string \<Rightarrow> environ \<Rightarrow> environ \<Rightarrow> bool" where
  "keeps_others name env env' \<longleftrightarrow>
     length env' = length env \<and>
     (\<forall>i < length env. \<forall>n. n \<noteq> name \<longrightarrow> scope_map (env' ! i) n = scope_map (env ! i) n)"

definition keeps_readonly :: "environ \<Rightarrow> environ \<Rightarrow> bool" where
  "keeps_readonly env env' \<longleftrightarrow>
     (\<forall>i < length env. \<forall>n var. scope_map (env ! i) n = Some var \<longrightarrow> readonly var \<longrightarrow>
        scope_map (env' ! i) n = Some var)"

lemma keeps_refl [simp]: "keeps_others name env env" "keeps_readonly env env"
  by (simp_all add: keeps_others_def keeps_readonly_def)

lemma keeps_Nil [simp]: "keeps_others name [] env \<longleftrightarrow> env = []" "keeps_readonly [] env"
  by (simp_all add: keeps_others_def keeps_readonly_def)

lemma keeps_Cons [simp]:
  "keeps_others name (s # env) (s' # env') \<longleftrightarrow>
     (\<forall>n. n \<noteq> name \<longrightarrow> scope_map s' n = scope_map s n) \<and> keeps_others name env env'"
  "keeps_readonly (s # env) (s' # env') \<longleftrightarrow>
     (\<forall>n var. scope_map s n = Some var \<longrightarrow> readonly var \<longrightarrow> scope_map s' n = Some var) \<and>
     keeps_readonly env env'"
  unfolding keeps_others_def keeps_readonly_def by (simp_all add: All_less_Suc2 conj_ac)

lemma keeps_others_Cons:
  "keeps_others name (s # env) env2 \<Longrightarrow> \<exists>s' env'. env2 = s' # env'"
  by (cases env2) (auto simp: keeps_others_def)

lemma keeps_others_chain:
  "keeps_others name env env' \<Longrightarrow> n \<noteq> name \<Longrightarrow>
   chain_get (map scope_map env') n = chain_get (map scope_map env) n"
proof (induction env arbitrary: env')
  case Nil
  then show ?case by simp
next
  case (Cons s env)
  then obtain s1 env1 where "env' = s1 # env1"
    using keeps_others_Cons by blast
  with Cons.prems have "scope_map s1 n = scope_map s n" "keeps_others name env env1"
    by simp_all
  with Cons.IH [of env1] Cons.prems(2) \<open>env' = s1 # env1\<close> show ?case
    by (simp split: option.split)
qed

lemma keeps_others_get:
  assumes "env_inv env" "env_inv env'" "keeps_others name env env'" "n \<noteq> name"
  shows "environ_get env' n = environ_get env n"
  using assms by (simp add: environ_get_eq keeps_others_chain [of name])

text \<open>Changing one variable that may be written keeps the others and the readonly ones.\<close>

lemma set_scope_correct:
  assumes "scope_inv s" "scope_map s name = None"
  shows "scope_inv (s\<lparr>vars := fst (ht_set (vars s) name (variable_new name v flags))\<rparr>)"
    and "scope_map (s\<lparr>vars := fst (ht_set (vars s) name (variable_new name v flags))\<rparr>) =
           (scope_map s)(name \<mapsto> variable_new name v flags)"
  using assms by (simp_all add: scope_put)

lemma environ_set_flags_correct:
  assumes inv: "env_inv env" and set: "environ_set_flags env name v flags = (env', err)"
  shows "env_inv env'" "keeps_others name env env'" "keeps_readonly env env'" "tl env' = tl env"
    and "env \<noteq> [] \<Longrightarrow> \<not> check_readonly env name \<Longrightarrow>
           err = [] \<and> scope_map (hd env') name =
             Some (case scope_map (hd env) name of
                     None \<Rightarrow> variable_new name v flags
                   | Some old \<Rightarrow> old\<lparr>var_value := v, var_flags := var_flags old OR flags\<rparr>)"
    and "env \<noteq> [] \<Longrightarrow> check_readonly env name \<Longrightarrow> env' = env \<and> err = readonly_msg name"
proof -
  have "env_inv env' \<and> keeps_others name env env' \<and> keeps_readonly env env' \<and> tl env' = tl env \<and>
     (env \<noteq> [] \<longrightarrow> \<not> check_readonly env name \<longrightarrow>
        err = [] \<and> scope_map (hd env') name =
          Some (case scope_map (hd env) name of
                  None \<Rightarrow> variable_new name v flags
                | Some old \<Rightarrow> old\<lparr>var_value := v, var_flags := var_flags old OR flags\<rparr>)) \<and>
     (env \<noteq> [] \<longrightarrow> check_readonly env name \<longrightarrow> env' = env \<and> err = readonly_msg name)"
  proof (cases env)
    case Nil
    with set show ?thesis by simp
  next
    case (Cons s ss)
    then have s: "scope_inv s" "env_inv ss"
      using inv by simp_all
    show ?thesis
    proof (cases "scope_map s name")
      case None
      with set s Cons show ?thesis
        by (cases "ss \<noteq> [] \<and> check_readonly ss name")
           (auto simp: scope_get scope_put check_readonly_def)
    next
      case (Some old)
      with set s Cons show ?thesis
        by (cases "readonly old") (auto simp: scope_get scope_modify check_readonly_def)
    qed
  qed
  then show "env_inv env'" "keeps_others name env env'" "keeps_readonly env env'" "tl env' = tl env"
    and "env \<noteq> [] \<Longrightarrow> \<not> check_readonly env name \<Longrightarrow>
           err = [] \<and> scope_map (hd env') name =
             Some (case scope_map (hd env) name of
                     None \<Rightarrow> variable_new name v flags
                   | Some old \<Rightarrow> old\<lparr>var_value := v, var_flags := var_flags old OR flags\<rparr>)"
    and "env \<noteq> [] \<Longrightarrow> check_readonly env name \<Longrightarrow> env' = env \<and> err = readonly_msg name"
    by blast+
qed

lemma chain_get_hd: "env \<noteq> [] \<Longrightarrow> scope_map (hd env) name = Some var \<Longrightarrow>
   chain_get (map scope_map env) name = Some var"
  by (cases env) simp_all

lemma assign_bound_correct:
  "env_inv env \<Longrightarrow> environ_assign_bound env name v = Some (env', err) \<Longrightarrow>
   env_inv env' \<and> keeps_others name env env' \<and> keeps_readonly env env' \<and>
   (if check_readonly env name then env' = env \<and> err = readonly_msg name
    else err = [] \<and> environ_get env' name =
           map_option (\<lambda>var. var\<lparr>var_value := v\<rparr>) (environ_get env name))"
proof (induction env arbitrary: env' err)
  case Nil
  then show ?case by simp
next
  case (Cons s env)
  then have s: "scope_inv s" "env_inv env"
    by simp_all
  show ?case
  proof (cases "scope_map s name")
    case None
    then obtain env1 where "environ_assign_bound env name v = Some (env1, err)" "env' = s # env1"
      using Cons.prems s by (auto simp: scope_get split: option.splits)
    with Cons.IH [OF s(2) this(1)] s None show ?thesis
      by (auto simp: scope_get check_readonly_def split: if_splits)
  next
    case (Some var)
    with Cons.prems s show ?thesis
      by (cases "readonly var") (auto simp: scope_get scope_gets scope_modify check_readonly_def)
  qed
qed

lemma assign_bound_None:
  "env_inv env \<Longrightarrow> environ_assign_bound env name v = None \<longleftrightarrow> environ_get env name = None"
  by (induction env) (auto simp: scope_get split: option.splits)

text \<open>Assignment: the visible binding where there is one, else a new binding in the global scope.\<close>

lemma keeps_append:
  assumes "keeps_others name env env'" "keeps_readonly env env'"
  shows "keeps_others name (ss @ env) (ss @ env')" "keeps_readonly (ss @ env) (ss @ env')"
  using assms by (induction ss) simp_all

lemma chain_get_append:
  "chain_get (ms @ ms') name =
     (case chain_get ms name of None \<Rightarrow> chain_get ms' name | Some v \<Rightarrow> Some v)"
  by (induction ms) (simp_all split: option.splits)

lemma environ_assign_correct:
  assumes inv: "env_inv env" and ne: "env \<noteq> []" and asg: "environ_assign env name v = (env', err)"
  shows "env_inv env'" "keeps_others name env env'" "keeps_readonly env env'"
    and "check_readonly env name \<Longrightarrow> env' = env \<and> err = readonly_msg name"
    and "\<not> check_readonly env name \<Longrightarrow> err = [] \<and>
           environ_get env' name = Some (case environ_get env name of
                                           None \<Rightarrow> variable_new name v 0
                                         | Some var \<Rightarrow> var\<lparr>var_value := v\<rparr>)"
    and "environ_get env name = None \<Longrightarrow>
           scope_map (last env') name = Some (variable_new name v 0) \<and> butlast env' = butlast env"
proof -
  let ?goal = "env_inv env' \<and> keeps_others name env env' \<and> keeps_readonly env env' \<and>
     (check_readonly env name \<longrightarrow> env' = env \<and> err = readonly_msg name) \<and>
     (\<not> check_readonly env name \<longrightarrow> err = [] \<and>
        environ_get env' name = Some (case environ_get env name of
                                        None \<Rightarrow> variable_new name v 0
                                      | Some var \<Rightarrow> var\<lparr>var_value := v\<rparr>)) \<and>
     (environ_get env name = None \<longrightarrow>
        scope_map (last env') name = Some (variable_new name v 0) \<and> butlast env' = butlast env)"
  have ?goal
  proof (cases "environ_assign_bound env name v")
    case (Some r)
    with asg have r: "environ_assign_bound env name v = Some (env', err)"
      by (simp add: environ_assign_def)
    have bound: "environ_get env name \<noteq> None"
      using assign_bound_None [OF inv, of name v] r by auto
    show ?thesis
      using assign_bound_correct [OF inv r] bound by (auto split: if_splits)
  next
    case None
    then have unbound: "environ_get env name = None"
      using assign_bound_None [OF inv] by blast
    obtain ss s where env: "env = ss @ [s]"
      using ne by (metis append_butlast_last_id)
    have s: "scope_inv s" "env_inv ss" and sm: "scope_map s name = None"
      and ssm: "chain_get (map scope_map ss) name = None"
      using inv unbound by (auto simp: env environ_get_eq chain_get_append split: option.splits)
    let ?s = "s\<lparr>vars := fst (ht_set (vars s) name (variable_new name v 0))\<rparr>"
    have "env' = ss @ [?s]" "err = []"
      using asg None s sm by (auto simp: environ_assign_def environ_set_def env scope_get)
    moreover have "keeps_others name [s] [?s]" "keeps_readonly [s] [?s]"
      using scope_put [OF s(1), of "variable_new name v 0" name] sm by simp_all
    then have "keeps_others name env (ss @ [?s])" "keeps_readonly env (ss @ [?s])"
      unfolding env by (rule keeps_append)+
    moreover have "environ_get (ss @ [?s]) name = Some (variable_new name v 0)"
      using s ssm scope_put [OF s(1), of "variable_new name v 0" name]
      by (simp add: environ_get_eq chain_get_append)
    ultimately show ?thesis
      using s unbound scope_put [OF s(1), of "variable_new name v 0" name]
      by (simp add: check_readonly_def env)
  qed
  then show "env_inv env'" "keeps_others name env env'" "keeps_readonly env env'"
    and "check_readonly env name \<Longrightarrow> env' = env \<and> err = readonly_msg name"
    and "\<not> check_readonly env name \<Longrightarrow> err = [] \<and>
           environ_get env' name = Some (case environ_get env name of
                                           None \<Rightarrow> variable_new name v 0
                                         | Some var \<Rightarrow> var\<lparr>var_value := v\<rparr>)"
    and "environ_get env name = None \<Longrightarrow>
           scope_map (last env') name = Some (variable_new name v 0) \<and> butlast env' = butlast env"
    by blast+
qed

text \<open>A local binding lives in the current scope only and ignores readonly.\<close>

lemma environ_set_local_correct:
  assumes inv: "env_inv env" and ne: "env \<noteq> []"
  shows "env_inv (environ_set_local env name v)"
    "keeps_others name env (environ_set_local env name v)"
    "tl (environ_set_local env name v) = tl env"
    "environ_get (environ_set_local env name v) name =
       Some (case scope_map (hd env) name of
               None \<Rightarrow> variable_new name v 0 | Some var \<Rightarrow> var\<lparr>var_value := v\<rparr>)"
proof -
  obtain s ss where env: "env = s # ss"
    using ne by (cases env) auto
  then have s: "scope_inv s" "env_inv ss"
    using inv by simp_all
  show "env_inv (environ_set_local env name v)"
    "keeps_others name env (environ_set_local env name v)"
    "tl (environ_set_local env name v) = tl env"
    "environ_get (environ_set_local env name v) name =
       Some (case scope_map (hd env) name of
               None \<Rightarrow> variable_new name v 0 | Some var \<Rightarrow> var\<lparr>var_value := v\<rparr>)"
    using s by (cases "scope_map s name"; simp add: env scope_laws)+
qed

text \<open>Unsetting removes the innermost binding, so the next one out shows.\<close>

fun chain_del :: "(string \<rightharpoonup> 'v) list \<Rightarrow> string \<Rightarrow> (string \<rightharpoonup> 'v) list" where
  "chain_del [] name = []"
| "chain_del (m # ms) name =
     (case m name of Some v \<Rightarrow> m(name := None) # ms | None \<Rightarrow> m # chain_del ms name)"

lemma environ_unset_correct:
  "env_inv env \<Longrightarrow> environ_unset env name = (env', err) \<Longrightarrow>
   env_inv env' \<and> keeps_others name env env' \<and> keeps_readonly env env' \<and>
   (if check_readonly env name then env' = env \<and> err = readonly_msg name
    else err = [] \<and> map scope_map env' = chain_del (map scope_map env) name)"
proof (induction env arbitrary: env' err)
  case Nil
  then show ?case by (simp add: check_readonly_def)
next
  case (Cons s env)
  then have s: "scope_inv s" "env_inv env"
    by simp_all
  show ?case
  proof (cases "scope_map s name")
    case None
    then obtain env1 where "environ_unset env name = (env1, err)" "env' = s # env1"
      using Cons.prems s by (auto simp: scope_get split: prod.splits)
    with Cons.IH [OF s(2) this(1)] s None show ?thesis
      by (auto simp: scope_get check_readonly_def split: if_splits)
  next
    case (Some var)
    with Cons.prems s show ?thesis
      by (cases "readonly var") (auto simp: scope_laws check_readonly_def)
  qed
qed

subsection \<open>Exporting\<close>

text \<open>
  The binding of \<open>name\<close> the children see: that of the innermost scope in which it is marked, even
  when an unmarked variable of that name hides it in the shell.
\<close>

definition marked :: "(string \<rightharpoonup> variable) \<Rightarrow> (string \<rightharpoonup> variable)" where
  "marked m = (\<lambda>name. case m name of Some var \<Rightarrow> if exportable var then Some var else None | None \<Rightarrow> None)"

definition exported_value :: "environ \<Rightarrow> cenv \<Rightarrow> cenv" where
  "exported_value env cenv name =
     (case chain_get (map (marked \<circ> scope_map) env) name of
        Some var \<Rightarrow> (case var_value var of VT_STRING s \<Rightarrow> Some s | _ \<Rightarrow> cenv name)
      | None \<Rightarrow> cenv name)"

lemma export_var_cb_continues: "fst (export_var_cb k v ctx) = False"
  by (simp add: export_var_cb_def split: prod.splits)

text \<open>One scope: a marked variable is written unless an inner scope has written its name.\<close>

lemma export_entries:
  assumes "\<forall>e \<in> set es. var_name (ht_value e) = ht_key e" "distinct (map ht_key es)" "ht_inv seen"
    and "foldl (\<lambda>ctx e. snd (export_var_cb (ht_key e) (ht_value e) ctx)) (seen, cenv) es = (seen', cenv')"
  shows "ht_inv seen'"
    and "ht_map seen' name = (if marked (map_of (map (\<lambda>e. (ht_key e, ht_value e)) es)) name = None
           then ht_map seen name else Some ())"
    and "cenv' name = (case marked (map_of (map (\<lambda>e. (ht_key e, ht_value e)) es)) name of
            None \<Rightarrow> cenv name
          | Some var \<Rightarrow> if ht_map seen name \<noteq> None then cenv name
              else (case var_value var of VT_STRING s \<Rightarrow> Some s | _ \<Rightarrow> cenv name))"
proof -
  have "ht_inv seen' \<and>
    ht_map seen' name = (if marked (map_of (map (\<lambda>e. (ht_key e, ht_value e)) es)) name = None
           then ht_map seen name else Some ()) \<and>
    cenv' name = (case marked (map_of (map (\<lambda>e. (ht_key e, ht_value e)) es)) name of
            None \<Rightarrow> cenv name
          | Some var \<Rightarrow> if ht_map seen name \<noteq> None then cenv name
              else (case var_value var of VT_STRING s \<Rightarrow> Some s | _ \<Rightarrow> cenv name))"
    using assms
  proof (induction es arbitrary: seen cenv)
    case Nil
    then show ?case by (simp add: marked_def)
  next
    case (Cons e es)
    let ?k = "ht_key e" and ?v = "ht_value e"
    have nm: "var_name ?v = ?k" and new: "map_of (map (\<lambda>e. (ht_key e, ht_value e)) es) ?k = None"
      using Cons.prems(1,2) by (auto simp: map_of_eq_None_iff)
    show ?case
    proof (cases "exportable ?v \<and> ht_map seen ?k = None")
      case True
      then have "snd (export_var_cb ?k ?v (seen, cenv)) =
          (fst (ht_set seen ?k ()), case var_value ?v of VT_STRING s \<Rightarrow> cenv(?k \<mapsto> s) | _ \<Rightarrow> cenv)"
        using Cons.prems(3)
        by (simp add: export_var_cb_def ht.get_map nm split: value_t.split)
      with Cons.IH [of "fst (ht_set seen ?k ())"] Cons.prems True new show ?thesis
        by (cases "name = ?k")
           (auto simp: ht.laws marked_def split: value_t.splits option.splits)
    next
      case False
      then have "snd (export_var_cb ?k ?v (seen, cenv)) = (seen, cenv)"
        using Cons.prems(3) nm by (auto simp: export_var_cb_def ht.get_map)
      with Cons.IH [of seen cenv] Cons.prems False new show ?thesis
        by (cases "name = ?k") (auto simp: marked_def)
    qed
  qed
  then show "ht_inv seen'"
    and "ht_map seen' name = (if marked (map_of (map (\<lambda>e. (ht_key e, ht_value e)) es)) name = None
           then ht_map seen name else Some ())"
    and "cenv' name = (case marked (map_of (map (\<lambda>e. (ht_key e, ht_value e)) es)) name of
            None \<Rightarrow> cenv name
          | Some var \<Rightarrow> if ht_map seen name \<noteq> None then cenv name
              else (case var_value var of VT_STRING s \<Rightarrow> Some s | _ \<Rightarrow> cenv name))"
    by blast+
qed

lemma export_scope:
  assumes "scope_inv s" "ht_inv seen" "ht_foreach (vars s) export_var_cb (seen, cenv) = (seen', cenv')"
  shows "ht_inv seen'"
    and "ht_map seen' name = (if marked (scope_map s) name = None then ht_map seen name else Some ())"
    and "cenv' name = (case marked (scope_map s) name of
            None \<Rightarrow> cenv name
          | Some var \<Rightarrow> if ht_map seen name \<noteq> None then cenv name
              else (case var_value var of VT_STRING s \<Rightarrow> Some s | _ \<Rightarrow> cenv name))"
proof -
  let ?es = "List.map_filter (\<lambda>x. x) (ht_entries (vars s))"
  have kk: "keys_ok (ht_entries (vars s))"
    using assms(1) by (simp add: scope_inv_def ht_inv_def slots_ok_def)
  have dist: "distinct (map ht_key ?es)"
    by (rule slots_keys_distinct [OF kk])
  have names: "\<forall>e \<in> set ?es. var_name (ht_value e) = ht_key e"
  proof
    fix e
    assume e: "e \<in> set ?es"
    then have "(ht_key e, ht_value e) \<in> set (map (\<lambda>e. (ht_key e, ht_value e)) ?es)"
      by auto
    then have "scope_map s (ht_key e) = Some (ht_value e)"
      unfolding scope_map_def ht_map_def slots_map_def
      using dist by (intro map_of_is_SomeI) (simp_all add: o_def)
    then show "var_name (ht_value e) = ht_key e"
      using assms(1) scope_name by blast
  qed
  have fold: "foldl (\<lambda>ctx e. snd (export_var_cb (ht_key e) (ht_value e) ctx)) (seen, cenv) ?es =
      (seen', cenv')"
    using assms(3) ht_foreach_slots_fold [of export_var_cb, OF export_var_cb_continues]
    by (simp add: ht_foreach_def)
  note entries = export_entries(1) [OF names dist assms(2) fold]
    export_entries(2,3) [OF names dist assms(2) fold, where name = name]
  show "ht_inv seen'"
    and "ht_map seen' name = (if marked (scope_map s) name = None then ht_map seen name else Some ())"
    and "cenv' name = (case marked (scope_map s) name of
            None \<Rightarrow> cenv name
          | Some var \<Rightarrow> if ht_map seen name \<noteq> None then cenv name
              else (case var_value var of VT_STRING s \<Rightarrow> Some s | _ \<Rightarrow> cenv name))"
    using entries by (simp_all add: scope_map_def ht_map_def slots_map_def)
qed

lemma export_chain:
  "env_inv env \<Longrightarrow> ht_inv seen \<Longrightarrow>
   snd (foldl (\<lambda>ctx s. ht_foreach (vars s) export_var_cb ctx) (seen, cenv) env) name =
     (if ht_map seen name \<noteq> None then cenv name else exported_value env cenv name)"
proof (induction env arbitrary: seen cenv)
  case Nil
  then show ?case by (simp add: exported_value_def)
next
  case (Cons s env)
  obtain seen1 cenv1 where one: "ht_foreach (vars s) export_var_cb (seen, cenv) = (seen1, cenv1)"
    by force
  have s: "scope_inv s" "env_inv env"
    using Cons.prems by simp_all
  note es = export_scope [OF s(1) Cons.prems(2) one]
  show ?case
    using Cons.IH [OF s(2) es(1), of cenv1] es(2,3) [where name = name]
    by (auto simp: one exported_value_def split: option.splits value_t.splits if_splits)
qed

lemma environ_export_to_c_correct:
  assumes "env_inv env"
  shows "environ_export_to_c env cenv = exported_value env cenv"
  using export_chain [OF assms, of ht_init cenv]
  by (auto simp: environ_export_to_c_def ht.laws)

subsection \<open>What the shell relies on\<close>

lemma assign_bound_place:
  assumes "env_inv (xs @ s # ys)" "environ_get xs name = None" "scope_map s name = Some old"
  shows "\<exists>env' err. environ_assign_bound (xs @ s # ys) name v = Some (env', err) \<and>
    (if readonly old then env' = xs @ s # ys \<and> err = readonly_msg name
     else err = [] \<and>
       map scope_map env' = map scope_map xs @ (scope_map s)(name \<mapsto> old\<lparr>var_value := v\<rparr>) # map scope_map ys)"
  using assms
proof (induction xs)
  case Nil
  then show ?case
    by (auto simp: scope_laws)
next
  case (Cons x xs)
  have "ht_get (vars x) name = None" "environ_get xs name = None"
    using Cons.prems(2) by (auto split: option.splits)
  with Cons.IH Cons.prems show ?case
    by (cases "readonly old") auto
qed

lemma assign_unbound_place:
  assumes "env_inv env" "env \<noteq> []" "environ_get env name = None" "environ_assign env name v = (env', err)"
  shows "err = [] \<and> map scope_map env' =
    map scope_map (butlast env) @ [(scope_map (last env))(name \<mapsto> variable_new name v 0)]"
proof -
  obtain xs s where env: "env = xs @ [s]"
    using assms(2) by (cases env rule: rev_cases) auto
  have s: "scope_inv s"
    using assms(1) env by simp
  have get: "environ_get (xs @ [s]) name = None \<Longrightarrow> scope_map s name = None" for xs
    using s by (induction xs) (auto simp: scope_get split: option.splits)
  have none: "environ_assign_bound env name v = None"
    using assign_bound_None [OF assms(1)] assms(3) by simp
  have new: "scope_map s name = None"
    using get [of xs] assms(3) env by simp
  have "environ_set [s] name v = ([s\<lparr>vars := fst (ht_set (vars s) name (variable_new name v 0))\<rparr>], [])"
    using new s by (simp add: environ_set_def scope_get)
  with assms(4) none env set_scope_correct(2) [OF s new] show ?thesis
    by (auto simp: environ_assign_def)
qed

text \<open>
  C15. Assignment follows the chain. Where the name is bound, the innermost binding is the one that changes, in
  its own scope and in its value only, all scopes inside and outside of it staying as they are; a readonly one is
  left alone with a message. Where it is not bound, the global scope gets a new variable and no other scope
  changes.
\<close>

theorem environ_assign_spec:
  assumes "env_inv env" "env \<noteq> []" "environ_assign env name v = (env', err)"
  shows "(\<forall>xs s ys old. env = xs @ s # ys \<and> environ_get xs name = None \<and> scope_map s name = Some old \<longrightarrow>
       (if readonly old then env' = env \<and> err = readonly_msg name
        else err = [] \<and>
          map scope_map env' = map scope_map xs @ (scope_map s)(name \<mapsto> old\<lparr>var_value := v\<rparr>) # map scope_map ys)) \<and>
     (environ_get env name = None \<longrightarrow> err = [] \<and>
        map scope_map env' = map scope_map (butlast env) @ [(scope_map (last env))(name \<mapsto> variable_new name v 0)]) \<and>
     (if check_readonly env name then env' = env \<and> err = readonly_msg name
      else err = [] \<and> map_option var_value (environ_get env' name) = Some v) \<and>
     (\<forall>n. n \<noteq> name \<longrightarrow> environ_get env' n = environ_get env n) \<and>
     keeps_readonly env env' \<and> env_inv env'"
proof (intro conjI)
  show "\<forall>xs s ys old. env = xs @ s # ys \<and> environ_get xs name = None \<and> scope_map s name = Some old \<longrightarrow>
       (if readonly old then env' = env \<and> err = readonly_msg name
        else err = [] \<and>
          map scope_map env' = map scope_map xs @ (scope_map s)(name \<mapsto> old\<lparr>var_value := v\<rparr>) # map scope_map ys)"
    using assign_bound_place [of _ _ _ name _ v] assms(1,3) by (fastforce simp: environ_assign_def)
  show "environ_get env name = None \<longrightarrow> err = [] \<and>
        map scope_map env' = map scope_map (butlast env) @ [(scope_map (last env))(name \<mapsto> variable_new name v 0)]"
    using assign_unbound_place [OF assms(1,2) _ assms(3)] by blast
qed (use environ_assign_correct [OF assms] keeps_others_get [OF assms(1), of env' name] in
      \<open>auto split: option.splits\<close>)

lemma new_env_inv: "env_inv (environ_new [] False)" "environ_get (environ_new [] False) name = None"
  by (simp_all add: environ_new_def scope_init ht.get_init)

lemma environ_assign_spec_witness:
  "map_option var_value (environ_get (fst (environ_assign (environ_new [] False) ''x'' (VT_STRING ''1''))) ''x'') =
     Some (VT_STRING ''1'')"
proof -
  obtain env' err where asg: "environ_assign (environ_new [] False) ''x'' (VT_STRING ''1'') = (env', err)"
    by force
  have "environ_new [] False \<noteq> []"
    by (simp add: environ_new_def)
  from environ_assign_spec [OF new_env_inv(1) this asg] show ?thesis
    by (simp add: asg check_readonly_def new_env_inv(2))
qed

text \<open>
  C20. Leaving a function undoes its locals: what \<^verbatim>\<open>local\<close> and plain scope assignments bind in a new
  scope is visible while the scope is there and gone when it is popped, with the outer bindings,
  readonly ones included, as they were.
\<close>

theorem environ_local_scoped:
  assumes "env_inv env"
  shows "(let env1 = environ_set_local (environ_new env temporary) name v;
              (env2, err) = environ_set env1 name2 v2
          in map_option var_value (environ_get env1 name) = Some v \<and> err = [] = (\<not> check_readonly env1 name2) \<and>
             environ_pop env1 = env \<and> environ_pop env2 = env)"
proof -
  define env1 where "env1 = environ_set_local (environ_new env temporary) name v"
  obtain env2 err where set: "environ_set env1 name2 v2 = (env2, err)"
    by force
  have ne: "environ_new env temporary \<noteq> []"
    by (simp add: environ_new_def)
  note loc = environ_set_local_correct [OF environ_new_correct(1) [OF assms] ne, of name v, folded env1_def]
  have hd: "scope_map (hd (environ_new env temporary)) = Map.empty"
    by (simp add: environ_new_def scope_init)
  have "env1 \<noteq> []"
    using loc(2) ne by (auto simp: keeps_others_def)
  note flags = environ_set_flags_correct [OF loc(1) set [unfolded environ_set_def]]
  have msg: "readonly_msg name2 \<noteq> []"
    by (simp add: readonly_msg_def)
  have "environ_pop env1 = env"
    using loc(3) by (simp add: environ_pop_def environ_new_def)
  moreover have "environ_pop env2 = env"
    using flags(4) calculation by (simp add: environ_pop_def)
  ultimately show ?thesis
    using loc(4) hd flags(5,6) msg \<open>env1 \<noteq> []\<close>
    by (auto simp: set Let_def simp flip: env1_def)
qed

lemma environ_local_scoped_witness:
  "environ_pop (environ_set_local (environ_new (environ_new [] False) True) ''x'' (VT_STRING ''1'')) =
     environ_new [] False"
  using environ_local_scoped [OF new_env_inv(1), of True "''x''" "VT_STRING ''1''" "''y''" VT_NONE]
  by (auto simp: Let_def split: prod.splits)

text \<open>
  C22. The children's environment: after the export every name that some scope marks for export, and
  that is not a special parameter, has the text of the innermost scope that marks it, and every
  other variable of the C environment is unchanged, whatever order the tables are walked in.
\<close>

theorem environ_export_spec:
  assumes "env_inv env"
  shows "environ_export_to_c env cenv name =
     (case chain_get (map (marked \<circ> scope_map) env) name of
        Some var \<Rightarrow> (case var_value var of VT_STRING s \<Rightarrow> Some s | _ \<Rightarrow> cenv name)
      | None \<Rightarrow> cenv name)"
  by (simp add: environ_export_to_c_correct [OF assms] exported_value_def)

lemma environ_export_spec_witness:
  "environ_export_to_c (environ_new [] False) [''HOME'' \<mapsto> ''/''] ''HOME'' = Some ''/''"
  by (subst environ_export_spec [OF new_env_inv(1)])
     (simp add: environ_new_def scope_init marked_def)

end
