(* ===== verification/Job.thy ===== *)
theory Job
  imports Cstd
begin

text \<open>
  \<^verbatim>\<open>src/exec/job.c\<close> and \<^verbatim>\<open>src/exec/signal.c\<close>: the job table and the pending-signal flags. The kernel
  is the list of results its \<^verbatim>\<open>waitpid\<close> calls give, in order; a pointer to a job is its index in
  the table, whose \<^verbatim>\<open>count\<close> used entries are the list \<open>jt_jobs\<close>.
\<close>

subsection \<open>Signals\<close>

datatype signo = SIGINT | SIGTERM | SIGCHLD | SIGTSTP | SIGPIPE | SIGTTIN | SIGTTOU

datatype disposition = SIG_DFL | SIG_IGN | Handle_int | Handle_term | Handle_chld

record sigstate =
  sig_int_pending :: bool
  sig_term_pending :: bool
  sig_chld_pending :: bool
  sig_disp :: "signo \<Rightarrow> disposition"

definition handle_signal :: "disposition \<Rightarrow> sigstate \<Rightarrow> sigstate" where
  "handle_signal d s =
     (case d of
        Handle_int \<Rightarrow> s\<lparr>sig_int_pending := True\<rparr>
      | Handle_term \<Rightarrow> s\<lparr>sig_term_pending := True\<rparr>
      | Handle_chld \<Rightarrow> s\<lparr>sig_chld_pending := True\<rparr>
      | _ \<Rightarrow> s)"

definition signal_init :: "sigstate \<Rightarrow> sigstate" where
  "signal_init s =
     s\<lparr>sig_disp := (sig_disp s)(SIGINT := Handle_int, SIGTERM := Handle_term, SIGCHLD := Handle_chld,
                    SIGTSTP := SIG_IGN, SIGPIPE := SIG_IGN, SIGTTIN := SIG_IGN, SIGTTOU := SIG_IGN)\<rparr>"

definition signal_reset :: "sigstate \<Rightarrow> sigstate" where
  "signal_reset s =
     s\<lparr>sig_disp := (sig_disp s)(SIGINT := SIG_DFL, SIGTERM := SIG_DFL, SIGPIPE := SIG_DFL,
                    SIGCHLD := SIG_DFL, SIGTSTP := SIG_DFL, SIGTTIN := SIG_DFL, SIGTTOU := SIG_DFL),
       sig_int_pending := False, sig_term_pending := False, sig_chld_pending := False\<rparr>"

definition signal_pending :: "sigstate \<Rightarrow> bool" where
  "signal_pending s = (sig_int_pending s \<or> sig_term_pending s)"

definition signal_clear :: "sigstate \<Rightarrow> sigstate" where
  "signal_clear s =
     s\<lparr>sig_int_pending := False, sig_term_pending := False, sig_chld_pending := False\<rparr>"

definition signal_check_int :: "sigstate \<Rightarrow> bool \<times> sigstate" where
  "signal_check_int s =
     (if sig_int_pending s then (True, s\<lparr>sig_int_pending := False\<rparr>) else (False, s))"

definition signal_check_term :: "sigstate \<Rightarrow> bool \<times> sigstate" where
  "signal_check_term s =
     (if sig_term_pending s then (True, s\<lparr>sig_term_pending := False\<rparr>) else (False, s))"

definition signal_check_chld :: "sigstate \<Rightarrow> bool \<times> sigstate" where
  "signal_check_chld s =
     (if sig_chld_pending s then (True, s\<lparr>sig_chld_pending := False\<rparr>) else (False, s))"

definition signal_get_pending :: "sigstate \<Rightarrow> signo option" where
  "signal_get_pending s =
     (if sig_int_pending s then Some SIGINT else if sig_term_pending s then Some SIGTERM else None)"

subsection \<open>The table\<close>

datatype job_state = JOB_RUNNING | JOB_STOPPED | JOB_DONE

record job =
  j_id :: int
  j_pgid :: int
  j_pids :: "int list"
  j_pid_status :: "int list"
  j_pid_done :: "bool list"
  j_state :: job_state
  j_status :: int
  j_command :: string
  j_notified :: bool

record job_table =
  jt_jobs :: "job list"
  jt_next_id :: int
  jt_current :: int
  jt_previous :: int

definition JOB_TABLE_MAX :: nat where
  "JOB_TABLE_MAX = 64"

definition job_table_init :: job_table where
  "job_table_init = \<lparr>jt_jobs = [], jt_next_id = 1, jt_current = 0, jt_previous = 0\<rparr>"

definition job_table_destroy :: "job_table \<Rightarrow> job_table" where
  "job_table_destroy jt = \<lparr>jt_jobs = [], jt_next_id = 0, jt_current = 0, jt_previous = 0\<rparr>"

definition job_table_reset :: "job_table \<Rightarrow> job_table" where
  "job_table_reset jt = \<lparr>jt_jobs = [], jt_next_id = 1, jt_current = 0, jt_previous = 0\<rparr>"

text \<open>\<^verbatim>\<open>-1\<close>, with a message, when the table is full.\<close>

definition job_add :: "job_table \<Rightarrow> int \<Rightarrow> int list \<Rightarrow> string \<Rightarrow> int \<times> job_table" where
  "job_add jt pgid pids command =
     (if length (jt_jobs jt) \<ge> JOB_TABLE_MAX then (-1, jt)
      else
        (let jid = jt_next_id jt;
             j = \<lparr>j_id = jid, j_pgid = pgid, j_pids = pids,
                  j_pid_status = replicate (length pids) 0,
                  j_pid_done = replicate (length pids) False,
                  j_state = JOB_RUNNING, j_status = 0, j_command = command, j_notified = False\<rparr>
         in (jid, \<lparr>jt_jobs = jt_jobs jt @ [j], jt_next_id = jid + 1,
                  jt_current = jid, jt_previous = jt_current jt\<rparr>)))"

text \<open>The loops over the used entries: the first index that satisfies the test.\<close>

fun find_index :: "('a \<Rightarrow> bool) \<Rightarrow> 'a list \<Rightarrow> nat option" where
  "find_index P [] = None"
| "find_index P (x # xs) = (if P x then Some 0 else map_option Suc (find_index P xs))"

definition job_find_by_id :: "job_table \<Rightarrow> int \<Rightarrow> nat option" where
  "job_find_by_id jt jid = find_index (\<lambda>j. j_id j = jid) (jt_jobs jt)"

definition job_find_by_pid :: "job_table \<Rightarrow> int \<Rightarrow> nat option" where
  "job_find_by_pid jt pid = find_index (\<lambda>j. pid \<in> set (j_pids j)) (jt_jobs jt)"

definition job_remove :: "job_table \<Rightarrow> int \<Rightarrow> job_table" where
  "job_remove jt jid =
     (case job_find_by_id jt jid of
        None \<Rightarrow> jt
      | Some i \<Rightarrow>
          (let jt = (if jt_current jt = jid
                     then jt\<lparr>jt_current := jt_previous jt, jt_previous := 0\<rparr>
                     else if jt_previous jt = jid then jt\<lparr>jt_previous := 0\<rparr> else jt)
           in jt\<lparr>jt_jobs := take i (jt_jobs jt) @ drop (i + 1) (jt_jobs jt)\<rparr>))"

lemma find_index_Some:
  "find_index P xs = Some i \<Longrightarrow> i < length xs \<and> P (xs ! i) \<and> (\<forall>k < i. \<not> P (xs ! k))"
  by (induction xs arbitrary: i) (auto split: if_splits simp: less_Suc_eq_0_disj)

lemma find_index_None: "find_index P xs = None \<longleftrightarrow> (\<forall>x \<in> set xs. \<not> P x)"
  by (induction xs) auto

lemma job_remove_shorter:
  "i < length (jt_jobs jt) \<Longrightarrow>
   length (jt_jobs (job_remove jt (j_id (jt_jobs jt ! i)))) < length (jt_jobs jt)"
  by (auto simp: job_remove_def job_find_by_id_def find_index_None Let_def
      split: option.splits dest!: find_index_Some)

lemma job_remove_measure:
  "i < length (jt_jobs jt) \<Longrightarrow>
   length (jt_jobs (job_remove jt (j_id (jt_jobs jt ! i)))) - i < length (jt_jobs jt) - i"
  using job_remove_shorter [of i jt] by linarith

function job_reap_from :: "job_table \<Rightarrow> nat \<Rightarrow> job_table" where
  "job_reap_from jt i =
     (if i < length (jt_jobs jt) then
        (let j = jt_jobs jt ! i in
         if j_state j = JOB_DONE \<and> j_notified j then job_reap_from (job_remove jt (j_id j)) i
         else job_reap_from jt (i + 1))
      else jt)"
  by pat_completeness auto
termination
  by (relation "measure (\<lambda>(jt, i). length (jt_jobs jt) - i)")
     (auto simp: job_remove_measure)

declare job_reap_from.simps [simp del]

definition job_reap_done :: "job_table \<Rightarrow> job_table" where
  "job_reap_done jt = job_reap_from jt 0"

subsection \<open>Wait statuses\<close>

text \<open>What a status word says: the four \<^verbatim>\<open>WIF...\<close> tests and the number each carries.\<close>

datatype wstatus = Exited int | Signaled int | Stopped int | Continued

definition job_check_complete :: "job \<Rightarrow> job" where
  "job_check_complete j =
     (if list_all (\<lambda>d. d) (j_pid_done j)
      then j\<lparr>j_state := JOB_DONE, j_status := j_pid_status j ! (length (j_pids j) - 1)\<rparr>
      else j)"

definition pid_ended :: "job \<Rightarrow> nat \<Rightarrow> int \<Rightarrow> job" where
  "pid_ended j p status =
     job_check_complete (j\<lparr>j_pid_done := (j_pid_done j)[p := True],
                           j_pid_status := (j_pid_status j)[p := status]\<rparr>)"

text \<open>One status in \<^verbatim>\<open>job_update\<close>.\<close>

definition job_update_event :: "job \<Rightarrow> nat \<Rightarrow> wstatus \<Rightarrow> job" where
  "job_update_event j p w =
     (case w of
        Exited n \<Rightarrow> pid_ended j p n
      | Signaled n \<Rightarrow> pid_ended j p (128 + n)
      | Stopped n \<Rightarrow> j\<lparr>j_state := JOB_STOPPED, j_status := 128 + n, j_notified := False\<rparr>
      | Continued \<Rightarrow> j\<lparr>j_state := JOB_RUNNING, j_notified := False\<rparr>)"

text \<open>\<^verbatim>\<open>job_update\<close>: the children reaped before \<^verbatim>\<open>waitpid\<close> has no more.\<close>

fun job_update :: "job_table \<Rightarrow> (int \<times> wstatus) list \<Rightarrow> nat \<times> job_table" where
  "job_update jt [] = (0, jt)"
| "job_update jt ((pid, w) # reaped) =
     (case job_find_by_pid jt pid of
        None \<Rightarrow> job_update jt reaped
      | Some i \<Rightarrow>
          (let j = jt_jobs jt ! i in
           case find_index (\<lambda>p. p = pid) (j_pids j) of
             None \<Rightarrow> job_update jt reaped
           | Some p \<Rightarrow>
               (let (changes, jt') =
                  job_update (jt\<lparr>jt_jobs := (jt_jobs jt)[i := job_update_event j p w]\<rparr>) reaped
                in (Suc changes, jt'))))"

text \<open>
  The blocking wait: what each \<^verbatim>\<open>waitpid\<close> on the job's group gives. The log holds the signals
  forwarded to the group. \<open>None\<close> is a wait that does not return with the results given.
\<close>

datatype wait_result = Reaped int wstatus | Interrupted "signo list" | No_child

definition job_wait_event :: "job \<Rightarrow> nat \<Rightarrow> wstatus \<Rightarrow> job" where
  "job_wait_event j p w =
     (case w of
        Exited n \<Rightarrow> pid_ended j p n
      | Signaled n \<Rightarrow> pid_ended j p (128 + n)
      | Stopped n \<Rightarrow> j\<lparr>j_state := JOB_STOPPED, j_status := 128 + n, j_notified := False\<rparr>
      | Continued \<Rightarrow> j\<lparr>j_state := JOB_RUNNING\<rparr>)"

text \<open>The signals delivered while the wait blocks set the flags before \<^verbatim>\<open>EINTR\<close> is seen.\<close>

definition forward_signals :: "sigstate \<Rightarrow> int \<Rightarrow> sigstate \<times> (int \<times> signo) list" where
  "forward_signals s pgid =
     (let (int, s) = signal_check_int s;
          (term, s) = signal_check_term s
      in (s, (if int then [(- pgid, SIGINT)] else []) @ (if term then [(- pgid, SIGTERM)] else [])))"

fun job_wait_loop ::
  "job \<Rightarrow> sigstate \<Rightarrow> wait_result list \<Rightarrow> (job \<times> sigstate \<times> (int \<times> signo) list) option" where
  "job_wait_loop j s [] = (if j_state j \<noteq> JOB_RUNNING then Some (j, s, []) else None)"
| "job_wait_loop j s (r # rs) =
     (if j_state j \<noteq> JOB_RUNNING then Some (j, s, [])
      else
        (case r of
           Interrupted sigs \<Rightarrow>
             (let s = fold (\<lambda>n s. handle_signal (sig_disp s n) s) sigs s;
                  (s, kills) = forward_signals s (j_pgid j)
              in map_option (\<lambda>(j, s, ks). (j, s, kills @ ks)) (job_wait_loop j s rs))
         | No_child \<Rightarrow> Some (j, s, [])
         | Reaped pid w \<Rightarrow>
             (case find_index (\<lambda>p. p = pid) (j_pids j) of
                None \<Rightarrow> job_wait_loop j s rs
              | Some p \<Rightarrow>
                  (let j = job_wait_event j p w in
                   case w of Stopped n \<Rightarrow> Some (j, s, []) | _ \<Rightarrow> job_wait_loop j s rs))))"

definition job_wait_fg ::
  "job_table \<Rightarrow> int \<Rightarrow> sigstate \<Rightarrow> wait_result list \<Rightarrow>
   (int \<times> job_table \<times> sigstate \<times> (int \<times> signo) list) option" where
  "job_wait_fg jt job_id s results =
     (case job_find_by_id jt job_id of
        None \<Rightarrow> Some (127, jt, s, [])
      | Some i \<Rightarrow>
          (case job_wait_loop (jt_jobs jt ! i) s results of
             None \<Rightarrow> None
           | Some (j, s, kills) \<Rightarrow>
               Some (j_status j, jt\<lparr>jt_jobs := (jt_jobs jt)[i := j]\<rparr>, s, kills)))"

subsection \<open>Job specifications\<close>

definition job_current :: "job_table \<Rightarrow> nat option" where
  "job_current jt =
     (if jt_current jt > 0 then job_find_by_id jt (jt_current jt)
      else if jt_jobs jt \<noteq> [] then Some (length (jt_jobs jt) - 1)
      else None)"

definition job_parse_spec :: "job_table \<Rightarrow> string option \<Rightarrow> nat option" where
  "job_parse_spec jt spec =
     (case spec of
        None \<Rightarrow> None
      | Some spec \<Rightarrow>
          if peek spec 0 \<noteq> CHR 0x25 then None
          else if peek spec 1 = CHR 0x25 \<or> peek spec 1 = CHR ''+'' \<or> peek spec 1 = NUL
          then job_current jt
          else if peek spec 1 = CHR ''-'' then
            (if jt_previous jt > 0 then job_find_by_id jt (jt_previous jt) else None)
          else if between CHR ''1'' CHR ''9'' (peek spec 1) then
            (let (n, used) = strtoll 10 (drop 1 spec)
             in if peek spec (1 + used) = NUL then job_find_by_id jt (int_of_i64 n) else None)
          else if peek spec 1 = CHR ''?'' then
            find_index (\<lambda>j. strstr (j_command j) (drop 2 spec) \<noteq> None) (jt_jobs jt)
          else find_index (\<lambda>j. take (length spec - 1) (j_command j) = drop 1 spec) (jt_jobs jt))"

subsection \<open>Invariant\<close>

definition job_inv :: "job \<Rightarrow> bool" where
  "job_inv j \<longleftrightarrow>
     j_pids j \<noteq> [] \<and> length (j_pid_status j) = length (j_pids j) \<and>
     length (j_pid_done j) = length (j_pids j) \<and>
     (j_state j = JOB_DONE \<longrightarrow> list_all (\<lambda>d. d) (j_pid_done j) \<and> j_status j = last (j_pid_status j))"

text \<open>
  The numbers are distinct, given out in order, and \<^verbatim>\<open>%+\<close> and \<^verbatim>\<open>%-\<close> name jobs of the table or
  nothing.
\<close>

definition job_table_inv :: "job_table \<Rightarrow> bool" where
  "job_table_inv jt \<longleftrightarrow>
     length (jt_jobs jt) \<le> JOB_TABLE_MAX \<and> list_all job_inv (jt_jobs jt) \<and>
     distinct (map j_id (jt_jobs jt)) \<and> 0 < jt_next_id jt \<and>
     (\<forall>j \<in> set (jt_jobs jt). 0 < j_id j \<and> j_id j < jt_next_id jt) \<and>
     (jt_current jt = 0 \<or> jt_current jt \<in> j_id ` set (jt_jobs jt)) \<and>
     (jt_previous jt = 0 \<or> jt_previous jt \<in> j_id ` set (jt_jobs jt) \<and> jt_previous jt \<noteq> jt_current jt) \<and>
     (jt_current jt = 0 \<longrightarrow> jt_previous jt = 0)"

lemma job_table_init_inv: "job_table_inv job_table_init" "job_table_inv (job_table_reset jt)"
  by (simp_all add: job_table_inv_def job_table_init_def job_table_reset_def)

lemma job_add_inv:
  assumes inv: "job_table_inv jt" and ne: "pids \<noteq> []" and add: "job_add jt pgid pids command = (n, jt')"
  shows "job_table_inv jt'"
proof (cases "length (jt_jobs jt) \<ge> JOB_TABLE_MAX")
  case True
  with assms show ?thesis by (simp add: job_add_def)
next
  case False
  define ids where "ids = j_id ` set (jt_jobs jt)"
  have ids: "\<forall>m \<in> ids. 0 < m \<and> m < jt_next_id jt" "jt_current jt = 0 \<or> jt_current jt \<in> ids"
    using inv by (auto simp: job_table_inv_def ids_def)
  define j where "j = \<lparr>j_id = jt_next_id jt, j_pgid = pgid, j_pids = pids,
    j_pid_status = replicate (length pids) 0, j_pid_done = replicate (length pids) False,
    j_state = JOB_RUNNING, j_status = 0, j_command = command, j_notified = False\<rparr>"
  have jt': "jt' = \<lparr>jt_jobs = jt_jobs jt @ [j], jt_next_id = jt_next_id jt + 1,
      jt_current = jt_next_id jt, jt_previous = jt_current jt\<rparr>"
    using add False by (auto simp: job_add_def Let_def j_def)
  have j: "job_inv j" "j_id j = jt_next_id jt"
    using ne by (simp_all add: j_def job_inv_def)
  have "\<forall>k \<in> set (jt_jobs jt). 0 < j_id k \<and> j_id k < jt_next_id jt + 1"
    using ids(1) by (force simp: ids_def)
  then show ?thesis
    using inv False j ids unfolding job_table_inv_def jt'
    by (simp add: ids_def [symmetric]) force
qed

text \<open>Removing a job: with distinct numbers, the entries with another number stay, in order.\<close>

lemma remove_nth_distinct:
  "distinct (map f xs) \<Longrightarrow> i < length xs \<Longrightarrow>
   take i xs @ drop (Suc i) xs = filter (\<lambda>x. f x \<noteq> f (xs ! i)) xs"
proof (induction xs arbitrary: i)
  case Nil
  then show ?case by simp
next
  case (Cons x xs)
  show ?case
  proof (cases i)
    case 0
    with Cons.prems have "filter (\<lambda>y. f y \<noteq> f x) xs = xs"
      by (simp add: filter_id_conv) (metis image_eqI)
    with 0 show ?thesis by simp
  next
    case (Suc k)
    with Cons.prems have "f x \<noteq> f (xs ! k)"
      by (metis (no_types, lifting) Suc_less_SucD distinct.simps(2) image_eqI length_Cons list.set_map
          list.simps(9) nth_mem)
    with Cons Suc show ?thesis by simp
  qed
qed

lemma find_by_id_mem:
  assumes "job_find_by_id jt n = Some i"
  shows "i < length (jt_jobs jt)" "j_id (jt_jobs jt ! i) = n"
  using find_index_Some [of _ "jt_jobs jt" i] assms unfolding job_find_by_id_def by blast+

lemma job_remove_jobs:
  assumes "distinct (map j_id (jt_jobs jt))"
  shows "jt_jobs (job_remove jt n) = filter (\<lambda>j. j_id j \<noteq> n) (jt_jobs jt)"
proof (cases "job_find_by_id jt n")
  case None
  then have "filter (\<lambda>j. j_id j \<noteq> n) (jt_jobs jt) = jt_jobs jt"
    by (auto simp: job_find_by_id_def find_index_None filter_id_conv)
  with None show ?thesis
    by (simp add: job_remove_def)
next
  case (Some i)
  note i = find_by_id_mem [OF Some]
  have "take i (jt_jobs jt) @ drop (Suc i) (jt_jobs jt) = filter (\<lambda>j. j_id j \<noteq> n) (jt_jobs jt)"
    using remove_nth_distinct [OF assms i(1)] i(2) by simp
  with Some show ?thesis
    by (simp add: job_remove_def Let_def)
qed

lemma job_remove_marks:
  "job_find_by_id jt n \<noteq> None \<Longrightarrow>
   jt_current (job_remove jt n) = (if jt_current jt = n then jt_previous jt else jt_current jt)"
  "job_find_by_id jt n \<noteq> None \<Longrightarrow>
   jt_previous (job_remove jt n) =
     (if jt_current jt = n \<or> jt_previous jt = n then 0 else jt_previous jt)"
  "jt_next_id (job_remove jt n) = jt_next_id jt"
  "job_find_by_id jt n = None \<Longrightarrow> job_remove jt n = jt"
  by (auto simp: job_remove_def Let_def split: option.splits)

lemma job_remove_inv:
  assumes inv: "job_table_inv jt"
  shows "job_table_inv (job_remove jt n)"
proof (cases "job_find_by_id jt n")
  case None
  with inv show ?thesis by (simp add: job_remove_marks)
next
  case (Some i)
  then have jobs: "jt_jobs (job_remove jt n) = filter (\<lambda>j. j_id j \<noteq> n) (jt_jobs jt)"
    using inv by (simp add: job_remove_jobs job_table_inv_def)
  have len: "length (filter (\<lambda>j. j_id j \<noteq> n) (jt_jobs jt)) \<le> JOB_TABLE_MAX"
    using inv length_filter_le [of "\<lambda>j. j_id j \<noteq> n" "jt_jobs jt"]
    unfolding job_table_inv_def by linarith
  have marks: "jt_current (job_remove jt n) = (if jt_current jt = n then jt_previous jt else jt_current jt)"
    "jt_previous (job_remove jt n) = (if jt_current jt = n \<or> jt_previous jt = n then 0 else jt_previous jt)"
    using Some job_remove_marks by auto
  define ids where "ids = j_id ` set (jt_jobs jt)"
  have mem: "j_id ` set (filter (\<lambda>j. j_id j \<noteq> n) (jt_jobs jt)) = ids - {n}"
    by (auto simp: ids_def)
  have refs: "jt_current jt = 0 \<or> jt_current jt \<in> ids"
    "jt_previous jt = 0 \<or> jt_previous jt \<in> ids \<and> jt_previous jt \<noteq> jt_current jt"
    "jt_current jt = 0 \<longrightarrow> jt_previous jt = 0" "0 < jt_next_id jt"
    using inv by (simp_all add: job_table_inv_def ids_def)
  have dist: "distinct (map j_id (filter (\<lambda>j. j_id j \<noteq> n) (jt_jobs jt)))"
    using inv by (simp add: job_table_inv_def distinct_map_filter)
  have js: "list_all job_inv (filter (\<lambda>j. j_id j \<noteq> n) (jt_jobs jt))"
    "\<forall>j \<in> set (filter (\<lambda>j. j_id j \<noteq> n) (jt_jobs jt)). 0 < j_id j \<and> j_id j < jt_next_id jt"
    using inv by (simp_all add: job_table_inv_def list_all_iff)
  have n: "n \<noteq> 0"
    using inv find_by_id_mem [OF Some] unfolding job_table_inv_def by (metis less_irrefl nth_mem)
  show ?thesis
    unfolding job_table_inv_def jobs marks job_remove_marks(3) mem
    using len dist js refs n by (auto split: if_splits)
qed

lemma job_reap_from_correct:
  "job_table_inv jt \<Longrightarrow> i \<le> length (jt_jobs jt) \<Longrightarrow>
   job_table_inv (job_reap_from jt i) \<and>
   jt_jobs (job_reap_from jt i) =
     take i (jt_jobs jt) @ filter (\<lambda>j. \<not> (j_state j = JOB_DONE \<and> j_notified j)) (drop i (jt_jobs jt))"
proof (induction jt i rule: job_reap_from.induct)
  case (1 jt i)
  show ?case
  proof (cases "i < length (jt_jobs jt)")
    case False
    with 1 show ?thesis by (subst (1 2) job_reap_from.simps) simp
  next
    case True
    let ?j = "jt_jobs jt ! i"
    have split: "drop i (jt_jobs jt) = ?j # drop (Suc i) (jt_jobs jt)"
      by (rule Cons_nth_drop_Suc [OF True, symmetric])
    show ?thesis
    proof (cases "j_state ?j = JOB_DONE \<and> j_notified ?j")
      case reap: True
      let ?jt = "job_remove jt (j_id ?j)"
      have inv: "job_table_inv ?jt"
        by (rule job_remove_inv [OF 1(3)])
      have dist: "distinct (map j_id (jt_jobs jt))"
        using 1(3) by (simp add: job_table_inv_def)
      have jobs: "jt_jobs ?jt = take i (jt_jobs jt) @ drop (Suc i) (jt_jobs jt)"
        by (simp add: job_remove_jobs [OF dist] remove_nth_distinct [OF dist True])
      have "job_table_inv (job_reap_from ?jt i) \<and> jt_jobs (job_reap_from ?jt i) =
          take i (jt_jobs ?jt) @ filter (\<lambda>j. \<not> (j_state j = JOB_DONE \<and> j_notified j)) (drop i (jt_jobs ?jt))"
        by (rule 1(1) [OF True refl reap inv]) (use True in \<open>simp add: jobs\<close>)
      moreover have "job_reap_from jt i = job_reap_from ?jt i"
        using True reap by (subst job_reap_from.simps) (simp add: Let_def)
      ultimately show ?thesis
        using True reap by (simp add: jobs split)
    next
      case keep: False
      have "job_table_inv (job_reap_from jt (i + 1)) \<and> jt_jobs (job_reap_from jt (i + 1)) =
          take (i + 1) (jt_jobs jt) @
          filter (\<lambda>j. \<not> (j_state j = JOB_DONE \<and> j_notified j)) (drop (i + 1) (jt_jobs jt))"
        by (rule 1(2) [OF True refl keep 1(3)]) (use True in simp)
      moreover have "job_reap_from jt i = job_reap_from jt (i + 1)"
        using True keep by (subst job_reap_from.simps) (auto simp: Let_def)
      ultimately show ?thesis
        using True keep by (simp add: split take_Suc_conv_app_nth)
    qed
  qed
qed

lemma job_check_complete_inv:
  assumes "j_pids j \<noteq> []" "length (j_pid_status j) = length (j_pids j)"
    "length (j_pid_done j) = length (j_pids j)" "j_state j = JOB_DONE \<Longrightarrow> list_all (\<lambda>d. d) (j_pid_done j)"
  shows "job_inv (job_check_complete j)"
proof -
  have "j_pid_status j \<noteq> []"
    using assms(1,2) by auto
  then have "last (j_pid_status j) = j_pid_status j ! (length (j_pids j) - 1)"
    using assms(2) by (simp add: last_conv_nth)
  then show ?thesis
    using assms by (auto simp: job_check_complete_def job_inv_def)
qed

lemma list_all_update: "list_all P xs \<Longrightarrow> P x \<Longrightarrow> list_all P (xs[i := x])"
  by (auto simp: list_all_iff dest: set_update_subset_insert [THEN subsetD])

lemma pid_ended_inv: "job_inv j \<Longrightarrow> job_inv (pid_ended j p n)"
  unfolding pid_ended_def
  by (rule job_check_complete_inv) (auto simp: job_inv_def intro: list_all_update)

lemma job_event_inv:
  "job_inv j \<Longrightarrow> job_inv (job_update_event j p w)"
  "job_inv j \<Longrightarrow> job_inv (job_wait_event j p w)"
  by (auto simp: job_update_event_def job_wait_event_def pid_ended_inv split: wstatus.splits)
     (auto simp: job_inv_def)

lemma job_event_id [simp]:
  "j_id (job_update_event j p w) = j_id j" "j_id (job_wait_event j p w) = j_id j"
  "j_pids (job_update_event j p w) = j_pids j" "j_pids (job_wait_event j p w) = j_pids j"
  by (auto simp: job_update_event_def job_wait_event_def pid_ended_def job_check_complete_def
      split: wstatus.splits)

text \<open>Replacing a job by one with its number.\<close>

lemma job_replace_inv:
  assumes inv: "job_table_inv jt" and i: "i < length (jt_jobs jt)" and j: "job_inv j"
    and same: "j_id j = j_id (jt_jobs jt ! i)"
  shows "job_table_inv (jt\<lparr>jt_jobs := (jt_jobs jt)[i := j]\<rparr>)"
proof -
  have "map j_id ((jt_jobs jt)[i := j]) = map j_id (jt_jobs jt)"
    using i same by (metis list_update_id map_update nth_map)
  then have ids: "map j_id ((jt_jobs jt)[i := j]) = map j_id (jt_jobs jt)"
    "j_id ` set ((jt_jobs jt)[i := j]) = j_id ` set (jt_jobs jt)"
    by (auto simp flip: set_map)
  have "\<forall>j \<in> set ((jt_jobs jt)[i := j]). 0 < j_id j \<and> j_id j < jt_next_id jt"
    using inv ids(2) unfolding job_table_inv_def by (metis (no_types, lifting) image_iff)
  with inv ids j show ?thesis
    unfolding job_table_inv_def by (simp add: list_all_update)
qed

lemma job_update_inv: "job_table_inv jt \<Longrightarrow> job_table_inv (snd (job_update jt reaped))"
proof (induction jt reaped rule: job_update.induct)
  case (1 jt)
  then show ?case by simp
next
  case (2 jt pid w reaped)
  show ?case
  proof (cases "job_find_by_pid jt pid")
    case None
    with 2 show ?thesis by simp
  next
    case (Some i)
    then have i: "i < length (jt_jobs jt)"
      using find_index_Some by (auto simp: job_find_by_pid_def)
    show ?thesis
    proof (cases "find_index (\<lambda>p. p = pid) (j_pids (jt_jobs jt ! i))")
      case None
      with 2 Some show ?thesis by simp
    next
      case p: (Some p)
      have "job_inv (jt_jobs jt ! i)"
        using 2(4) i by (simp add: job_table_inv_def list_all_length)
      then have "job_table_inv (jt\<lparr>jt_jobs := (jt_jobs jt)[i := job_update_event (jt_jobs jt ! i) p w]\<rparr>)"
        by (intro job_replace_inv [OF 2(4) i]) (simp_all add: job_event_inv)
      with 2(3) [OF Some refl p] Some p show ?thesis
        by (simp add: split_beta Let_def)
    qed
  qed
qed

lemma job_wait_loop_inv:
  "job_wait_loop j s rs = Some (j', s', ks) \<Longrightarrow> job_inv j \<Longrightarrow> job_inv j' \<and> j_id j' = j_id j"
proof (induction rs arbitrary: j s ks)
  case Nil
  then show ?case by (simp split: if_splits)
next
  case (Cons r rs)
  show ?case
  proof (cases "j_state j = JOB_RUNNING")
    case False
    with Cons.prems show ?thesis by simp
  next
    case True
    show ?thesis
    proof (cases r)
      case (Interrupted sigs)
      with True Cons show ?thesis
        by (auto simp: Let_def split: prod.splits)
    next
      case No_child
      with True Cons.prems show ?thesis by simp
    next
      case (Reaped pid w)
      show ?thesis
      proof (cases "find_index (\<lambda>p. p = pid) (j_pids j)")
        case None
        with True Reaped Cons show ?thesis by simp
      next
        case (Some p)
        have j: "job_inv (job_wait_event j p w)"
          by (rule job_event_inv(2) [OF Cons.prems(2)])
        show ?thesis
        proof (cases "\<exists>n. w = Stopped n")
          case stop: True
          then show ?thesis
            using True Reaped Some Cons.prems j by (auto simp: Let_def)
        next
          case False
          then have "job_wait_loop (job_wait_event j p w) s rs = Some (j', s', ks)"
            using True Reaped Some Cons.prems by (auto simp: Let_def split: wstatus.splits)
          from Cons.IH [OF this j] show ?thesis
            by simp
        qed
      qed
    qed
  qed
qed

subsection \<open>Reachable tables\<close>

text \<open>
  Every way the shell changes its table: a job is added, removed, reaped, told of what the kernel
  says or waited for; \<^verbatim>\<open>fg\<close> and \<^verbatim>\<open>bg\<close> restart a stopped job and the builtins mark what they reported.
\<close>

inductive job_step :: "job_table \<Rightarrow> job_table \<Rightarrow> bool" where
  add: "pids \<noteq> [] \<Longrightarrow> job_add jt pgid pids command = (n, jt') \<Longrightarrow> job_step jt jt'"
| remove: "job_step jt (job_remove jt n)"
| reap: "job_step jt (job_reap_done jt)"
| update: "job_update jt reaped = (changes, jt') \<Longrightarrow> job_step jt jt'"
| wait: "job_wait_fg jt n s results = Some (status, jt', s', kills) \<Longrightarrow> job_step jt jt'"
| notify: "i < length (jt_jobs jt) \<Longrightarrow>
    job_step jt (jt\<lparr>jt_jobs := (jt_jobs jt)[i := (jt_jobs jt ! i)\<lparr>j_notified := True\<rparr>]\<rparr>)"
| restart: "i < length (jt_jobs jt) \<Longrightarrow> j_state (jt_jobs jt ! i) = JOB_STOPPED \<Longrightarrow>
    job_step jt (jt\<lparr>jt_jobs := (jt_jobs jt)[i := (jt_jobs jt ! i)\<lparr>j_state := JOB_RUNNING\<rparr>]\<rparr>)"
| reset: "job_step jt (job_table_reset jt)"

inductive job_reachable :: "job_table \<Rightarrow> bool" where
  init: "job_reachable job_table_init"
| step: "job_reachable jt \<Longrightarrow> job_step jt jt' \<Longrightarrow> job_reachable jt'"

lemma job_wait_fg_inv:
  assumes inv: "job_table_inv jt" and wait: "job_wait_fg jt n s results = Some (status, jt', s', kills)"
  shows "job_table_inv jt'"
proof (cases "job_find_by_id jt n")
  case None
  with assms show ?thesis by (simp add: job_wait_fg_def)
next
  case (Some i)
  note i = find_by_id_mem [OF Some]
  obtain j where "job_wait_loop (jt_jobs jt ! i) s results = Some (j, s', kills)"
    and jt': "jt' = jt\<lparr>jt_jobs := (jt_jobs jt)[i := j]\<rparr>"
    using wait Some by (auto simp: job_wait_fg_def split: option.splits)
  moreover have "job_inv (jt_jobs jt ! i)"
    using inv i(1) by (simp add: job_table_inv_def list_all_length)
  ultimately have "job_inv j" "j_id j = j_id (jt_jobs jt ! i)"
    using job_wait_loop_inv by blast+
  then show ?thesis
    unfolding jt' by (rule job_replace_inv [OF inv i(1)])
qed

lemma job_step_inv: "job_step jt jt' \<Longrightarrow> job_table_inv jt \<Longrightarrow> job_table_inv jt'"
proof (induction rule: job_step.induct)
  case (reap jt)
  then show ?case
    using job_reap_from_correct [of jt 0] by (simp add: job_reap_done_def)
next
  case (update jt reaped changes jt')
  then show ?case
    using job_update_inv [of jt reaped] by simp
next
  case (notify i jt)
  then have "job_inv (jt_jobs jt ! i)"
    by (simp add: job_table_inv_def list_all_length)
  with notify show ?case
    by (intro job_replace_inv) (simp_all add: job_inv_def)
next
  case (restart i jt)
  then have "job_inv (jt_jobs jt ! i)"
    by (simp add: job_table_inv_def list_all_length)
  with restart show ?case
    by (intro job_replace_inv) (simp_all add: job_inv_def)
qed (auto intro: job_add_inv job_remove_inv job_wait_fg_inv simp: job_table_init_inv)

lemma job_reachable_inv: "job_reachable jt \<Longrightarrow> job_table_inv jt"
  by (induction rule: job_reachable.induct) (auto intro: job_step_inv simp: job_table_init_inv)

lemma find_by_id_exists: "n \<in> j_id ` set (jt_jobs jt) \<Longrightarrow> \<exists>i. job_find_by_id jt n = Some i"
  by (cases "job_find_by_id jt n") (auto simp: job_find_by_id_def find_index_None)

lemma job_current_valid:
  assumes "job_table_inv jt"
  shows "job_current jt = None \<longleftrightarrow> jt_jobs jt = []"
    and "job_current jt = Some i \<Longrightarrow> i < length (jt_jobs jt)"
proof -
  have cur: "0 < jt_current jt \<Longrightarrow> \<exists>i. job_find_by_id jt (jt_current jt) = Some i \<and> jt_jobs jt \<noteq> []"
    using assms find_by_id_exists [of "jt_current jt" jt] by (force simp: job_table_inv_def)
  then show "job_current jt = None \<longleftrightarrow> jt_jobs jt = []"
    by (auto simp: job_current_def)
  show "i < length (jt_jobs jt)" if "job_current jt = Some i"
    using that find_by_id_mem by (auto simp: job_current_def split: if_splits)
qed

subsection \<open>A wait that ends\<close>

text \<open>
  When every process of a running job exits, in whatever order the kernel reports it, the wait
  returns and the status is that of the last process of the pipeline.
\<close>

lemma find_index_mem: "x \<in> set xs \<Longrightarrow> \<exists>i. find_index (\<lambda>y. y = x) xs = Some i"
  by (cases "find_index (\<lambda>y. y = x) xs") (auto simp: find_index_None)

lemma wait_collects:
  "distinct (j_pids j) \<Longrightarrow> j_pids j \<noteq> [] \<Longrightarrow> j_state j = JOB_RUNNING \<Longrightarrow>
   length (j_pid_status j) = length (j_pids j) \<Longrightarrow>
   j_pid_done j = map (\<lambda>p. p \<notin> set order) (j_pids j) \<Longrightarrow>
   \<forall>i < length (j_pids j). j_pids j ! i \<notin> set order \<longrightarrow> j_pid_status j ! i = st (j_pids j ! i) \<Longrightarrow>
   distinct order \<Longrightarrow> set order \<subseteq> set (j_pids j) \<Longrightarrow> order \<noteq> [] \<Longrightarrow>
   \<exists>j'. job_wait_loop j s (map (\<lambda>p. Reaped p (Exited (st p))) order) = Some (j', s, []) \<and>
        j_state j' = JOB_DONE \<and> j_status j' = st (last (j_pids j))"
proof (induction order arbitrary: j)
  case Nil
  then show ?case by simp
next
  case (Cons p order)
  note done_eq = Cons.prems(5) and stat = Cons.prems(6)
  obtain i where fi: "find_index (\<lambda>q. q = p) (j_pids j) = Some i"
    using find_index_mem [of p "j_pids j"] Cons.prems(8) by auto
  then have i: "i < length (j_pids j)" "j_pids j ! i = p"
    using find_index_Some by blast+
  define k where "k = j\<lparr>j_pid_done := (j_pid_done j)[i := True],
                        j_pid_status := (j_pid_status j)[i := st p]\<rparr>"
  have ended: "pid_ended j i (st p) = job_check_complete k"
    by (simp add: pid_ended_def k_def)
  have other: "j_pids j ! m = p \<longleftrightarrow> m = i" if "m < length (j_pids j)" for m
    using that i Cons.prems(1) by (metis nth_eq_iff_index_eq)
  have kdone: "j_pid_done k = map (\<lambda>q. q \<notin> set order) (j_pids j)"
  proof (rule nth_equalityI)
    fix m
    assume "m < length (j_pid_done k)"
    then have m: "m < length (j_pids j)"
      using done_eq by (simp add: k_def)
    show "j_pid_done k ! m = map (\<lambda>q. q \<notin> set order) (j_pids j) ! m"
      using m i other [OF m] Cons.prems(7) done_eq by (auto simp: k_def nth_list_update)
  qed (simp add: k_def done_eq)
  have kstat: "\<forall>m < length (j_pids j). j_pids j ! m \<notin> set order \<longrightarrow> j_pid_status k ! m = st (j_pids j ! m)"
  proof (intro allI impI)
    fix m
    assume m: "m < length (j_pids j)" "j_pids j ! m \<notin> set order"
    show "j_pid_status k ! m = st (j_pids j ! m)"
      using m i other [OF m(1)] stat Cons.prems(4) by (cases "m = i") (auto simp: k_def)
  qed
  show ?case
  proof (cases "order = []")
    case True
    then have complete: "job_check_complete k =
        k\<lparr>j_state := JOB_DONE, j_status := j_pid_status k ! (length (j_pids k) - 1)\<rparr>"
      by (simp add: job_check_complete_def kdone list_all_iff)
    have "j_pid_status k ! (length (j_pids k) - 1) = st (last (j_pids j))"
      using kstat True Cons.prems(2) by (simp add: k_def last_conv_nth)
    then show ?thesis
      using True Cons.prems(3) fi complete ended by (simp add: job_wait_event_def k_def)
  next
    case False
    then obtain q where q: "q \<in> set order"
      by (cases order) auto
    then have "q \<in> set (j_pids j)"
      using Cons.prems(8) by auto
    then have "\<not> list_all (\<lambda>d. d) (j_pid_done k)"
      using q by (auto simp: kdone list_all_iff)
    then have kk: "job_check_complete k = k"
      by (simp add: job_check_complete_def)
    have "\<exists>j'. job_wait_loop k s (map (\<lambda>p. Reaped p (Exited (st p))) order) = Some (j', s, []) \<and>
        j_state j' = JOB_DONE \<and> j_status j' = st (last (j_pids k))"
      by (rule Cons.IH)
         (use Cons.prems kdone kstat False in \<open>simp_all add: k_def\<close>)
    then show ?thesis
      using Cons.prems(3) fi ended kk by (simp add: job_wait_event_def k_def)
  qed
qed

subsection \<open>What the shell relies on\<close>

text \<open>
  C18. In every reachable job table at most 64 jobs stand, with distinct positive numbers below the
  next one; \<^verbatim>\<open>%+\<close> finds a job whenever there is one, \<^verbatim>\<open>%-\<close> never dangles, and a job is done only
  when all its processes are, with the status of the last.
\<close>

theorem job_table_safe:
  assumes "job_reachable jt"
  shows "length (jt_jobs jt) \<le> JOB_TABLE_MAX \<and> distinct (map j_id (jt_jobs jt)) \<and>
     (\<forall>j \<in> set (jt_jobs jt). 0 < j_id j \<and> j_id j < jt_next_id jt) \<and>
     (job_current jt = None \<longleftrightarrow> jt_jobs jt = []) \<and>
     (\<forall>i. job_current jt = Some i \<longrightarrow> i < length (jt_jobs jt)) \<and>
     (jt_previous jt > 0 \<longrightarrow> job_find_by_id jt (jt_previous jt) \<noteq> None) \<and>
     (\<forall>j \<in> set (jt_jobs jt). j_state j = JOB_DONE \<longrightarrow>
        list_all (\<lambda>d. d) (j_pid_done j) \<and> j_status j = last (j_pid_status j))"
proof -
  have inv: "job_table_inv jt"
    by (rule job_reachable_inv [OF assms])
  have "jt_previous jt > 0 \<Longrightarrow> job_find_by_id jt (jt_previous jt) \<noteq> None"
    using inv find_by_id_exists [of "jt_previous jt" jt] by (auto simp: job_table_inv_def)
  then show ?thesis
    using inv job_current_valid [OF inv] by (auto simp: job_table_inv_def list_all_iff job_inv_def)
qed

lemma job_table_safe_witness:
  "\<exists>jt. job_reachable jt \<and> length (jt_jobs jt) = 1 \<and> length (jt_jobs jt) \<le> JOB_TABLE_MAX"
proof -
  let ?jt = "snd (job_add job_table_init 7 [7] ''sleep 1'')"
  have "job_reachable ?jt"
    by (rule job_reachable.step [OF job_reachable.init],
        rule job_step.add [of "[7]" _ 7 "''sleep 1''" "fst (job_add job_table_init 7 [7] ''sleep 1'')"])
       simp_all
  with job_table_safe [OF this] show ?thesis
    by (intro exI [of _ ?jt]) (simp add: job_add_def job_table_init_def JOB_TABLE_MAX_def)
qed

text \<open>
  C26. Reaping removes exactly the jobs that are done and reported, and keeps the others in order.
\<close>

theorem job_reap_done_filters:
  assumes "job_reachable jt"
  shows "jt_jobs (job_reap_done jt) =
     filter (\<lambda>j. \<not> (j_state j = JOB_DONE \<and> j_notified j)) (jt_jobs jt)"
  using job_reap_from_correct [OF job_reachable_inv [OF assms], of 0] by (simp add: job_reap_done_def)

lemma job_reap_done_filters_witness: "jt_jobs (job_reap_done job_table_init) = []"
  by (subst job_reap_done_filters [OF job_reachable.init]) (simp add: job_table_init_def)

text \<open>
  C17. A foreground wait ends: once every process of a pipeline has exited, in whatever order the
  kernel reports them, the wait returns, the job is done and its status is that of the last process.
\<close>

theorem job_wait_returns:
  assumes "job_add jt pgid pids command = (n, jt')" "n \<noteq> -1" "pids \<noteq> []" "distinct pids"
    "distinct order" "set order = set pids" "job_reachable jt"
  shows "\<exists>jt2. job_wait_fg jt' n s (map (\<lambda>p. Reaped p (Exited (st p))) order) =
     Some (st (last pids), jt2, s, [])"
proof -
  have inv: "job_table_inv jt"
    by (rule job_reachable_inv [OF assms(7)])
  define j where "j = \<lparr>j_id = n, j_pgid = pgid, j_pids = pids, j_pid_status = replicate (length pids) 0,
    j_pid_done = replicate (length pids) False, j_state = JOB_RUNNING, j_status = 0,
    j_command = command, j_notified = False\<rparr>"
  have jt': "jt_jobs jt' = jt_jobs jt @ [j]" "n = jt_next_id jt"
    using assms(1,2) by (auto simp: job_add_def Let_def j_def split: if_splits)
  have fresh: "\<forall>k \<in> set (jt_jobs jt). j_id k \<noteq> n"
    using inv jt'(2) by (force simp: job_table_inv_def)
  then have "job_find_by_id jt n = None"
    by (simp add: job_find_by_id_def find_index_None)
  moreover have "find_index P (xs @ ys) =
      (case find_index P xs of Some i \<Rightarrow> Some i | None \<Rightarrow> map_option (\<lambda>i. length xs + i) (find_index P ys))"
    for P and xs ys :: "job list"
  proof (induction xs)
    case Nil
    then show ?case by (cases "find_index P ys") simp_all
  next
    case (Cons x xs)
    then show ?case by (cases "find_index P xs"; cases "find_index P ys") simp_all
  qed
  ultimately have found: "job_find_by_id jt' n = Some (length (jt_jobs jt))"
    by (simp add: job_find_by_id_def jt'(1) j_def)
  have "j_pid_done j = map (\<lambda>p. p \<notin> set order) (j_pids j)"
    using assms(6) by (auto simp: j_def intro!: nth_equalityI)
  moreover have "order \<noteq> []"
    using assms(3,6) by auto
  ultimately have "\<exists>j'. job_wait_loop j s (map (\<lambda>p. Reaped p (Exited (st p))) order) = Some (j', s, []) \<and>
      j_state j' = JOB_DONE \<and> j_status j' = st (last (j_pids j))"
    by (intro wait_collects) (use assms in \<open>auto simp: j_def\<close>)
  then show ?thesis
    using found by (auto simp: job_wait_fg_def jt'(1) j_def)
qed

lemma job_wait_returns_witness:
  "\<exists>jt2. job_wait_fg (snd (job_add job_table_init 7 [7, 8] ''a | b'')) 1
     (sigstate.make False False False (\<lambda>_. SIG_DFL))
     [Reaped 8 (Exited 3), Reaped 7 (Exited 0)] =
     Some (3, jt2, sigstate.make False False False (\<lambda>_. SIG_DFL), [])"
  using job_wait_returns [of job_table_init 7 "[7, 8]" "''a | b''" 1 _ "[8, 7]" _ "\<lambda>p. if p = 8 then 3 else 0",
      OF _ _ _ _ _ _ job_reachable.init]
  by (simp add: job_add_def job_table_init_def JOB_TABLE_MAX_def Let_def insert_commute)

end
