(* ===== verification/Json.thy ===== *)
theory Json
  imports Cstd
begin

text \<open>
  \<^verbatim>\<open>src/foundation/json.c\<close>, \<^verbatim>\<open>src/foundation/jsonrpc.c\<close> and \<^verbatim>\<open>src/agent/event.c\<close>: writing and
  reading flat JSON objects, the message framing, and the events of the agent interface. A string
  buffer is its contents (\<open>Strbuf\<close> shows that its appends append); a read pointer is the
  suffix of the text it points at, so \<^verbatim>\<open>*p\<close> is \<open>peek p 0\<close>, the NUL at the end included.
\<close>

abbreviation (input) DQUOTE :: char where "DQUOTE \<equiv> CHR 0x22"
abbreviation (input) BSLASH :: char where "BSLASH \<equiv> CHR 0x5C"

subsection \<open>Writing\<close>

definition json_maybe_comma :: "string \<Rightarrow> string" where
  "json_maybe_comma buf =
     (if buf \<noteq> [] \<and> last buf \<noteq> CHR ''{'' \<and> last buf \<noteq> CHR ''['' \<and> last buf \<noteq> CHR '':''
      then buf @ '','' else buf)"

definition hex_digit :: "nat \<Rightarrow> char" where
  "hex_digit d = char_of (if d < 10 then 48 + d else 87 + d)"

definition json_escape_char :: "char \<Rightarrow> string" where
  "json_escape_char c =
     (if c = DQUOTE then [BSLASH, DQUOTE]
      else if c = BSLASH then [BSLASH, BSLASH]
      else if c = CHR 0x08 then [BSLASH, CHR ''b'']
      else if c = CHR 0x0C then [BSLASH, CHR ''f'']
      else if c = CHR 0x0A then [BSLASH, CHR ''n'']
      else if c = CHR 0x0D then [BSLASH, CHR ''r'']
      else if c = CHR 0x09 then [BSLASH, CHR ''t'']
      else if of_char c < (0x20 :: nat) then
        [BSLASH, CHR ''u'', CHR ''0'', CHR ''0'',
         hex_digit (of_char c div 16), hex_digit (of_char c mod 16)]
      else [c])"

fun json_escape :: "string \<Rightarrow> string" where
  "json_escape [] = []"
| "json_escape (c # s) = (if c = NUL then [] else json_escape_char c @ json_escape s)"

definition json_write_string :: "string \<Rightarrow> string \<Rightarrow> string" where
  "json_write_string buf s = (buf @ [DQUOTE]) @ json_escape s @ [DQUOTE]"

definition json_begin_object :: "string \<Rightarrow> string" where
  "json_begin_object buf = json_maybe_comma buf @ ''{''"

definition json_end_object :: "string \<Rightarrow> string" where
  "json_end_object buf = buf @ ''}''"

definition json_key_string :: "string \<Rightarrow> string \<Rightarrow> string \<Rightarrow> string" where
  "json_key_string buf key v =
     (let buf = json_maybe_comma buf;
          buf = json_write_string buf key;
          buf = buf @ '':''
      in json_write_string buf v)"

definition json_key_int :: "string \<Rightarrow> string \<Rightarrow> i64 \<Rightarrow> string" where
  "json_key_int buf key v =
     (let buf = json_maybe_comma buf;
          buf = json_write_string buf key
      in buf @ '':'' @ show_int (sint v))"

definition json_key_bool :: "string \<Rightarrow> string \<Rightarrow> bool \<Rightarrow> string" where
  "json_key_bool buf key v =
     (let buf = json_maybe_comma buf;
          buf = json_write_string buf key
      in buf @ (if v then '':true'' else '':false''))"

definition json_key_null :: "string \<Rightarrow> string \<Rightarrow> string" where
  "json_key_null buf key =
     (let buf = json_maybe_comma buf;
          buf = json_write_string buf key
      in buf @ '':null'')"

definition json_begin_array :: "string \<Rightarrow> string" where
  "json_begin_array buf = json_maybe_comma buf @ ''[''"

definition json_end_array :: "string \<Rightarrow> string" where
  "json_end_array buf = buf @ '']''"

subsection \<open>Reading\<close>

definition json_skip_ws :: "string \<Rightarrow> string" where
  "json_skip_ws p =
     dropWhile (\<lambda>c. c = CHR '' '' \<or> c = CHR 0x09 \<or> c = CHR 0x0A \<or> c = CHR 0x0D) p"

text \<open>The loop over a string's body, up to its closing quote or the end.\<close>

fun json_skip_body :: "string \<Rightarrow> string" where
  "json_skip_body [] = []"
| "json_skip_body (c # p) =
     (if c = DQUOTE then c # p
      else if c = BSLASH then (case p of [] \<Rightarrow> [] | d # p' \<Rightarrow> json_skip_body p')
      else json_skip_body p)"

text \<open>From the opening quote past the closing one.\<close>

definition json_skip_string :: "string \<Rightarrow> string" where
  "json_skip_string p =
     (let p = json_skip_body (drop 1 p) in if peek p 0 = DQUOTE then drop 1 p else p)"

lemma json_skip_body_length: "length (json_skip_body p) \<le> length p"
proof (induction p rule: json_skip_body.induct)
  case (2 c p)
  then show ?case
    by (cases p) (auto simp: le_Suc_eq)
qed simp

lemma json_skip_string_length: "length (json_skip_string (c # p)) \<le> length p"
  using json_skip_body_length [of p] by (auto simp: json_skip_string_def Let_def)

lemma json_skip_string_less: "length (json_skip_string (c # p)) < Suc (length p)"
  using json_skip_string_length [of c p] by simp

text \<open>The bracket loops: \<open>op\<close> and \<open>cl\<close> are the pair counted, strings are stepped over whole.\<close>

function json_skip_nested :: "char \<Rightarrow> char \<Rightarrow> nat \<Rightarrow> string \<Rightarrow> string" where
  "json_skip_nested op cl depth p =
     (case p of
        [] \<Rightarrow> []
      | c # p' \<Rightarrow>
          if depth = 0 then p
          else if c = op then json_skip_nested op cl (depth + 1) p'
          else if c = cl then json_skip_nested op cl (depth - 1) p'
          else if c = DQUOTE then json_skip_nested op cl depth (json_skip_string p)
          else json_skip_nested op cl depth p')"
  by pat_completeness auto
termination
proof (relation "measure (\<lambda>(op, cl, depth, p). length p)", goal_cases)
  case (4 op cl depth p c p')
  then show ?case
    using json_skip_string_less [of c p'] by simp
qed simp_all

declare json_skip_nested.simps [simp del]

definition json_skip_value :: "string \<Rightarrow> string" where
  "json_skip_value p =
     (let p = json_skip_ws p in
      if peek p 0 = DQUOTE then json_skip_string p
      else if peek p 0 = CHR ''{'' then json_skip_nested CHR ''{'' CHR ''}'' 1 (drop 1 p)
      else if peek p 0 = CHR ''['' then json_skip_nested CHR ''['' CHR '']'' 1 (drop 1 p)
      else dropWhile (\<lambda>c. c \<noteq> CHR '','' \<and> c \<noteq> CHR ''}'' \<and> c \<noteq> CHR '']'') p)"

definition json_decode_escape :: "char \<Rightarrow> char" where
  "json_decode_escape c =
     (if c = CHR ''n'' then CHR 0x0A
      else if c = CHR ''t'' then CHR 0x09
      else if c = BSLASH then BSLASH
      else if c = DQUOTE then DQUOTE
      else if c = CHR ''/'' then CHR ''/''
      else c)"

lemma json_skip_ws_length: "length (json_skip_ws p) \<le> length p"
  by (simp add: json_skip_ws_def length_dropWhile_le)

lemma json_skip_nested_length: "length (json_skip_nested op cl depth p) \<le> length p"
proof (induction op cl depth p rule: json_skip_nested.induct)
  case (1 op cl depth p)
  show ?case
  proof (cases p)
    case Nil
    then show ?thesis by (simp add: json_skip_nested.simps)
  next
    case (Cons c p')
    have "length (json_skip_string p) \<le> length p'"
      using json_skip_string_length by (simp add: Cons)
    with 1 Cons show ?thesis
      by (subst json_skip_nested.simps) (simp split: if_splits, fastforce)
  qed
qed

lemma json_skip_value_length: "length (json_skip_value p) \<le> length p"
proof -
  have ws: "length (json_skip_ws p) \<le> length p"
    by (rule json_skip_ws_length)
  have "length (json_skip_string (json_skip_ws p)) \<le> length (json_skip_ws p)"
    if "peek (json_skip_ws p) 0 = DQUOTE"
    using that json_skip_string_length
    by (cases "json_skip_ws p") (auto simp: NUL_def intro: le_SucI)
  moreover have "length (json_skip_nested op cl 1 (drop 1 (json_skip_ws p))) \<le> length (json_skip_ws p)"
    for op cl
    using json_skip_nested_length [of op cl 1 "drop 1 (json_skip_ws p)"] by simp
  moreover have "length (dropWhile P (json_skip_ws p)) \<le> length (json_skip_ws p)" for P
    by (rule length_dropWhile_le)
  ultimately show ?thesis
    using ws order.trans unfolding json_skip_value_def Let_def by (simp split: if_splits) blast
qed

text \<open>The key loop of \<^verbatim>\<open>json_find_key\<close>, from behind the opening brace.\<close>

function json_find_key_loop :: "string \<Rightarrow> string \<Rightarrow> string option" where
  "json_find_key_loop p key =
     (if p = [] then None
      else
        (let p = json_skip_ws p in
         case p of
           [] \<Rightarrow> None
         | c # ks \<Rightarrow>
             if c = CHR ''}'' then None
             else if c = CHR '','' then json_find_key_loop ks key
             else if c \<noteq> DQUOTE then None
             else
               (let p = json_skip_body ks;
                    klen = length ks - length p;
                    p = (if peek p 0 = DQUOTE then drop 1 p else p);
                    p = json_skip_ws p;
                    p = (if peek p 0 = CHR '':'' then drop 1 p else p);
                    p = json_skip_ws p
                in if klen = length key \<and> take klen ks = key then Some p
                   else json_find_key_loop (json_skip_value p) key)))"
  by pat_completeness auto
termination
proof (relation "measure (\<lambda>(p, key). length p)", goal_cases)
  case 1
  then show ?case by simp
next
  case (2 p key q c ks)
  then have "length (json_skip_ws p) = Suc (length ks)"
    by (metis length_Cons)
  then show ?case
    using json_skip_ws_length [of p] by simp
next
  case (3 p key q c ks p1 klen p2 p3 p4 p5)
  have "length (json_skip_value p5) \<le> length p5"
    by (rule json_skip_value_length)
  also have "length p5 \<le> length p4"
    using 3 by (simp add: json_skip_ws_length)
  also have "length p4 \<le> length p3"
    using 3 by simp
  also have "length p3 \<le> length p2"
    using 3 by (simp add: json_skip_ws_length)
  also have "length p2 \<le> length p1"
    using 3 by simp
  also have "length p1 \<le> length ks"
    using 3 by (simp add: json_skip_body_length)
  also have "length ks < length q"
    using 3 by (metis length_Cons lessI)
  also have "length q \<le> length p"
    using 3 by (simp add: json_skip_ws_length)
  finally show ?case by simp
qed

declare json_find_key_loop.simps [simp del]

definition json_find_key :: "string \<Rightarrow> string \<Rightarrow> string option" where
  "json_find_key json key =
     (let p = json_skip_ws json in
      if peek p 0 \<noteq> CHR ''{'' then None else json_find_key_loop (drop 1 p) key)"

text \<open>The decoding loop of the two string readers, from behind the opening quote.\<close>

fun json_decode_body :: "string \<Rightarrow> string" where
  "json_decode_body [] = []"
| "json_decode_body (c # p) =
     (if c = DQUOTE then []
      else if c = BSLASH \<and> peek p 0 \<noteq> NUL
        then (case p of [] \<Rightarrow> [] | d # p' \<Rightarrow> json_decode_escape d # json_decode_body p')
      else c # json_decode_body p)"

definition json_get_string :: "string \<Rightarrow> string \<Rightarrow> string option" where
  "json_get_string json key =
     (case json_find_key json key of
        None \<Rightarrow> None
      | Some p \<Rightarrow> if peek p 0 \<noteq> DQUOTE then None else Some (json_decode_body (drop 1 p)))"

definition json_get_int :: "string \<Rightarrow> string \<Rightarrow> i64" where
  "json_get_int json key =
     (case json_find_key json key of
        None \<Rightarrow> -1
      | Some p \<Rightarrow>
          if peek p 0 \<noteq> CHR ''-'' \<and> \<not> between CHR ''0'' CHR ''9'' (peek p 0) then -1
          else fst (strtoll 10 p))"

definition json_has_key :: "string \<Rightarrow> string \<Rightarrow> bool" where
  "json_has_key json key = (json_find_key json key \<noteq> None)"

text \<open>\<^verbatim>\<open>snprintf\<close> cuts the search text to the 127 characters its buffer has room for.\<close>

definition json_find_nested_string :: "string \<Rightarrow> string \<Rightarrow> string option" where
  "json_find_nested_string json key =
     (let search = take 127 ([DQUOTE] @ key @ [DQUOTE]) in
      case strstr json search of
        None \<Rightarrow> None
      | Some i \<Rightarrow>
          (let pos = drop (i + length search) json;
               pos = json_skip_ws pos;
               pos = (if peek pos 0 = CHR '':'' then drop 1 pos else pos);
               pos = json_skip_ws pos
           in if peek pos 0 \<noteq> DQUOTE then None else Some (json_decode_body (drop 1 pos))))"

subsection \<open>Message framing\<close>

text \<open>\<^verbatim>\<open>fgets\<close>: at most \<open>sz - 1\<close> characters, up to a newline, which is kept.\<close>

definition fgets :: "nat \<Rightarrow> string \<Rightarrow> (string \<times> string) option" where
  "fgets sz inp =
     (if inp = [] then None
      else
        (let upto = length (takeWhile (\<lambda>c. c \<noteq> CHR 0x0A) inp);
             n = min (sz - 1) (min (upto + 1) (length inp))
         in Some (take n inp, drop n inp)))"

lemma fgets_shorter: "1 < sz \<Longrightarrow> fgets sz inp = Some (line, rest) \<Longrightarrow> length rest < length inp"
  by (auto simp: fgets_def Let_def split: if_splits)

definition CONTENT_LENGTH :: string where
  "CONTENT_LENGTH = ''Content-Length:''"

text \<open>The header loop: the last acceptable length and the input after the blank line.\<close>

function jsonrpc_read_headers :: "int \<Rightarrow> string \<Rightarrow> (int \<times> string) option" where
  "jsonrpc_read_headers content_length inp =
     (case fgets 256 inp of
        None \<Rightarrow> None
      | Some (line, rest) \<Rightarrow>
          if peek line 0 = CHR 0x0D \<or> peek line 0 = CHR 0x0A then Some (content_length, rest)
          else if take 15 line = CONTENT_LENGTH then
            (let val = sint (fst (strtoll 10 (drop 15 line)))
             in jsonrpc_read_headers
                  (if val > 0 \<and> val \<le> 10 * 1024 * 1024 then val else content_length) rest)
          else jsonrpc_read_headers content_length rest)"
  by pat_completeness auto
termination
  by (relation "measure (\<lambda>(n, inp). length inp)") (auto dest: fgets_shorter [rotated])

declare jsonrpc_read_headers.simps [simp del]

definition jsonrpc_read_message :: "string \<Rightarrow> string option \<times> string" where
  "jsonrpc_read_message inp =
     (case jsonrpc_read_headers (-1) inp of
        None \<Rightarrow> (None, [])
      | Some (content_length, rest) \<Rightarrow>
          if content_length \<le> 0 then (None, rest)
          else
            (let n = nat content_length;
                 body = take n rest
             in if length body \<noteq> n then (None, drop n rest) else (Some body, drop n rest)))"

definition crlf :: string where
  "crlf = [CHR 0x0D, CHR 0x0A]"

definition jsonrpc_send :: "string \<Rightarrow> string \<Rightarrow> string" where
  "jsonrpc_send out json =
     out @ ''Content-Length: '' @ show_nat (length json) @ crlf @ crlf @ json"

definition quoted :: "string \<Rightarrow> string" where
  "quoted s = [DQUOTE] @ s @ [DQUOTE]"

definition jsonrpc_send_result :: "string \<Rightarrow> i64 \<Rightarrow> string \<Rightarrow> string" where
  "jsonrpc_send_result out rid result_json =
     (let buf = json_begin_object [];
          buf = json_key_string buf ''jsonrpc'' ''2.0'';
          buf = json_key_int buf ''id'' rid;
          buf = buf @ '','' @ quoted ''result'' @ '':'';
          buf = buf @ result_json;
          buf = json_end_object buf
      in jsonrpc_send out buf)"

definition jsonrpc_send_error :: "string \<Rightarrow> i64 \<Rightarrow> i64 \<Rightarrow> string \<Rightarrow> string" where
  "jsonrpc_send_error out rid code message =
     (let buf = json_begin_object [];
          buf = json_key_string buf ''jsonrpc'' ''2.0'';
          buf = json_key_int buf ''id'' rid;
          buf = buf @ '','' @ quoted ''error'' @ '':'';
          buf = json_begin_object buf;
          buf = json_key_int buf ''code'' code;
          buf = json_key_string buf ''message'' message;
          buf = json_end_object buf;
          buf = json_end_object buf
      in jsonrpc_send out buf)"

definition jsonrpc_send_notification :: "string \<Rightarrow> string \<Rightarrow> string \<Rightarrow> string" where
  "jsonrpc_send_notification out method params_json =
     (let buf = json_begin_object [];
          buf = json_key_string buf ''jsonrpc'' ''2.0'';
          buf = json_key_string buf ''method'' method;
          buf = buf @ '','' @ quoted ''params'' @ '':'';
          buf = buf @ params_json;
          buf = json_end_object buf
      in jsonrpc_send out buf)"

subsection \<open>Events\<close>

datatype event_type =
  EVENT_SCRIPT_START | EVENT_SCRIPT_END | EVENT_COMMAND_START | EVENT_COMMAND_END | EVENT_ERROR

record event =
  ev_type :: event_type
  ev_filename :: "string option"
  ev_status :: i64
  ev_id :: i64
  ev_name :: "string option"
  ev_message :: "string option"

definition event_type_name :: "event_type \<Rightarrow> string" where
  "event_type_name t =
     (case t of
        EVENT_SCRIPT_START \<Rightarrow> ''scriptStart''
      | EVENT_SCRIPT_END \<Rightarrow> ''scriptEnd''
      | EVENT_COMMAND_START \<Rightarrow> ''commandStart''
      | EVENT_COMMAND_END \<Rightarrow> ''commandEnd''
      | EVENT_ERROR \<Rightarrow> ''error'')"

text \<open>
  One \<^verbatim>\<open>write\<close> loop: what each call gives (\<open>Wrote n\<close> with \<open>n\<close> positive, an interruption, or
  anything else) and what got written. \<open>None\<close>: the results ran out before the loop was left.
\<close>

datatype write_result = Wrote nat | Write_interrupted | Write_failed

fun write_all :: "string \<Rightarrow> write_result list \<Rightarrow> (string \<times> write_result list) option" where
  "write_all [] rs = Some ([], rs)"
| "write_all data [] = None"
| "write_all data (Wrote n # rs) =
     map_option (\<lambda>(w, rs). (take n data @ w, rs)) (write_all (drop n data) rs)"
| "write_all data (Write_interrupted # rs) = write_all data rs"
| "write_all data (Write_failed # rs) = Some ([], rs)"

definition write_content_length ::
  "string \<Rightarrow> write_result list \<Rightarrow> (string \<times> write_result list) option" where
  "write_content_length json rs =
     (case write_all (''Content-Length: '' @ show_nat (length json) @ crlf @ crlf) rs of
        None \<Rightarrow> None
      | Some (header, rs) \<Rightarrow>
          map_option (\<lambda>(body, rs). (header @ body, rs)) (write_all json rs))"

definition event_json :: "event \<Rightarrow> string" where
  "event_json ev =
     (let buf = json_begin_object [];
          buf = json_key_string buf ''jsonrpc'' ''2.0'';
          buf = json_key_string buf ''method'' (event_type_name (ev_type ev));
          buf = buf @ '','' @ quoted ''params'' @ '':{'';
          buf = (case ev_type ev of
                   EVENT_SCRIPT_START \<Rightarrow>
                     (case ev_filename ev of
                        None \<Rightarrow> buf | Some f \<Rightarrow> json_key_string buf ''file'' f)
                 | EVENT_SCRIPT_END \<Rightarrow> json_key_int buf ''status'' (ev_status ev)
                 | EVENT_COMMAND_START \<Rightarrow>
                     (let buf = json_key_int buf ''id'' (ev_id ev) in
                      case ev_name ev of
                        None \<Rightarrow> buf | Some nm \<Rightarrow> json_key_string buf ''name'' nm)
                 | EVENT_COMMAND_END \<Rightarrow>
                     json_key_int (json_key_int buf ''id'' (ev_id ev)) ''status'' (ev_status ev)
                 | EVENT_ERROR \<Rightarrow>
                     (case ev_message ev of
                        None \<Rightarrow> buf | Some m \<Rightarrow> json_key_string buf ''message'' m));
          buf = buf @ ''}''
      in json_end_object buf)"

datatype event_sink = Sink_none | Sink_stdio

definition event_emit :: "event_sink option \<Rightarrow> event \<Rightarrow> write_result list \<Rightarrow> (string \<times> write_result list) option" where
  "event_emit sink ev rs =
     (case sink of
        None \<Rightarrow> Some ([], rs)
      | Some Sink_none \<Rightarrow> Some ([], rs)
      | Some Sink_stdio \<Rightarrow> write_content_length (event_json ev) rs)"

subsection \<open>What is written can be read\<close>

lemma json_skip_body_escape:
  "cstr s \<Longrightarrow> json_skip_body (json_escape s @ DQUOTE # r) = DQUOTE # r"
proof (induction s)
  case Nil
  then show ?case by simp
next
  case (Cons c s)
  have hex: "hex_digit d \<noteq> DQUOTE" "hex_digit d \<noteq> BSLASH" if "d < 16" for d
  proof -
    have "hex_digit d \<in> hex_digit ` set [0..<16]"
      using that by auto
    also have "hex_digit ` set [0..<16] = set ''0123456789abcdef''"
      by (simp add: hex_digit_def upt_rec char_of_def bit_0)
    finally show "hex_digit d \<noteq> DQUOTE" "hex_digit d \<noteq> BSLASH"
      by auto
  qed
  have lo: "(of_char c :: nat) mod 16 < 16" "of_char c < (0x20 :: nat) \<Longrightarrow> (of_char c :: nat) div 16 < 16"
    by simp_all
  from Cons have "json_skip_body (json_escape s @ DQUOTE # r) = DQUOTE # r" "c \<noteq> NUL"
    by (auto simp: cstr_def)
  then show ?case
    using hex [OF lo(1)] hex [OF lo(2)] by (simp add: json_escape_char_def)
qed

text \<open>
  What the reader makes of a character the writer escaped. It has cases for the escapes of the quote, the
  backslash, the newline and the tab only; of any other it drops the backslash.
\<close>

definition read_back_char :: "char \<Rightarrow> string" where
  "read_back_char c =
     (if c = CHR 0x08 then ''b'' else if c = CHR 0x0C then ''f'' else if c = CHR 0x0D then ''r''
      else if c = CHR 0x0A \<or> c = CHR 0x09 then [c]
      else if of_char c < (0x20 :: nat)
      then ''u00'' @ [hex_digit (of_char c div 16), hex_digit (of_char c mod 16)]
      else [c])"

definition read_back :: "string \<Rightarrow> string" where
  "read_back s = concat (map read_back_char s)"

text \<open>The strings that come back as they were.\<close>

definition decodable :: "string \<Rightarrow> bool" where
  "decodable s \<longleftrightarrow> (\<forall>c \<in> set s. (0x20 \<le> (of_char c :: nat) \<or> c = CHR 0x0A \<or> c = CHR 0x09))"

lemma read_back_decodable: "decodable s \<Longrightarrow> read_back s = s"
proof (induction s)
  case (Cons c s)
  then have "0x20 \<le> (of_char c :: nat) \<or> c = CHR 0x0A \<or> c = CHR 0x09" "read_back s = s"
    by (auto simp: decodable_def)
  then show ?case
    by (auto simp: read_back_def read_back_char_def)
qed (simp add: read_back_def)

lemma hex_digit_plain: "d < 16 \<Longrightarrow> hex_digit d \<noteq> DQUOTE \<and> hex_digit d \<noteq> BSLASH"
proof -
  assume "d < 16"
  then have "hex_digit d \<in> hex_digit ` set [0..<16]"
    by auto
  also have "hex_digit ` set [0..<16] = set ''0123456789abcdef''"
    by (simp add: hex_digit_def upt_rec char_of_def bit_0)
  finally show ?thesis
    by auto
qed

lemma json_decode_body_escape:
  "cstr s \<Longrightarrow> json_decode_body (json_escape s @ DQUOTE # r) = read_back s"
proof (induction s)
  case Nil
  then show ?case by (simp add: read_back_def)
next
  case (Cons c s)
  then have s: "json_decode_body (json_escape s @ DQUOTE # r) = read_back s" "c \<noteq> NUL"
    by (auto simp: cstr_def)
  have hex: "hex_digit (of_char c mod 16) \<noteq> DQUOTE \<and> hex_digit (of_char c mod 16) \<noteq> BSLASH"
    "of_char c < (0x20 :: nat) \<Longrightarrow> hex_digit (of_char c div 16) \<noteq> DQUOTE \<and> hex_digit (of_char c div 16) \<noteq> BSLASH"
    by (rule hex_digit_plain; simp)+
  show ?case
    using s hex by (auto simp: json_escape_char_def json_decode_escape_def NUL_def read_back_def read_back_char_def)
qed

text \<open>A flat object as the shell writes one, field by field.\<close>

datatype jvalue = JString string | JInt i64 | JBool bool | JNull

fun json_key_value :: "string \<Rightarrow> string \<times> jvalue \<Rightarrow> string" where
  "json_key_value buf (k, JString s) = json_key_string buf k s"
| "json_key_value buf (k, JInt i) = json_key_int buf k i"
| "json_key_value buf (k, JBool b) = json_key_bool buf k b"
| "json_key_value buf (k, JNull) = json_key_null buf k"

definition json_object :: "(string \<times> jvalue) list \<Rightarrow> string" where
  "json_object fs = json_end_object (foldl json_key_value (json_begin_object []) fs)"

fun value_text :: "jvalue \<Rightarrow> string" where
  "value_text (JString s) = [DQUOTE] @ json_escape s @ [DQUOTE]"
| "value_text (JInt i) = show_int (sint i)"
| "value_text (JBool b) = (if b then ''true'' else ''false'')"
| "value_text JNull = ''null''"

definition item_text :: "string \<times> jvalue \<Rightarrow> string" where
  "item_text f = [DQUOTE] @ json_escape (fst f) @ [DQUOTE] @ '':'' @ value_text (snd f)"

definition tail_text :: "(string \<times> jvalue) list \<Rightarrow> string" where
  "tail_text fs = concat (map (\<lambda>f. '','' @ item_text f) fs) @ ''}''"

lemma json_key_value_text: "json_key_value buf f = json_maybe_comma buf @ item_text f"
  by (cases "(buf, f)" rule: json_key_value.cases)
     (auto simp: json_key_string_def json_key_int_def json_key_bool_def json_key_null_def
        json_write_string_def item_text_def Let_def)

lemma last_show_nat: "last (show_nat n) \<in> set ''0123456789''"
proof -
  have "digit_char d \<in> set ''0123456789''" if "d < 10" for d
  proof -
    have "digit_char d \<in> digit_char ` set [0..<10]"
      using that by auto
    also have "digit_char ` set [0..<10] = set ''0123456789''"
      by (simp add: digit_char_def upt_rec char_of_def bit_0)
    finally show ?thesis .
  qed
  then show ?thesis
    by (subst show_nat.simps) (simp del: set_simps)
qed

lemma last_item_text:
  "item_text f \<noteq> []" "last (item_text f) \<notin> {CHR ''{'', CHR ''['', CHR '':''}"
proof -
  have "last (show_int i) \<notin> {CHR ''{'', CHR ''['', CHR '':''}" for i
    using last_show_nat [of "nat i"] last_show_nat [of "nat (- i)"] show_nat_digits(1) [of "nat (- i)"]
    by (auto simp: show_int_def)
  moreover have "show_int i \<noteq> []" for i
    by (simp add: show_int_def show_nat_digits(1))
  ultimately show "item_text f \<noteq> []" "last (item_text f) \<notin> {CHR ''{'', CHR ''['', CHR '':''}"
    by (cases f; cases "snd f"; simp add: item_text_def)+
qed

lemma fields_text:
  "buf \<noteq> [] \<Longrightarrow> last buf \<notin> {CHR ''{'', CHR ''['', CHR '':''} \<Longrightarrow>
   json_end_object (foldl json_key_value buf fs) = buf @ tail_text fs"
proof (induction fs arbitrary: buf)
  case Nil
  then show ?case by (simp add: json_end_object_def tail_text_def)
next
  case (Cons f fs)
  have "json_key_value buf f = buf @ '','' @ item_text f"
    using Cons.prems by (simp add: json_key_value_text json_maybe_comma_def)
  with Cons.IH [of "buf @ '','' @ item_text f"] last_item_text [of f] show ?case
    by (simp add: tail_text_def)
qed

lemma json_object_text:
  "json_object [] = ''{}''"
  "json_object (f # fs) = ''{'' @ item_text f @ tail_text fs"
proof -
  have "json_key_value ''{'' f = ''{'' @ item_text f"
    by (simp add: json_key_value_text json_maybe_comma_def)
  then show "json_object (f # fs) = ''{'' @ item_text f @ tail_text fs"
    using fields_text [of "''{'' @ item_text f" fs] last_item_text [of f]
    by (simp add: json_object_def json_begin_object_def json_maybe_comma_def)
qed (simp add: json_object_def json_begin_object_def json_maybe_comma_def json_end_object_def)

text \<open>Stepping over a value, up to what follows it.\<close>

lemma json_skip_ws_Cons:
  "\<not> (c = CHR '' '' \<or> c = CHR 0x09 \<or> c = CHR 0x0A \<or> c = CHR 0x0D) \<Longrightarrow> json_skip_ws (c # p) = c # p"
  by (simp add: json_skip_ws_def)

lemma json_skip_ws_simps [simp]:
  "json_skip_ws (DQUOTE # p) = DQUOTE # p" "json_skip_ws (CHR '':'' # p) = CHR '':'' # p"
  "json_skip_ws (CHR '','' # p) = CHR '','' # p" "json_skip_ws (CHR ''}'' # p) = CHR ''}'' # p"
  "json_skip_ws (CHR ''{'' # p) = CHR ''{'' # p"
  by (simp_all add: json_skip_ws_def)

definition ends_value :: "string \<Rightarrow> bool" where
  "ends_value r \<longleftrightarrow> r \<noteq> [] \<and> hd r \<in> {CHR '','', CHR ''}'', CHR '']''}"

lemma tail_ends: "ends_value (tail_text fs)"
  by (cases fs) (simp_all add: ends_value_def tail_text_def)

definition bare :: "char \<Rightarrow> bool" where
  "bare c \<longleftrightarrow> c \<notin> {CHR '' '', CHR 0x09, CHR 0x0A, CHR 0x0D, DQUOTE, CHR ''{'', CHR ''['', CHR '','',
     CHR ''}'', CHR '']'', CHR '':'', NUL}"

lemma json_skip_bare:
  assumes "list_all bare t" "t \<noteq> []" "ends_value r"
  shows "json_skip_value (t @ r) = r"
proof -
  obtain c t' where t: "t = c # t'" "bare c"
    using assms(1,2) by (cases t) auto
  let ?P = "\<lambda>c. c \<noteq> CHR '','' \<and> c \<noteq> CHR ''}'' \<and> c \<noteq> CHR '']''"
  have "dropWhile ?P (t @ r) = dropWhile ?P r"
    using assms(1) by (intro dropWhile_append2) (auto simp: list_all_iff bare_def)
  also have "\<dots> = r"
    using assms(3) by (cases r) (auto simp: ends_value_def)
  finally have drop: "dropWhile ?P (t @ r) = r" .
  have ws: "json_skip_ws (t @ r) = t @ r"
    using t by (simp add: bare_def json_skip_ws_Cons)
  have "peek (t @ r) 0 = c"
    using t by simp
  with t drop ws show ?thesis
    by (simp add: json_skip_value_def Let_def bare_def)
qed

lemma show_int_bare: "list_all bare (show_int i)" "show_int i \<noteq> []"
proof -
  have "bare c" if "is_digit_of 10 c" for c
    using that by (auto simp: bare_def is_digit_of_def digit_val_def NUL_def split: if_splits)
  then have "list_all bare (show_nat n)" for n
    using show_nat_digits(2) [of n] by (auto simp: list_all_iff)
  then show "list_all bare (show_int i)"
    by (simp add: show_int_def bare_def NUL_def)
  show "show_int i \<noteq> []"
    by (simp add: show_int_def show_nat_digits(1))
qed

definition value_ok :: "jvalue \<Rightarrow> bool" where
  "value_ok v \<longleftrightarrow> (case v of JString s \<Rightarrow> cstr s | _ \<Rightarrow> True)"

lemma json_skip_value_text:
  assumes "value_ok v" "ends_value r"
  shows "json_skip_value (value_text v @ r) = r"
proof (cases v)
  case (JString s)
  then have "cstr s"
    using assms(1) by (simp add: value_ok_def)
  then show ?thesis
    using JString by (simp add: json_skip_value_def json_skip_string_def json_skip_body_escape)
next
  case (JInt i)
  then show ?thesis
    using json_skip_bare [OF show_int_bare(1,2) assms(2)] by simp
next
  case (JBool b)
  have "list_all bare (value_text v)" "value_text v \<noteq> []"
    by (simp_all add: JBool bare_def NUL_def)
  then show ?thesis
    by (rule json_skip_bare [OF _ _ assms(2)])
next
  case JNull
  have "list_all bare (value_text v)" "value_text v \<noteq> []"
    by (simp_all add: JNull bare_def NUL_def)
  then show ?thesis
    by (rule json_skip_bare [OF _ _ assms(2)])
qed

lemma json_skip_ws_value: "json_skip_ws (value_text v @ r) = value_text v @ r"
proof (cases v)
  case (JInt i)
  then obtain c t where "show_int (sint i) = c # t" "bare c"
    using show_int_bare [of "sint i"] by (cases "show_int (sint i)") auto
  then show ?thesis
    using JInt by (simp add: json_skip_ws_Cons bare_def)
qed (simp_all add: json_skip_ws_Cons)

text \<open>Keys that are written as they are, so that the raw comparison of the reader sees them.\<close>

definition plain :: "string \<Rightarrow> bool" where
  "plain k \<longleftrightarrow> json_escape k = k \<and> cstr k"

lemma find_key_item:
  assumes "plain (fst f)" "value_ok (snd f)" "ends_value r"
  shows "json_find_key_loop (item_text f @ r) key =
     (if fst f = key then Some (value_text (snd f) @ r) else json_find_key_loop r key)"
proof -
  define k where "k = fst f"
  define v where "v = value_text (snd f) @ r"
  have esc: "json_escape k = k"
    using assms(1) by (simp add: plain_def k_def)
  have item: "item_text f @ r = DQUOTE # k @ DQUOTE # CHR '':'' # v"
    using esc by (simp add: item_text_def k_def v_def)
  have "json_skip_body (json_escape k @ DQUOTE # CHR '':'' # v) = DQUOTE # CHR '':'' # v"
    using assms(1) by (intro json_skip_body_escape) (simp add: plain_def k_def)
  then have body: "json_skip_body (k @ DQUOTE # CHR '':'' # v) = DQUOTE # CHR '':'' # v"
    by (simp add: esc)
  have v: "json_skip_ws v = v" "json_skip_value v = r"
    using assms by (simp_all add: v_def json_skip_ws_value json_skip_value_text)
  have "json_find_key_loop (item_text f @ r) key = (if k = key then Some v else json_find_key_loop r key)"
  proof (cases "key = k")
    case True
    show ?thesis
      unfolding item True by (subst json_find_key_loop.simps) (simp add: Let_def body v)
  next
    case False
    then show ?thesis
      unfolding item by (subst json_find_key_loop.simps) (auto simp: Let_def body v)
  qed
  then show ?thesis
    by (simp add: k_def v_def)
qed

lemma find_key_tail:
  "\<forall>f \<in> set fs. plain (fst f) \<and> value_ok (snd f) \<Longrightarrow>
   json_find_key_loop (tail_text fs) key =
     (case map_of fs key of
        None \<Rightarrow> None
      | Some v \<Rightarrow> Some (value_text v @ tail_text (drop 1 (dropWhile (\<lambda>f. fst f \<noteq> key) fs))))"
proof (induction fs)
  case Nil
  then show ?case by (subst json_find_key_loop.simps) (simp add: tail_text_def)
next
  case (Cons f fs)
  have tail: "tail_text (f # fs) = CHR '','' # item_text f @ tail_text fs"
    by (simp add: tail_text_def)
  have "json_find_key_loop (tail_text (f # fs)) key = json_find_key_loop (item_text f @ tail_text fs) key"
    unfolding tail by (subst json_find_key_loop.simps) simp
  with Cons find_key_item [of f "tail_text fs" key] tail_ends show ?case
    by (cases f; cases "map_of fs key"; simp)
qed

lemma json_find_key_object:
  assumes "\<forall>f \<in> set fs. plain (fst f) \<and> value_ok (snd f)"
  shows "json_find_key (json_object fs) key =
     (case map_of fs key of
        None \<Rightarrow> None
      | Some v \<Rightarrow> Some (value_text v @ tail_text (drop 1 (dropWhile (\<lambda>f. fst f \<noteq> key) fs))))"
proof (cases fs)
  case Nil
  then show ?thesis
    by (simp add: json_object_text json_find_key_def json_find_key_loop.simps)
next
  case (Cons f fs')
  have "json_find_key (json_object fs) key = json_find_key_loop (item_text f @ tail_text fs') key"
    by (simp add: Cons json_object_text json_find_key_def)
  with find_key_item [of f "tail_text fs'" key] tail_ends find_key_tail [of fs' key] assms Cons
  show ?thesis
    by (cases f; cases "map_of fs' key"; simp)
qed

lemma json_get_string_object:
  assumes "\<forall>f \<in> set fs. plain (fst f) \<and> value_ok (snd f)" "map_of fs key = Some (JString s)"
  shows "json_get_string (json_object fs) key = Some (read_back s)"
proof -
  have "value_ok (JString s)"
    using assms map_of_SomeD [OF assms(2)] by force
  then show ?thesis
    using json_find_key_object [OF assms(1), of key] assms(2) json_decode_body_escape
    by (simp add: json_get_string_def value_ok_def)
qed

lemma json_get_int_object:
  assumes "\<forall>f \<in> set fs. plain (fst f) \<and> value_ok (snd f)" "map_of fs key = Some (JInt i)"
  shows "json_get_int (json_object fs) key = i"
proof -
  define r where "r = tail_text (drop 1 (dropWhile (\<lambda>f. fst f \<noteq> key) fs))"
  have found: "json_find_key (json_object fs) key = Some (show_int (sint i) @ r)"
    using json_find_key_object [OF assms(1), of key] assms(2) by (simp add: r_def)
  have "ends_value r"
    by (simp add: r_def tail_ends)
  then have rest: "r = [] \<or> \<not> is_digit_of 10 (hd r)"
    by (auto simp: ends_value_def is_digit_of_def digit_val_def)
  have range: "INT64_MIN \<le> sint i" "sint i \<le> INT64_MAX"
    using sint_ge [of i] sint_lt [of i] by (simp_all add: INT64_MIN_def INT64_MAX_def)
  have "peek (show_int (sint i) @ r) 0 = CHR ''-'' \<or>
        between CHR ''0'' CHR ''9'' (peek (show_int (sint i) @ r) 0)"
  proof (cases "sint i < 0")
    case True
    then show ?thesis by (simp add: show_int_def)
  next
    case False
    obtain d ds where "show_nat (nat (sint i)) = digit_char d # ds" "d < 10"
      using show_nat_digits(4) by blast
    with False show ?thesis
      by (simp add: show_int_def between_def digit_char_def)
  qed
  then show ?thesis
    using found strtoll_show_int [OF range rest] by (auto simp: json_get_int_def)
qed

subsection \<open>A message sent is the message received\<close>

lemma takeWhile_no_newline:
  "\<forall>c \<in> set xs. c \<noteq> CHR 0x0A \<Longrightarrow> takeWhile (\<lambda>c. c \<noteq> CHR 0x0A) (xs @ CHR 0x0A # r) = xs"
  by (simp add: takeWhile_append)

lemma show_nat_no_newline: "c \<in> set (show_nat n) \<Longrightarrow> c \<noteq> CHR 0x0A \<and> c \<noteq> CHR 0x0D"
  using show_nat_digits(2) [of n] by (auto simp: list_all_iff is_digit_of_def digit_val_def)

lemma jsonrpc_send_read:
  assumes len: "0 < length json" "length json \<le> 10 * 1024 * 1024"
  shows "jsonrpc_read_message (jsonrpc_send [] json @ rest) = (Some json, rest)"
proof -
  let ?n = "length json"
  define head where "head = ''Content-Length: '' @ show_nat ?n @ [CHR 0x0D]"
  have headl: "length head \<le> 25"
    using show_nat_length [of ?n 8] len by (simp add: head_def)
  have noln: "\<forall>c \<in> set head. c \<noteq> CHR 0x0A"
    using show_nat_no_newline by (auto simp: head_def)
  have inp: "jsonrpc_send [] json @ rest = head @ CHR 0x0A # CHR 0x0D # CHR 0x0A # json @ rest"
    by (simp add: jsonrpc_send_def crlf_def head_def)
  define ln where "ln = head @ [CHR 0x0A]"
  have line1: "fgets 256 (jsonrpc_send [] json @ rest) =
      Some (ln, CHR 0x0D # CHR 0x0A # json @ rest)"
    using headl unfolding inp by (simp add: fgets_def takeWhile_no_newline [OF noln] Let_def ln_def)
  have line2: "fgets 256 (CHR 0x0D # CHR 0x0A # json @ rest) = Some (crlf, json @ rest)"
    by (simp add: fgets_def crlf_def)
  have num: "strtoll 10 (drop 15 ln) = (word_of_int (int ?n), 1 + length (show_nat ?n))"
  proof -
    have range: "INT64_MIN \<le> int ?n" "int ?n \<le> INT64_MAX"
      using len by (simp_all add: INT64_MIN_def INT64_MAX_def)
    have "show_int (int ?n) = show_nat ?n"
      by (simp add: show_int_def)
    then have st: "strtoll 10 (show_nat ?n @ crlf) = (word_of_int (int ?n), length (show_nat ?n))"
      using strtoll_show_int [OF range, of crlf] by (simp add: crlf_def is_digit_of_def digit_val_def)
    have "drop 15 ln = CHR '' '' # show_nat ?n @ crlf"
      by (simp add: ln_def head_def crlf_def)
    moreover have "strtoll 10 (CHR '' '' # t) = (fst (strtoll 10 t), 1 + snd (strtoll 10 t))"
      if "snd (strtoll 10 t) \<noteq> 0" for t
      using that by (auto simp: strtoll_def is_space_def Let_def base_prefix_def split: if_splits)
    ultimately show ?thesis
      using st show_nat_digits(1) [of ?n] by simp
  qed
  have "sint (word_of_int (int ?n) :: i64) = int ?n"
    using len by (intro sint_word_of_int64) (simp_all add: INT64_MIN_def INT64_MAX_def)
  then have sint_n: "sint (word_of_nat ?n :: i64) = int ?n"
    by simp
  have heads: "take 15 ln = CONTENT_LENGTH" "peek ln 0 = CHR ''C''"
    by (simp_all add: ln_def head_def CONTENT_LENGTH_def)
  have second: "jsonrpc_read_headers (int ?n) (CHR 0x0D # CHR 0x0A # json @ rest) = Some (int ?n, json @ rest)"
    by (subst jsonrpc_read_headers.simps) (simp add: line2 crlf_def)
  have "jsonrpc_read_headers (-1) (jsonrpc_send [] json @ rest) =
      jsonrpc_read_headers (int ?n) (CHR 0x0D # CHR 0x0A # json @ rest)"
    using len by (subst jsonrpc_read_headers.simps) (simp add: line1 heads num sint_n Let_def)
  then show ?thesis
    using len second by (simp add: jsonrpc_read_message_def Let_def)
qed

text \<open>What a write loop writes is a prefix, and all of it unless a call failed.\<close>

lemma write_all_prefix:
  "write_all data rs = Some (w, rs') \<Longrightarrow>
   \<exists>k. w = take k data \<and> (Write_failed \<notin> set rs \<longrightarrow> w = data)"
proof (induction data rs arbitrary: w rs' rule: write_all.induct)
  case (3 c data n rs)
  then obtain w' where w': "write_all (drop n (c # data)) rs = Some (w', rs')"
    "w = take n (c # data) @ w'"
    by auto
  from 3(1) [OF w'(1)] obtain k where k: "w' = take k (drop n (c # data))"
    "Write_failed \<notin> set rs \<longrightarrow> w' = drop n (c # data)"
    by blast
  then have "w = take (n + k) (c # data)"
    using w'(2) by (simp add: take_add)
  with k w'(2) show ?case
    by (metis append_take_drop_id list.set_intros(2))
qed (auto intro: exI [of _ 0])

subsection \<open>What the clients rely on\<close>

text \<open>
  C19. What is written can be read: in an object the shell wrote from any list of fields with plain keys,
  looking up a key gives the string or the integer of the first field with that key, and a key is found exactly
  when there is one. A string of printable bytes, newlines and tabs comes back as it was; of any other control
  character in it the reader leaves the letter of its escape, \<open>read_back\<close>.
\<close>

theorem json_object_readable:
  assumes "\<forall>f \<in> set fs. plain (fst f) \<and> value_ok (snd f)"
  shows "(\<forall>k s. map_of fs k = Some (JString s) \<longrightarrow>
        json_get_string (json_object fs) k = Some (read_back s) \<and> (decodable s \<longrightarrow> read_back s = s)) \<and>
     (\<forall>k i. map_of fs k = Some (JInt i) \<longrightarrow> json_get_int (json_object fs) k = i) \<and>
     (\<forall>k. json_has_key (json_object fs) k \<longleftrightarrow> map_of fs k \<noteq> None)"
  using json_get_string_object [OF assms] json_get_int_object [OF assms] json_find_key_object [OF assms]
    read_back_decodable
  by (auto simp: json_has_key_def split: option.splits)

lemma json_object_readable_witness:
  "json_get_string (json_object [(''id'', JInt 7), (''name'', JString [CHR ''a'', DQUOTE, CHR 0x0A])]) ''name'' =
     Some [CHR ''a'', DQUOTE, CHR 0x0A] \<and>
   json_get_int (json_object [(''id'', JInt 7), (''name'', JString [CHR ''a'', DQUOTE, CHR 0x0A])]) ''id'' = 7"
proof -
  have "\<forall>f \<in> set [(''id'', JInt 7), (''name'', JString [CHR ''a'', DQUOTE, CHR 0x0A])].
      plain (fst f) \<and> value_ok (snd f)"
    by (simp add: plain_def value_ok_def cstr_def json_escape_char_def NUL_def)
  from json_object_readable [OF this] show ?thesis
    by (simp add: read_back_def read_back_char_def)
qed

lemma write_all_rest: "write_all data rs = Some (w, rs') \<Longrightarrow> set rs' \<subseteq> set rs"
  by (induction data rs arbitrary: w rs' rule: write_all.induct) fastforce+

text \<open>
  C21. An event the agent interface emits arrives whole: unless a write fails, whatever short or
  interrupted writes the kernel makes of it, the reader of the framed messages gets exactly the
  event's JSON text and leaves what follows it in the stream.
\<close>

theorem event_delivered:
  assumes "event_emit (Some Sink_stdio) ev rs = Some (out, rs')" "Write_failed \<notin> set rs"
    "length (event_json ev) \<le> 10 * 1024 * 1024"
  shows "jsonrpc_read_message (out @ rest) = (Some (event_json ev), rest)"
proof -
  let ?json = "event_json ev"
  let ?head = "''Content-Length: '' @ show_nat (length ?json) @ crlf @ crlf"
  obtain header body rs1 where w: "write_all ?head rs = Some (header, rs1)"
    "write_all ?json rs1 = Some (body, rs')" "out = header @ body"
    using assms(1) by (auto simp: event_emit_def write_content_length_def split: option.splits)
  have "Write_failed \<notin> set rs1"
    using write_all_rest [OF w(1)] assms(2) by blast
  then have "out = ?head @ ?json"
    using write_all_prefix [OF w(1)] write_all_prefix [OF w(2)] assms(2) w(3) by auto
  then have "out = jsonrpc_send [] ?json"
    by (simp add: jsonrpc_send_def)
  moreover have "0 < length ?json"
    by (simp add: event_json_def json_end_object_def Let_def)
  ultimately show ?thesis
    using assms(3) jsonrpc_send_read by simp
qed

lemma event_delivered_witness:
  "\<exists>ev out. event_emit (Some Sink_stdio) ev [Wrote 10, Write_interrupted, Wrote 1000, Wrote 1000] = Some (out, []) \<and>
     jsonrpc_read_message (out @ ''x'') = (Some (event_json ev), ''x'')"
proof -
  let ?ev = "\<lparr>ev_type = EVENT_SCRIPT_END, ev_filename = None, ev_status = 0, ev_id = 0,
    ev_name = None, ev_message = None\<rparr>"
  let ?json = "event_json ?ev"
  let ?head = "''Content-Length: '' @ show_nat (length ?json) @ crlf @ crlf"
  have json: "?json = ''{'' @ quoted ''jsonrpc'' @ '':'' @ quoted ''2.0'' @ '','' @ quoted ''method'' @ '':'' @
      quoted ''scriptEnd'' @ '','' @ quoted ''params'' @ '':{'' @ quoted ''status'' @ '':0}}''"
    by (simp add: event_json_def json_begin_object_def json_maybe_comma_def json_key_string_def
        json_write_string_def json_escape_char_def event_type_name_def json_key_int_def quoted_def
        json_end_object_def show_int_def show_nat.simps digit_char_def char_of_def NUL_def Let_def bit_0)
  have len: "length ?json = 60"
    unfolding json by (simp add: quoted_def)
  have head: "?head = ''Content-Length: 60'' @ crlf @ crlf"
    unfolding len by (simp add: show_nat.simps digit_char_def char_of_def bit_0)
  have emit: "event_emit (Some Sink_stdio) ?ev [Wrote 10, Write_interrupted, Wrote 1000, Wrote 1000] =
      Some (?head @ ?json, [])"
    unfolding event_emit_def write_content_length_def option.case event_sink.case head
    by (simp add: crlf_def json quoted_def)
  have small: "length ?json \<le> 10 * 1024 * 1024"
    unfolding len by simp
  have "jsonrpc_read_message ((?head @ ?json) @ ''x'') = (Some ?json, ''x'')"
    by (rule event_delivered [OF emit _ small]) simp
  with emit show ?thesis
    by (intro exI [of _ ?ev] exI [of _ "?head @ ?json"] conjI)
qed

text \<open>The reader has no case for the escapes of the other control characters the writer uses.\<close>

lemma carriage_return_lost:
  "json_get_string (json_object [(''k'', JString [CHR 0x0D])]) ''k'' = Some ''r''"
  by (simp add: json_object_text item_text_def tail_text_def json_escape_char_def NUL_def
      json_get_string_def json_find_key_def json_find_key_loop.simps json_decode_escape_def)

end
