(* ===== verification/Arith.thy ===== *)
theory Arith
  imports Environ "HOL-Library.Signed_Division"
begin

text \<open>
  \<^verbatim>\<open>src/vm/arith.c\<close>: the recursive-descent evaluator of arithmetic expansion. The parse functions
  call one another, and a variable's value is evaluated as an expression in turn, so each
  definition takes the function it calls the others through, \<open>call\<close>, and \<open>arith_run\<close> ties the
  knot with fuel. A goal names a parse function; the goals \<open>..._loop\<close> are the \<^verbatim>\<open>for (;;)\<close> loops
  with the value accumulated so far. \<open>ar_pos\<close> is the text from \<^verbatim>\<open>pos\<close> on.

  Two components of the state have no counterpart in C: \<open>ar_reading\<close> names the variables whose texts
  are being evaluated, and \<open>ar_hazard\<close> records that the run reached undefined behaviour: a signed
  overflow, the assignment of a variable while its text, which the assignment frees, is being read,
  or an assignment with no scope. What follows it in the run is without meaning, and \<open>arith_eval\<close>
  gives no value then: its outcome is \<open>Arith_undefined\<close>.
\<close>

subsection \<open>State\<close>

datatype arith_error = ARITH_OK | ARITH_ERR_SYNTAX | ARITH_ERR_DIV_ZERO | ARITH_ERR_DEPTH

record arith_state =
  ar_pos :: string
  ar_env :: environ
  ar_err :: arith_error
  ar_depth :: nat
  ar_noexec :: bool
  ar_stderr :: string
  ar_reading :: "string list"
  ar_hazard :: bool

definition ARITH_MAX_DEPTH :: nat where
  "ARITH_MAX_DEPTH = 32"

datatype goal =
    Expr | Expr_loop i64 | Assign | Ternary
  | Log_or | Log_or_loop i64 | Log_and | Log_and_loop i64
  | Bit_or | Bit_or_loop i64 | Bit_xor | Bit_xor_loop i64 | Bit_and | Bit_and_loop i64
  | Eq | Eq_loop i64 | Rel | Rel_loop i64 | Shift | Shift_loop i64
  | Add | Add_loop i64 | Mul | Mul_loop i64 | Unary | Primary

type_synonym arith_result = "(i64 \<times> arith_state) option"
type_synonym arith_call = "goal \<Rightarrow> arith_state \<Rightarrow> arith_result"

subsection \<open>Characters and the position\<close>

definition skip_ws :: "arith_state \<Rightarrow> arith_state" where
  "skip_ws s =
     s\<lparr>ar_pos := dropWhile (\<lambda>c. c = CHR '' '' \<or> c = CHR 0x09 \<or> c = CHR 0x0A) (ar_pos s)\<rparr>"

definition is_ident_start :: "char \<Rightarrow> bool" where
  "is_ident_start c \<longleftrightarrow> between CHR ''a'' CHR ''z'' c \<or> between CHR ''A'' CHR ''Z'' c \<or> c = CHR ''_''"

definition is_ident_char :: "char \<Rightarrow> bool" where
  "is_ident_char c \<longleftrightarrow> is_ident_start c \<or> between CHR ''0'' CHR ''9'' c"

text \<open>\<^verbatim>\<open>s->pos[i]\<close>, \<^verbatim>\<open>s->pos += n\<close> and \<^verbatim>\<open>s->err = e\<close>.\<close>

abbreviation at :: "arith_state \<Rightarrow> nat \<Rightarrow> char" where
  "at s i \<equiv> peek (ar_pos s) i"

definition adv :: "nat \<Rightarrow> arith_state \<Rightarrow> arith_state" where
  "adv n s = s\<lparr>ar_pos := drop n (ar_pos s)\<rparr>"

definition fail :: "arith_error \<Rightarrow> arith_state \<Rightarrow> arith_state" where
  "fail e s = s\<lparr>ar_err := e\<rparr>"

definition hazard_if :: "bool \<Rightarrow> arith_state \<Rightarrow> arith_state" where
  "hazard_if b s = s\<lparr>ar_hazard := (ar_hazard s \<or> b)\<rparr>"

definition overflows :: "int \<Rightarrow> bool" where
  "overflows i \<longleftrightarrow> i < INT64_MIN \<or> INT64_MAX < i"

subsection \<open>C's integer operations\<close>

definition c_div :: "i64 \<Rightarrow> i64 \<Rightarrow> i64" where
  "c_div a b = word_of_int (sint a sdiv sint b)"

definition c_mod :: "i64 \<Rightarrow> i64 \<Rightarrow> i64" where
  "c_mod a b = word_of_int (sint a smod sint b)"

definition c_shl :: "i64 \<Rightarrow> i64 \<Rightarrow> i64" where
  "c_shl a b = push_bit (nat (sint b)) a"

definition c_shr :: "i64 \<Rightarrow> i64 \<Rightarrow> i64" where
  "c_shr a b = signed_drop_bit (nat (sint b)) a"

definition c_bool :: "bool \<Rightarrow> i64" where
  "c_bool b = (if b then 1 else 0)"

definition c_int64_min :: i64 where
  "c_int64_min = word_of_int INT64_MIN"

subsection \<open>Variables\<close>

definition resolve_var :: "arith_call \<Rightarrow> arith_state \<Rightarrow> string \<Rightarrow> arith_result" where
  "resolve_var call s name =
     (if ar_depth s \<ge> ARITH_MAX_DEPTH then Some (0, fail ARITH_ERR_DEPTH s)
      else
        (case environ_get (ar_env s) name of
           None \<Rightarrow> Some (0, s)
         | Some var \<Rightarrow>
             (case var_value var of
                VT_STRING val \<Rightarrow>
                  if val = [] then Some (0, s)
                  else
                    (case call Expr (s\<lparr>ar_pos := val, ar_err := ARITH_OK, ar_depth := ar_depth s + 1,
                                      ar_reading := name # ar_reading s\<rparr>) of
                       None \<Rightarrow> None
                     | Some (result, sub) \<Rightarrow>
                         Some (result,
                           s\<lparr>ar_env := ar_env sub, ar_stderr := ar_stderr sub,
                             ar_hazard := ar_hazard sub,
                             ar_err := (if ar_err sub \<noteq> ARITH_OK then ar_err sub else ar_err s)\<rparr>))
              | _ \<Rightarrow> Some (0, s))))"

definition set_var :: "arith_state \<Rightarrow> string \<Rightarrow> i64 \<Rightarrow> arith_state" where
  "set_var s name val =
     (if ar_noexec s then s
      else
        (let (env, err) = environ_assign (ar_env s) name (VT_STRING (show_int (sint val)))
         in hazard_if (ar_env s = [] \<or> err = [] \<and> name \<in> set (ar_reading s))
              (s\<lparr>ar_env := env, ar_stderr := ar_stderr s @ err\<rparr>)))"

definition parse_ident :: "arith_state \<Rightarrow> string option \<times> arith_state" where
  "parse_ident s =
     (let s = skip_ws s in
      if \<not> is_ident_start (at s 0) then (None, s)
      else
        (let name = takeWhile is_ident_char (ar_pos s) in (Some name, adv (length name) s)))"

subsection \<open>The parse functions\<close>

text \<open>The operators of \<^verbatim>\<open>op=\<close>: the value, and \<open>None\<close> for a division by zero.\<close>

definition compound_op :: "char \<Rightarrow> i64 \<Rightarrow> i64 \<Rightarrow> i64 option" where
  "compound_op op1 lhs rhs =
     (if op1 = CHR ''+'' then Some (lhs + rhs)
      else if op1 = CHR ''-'' then Some (lhs - rhs)
      else if op1 = CHR ''*'' then Some (lhs * rhs)
      else if op1 = CHR ''/'' then
        (if rhs = 0 then None
         else Some (if lhs = c_int64_min \<and> rhs = -1 then c_int64_min else c_div lhs rhs))
      else if op1 = CHR 0x25 then
        (if rhs = 0 then None
         else Some (if lhs = c_int64_min \<and> rhs = -1 then 0 else c_mod lhs rhs))
      else if op1 = CHR 0x26 then Some (lhs AND rhs)
      else if op1 = CHR ''^'' then Some (lhs XOR rhs)
      else if op1 = CHR ''|'' then Some (lhs OR rhs)
      else Some 0)"

definition compound_overflows :: "char \<Rightarrow> i64 \<Rightarrow> i64 \<Rightarrow> bool" where
  "compound_overflows op1 lhs rhs =
     ((op1 = CHR ''+'' \<and> overflows (sint lhs + sint rhs)) \<or>
      (op1 = CHR ''-'' \<and> overflows (sint lhs - sint rhs)) \<or>
      (op1 = CHR ''*'' \<and> overflows (sint lhs * sint rhs)))"

text \<open>A name has been read: postfix operators, the assignments, or a plain reference.\<close>

definition parse_variable :: "arith_call \<Rightarrow> arith_state \<Rightarrow> string \<Rightarrow> arith_result" where
  "parse_variable call s name =
     (if at s 0 = CHR ''+'' \<and> at s 1 = CHR ''+'' then
        do { (val, s) \<leftarrow> resolve_var call (adv 2 s) name;
             Some (val, set_var (hazard_if (overflows (sint val + 1)) s) name (val + 1)) }
      else if at s 0 = CHR ''-'' \<and> at s 1 = CHR ''-'' then
        do { (val, s) \<leftarrow> resolve_var call (adv 2 s) name;
             Some (val, set_var (hazard_if (overflows (sint val - 1)) s) name (val - 1)) }
      else if at s 0 = CHR ''='' \<and> at s 1 \<noteq> CHR ''='' then
        do { (rhs, s) \<leftarrow> call Assign (adv 1 s);
             Some (rhs, set_var s name rhs) }
      else
        (let op1 = at s 0;
             op2 = (if op1 \<noteq> NUL then at s 1 else NUL) in
         if op2 = CHR ''='' \<and>
            op1 \<in> {CHR ''+'', CHR ''-'', CHR ''*'', CHR ''/'', CHR 0x25, CHR 0x26, CHR ''^'', CHR ''|''}
         then
           do { (lhs, s) \<leftarrow> resolve_var call (adv 2 s) name;
                (rhs, s) \<leftarrow> call Assign s;
                (case compound_op op1 lhs rhs of
                   None \<Rightarrow> Some (0, if \<not> ar_noexec s then fail ARITH_ERR_DIV_ZERO s else s)
                 | Some result \<Rightarrow>
                     Some (result,
                       set_var (hazard_if (compound_overflows op1 lhs rhs) s) name result)) }
         else if (op1 = CHR ''<'' \<or> op1 = CHR ''>'') \<and> op1 = op2 \<and> op2 \<noteq> NUL \<and> at s 2 = CHR ''=''
         then
           do { (lhs, s) \<leftarrow> resolve_var call (adv 3 s) name;
                (rhs, s) \<leftarrow> call Assign s;
                (let shift = (if sint rhs < 0 \<or> sint rhs \<ge> 64 then 0 else rhs);
                     result = (if op1 = CHR ''<'' then c_shl lhs shift else c_shr lhs shift)
                 in Some (result, set_var s name result)) }
         else resolve_var call s name))"

definition parse_primary :: "arith_call \<Rightarrow> arith_state \<Rightarrow> arith_result" where
  "parse_primary call s =
     (let s = skip_ws s in
      if ar_err s \<noteq> ARITH_OK then Some (0, s)
      else if at s 0 = CHR ''('' then
        do { (val, s) \<leftarrow> call Expr (adv 1 s);
             (let s = skip_ws s in
              Some (val, if at s 0 = CHR '')'' then adv 1 s else fail ARITH_ERR_SYNTAX s)) }
      else if between CHR ''0'' CHR ''9'' (at s 0) then
        (let (val, used) = strtoll 0 (ar_pos s) in Some (val, adv used s))
      else if is_ident_start (at s 0) then
        (case parse_ident s of
           (Some name, s) \<Rightarrow> parse_variable call (skip_ws s) name
         | (None, s) \<Rightarrow> Some (0, s))
      else Some (0, if at s 0 \<noteq> NUL then fail ARITH_ERR_SYNTAX s else s))"

definition parse_preincr :: "arith_call \<Rightarrow> arith_state \<Rightarrow> int \<Rightarrow> arith_result" where
  "parse_preincr call s delta =
     (let s = skip_ws (adv 2 s) in
      case parse_ident s of
        (None, s) \<Rightarrow> Some (0, fail ARITH_ERR_SYNTAX s)
      | (Some name, s) \<Rightarrow>
          do { (old, s) \<leftarrow> resolve_var call s name;
               (let val = old + word_of_int delta
                in Some (val, set_var (hazard_if (overflows (sint old + delta)) s) name val)) })"

definition parse_unary :: "arith_call \<Rightarrow> arith_state \<Rightarrow> arith_result" where
  "parse_unary call s =
     (let s = skip_ws s in
      if ar_err s \<noteq> ARITH_OK then Some (0, s)
      else if at s 0 = CHR ''+'' \<and> at s 1 \<noteq> CHR ''+'' \<and> at s 1 \<noteq> CHR ''='' then
        call Unary (adv 1 s)
      else if at s 0 = CHR ''-'' \<and> at s 1 \<noteq> CHR ''-'' \<and> at s 1 \<noteq> CHR ''='' then
        do { (v, s) \<leftarrow> call Unary (adv 1 s); Some (- v, s) }
      else if at s 0 = CHR ''!'' then
        do { (v, s) \<leftarrow> call Unary (adv 1 s); Some (c_bool (v = 0), s) }
      else if at s 0 = CHR ''~'' then
        do { (v, s) \<leftarrow> call Unary (adv 1 s); Some (NOT v, s) }
      else if at s 0 = CHR ''+'' \<and> at s 1 = CHR ''+'' then parse_preincr call s 1
      else if at s 0 = CHR ''-'' \<and> at s 1 = CHR ''-'' then parse_preincr call s (-1)
      else call Primary s)"

text \<open>Each binary level: one operand, and then its loop.\<close>

definition parse_mul :: "arith_call \<Rightarrow> arith_state \<Rightarrow> arith_result" where
  "parse_mul call s = do { (left, s) \<leftarrow> call Unary s; call (Mul_loop left) s }"

definition parse_mul_loop :: "arith_call \<Rightarrow> i64 \<Rightarrow> arith_state \<Rightarrow> arith_result" where
  "parse_mul_loop call left s =
     (let s = skip_ws s in
      if ar_err s \<noteq> ARITH_OK then Some (left, s)
      else if at s 0 = CHR ''*'' \<and> at s 1 \<noteq> CHR ''='' then
        do { (rhs, s) \<leftarrow> call Unary (adv 1 s); call (Mul_loop (left * rhs)) s }
      else if at s 0 = CHR ''/'' \<and> at s 1 \<noteq> CHR ''='' then
        do { (rhs, s) \<leftarrow> call Unary (adv 1 s);
             if rhs = 0 then Some (0, if \<not> ar_noexec s then fail ARITH_ERR_DIV_ZERO s else s)
             else call (Mul_loop (if left = c_int64_min \<and> rhs = -1 then c_int64_min
                                  else c_div left rhs)) s }
      else if at s 0 = CHR 0x25 \<and> at s 1 \<noteq> CHR ''='' then
        do { (rhs, s) \<leftarrow> call Unary (adv 1 s);
             if rhs = 0 then Some (0, if \<not> ar_noexec s then fail ARITH_ERR_DIV_ZERO s else s)
             else call (Mul_loop (if left = c_int64_min \<and> rhs = -1 then 0 else c_mod left rhs)) s }
      else Some (left, s))"

definition parse_add :: "arith_call \<Rightarrow> arith_state \<Rightarrow> arith_result" where
  "parse_add call s = do { (left, s) \<leftarrow> call Mul s; call (Add_loop left) s }"

definition parse_add_loop :: "arith_call \<Rightarrow> i64 \<Rightarrow> arith_state \<Rightarrow> arith_result" where
  "parse_add_loop call left s =
     (let s = skip_ws s in
      if ar_err s \<noteq> ARITH_OK then Some (left, s)
      else if at s 0 = CHR ''+'' \<and> at s 1 \<noteq> CHR ''+'' \<and> at s 1 \<noteq> CHR ''='' then
        do { (rhs, s) \<leftarrow> call Mul (adv 1 s); call (Add_loop (left + rhs)) s }
      else if at s 0 = CHR ''-'' \<and> at s 1 \<noteq> CHR ''-'' \<and> at s 1 \<noteq> CHR ''='' then
        do { (rhs, s) \<leftarrow> call Mul (adv 1 s); call (Add_loop (left - rhs)) s }
      else Some (left, s))"

definition parse_shift :: "arith_call \<Rightarrow> arith_state \<Rightarrow> arith_result" where
  "parse_shift call s = do { (left, s) \<leftarrow> call Add s; call (Shift_loop left) s }"

definition parse_shift_loop :: "arith_call \<Rightarrow> i64 \<Rightarrow> arith_state \<Rightarrow> arith_result" where
  "parse_shift_loop call left s =
     (let s = skip_ws s in
      if ar_err s \<noteq> ARITH_OK then Some (left, s)
      else if at s 0 = CHR ''<'' \<and> at s 1 = CHR ''<'' \<and> at s 2 \<noteq> CHR ''='' then
        do { (rhs, s) \<leftarrow> call Add (adv 2 s);
             call (Shift_loop (if sint rhs < 0 \<or> sint rhs \<ge> 64 then 0 else c_shl left rhs)) s }
      else if at s 0 = CHR ''>'' \<and> at s 1 = CHR ''>'' \<and> at s 2 \<noteq> CHR ''='' then
        do { (rhs, s) \<leftarrow> call Add (adv 2 s);
             call (Shift_loop (if sint rhs < 0 \<or> sint rhs \<ge> 64 then 0 else c_shr left rhs)) s }
      else Some (left, s))"

definition parse_rel :: "arith_call \<Rightarrow> arith_state \<Rightarrow> arith_result" where
  "parse_rel call s = do { (left, s) \<leftarrow> call Shift s; call (Rel_loop left) s }"

definition parse_rel_loop :: "arith_call \<Rightarrow> i64 \<Rightarrow> arith_state \<Rightarrow> arith_result" where
  "parse_rel_loop call left s =
     (let s = skip_ws s in
      if ar_err s \<noteq> ARITH_OK then Some (left, s)
      else if at s 0 = CHR ''<'' \<and> at s 1 = CHR ''='' then
        do { (rhs, s) \<leftarrow> call Shift (adv 2 s); call (Rel_loop (c_bool (sint left \<le> sint rhs))) s }
      else if at s 0 = CHR ''>'' \<and> at s 1 = CHR ''='' then
        do { (rhs, s) \<leftarrow> call Shift (adv 2 s); call (Rel_loop (c_bool (sint left \<ge> sint rhs))) s }
      else if at s 0 = CHR ''<'' \<and> at s 1 \<noteq> CHR ''<'' then
        do { (rhs, s) \<leftarrow> call Shift (adv 1 s); call (Rel_loop (c_bool (sint left < sint rhs))) s }
      else if at s 0 = CHR ''>'' \<and> at s 1 \<noteq> CHR ''>'' then
        do { (rhs, s) \<leftarrow> call Shift (adv 1 s); call (Rel_loop (c_bool (sint left > sint rhs))) s }
      else Some (left, s))"

definition parse_eq :: "arith_call \<Rightarrow> arith_state \<Rightarrow> arith_result" where
  "parse_eq call s = do { (left, s) \<leftarrow> call Rel s; call (Eq_loop left) s }"

definition parse_eq_loop :: "arith_call \<Rightarrow> i64 \<Rightarrow> arith_state \<Rightarrow> arith_result" where
  "parse_eq_loop call left s =
     (let s = skip_ws s in
      if ar_err s \<noteq> ARITH_OK then Some (left, s)
      else if at s 0 = CHR ''='' \<and> at s 1 = CHR ''='' then
        do { (rhs, s) \<leftarrow> call Rel (adv 2 s); call (Eq_loop (c_bool (left = rhs))) s }
      else if at s 0 = CHR ''!'' \<and> at s 1 = CHR ''='' then
        do { (rhs, s) \<leftarrow> call Rel (adv 2 s); call (Eq_loop (c_bool (left \<noteq> rhs))) s }
      else Some (left, s))"

definition parse_bit_and :: "arith_call \<Rightarrow> arith_state \<Rightarrow> arith_result" where
  "parse_bit_and call s = do { (left, s) \<leftarrow> call Eq s; call (Bit_and_loop left) s }"

definition parse_bit_and_loop :: "arith_call \<Rightarrow> i64 \<Rightarrow> arith_state \<Rightarrow> arith_result" where
  "parse_bit_and_loop call left s =
     (let s = skip_ws s in
      if ar_err s \<noteq> ARITH_OK then Some (left, s)
      else if at s 0 = CHR 0x26 \<and> at s 1 \<noteq> CHR 0x26 \<and> at s 1 \<noteq> CHR ''='' then
        do { (rhs, s) \<leftarrow> call Eq (adv 1 s); call (Bit_and_loop (left AND rhs)) s }
      else Some (left, s))"

definition parse_bit_xor :: "arith_call \<Rightarrow> arith_state \<Rightarrow> arith_result" where
  "parse_bit_xor call s = do { (left, s) \<leftarrow> call Bit_and s; call (Bit_xor_loop left) s }"

definition parse_bit_xor_loop :: "arith_call \<Rightarrow> i64 \<Rightarrow> arith_state \<Rightarrow> arith_result" where
  "parse_bit_xor_loop call left s =
     (let s = skip_ws s in
      if ar_err s \<noteq> ARITH_OK then Some (left, s)
      else if at s 0 = CHR ''^'' \<and> at s 1 \<noteq> CHR ''='' then
        do { (rhs, s) \<leftarrow> call Bit_and (adv 1 s); call (Bit_xor_loop (left XOR rhs)) s }
      else Some (left, s))"

definition parse_bit_or :: "arith_call \<Rightarrow> arith_state \<Rightarrow> arith_result" where
  "parse_bit_or call s = do { (left, s) \<leftarrow> call Bit_xor s; call (Bit_or_loop left) s }"

definition parse_bit_or_loop :: "arith_call \<Rightarrow> i64 \<Rightarrow> arith_state \<Rightarrow> arith_result" where
  "parse_bit_or_loop call left s =
     (let s = skip_ws s in
      if ar_err s \<noteq> ARITH_OK then Some (left, s)
      else if at s 0 = CHR ''|'' \<and> at s 1 \<noteq> CHR ''|'' \<and> at s 1 \<noteq> CHR ''='' then
        do { (rhs, s) \<leftarrow> call Bit_xor (adv 1 s); call (Bit_or_loop (left OR rhs)) s }
      else Some (left, s))"

text \<open>Parsing without effects: \<^verbatim>\<open>noexec\<close> is set around the call and restored after it.\<close>

definition call_noexec :: "arith_call \<Rightarrow> goal \<Rightarrow> arith_state \<Rightarrow> arith_result" where
  "call_noexec call g s =
     (case call g (s\<lparr>ar_noexec := True\<rparr>) of
        None \<Rightarrow> None
      | Some (v, s') \<Rightarrow> Some (v, s'\<lparr>ar_noexec := ar_noexec s\<rparr>))"

definition parse_log_and :: "arith_call \<Rightarrow> arith_state \<Rightarrow> arith_result" where
  "parse_log_and call s = do { (left, s) \<leftarrow> call Bit_or s; call (Log_and_loop left) s }"

definition parse_log_and_loop :: "arith_call \<Rightarrow> i64 \<Rightarrow> arith_state \<Rightarrow> arith_result" where
  "parse_log_and_loop call left s =
     (let s = skip_ws s in
      if ar_err s \<noteq> ARITH_OK then Some (left, s)
      else if at s 0 = CHR 0x26 \<and> at s 1 = CHR 0x26 then
        (if left = 0 then
           do { (_, s) \<leftarrow> call_noexec call Bit_or (adv 2 s); call (Log_and_loop 0) s }
         else
           do { (rhs, s) \<leftarrow> call Bit_or (adv 2 s); call (Log_and_loop (c_bool (rhs \<noteq> 0))) s })
      else Some (left, s))"

definition parse_log_or :: "arith_call \<Rightarrow> arith_state \<Rightarrow> arith_result" where
  "parse_log_or call s = do { (left, s) \<leftarrow> call Log_and s; call (Log_or_loop left) s }"

definition parse_log_or_loop :: "arith_call \<Rightarrow> i64 \<Rightarrow> arith_state \<Rightarrow> arith_result" where
  "parse_log_or_loop call left s =
     (let s = skip_ws s in
      if ar_err s \<noteq> ARITH_OK then Some (left, s)
      else if at s 0 = CHR ''|'' \<and> at s 1 = CHR ''|'' then
        (if left \<noteq> 0 then
           do { (_, s) \<leftarrow> call_noexec call Log_and (adv 2 s); call (Log_or_loop 1) s }
         else
           do { (rhs, s) \<leftarrow> call Log_and (adv 2 s); call (Log_or_loop (c_bool (rhs \<noteq> 0))) s })
      else Some (left, s))"

definition parse_ternary :: "arith_call \<Rightarrow> arith_state \<Rightarrow> arith_result" where
  "parse_ternary call s =
     do { (cond, s) \<leftarrow> call Log_or s;
          (let s = skip_ws s in
           if ar_err s \<noteq> ARITH_OK then Some (cond, s)
           else if at s 0 \<noteq> CHR ''?'' then Some (cond, s)
           else
             (let s = adv 1 s in
              if cond \<noteq> 0 then
                do { (val, s) \<leftarrow> call Assign s;
                     (let s = skip_ws s in
                      if at s 0 = CHR '':'' then
                        do { (_, s) \<leftarrow> call_noexec call Assign (adv 1 s); Some (val, s) }
                      else Some (val, fail ARITH_ERR_SYNTAX s)) }
              else
                do { (_, s) \<leftarrow> call_noexec call Assign s;
                     (let s = skip_ws s in
                      if at s 0 = CHR '':'' then call Assign (adv 1 s)
                      else Some (0, fail ARITH_ERR_SYNTAX s)) })) }"

definition parse_assign :: "arith_call \<Rightarrow> arith_state \<Rightarrow> arith_result" where
  "parse_assign call s = call Ternary s"

definition parse_expr :: "arith_call \<Rightarrow> arith_state \<Rightarrow> arith_result" where
  "parse_expr call s = do { (val, s) \<leftarrow> call Assign s; call (Expr_loop val) s }"

definition parse_expr_loop :: "arith_call \<Rightarrow> i64 \<Rightarrow> arith_state \<Rightarrow> arith_result" where
  "parse_expr_loop call val s =
     (let s = skip_ws s in
      if ar_err s \<noteq> ARITH_OK then Some (val, s)
      else if at s 0 = CHR '','' then
        do { (val, s) \<leftarrow> call Assign (adv 1 s); call (Expr_loop val) s }
      else Some (val, s))"

fun arith_body :: "arith_call \<Rightarrow> arith_call" where
  "arith_body call Expr s = parse_expr call s"
| "arith_body call (Expr_loop v) s = parse_expr_loop call v s"
| "arith_body call Assign s = parse_assign call s"
| "arith_body call Ternary s = parse_ternary call s"
| "arith_body call Log_or s = parse_log_or call s"
| "arith_body call (Log_or_loop v) s = parse_log_or_loop call v s"
| "arith_body call Log_and s = parse_log_and call s"
| "arith_body call (Log_and_loop v) s = parse_log_and_loop call v s"
| "arith_body call Bit_or s = parse_bit_or call s"
| "arith_body call (Bit_or_loop v) s = parse_bit_or_loop call v s"
| "arith_body call Bit_xor s = parse_bit_xor call s"
| "arith_body call (Bit_xor_loop v) s = parse_bit_xor_loop call v s"
| "arith_body call Bit_and s = parse_bit_and call s"
| "arith_body call (Bit_and_loop v) s = parse_bit_and_loop call v s"
| "arith_body call Eq s = parse_eq call s"
| "arith_body call (Eq_loop v) s = parse_eq_loop call v s"
| "arith_body call Rel s = parse_rel call s"
| "arith_body call (Rel_loop v) s = parse_rel_loop call v s"
| "arith_body call Shift s = parse_shift call s"
| "arith_body call (Shift_loop v) s = parse_shift_loop call v s"
| "arith_body call Add s = parse_add call s"
| "arith_body call (Add_loop v) s = parse_add_loop call v s"
| "arith_body call Mul s = parse_mul call s"
| "arith_body call (Mul_loop v) s = parse_mul_loop call v s"
| "arith_body call Unary s = parse_unary call s"
| "arith_body call Primary s = parse_primary call s"

fun arith_run :: "nat \<Rightarrow> arith_call" where
  "arith_run 0 g s = None"
| "arith_run (Suc n) g s = arith_body (arith_run n) g s"

definition arith_init :: "string \<Rightarrow> environ \<Rightarrow> arith_state" where
  "arith_init expr env =
     \<lparr>ar_pos = expr, ar_env = env, ar_err = ARITH_OK, ar_depth = 0, ar_noexec = False,
      ar_stderr = [], ar_reading = [], ar_hazard = False\<rparr>"

definition arith_eval_n ::
  "nat \<Rightarrow> string \<Rightarrow> environ \<Rightarrow> (i64 \<times> arith_error \<times> arith_state) option" where
  "arith_eval_n n expr env =
     (let s = skip_ws (arith_init expr env) in
      if at s 0 = CHR '')'' \<and> at s 1 = NUL then Some (0, ARITH_OK, s)
      else
        do { (result, s) \<leftarrow> arith_run n Expr s;
             (let s = skip_ws s;
                  s = (if at s 0 = CHR '')'' then adv 1 s else s);
                  s = skip_ws s;
                  s = (if ar_err s = ARITH_OK \<and> at s 0 \<noteq> NUL then fail ARITH_ERR_SYNTAX s else s)
              in Some (if ar_err s = ARITH_OK then result else 0, ar_err s, s)) })"

subsection \<open>Termination\<close>

text \<open>
  \<open>L\<close> bounds the length of the expression and of every text a variable holds; what an assignment
  writes has at most 20 characters. A call either goes one level down the grammar, or has consumed
  a character, or is one variable deeper.
\<close>

definition env_le :: "nat \<Rightarrow> environ \<Rightarrow> bool" where
  "env_le L env \<longleftrightarrow> env_inv env \<and>
     (\<forall>name var t. environ_get env name = Some var \<longrightarrow> var_value var = VT_STRING t \<longrightarrow> length t \<le> L)"

definition ar_ok :: "nat \<Rightarrow> arith_state \<Rightarrow> bool" where
  "ar_ok L s \<longleftrightarrow> env_le L (ar_env s) \<and> length (ar_pos s) \<le> L \<and> ar_depth s \<le> ARITH_MAX_DEPTH \<and> 20 \<le> L"

fun rank :: "goal \<Rightarrow> nat" where
  "rank Expr = 14" | "rank Assign = 13" | "rank Ternary = 12" | "rank Log_or = 11"
| "rank Log_and = 10" | "rank Bit_or = 9" | "rank Bit_xor = 8" | "rank Bit_and = 7" | "rank Eq = 6"
| "rank Rel = 5" | "rank Shift = 4" | "rank Add = 3" | "rank Mul = 2" | "rank Unary = 1"
| "rank _ = 0"

definition depth_cost :: "nat \<Rightarrow> nat \<Rightarrow> nat" where
  "depth_cost L d = (ARITH_MAX_DEPTH - d) * (15 * (L + 1))"

definition ar_cost :: "nat \<Rightarrow> goal \<Rightarrow> arith_state \<Rightarrow> nat" where
  "ar_cost L g s = depth_cost L (ar_depth s) + 15 * length (ar_pos s) + rank g"

definition returns :: "nat \<Rightarrow> arith_state \<Rightarrow> arith_result \<Rightarrow> bool" where
  "returns L s r \<longleftrightarrow>
     (\<exists>v s'. r = Some (v, s') \<and> ar_ok L s' \<and> ar_depth s' = ar_depth s \<and> ar_noexec s' = ar_noexec s \<and>
             length (ar_pos s') \<le> length (ar_pos s))"

definition good :: "nat \<Rightarrow> nat \<Rightarrow> arith_call \<Rightarrow> bool" where
  "good n L call \<longleftrightarrow> (\<forall>g s. ar_ok L s \<longrightarrow> ar_cost L g s < n \<longrightarrow> returns L s (call g s))"

lemma rank_le: "rank g \<le> 14"
  by (cases g) simp_all

lemma depth_cost_step: "d < ARITH_MAX_DEPTH \<Longrightarrow> depth_cost L (d + 1) + 15 * (L + 1) = depth_cost L d"
proof -
  assume "d < ARITH_MAX_DEPTH"
  then have "ARITH_MAX_DEPTH - d = Suc (ARITH_MAX_DEPTH - (d + 1))"
    by simp
  then show ?thesis
    by (simp add: depth_cost_def)
qed

lemma at_inside: "at s i \<noteq> NUL \<Longrightarrow> i < length (ar_pos s)"
  by (auto simp: peek_def split: if_splits)

lemma at_inside_eq: "at s i = c \<Longrightarrow> c \<noteq> NUL \<Longrightarrow> i < length (ar_pos s)"
  using at_inside by blast

lemma state_simps [simp]:
  "ar_env (skip_ws s) = ar_env s" "ar_depth (skip_ws s) = ar_depth s"
  "ar_noexec (skip_ws s) = ar_noexec s" "ar_err (skip_ws s) = ar_err s"
  "ar_env (adv n s) = ar_env s" "ar_depth (adv n s) = ar_depth s"
  "ar_noexec (adv n s) = ar_noexec s" "ar_err (adv n s) = ar_err s"
  "ar_pos (adv n s) = drop n (ar_pos s)"
  "ar_env (fail e s) = ar_env s" "ar_depth (fail e s) = ar_depth s"
  "ar_noexec (fail e s) = ar_noexec s" "ar_pos (fail e s) = ar_pos s" "ar_err (fail e s) = e"
  "ar_env (hazard_if b s) = ar_env s" "ar_depth (hazard_if b s) = ar_depth s"
  "ar_noexec (hazard_if b s) = ar_noexec s" "ar_pos (hazard_if b s) = ar_pos s"
  "ar_err (hazard_if b s) = ar_err s"
  by (simp_all add: skip_ws_def adv_def fail_def hazard_if_def)

lemma skip_ws_length: "length (ar_pos (skip_ws s)) \<le> length (ar_pos s)"
  by (simp add: skip_ws_def length_dropWhile_le)

lemma ar_ok_simps [simp]:
  "ar_ok L (fail e s) = ar_ok L s" "ar_ok L (hazard_if b s) = ar_ok L s"
  by (simp_all add: ar_ok_def)

lemma ar_ok_skip_ws: "ar_ok L s \<Longrightarrow> ar_ok L (skip_ws s)"
  using skip_ws_length [of s] by (simp add: ar_ok_def)

lemma ar_ok_adv: "ar_ok L s \<Longrightarrow> ar_ok L (adv n s)"
  by (auto simp: ar_ok_def)

lemma env_le_assign:
  assumes "env_le L env" "length t \<le> L" "environ_assign env name (VT_STRING t) = (env', err)"
  shows "env_le L env'"
proof (cases "env = []")
  case True
  with assms show ?thesis
    by (simp add: environ_assign_def environ_set_def)
next
  case ne: False
  have inv: "env_inv env"
    using assms(1) by (simp add: env_le_def)
  note corr = environ_assign_correct [OF inv ne assms(3)]
  have "length u \<le> L" if "environ_get env' n = Some var" "var_value var = VT_STRING u" for n var u
  proof (cases "n = name")
    case False
    then show ?thesis
      using that assms(1) keeps_others_get [OF inv corr(1) corr(2)] unfolding env_le_def by metis
  next
    case True
    show ?thesis
    proof (cases "check_readonly env name")
      case ro: True
      with corr(4) that assms(1) True show ?thesis
        unfolding env_le_def by blast
    next
      case False
      then have "var_value var = VT_STRING t"
        using corr(5) that True by (auto split: option.splits)
      with that assms(2) show ?thesis by simp
    qed
  qed
  then show ?thesis
    using corr(1) by (simp add: env_le_def)
qed

lemma set_var_simps [simp]:
  "ar_pos (set_var s name v) = ar_pos s" "ar_depth (set_var s name v) = ar_depth s"
  "ar_noexec (set_var s name v) = ar_noexec s" "ar_err (set_var s name v) = ar_err s"
  by (simp_all add: set_var_def Let_def split_beta)

lemma ar_ok_set_var: "ar_ok L s \<Longrightarrow> ar_ok L (set_var s name v)"
proof -
  assume ok: "ar_ok L s"
  obtain env err where asg: "environ_assign (ar_env s) name (VT_STRING (show_int (sint v))) = (env, err)"
    by force
  have "env_le L env"
    using ok asg show_i64_length [of v] by (intro env_le_assign [OF _ _ asg]) (auto simp: ar_ok_def)
  with ok show ?thesis
    by (simp add: ar_ok_def set_var_def asg)
qed

lemma returns_Some:
  "ar_ok L s' \<Longrightarrow> ar_depth s' = ar_depth s \<Longrightarrow> ar_noexec s' = ar_noexec s \<Longrightarrow>
   length (ar_pos s') \<le> length (ar_pos s) \<Longrightarrow> returns L s (Some (v, s'))"
  by (simp add: returns_def)

lemma returns_bind:
  assumes "returns L s0 r" "ar_depth s0 = ar_depth s" "ar_noexec s0 = ar_noexec s"
    and "\<And>v s'. ar_ok L s' \<Longrightarrow> ar_depth s' = ar_depth s \<Longrightarrow> ar_noexec s' = ar_noexec s \<Longrightarrow>
           length (ar_pos s') \<le> length (ar_pos s0) \<Longrightarrow> returns L s (f (v, s'))"
  shows "returns L s (Option.bind r f)"
  using assms by (auto simp: returns_def)

lemma returns_weaken:
  "returns L s0 r \<Longrightarrow> ar_depth s0 = ar_depth s \<Longrightarrow> ar_noexec s0 = ar_noexec s \<Longrightarrow>
   length (ar_pos s0) \<le> length (ar_pos s) \<Longrightarrow> returns L s r"
  by (auto simp: returns_def)

lemma good_call:
  "good n L call \<Longrightarrow> ar_ok L s \<Longrightarrow> depth_cost L (ar_depth s) + 15 * length (ar_pos s) + rank g < n \<Longrightarrow>
   returns L s (call g s)"
  by (simp add: good_def ar_cost_def)

text \<open>A call that has consumed a character, or goes down a level where none was.\<close>

lemma call_consumed:
  assumes "good n L call" "ar_ok L s'" "ar_depth s' = ar_depth s"
    "length (ar_pos s') < length (ar_pos s)" "depth_cost L (ar_depth s) + 15 * length (ar_pos s) \<le> n"
  shows "returns L s' (call g s')"
  using assms rank_le [of g] by (intro good_call) auto

lemma call_down:
  assumes "good n L call" "ar_ok L s'" "ar_depth s' = ar_depth s" "rank g < r"
    "length (ar_pos s') \<le> length (ar_pos s)" "depth_cost L (ar_depth s) + 15 * length (ar_pos s) + r \<le> n"
  shows "returns L s' (call g s')"
  using assms by (intro good_call) auto

lemma resolve_var_returns:
  assumes good: "good n L call" and ok: "ar_ok L s" and n: "depth_cost L (ar_depth s) \<le> n"
  shows "returns L s (resolve_var call s name)"
proof (cases "ar_depth s \<ge> ARITH_MAX_DEPTH")
  case True
  with ok show ?thesis
    by (simp add: resolve_var_def returns_Some)
next
  case False
  note deeper = depth_cost_step [of "ar_depth s" L]
  show ?thesis
  proof (cases "environ_get (ar_env s) name")
    case None
    with False ok show ?thesis
      by (simp add: resolve_var_def returns_Some)
  next
    case (Some var)
    show ?thesis
    proof (cases "\<exists>t. var_value var = VT_STRING t \<and> t \<noteq> []")
      case str: False
      then show ?thesis
        using False Some ok by (auto simp: resolve_var_def returns_Some split: value_t.splits)
    next
      case True
      then obtain t where t: "var_value var = VT_STRING t" "t \<noteq> []"
        by blast
      have len: "length t \<le> L"
        using ok Some t(1) by (auto simp: ar_ok_def env_le_def)
      let ?sub = "s\<lparr>ar_pos := t, ar_err := ARITH_OK, ar_depth := ar_depth s + 1,
                    ar_reading := name # ar_reading s\<rparr>"
      have "returns L ?sub (call Expr ?sub)"
        using good
      proof (rule good_call)
        show "ar_ok L ?sub"
          using ok False len by (simp add: ar_ok_def)
        show "depth_cost L (ar_depth ?sub) + 15 * length (ar_pos ?sub) + rank Expr < n"
          using deeper False n len by simp
      qed
      then obtain v s' where "call Expr ?sub = Some (v, s')" "ar_ok L s'"
        by (auto simp: returns_def)
      then show ?thesis
        using False Some t ok by (auto simp: resolve_var_def returns_def ar_ok_def)
    qed
  qed
qed

lemma call_noexec_returns:
  assumes "returns L (s\<lparr>ar_noexec := True\<rparr>) (call g (s\<lparr>ar_noexec := True\<rparr>))"
  shows "returns L s (call_noexec call g s)"
  using assms by (auto simp: call_noexec_def returns_def ar_ok_def)

lemma noexec_ok [simp]: "ar_ok L (s\<lparr>ar_noexec := b\<rparr>) = ar_ok L s"
  by (simp add: ar_ok_def)

text \<open>The binary levels.\<close>

lemma level_returns:
  assumes good: "good n L call" and ok: "ar_ok L s" and n: "ar_cost L g s \<le> n"
    and ranks: "rank sub < rank g" "\<And>v. rank (loop v) < rank g"
  shows "returns L s (do { (left, s) \<leftarrow> call sub s; call (loop left) s })"
proof (rule returns_bind)
  show "returns L s (call sub s)"
    by (rule call_down [OF good ok refl ranks(1) order_refl]) (use n in \<open>simp add: ar_cost_def\<close>)
  fix v s'
  assume s': "ar_ok L s'" "ar_depth s' = ar_depth s" "ar_noexec s' = ar_noexec s"
    "length (ar_pos s') \<le> length (ar_pos s)"
  have "returns L s' (call (loop v) s')"
    by (rule call_down [OF good s'(1,2) ranks(2) s'(4)]) (use n in \<open>simp add: ar_cost_def\<close>)
  then show "returns L s (case (v, s') of (left, s) \<Rightarrow> call (loop left) s)"
    using s' by (auto intro: returns_weaken)
qed simp_all

lemma step_returns:
  assumes good: "good n L call" and ok: "ar_ok L s" and k: "0 < k" "k \<le> length (ar_pos s)"
    and n: "depth_cost L (ar_depth s) + 15 * length (ar_pos s) \<le> n"
    and rest: "\<And>v s'. ar_ok L s' \<Longrightarrow> ar_depth s' = ar_depth s \<Longrightarrow> ar_noexec s' = ar_noexec s \<Longrightarrow>
      length (ar_pos s') < length (ar_pos s) \<Longrightarrow> returns L s (f (v, s'))"
  shows "returns L s (Option.bind (call g (adv k s)) f)"
proof (rule returns_bind)
  show "returns L (adv k s) (call g (adv k s))"
    by (rule call_consumed [OF good ar_ok_adv [OF ok] _ _ n]) (use k in auto)
qed (use k rest in auto)

lemma step_noexec_returns:
  assumes good: "good n L call" and ok: "ar_ok L s" and k: "0 < k" "k \<le> length (ar_pos s)"
    and n: "depth_cost L (ar_depth s) + 15 * length (ar_pos s) \<le> n"
    and rest: "\<And>v s'. ar_ok L s' \<Longrightarrow> ar_depth s' = ar_depth s \<Longrightarrow> ar_noexec s' = ar_noexec s \<Longrightarrow>
      length (ar_pos s') < length (ar_pos s) \<Longrightarrow> returns L s (f (v, s'))"
  shows "returns L s (Option.bind (call_noexec call g (adv k s)) f)"
proof (rule returns_bind)
  show "returns L (adv k s) (call_noexec call g (adv k s))"
    by (rule call_noexec_returns, rule call_consumed [OF good _ _ _ n])
       (use k ar_ok_adv [OF ok] in auto)
qed (use k rest in auto)

lemma loop_call:
  assumes "good n L call" "ar_ok L s'" "ar_depth s' = ar_depth s" "ar_noexec s' = ar_noexec s"
    "length (ar_pos s') < length (ar_pos s)" "depth_cost L (ar_depth s) + 15 * length (ar_pos s) \<le> n"
  shows "returns L s (call g s')"
  by (rule returns_weaken [OF call_consumed [OF assms(1,2,3,5,6)]]) (use assms in auto)

lemma ws_returns:
  assumes ok: "ar_ok L s" and n: "depth_cost L (ar_depth s) + 15 * length (ar_pos s) + r \<le> n"
    and body: "\<And>t. ar_ok L t \<Longrightarrow> depth_cost L (ar_depth t) + 15 * length (ar_pos t) + r \<le> n \<Longrightarrow>
      returns L t (body t)"
  shows "returns L s (let s = skip_ws s in body s)"
proof -
  have "returns L (skip_ws s) (body (skip_ws s))"
    by (rule body) (use ok n skip_ws_length [of s] ar_ok_skip_ws in auto)
  then show ?thesis
    unfolding Let_def by (rule returns_weaken) (simp_all add: skip_ws_length)
qed

lemma at_suc: "at s i = c \<Longrightarrow> c \<noteq> NUL \<Longrightarrow> Suc i \<le> length (ar_pos s)"
  using at_inside_eq by fastforce

lemma op_chars [simp]:
  "CHR ''*'' \<noteq> NUL" "CHR ''/'' \<noteq> NUL" "CHR 0x25 \<noteq> NUL" "CHR ''+'' \<noteq> NUL" "CHR ''-'' \<noteq> NUL"
  "CHR ''<'' \<noteq> NUL" "CHR ''>'' \<noteq> NUL" "CHR ''='' \<noteq> NUL" "CHR ''!'' \<noteq> NUL" "CHR 0x26 \<noteq> NUL"
  "CHR ''^'' \<noteq> NUL" "CHR ''|'' \<noteq> NUL" "CHR ''?'' \<noteq> NUL" "CHR '':'' \<noteq> NUL" "CHR '','' \<noteq> NUL"
  "CHR ''('' \<noteq> NUL" "CHR '')'' \<noteq> NUL" "CHR ''~'' \<noteq> NUL"
  by (simp_all add: NUL_def)

lemmas returns_rules = step_returns step_noexec_returns loop_call returns_Some

lemma loops_return:
  assumes good: "good n L call" and ok: "ar_ok L s"
    and n: "depth_cost L (ar_depth s) + 15 * length (ar_pos s) + 0 \<le> n"
  shows "returns L s (parse_mul_loop call v s)" "returns L s (parse_add_loop call v s)"
    "returns L s (parse_shift_loop call v s)" "returns L s (parse_rel_loop call v s)"
    "returns L s (parse_eq_loop call v s)" "returns L s (parse_bit_and_loop call v s)"
    "returns L s (parse_bit_xor_loop call v s)" "returns L s (parse_bit_or_loop call v s)"
    "returns L s (parse_log_and_loop call v s)" "returns L s (parse_log_or_loop call v s)"
    "returns L s (parse_expr_loop call v s)"
  unfolding parse_mul_loop_def parse_add_loop_def parse_shift_loop_def parse_rel_loop_def
    parse_eq_loop_def parse_bit_and_loop_def parse_bit_xor_loop_def parse_bit_or_loop_def
    parse_log_and_loop_def parse_log_or_loop_def parse_expr_loop_def
  by (rule ws_returns [OF ok n];
      auto intro!: step_returns [OF good] step_noexec_returns [OF good] loop_call [OF good]
        returns_Some dest: at_suc)+

text \<open>Resolving a variable after a character has been consumed, and what follows it.\<close>

lemma resolve_returns:
  assumes good: "good n L call" and ok: "ar_ok L s0" and n: "depth_cost L (ar_depth s) \<le> n"
    and same: "ar_depth s0 = ar_depth s" "ar_noexec s0 = ar_noexec s"
    and rest: "\<And>v s'. ar_ok L s' \<Longrightarrow> ar_depth s' = ar_depth s \<Longrightarrow> ar_noexec s' = ar_noexec s \<Longrightarrow>
      length (ar_pos s') \<le> length (ar_pos s0) \<Longrightarrow> returns L s (f (v, s'))"
  shows "returns L s (Option.bind (resolve_var call s0 name) f)"
  by (rule returns_bind [OF resolve_var_returns [OF good ok]]) (use n same rest in auto)

lemma assign_returns:
  assumes good: "good n L call" and ok: "ar_ok L s0"
    and n: "depth_cost L (ar_depth s) + 15 * length (ar_pos s) + 15 \<le> n"
    and same: "ar_depth s0 = ar_depth s" "ar_noexec s0 = ar_noexec s"
      "length (ar_pos s0) \<le> length (ar_pos s)"
    and rest: "\<And>v s'. ar_ok L s' \<Longrightarrow> ar_depth s' = ar_depth s \<Longrightarrow> ar_noexec s' = ar_noexec s \<Longrightarrow>
      length (ar_pos s') \<le> length (ar_pos s0) \<Longrightarrow> returns L s (f (v, s'))"
  shows "returns L s (Option.bind (call g s0) f)"
  by (rule returns_bind, rule good_call [OF good ok])
     (use n same rest rank_le [of g] in auto)

lemma returns_if: "returns L s a \<Longrightarrow> returns L s b \<Longrightarrow> returns L s (if c then a else b)"
  by simp

lemma variable_returns:
  assumes good: "good n L call" and ok: "ar_ok L s"
    and n: "depth_cost L (ar_depth s) + 15 * length (ar_pos s) + 15 \<le> n"
  shows "returns L s (parse_variable call s name)"
proof -
  have n': "depth_cost L (ar_depth s) \<le> n"
    using n by simp
  note resolve = resolve_returns [OF good ar_ok_adv [OF ok] n']
  have post: "returns L s (do { (val, s) \<leftarrow> resolve_var call (adv k s) name;
      Some (val, set_var (hazard_if (F val) s) name (G val)) })" for k F G
    by (rule resolve) (auto intro!: returns_Some ar_ok_set_var)
  have assign: "returns L s (do { (rhs, s) \<leftarrow> call Assign (adv 1 s); Some (rhs, set_var s name rhs) })"
    by (rule assign_returns [OF good ar_ok_adv [OF ok] n])
       (auto intro!: returns_Some ar_ok_set_var)
  have operand: "returns L s (do { (lhs, s) \<leftarrow> resolve_var call (adv k s) name;
      (rhs, s) \<leftarrow> call Assign s; F lhs rhs s })"
    if "\<And>lhs rhs s'. ar_ok L s' \<Longrightarrow> ar_depth s' = ar_depth s \<Longrightarrow> ar_noexec s' = ar_noexec s \<Longrightarrow>
      length (ar_pos s') \<le> length (ar_pos s) \<Longrightarrow> returns L s (F lhs rhs s')" for k F
    by (rule resolve) (auto intro!: assign_returns [OF good _ n] that)
  have compound: "returns L s (do { (lhs, s) \<leftarrow> resolve_var call (adv k s) name;
      (rhs, s) \<leftarrow> call Assign s;
      case compound_op op1 lhs rhs of
        None \<Rightarrow> Some (0, if \<not> ar_noexec s then fail ARITH_ERR_DIV_ZERO s else s)
      | Some result \<Rightarrow> Some (result,
          set_var (hazard_if (compound_overflows op1 lhs rhs) s) name result) })" for k op1
    by (rule operand) (auto intro!: returns_Some ar_ok_set_var split: option.split)
  have shift: "returns L s (do { (lhs, s) \<leftarrow> resolve_var call (adv k s) name;
      (rhs, s) \<leftarrow> call Assign s; Some (F lhs rhs, set_var s name (F lhs rhs)) })" for k F
    by (rule operand) (auto intro!: returns_Some ar_ok_set_var)
  have plain: "returns L s (resolve_var call s name)"
    by (rule resolve_var_returns [OF good ok n'])
  show ?thesis
    unfolding parse_variable_def Let_def
    by (intro returns_if post assign compound shift plain)
qed

lemma parse_ident_state:
  assumes "parse_ident s = (r, s')" "ar_ok L s"
  shows "ar_ok L s'" "ar_depth s' = ar_depth s" "ar_noexec s' = ar_noexec s"
    "length (ar_pos s') \<le> length (ar_pos s)"
    "is_ident_start (at (skip_ws s) 0) \<Longrightarrow> r \<noteq> None \<and> length (ar_pos s') < length (ar_pos s)"
proof -
  note ws = skip_ws_length [of s] ar_ok_skip_ws [OF assms(2)]
  show "ar_ok L s'" "ar_depth s' = ar_depth s" "ar_noexec s' = ar_noexec s"
    "length (ar_pos s') \<le> length (ar_pos s)"
    using assms ws by (auto simp: parse_ident_def Let_def ar_ok_adv split: if_splits)
  show "r \<noteq> None \<and> length (ar_pos s') < length (ar_pos s)" if st: "is_ident_start (at (skip_ws s) 0)"
  proof -
    have "\<not> is_ident_start NUL"
      by (simp add: is_ident_start_def between_def NUL_def)
    then have "0 < length (ar_pos (skip_ws s))"
      using st at_inside [of "skip_ws s" 0] by metis
    then obtain c cs where c: "ar_pos (skip_ws s) = c # cs"
      by (cases "ar_pos (skip_ws s)") auto
    then have "is_ident_char c"
      using st by (simp add: is_ident_char_def)
    then show ?thesis
      using assms st ws c by (auto simp: parse_ident_def Let_def)
  qed
qed

lemma preincr_returns:
  assumes good: "good n L call" and ok: "ar_ok L s"
    and n: "depth_cost L (ar_depth s) + 15 * length (ar_pos s) \<le> n"
  shows "returns L s (parse_preincr call s delta)"
proof -
  obtain r s' where id: "parse_ident (skip_ws (adv 2 s)) = (r, s')"
    by force
  have ok2: "ar_ok L (skip_ws (adv 2 s))"
    by (intro ar_ok_skip_ws ar_ok_adv ok)
  have "length (ar_pos (skip_ws (adv 2 s))) \<le> length (ar_pos s)"
    using skip_ws_length [of "adv 2 s"] by simp
  then show ?thesis
    unfolding parse_preincr_def Let_def id
    using parse_ident_state(1-4) [OF id ok2] n
    by (auto intro!: resolve_returns [OF good] returns_Some ar_ok_set_var split: option.split)
qed

lemma unary_returns:
  assumes good: "good n L call" and ok: "ar_ok L s"
    and n: "depth_cost L (ar_depth s) + 15 * length (ar_pos s) + 1 \<le> n"
  shows "returns L s (parse_unary call s)"
  unfolding parse_unary_def
proof (rule ws_returns [OF ok n], goal_cases)
  case (1 t)
  have "returns L t (call Primary t)"
    by (rule call_down [OF good 1(1) refl _ order_refl 1(2)]) simp
  moreover have "returns L t (call Unary (adv 1 t))" if "1 \<le> length (ar_pos t)"
    by (rule loop_call [OF good]) (use 1 that in \<open>auto intro: ar_ok_adv\<close>)
  ultimately show ?case
    using 1
    by (auto intro!: step_returns [OF good] returns_Some preincr_returns [OF good] dest: at_suc)
qed

lemma ternary_returns:
  assumes good: "good n L call" and ok: "ar_ok L s"
    and n: "depth_cost L (ar_depth s) + 15 * length (ar_pos s) + 12 \<le> n"
  shows "returns L s (parse_ternary call s)"
proof -
  have n0: "depth_cost L (ar_depth s) + 15 * length (ar_pos s) + 0 \<le> n"
    using n by simp
  have branch: "returns L t
     (let s = skip_ws t
      in if at s 0 = CHR '':'' then F (adv 1 s) else Some (v, fail ARITH_ERR_SYNTAX s))"
    if "ar_ok L t" "depth_cost L (ar_depth t) + 15 * length (ar_pos t) + 0 \<le> n"
      "\<And>u. ar_ok L u \<Longrightarrow> ar_depth u = ar_depth t \<Longrightarrow> ar_noexec u = ar_noexec t \<Longrightarrow>
         length (ar_pos u) < length (ar_pos t) \<Longrightarrow> returns L t (F u)" for t v F
  proof -
    have "length (ar_pos (adv 1 (skip_ws t))) < length (ar_pos t)" if "at (skip_ws t) 0 = CHR '':''"
      using at_suc [OF that] skip_ws_length [of t] by auto
    then show ?thesis
      using that ar_ok_skip_ws [OF that(1)] skip_ws_length [of t]
      by (auto simp: Let_def intro!: returns_Some that(3) ar_ok_adv)
  qed
  show ?thesis
    unfolding parse_ternary_def
  proof (rule returns_bind [OF call_down [OF good ok refl _ order_refl]], goal_cases)
    case (5 v t)
    then have cost: "depth_cost L (ar_depth t) + 15 * length (ar_pos t) + 0 \<le> n"
      using n by simp
    have "returns L t (let s = skip_ws t in
           if ar_err s \<noteq> ARITH_OK then Some (v, s)
           else if at s 0 \<noteq> CHR ''?'' then Some (v, s)
           else
             (let s = adv 1 s in
              if v \<noteq> 0 then
                do { (val, s) \<leftarrow> call Assign s;
                     (let s = skip_ws s in
                      if at s 0 = CHR '':'' then
                        do { (_, s) \<leftarrow> call_noexec call Assign (adv 1 s); Some (val, s) }
                      else Some (val, fail ARITH_ERR_SYNTAX s)) }
              else
                do { (_, s) \<leftarrow> call_noexec call Assign s;
                     (let s = skip_ws s in
                      if at s 0 = CHR '':'' then call Assign (adv 1 s)
                      else Some (0, fail ARITH_ERR_SYNTAX s)) }))"
    proof (rule ws_returns [OF 5(1) cost], goal_cases)
      case (1 u)
      have then_branch: "returns L w (let s = skip_ws w in
          if at s 0 = CHR '':'' then
            do { (_, s) \<leftarrow> call_noexec call Assign (adv 1 s); Some (val, s) }
          else Some (val, fail ARITH_ERR_SYNTAX s))"
        if "ar_ok L w" "depth_cost L (ar_depth w) + 15 * length (ar_pos w) + 0 \<le> n" for w val
      proof (rule branch [OF that], rule returns_bind)
        fix x
        assume "ar_ok L x" "ar_depth x = ar_depth w" "length (ar_pos x) < length (ar_pos w)"
        then show "returns L x (call_noexec call Assign x)"
          using that(2) by (intro call_noexec_returns call_consumed [OF good]) auto
      qed (auto intro!: returns_Some)
      have else_branch: "returns L w (let s = skip_ws w in
          if at s 0 = CHR '':'' then call Assign (adv 1 s) else Some (0, fail ARITH_ERR_SYNTAX s))"
        if "ar_ok L w" "depth_cost L (ar_depth w) + 15 * length (ar_pos w) + 0 \<le> n" for w
        by (rule branch [OF that], rule loop_call [OF good]) (use that in auto)
      show ?case
      proof (cases "ar_err u \<noteq> ARITH_OK \<or> at u 0 \<noteq> CHR ''?''")
        case True
        with 1 show ?thesis by (auto intro!: returns_Some)
      next
        case False
        then have "1 \<le> length (ar_pos u)"
          using at_suc [of u 0] by auto
        then show ?thesis
          using False 1 unfolding Let_def [of "adv 1 u"]
          by (auto intro!: step_returns [OF good] step_noexec_returns [OF good]
              intro: returns_weaken [OF then_branch] returns_weaken [OF else_branch])
      qed
    qed
    then show ?case
      using 5 by (auto intro: returns_weaken)
  qed (use n in auto)
qed

lemma primary_returns:
  assumes good: "good n L call" and ok: "ar_ok L s"
    and n: "depth_cost L (ar_depth s) + 15 * length (ar_pos s) + 0 \<le> n"
  shows "returns L s (parse_primary call s)"
  unfolding parse_primary_def
proof (rule ws_returns [OF ok n], goal_cases)
  case (1 t)
  have var: "returns L t (case parse_ident t of (Some name, s) \<Rightarrow> parse_variable call (skip_ws s) name
         | (None, s) \<Rightarrow> Some (0, s))" if st: "is_ident_start (at t 0)"
  proof -
    have "skip_ws t = t"
    proof (cases "ar_pos t")
      case (Cons c cs)
      then have "\<not> (c = CHR '' '' \<or> c = CHR 0x09 \<or> c = CHR 0x0A)"
        using st by (auto simp: is_ident_start_def between_def)
      then show ?thesis
        using Cons by (simp add: skip_ws_def)
    qed (simp add: skip_ws_def)
    obtain r s' where id: "parse_ident t = (r, s')"
      by force
    note st' = parse_ident_state [OF id 1(1)]
    obtain name where r: "r = Some name" "length (ar_pos s') < length (ar_pos t)"
      using st'(5) st \<open>skip_ws t = t\<close> by auto
    have "returns L (skip_ws s') (parse_variable call (skip_ws s') name)"
      by (rule variable_returns [OF good]) (use st' r 1 skip_ws_length [of s'] ar_ok_skip_ws in auto)
    then show ?thesis
      using st' skip_ws_length [of s'] r by (auto simp: id intro: returns_weaken)
  qed
  show ?case
  proof (cases "ar_err t \<noteq> ARITH_OK")
    case True
    with 1 show ?thesis by (auto intro!: returns_Some)
  next
    case noerr: False
    consider (paren) "at t 0 = CHR ''(''" | (digit) "at t 0 \<noteq> CHR ''(''" "between CHR ''0'' CHR ''9'' (at t 0)"
      | (var) "at t 0 \<noteq> CHR ''(''" "\<not> between CHR ''0'' CHR ''9'' (at t 0)" "is_ident_start (at t 0)"
      | (other) "at t 0 \<noteq> CHR ''(''" "\<not> between CHR ''0'' CHR ''9'' (at t 0)" "\<not> is_ident_start (at t 0)"
      by blast
    then show ?thesis
    proof cases
      case paren
      then have "1 \<le> length (ar_pos t)"
        using at_suc [of t 0] by simp
      moreover have "returns L t (let s = skip_ws u in
          Some (v, if at s 0 = CHR '')'' then adv 1 s else fail ARITH_ERR_SYNTAX s))"
        if "ar_ok L u" "ar_depth u = ar_depth t" "ar_noexec u = ar_noexec t"
          "length (ar_pos u) < length (ar_pos t)" for u v
        using that skip_ws_length [of u] ar_ok_skip_ws [OF that(1)]
        by (auto simp: Let_def intro!: returns_Some ar_ok_adv)
      ultimately show ?thesis
        using paren noerr 1
        by (simp del: One_nat_def) (rule step_returns [OF good], auto)
    next
      case digit
      then show ?thesis
        using noerr 1 by (auto simp: ar_ok_adv intro!: returns_Some split: prod.split)
    next
      case v: var
      then show ?thesis
        using noerr var by simp
    next
      case other
      then show ?thesis
        using noerr 1 by (auto intro!: returns_Some)
    qed
  qed
qed

text \<open>Every goal returns under its cost, by induction on the fuel.\<close>

lemma arith_run_good: "good n L (arith_run n)"
proof (induction n)
  case 0
  then show ?case by (simp add: good_def)
next
  case (Suc n)
  show ?case
    unfolding good_def
  proof (intro allI impI)
    fix g s
    assume ok: "ar_ok L s" and "ar_cost L g s < Suc n"
    then have n: "ar_cost L g s \<le> n"
      by simp
    have n0: "depth_cost L (ar_depth s) + 15 * length (ar_pos s) + 0 \<le> n"
      using n by (simp add: ar_cost_def)
    note loops = loops_return [OF Suc ok n0]
    note level = level_returns [OF Suc ok n]
    have "returns L s (arith_body (arith_run n) g s)"
    proof (cases g)
      case Ternary
      then show ?thesis
        using n ternary_returns [OF Suc ok] by (simp add: ar_cost_def)
    next
      case Assign
      have "returns L s (arith_run n Ternary s)"
        by (rule call_down [OF Suc ok refl, of _ 13]) (use n Assign in \<open>simp_all add: ar_cost_def\<close>)
      then show ?thesis
        by (simp add: Assign parse_assign_def)
    next
      case Unary
      then show ?thesis
        using n unary_returns [OF Suc ok] by (simp add: ar_cost_def)
    next
      case Primary
      then show ?thesis
        using primary_returns [OF Suc ok n0] by simp
    qed (use loops level in \<open>simp_all add: parse_expr_def parse_log_or_def parse_log_and_def
        parse_bit_or_def parse_bit_xor_def parse_bit_and_def parse_eq_def parse_rel_def
        parse_shift_def parse_add_def parse_mul_def\<close>)
    then show "returns L s (arith_run (Suc n) g s)"
      by simp
  qed
qed

text \<open>The fuel that is always enough, computed from the lengths of the texts in reach.\<close>

definition arith_fuel :: "nat \<Rightarrow> nat" where
  "arith_fuel L = depth_cost L 0 + 15 * L + 15"

lemma arith_run_returns:
  assumes "env_le L env" "length expr \<le> L" "20 \<le> L" "arith_fuel L \<le> n"
  shows "\<exists>v s. arith_run n Expr (skip_ws (arith_init expr env)) = Some (v, s) \<and> env_le L (ar_env s)"
proof -
  have ok: "ar_ok L (skip_ws (arith_init expr env))"
    using assms by (intro ar_ok_skip_ws) (simp add: ar_ok_def arith_init_def)
  have "length (ar_pos (skip_ws (arith_init expr env))) \<le> L"
    using skip_ws_length [of "arith_init expr env"] assms(2) by (simp add: arith_init_def)
  then have "ar_cost L Expr (skip_ws (arith_init expr env)) < n"
    using assms(4) by (simp add: ar_cost_def arith_fuel_def arith_init_def)
  then have "returns L (skip_ws (arith_init expr env)) (arith_run n Expr (skip_ws (arith_init expr env)))"
    using arith_run_good [of n L] ok unfolding good_def by blast
  then show ?thesis
    by (auto simp: returns_def ar_ok_def)
qed

subsection \<open>More fuel changes nothing\<close>

definition ext :: "'a option \<Rightarrow> 'a option \<Rightarrow> bool" where
  "ext r r' \<longleftrightarrow> (\<forall>x. r = Some x \<longrightarrow> r' = Some x)"

definition call_le :: "arith_call \<Rightarrow> arith_call \<Rightarrow> bool" where
  "call_le call call' \<longleftrightarrow> (\<forall>g s. ext (call g s) (call' g s))"

lemma ext_refl: "ext r r"
  by (simp add: ext_def)

lemma ext_call: "call_le call call' \<Longrightarrow> ext (call g s) (call' g s)"
  by (simp add: call_le_def)

lemma ext_bind:
  "ext r r' \<Longrightarrow> (\<And>v s. ext (f (v, s)) (f' (v, s))) \<Longrightarrow> ext (Option.bind r f) (Option.bind r' f')"
  by (auto simp: ext_def bind_eq_Some_conv)

lemma ext_if: "ext a a' \<Longrightarrow> ext b b' \<Longrightarrow> ext (if c then a else b) (if c then a' else b')"
  by simp

lemma ext_case_option:
  "ext a a' \<Longrightarrow> (\<And>x. ext (f x) (f' x)) \<Longrightarrow> ext (case_option a f r) (case_option a' f' r)"
  by (cases r) simp_all

lemma ext_case_prod: "(\<And>x y. ext (f x y) (f' x y)) \<Longrightarrow> ext (case_prod f p) (case_prod f' p)"
  by (cases p) simp

lemma ext_resolve: "call_le call call' \<Longrightarrow> ext (resolve_var call s name) (resolve_var call' s name)"
  unfolding resolve_var_def
  by (auto simp: ext_def call_le_def split: option.splits value_t.splits)

lemma ext_noexec: "call_le call call' \<Longrightarrow> ext (call_noexec call g s) (call_noexec call' g s)"
  unfolding call_noexec_def by (auto simp: ext_def call_le_def split: option.splits)

lemmas ext_rules = ext_refl ext_if ext_case_option ext_case_prod ext_bind

lemma ext_variable:
  assumes "call_le call call'"
  shows "ext (parse_variable call s name) (parse_variable call' s name)"
  unfolding parse_variable_def Let_def
  by (rule ext_rules ext_call [OF assms] ext_resolve [OF assms])+

lemma ext_preincr:
  assumes "call_le call call'"
  shows "ext (parse_preincr call s d) (parse_preincr call' s d)"
  unfolding parse_preincr_def Let_def
  by (rule ext_rules ext_call [OF assms] ext_resolve [OF assms])+

lemma ext_body:
  assumes "call_le call call'"
  shows "ext (arith_body call g s) (arith_body call' g s)"
  by (cases g;
      simp only: arith_body.simps parse_expr_def parse_expr_loop_def parse_assign_def parse_ternary_def
        parse_log_or_def parse_log_or_loop_def parse_log_and_def parse_log_and_loop_def
        parse_bit_or_def parse_bit_or_loop_def parse_bit_xor_def parse_bit_xor_loop_def
        parse_bit_and_def parse_bit_and_loop_def parse_eq_def parse_eq_loop_def
        parse_rel_def parse_rel_loop_def parse_shift_def parse_shift_loop_def
        parse_add_def parse_add_loop_def parse_mul_def parse_mul_loop_def
        parse_unary_def parse_primary_def Let_def;
      (rule ext_rules ext_call [OF assms] ext_noexec [OF assms] ext_variable [OF assms]
         ext_preincr [OF assms])+)

lemma arith_run_mono: "n \<le> m \<Longrightarrow> call_le (arith_run n) (arith_run m)"
proof (induction n arbitrary: m)
  case 0
  then show ?case by (simp add: call_le_def ext_def)
next
  case (Suc n)
  then obtain k where m: "m = Suc k" "n \<le> k"
    by (cases m) auto
  from ext_body [OF Suc.IH [OF m(2)]] show ?case
    by (simp add: call_le_def m(1))
qed

subsection \<open>The evaluator, with the fuel it needs\<close>

fun value_length :: "string value_t \<Rightarrow> nat" where
  "value_length (VT_STRING t) = length t"
| "value_length _ = 0"

definition slots_width :: "variable ht_entry option list \<Rightarrow> nat" where
  "slots_width es =
     foldr (\<lambda>slot m. case slot of None \<Rightarrow> m | Some e \<Rightarrow> max (value_length (var_value (ht_value e))) m) es 0"

definition env_width :: "environ \<Rightarrow> nat" where
  "env_width env = foldr (\<lambda>s m. max (slots_width (ht_entries (vars s))) m) env 0"

definition arith_bound :: "string \<Rightarrow> environ \<Rightarrow> nat" where
  "arith_bound expr env = max 20 (max (length expr) (env_width env))"

text \<open>What a call gives: the value, the status and the state, or nothing C defines.\<close>

datatype arith_outcome = Arith_value i64 arith_error arith_state | Arith_undefined

definition arith_outcome_of :: "i64 \<times> arith_error \<times> arith_state \<Rightarrow> arith_outcome" where
  "arith_outcome_of r =
     (case r of (v, e, s) \<Rightarrow> if ar_hazard s then Arith_undefined else Arith_value v e s)"

definition arith_eval :: "string \<Rightarrow> environ \<Rightarrow> arith_outcome option" where
  "arith_eval expr env =
     map_option arith_outcome_of (arith_eval_n (arith_fuel (arith_bound expr env)) expr env)"

lemma slots_width_mem: "e \<in> ents es \<Longrightarrow> value_length (var_value (ht_value e)) \<le> slots_width es"
  by (induction es) (auto simp: slots_width_def ents_def split: option.splits)

lemma scope_width:
  assumes "scope_inv s" "scope_map s name = Some var"
  shows "value_length (var_value var) \<le> slots_width (ht_entries (vars s))"
proof -
  have "(name, var) \<in> set (map (\<lambda>e. (ht_key e, ht_value e)) (List.map_filter (\<lambda>x. x) (ht_entries (vars s))))"
    using assms(2) by (auto simp: scope_map_def ht_map_def slots_map_def dest: map_of_SomeD)
  then obtain e where "e \<in> ents (ht_entries (vars s))" "ht_value e = var"
    by (auto simp: set_map_filter_id)
  then show ?thesis
    using slots_width_mem by blast
qed

lemma env_width_get:
  "env_inv env \<Longrightarrow> environ_get env name = Some var \<Longrightarrow> value_length (var_value var) \<le> env_width env"
proof (induction env)
  case Nil
  then show ?case by simp
next
  case (Cons s env)
  then show ?case
    using scope_width [of s name var]
    by (auto simp: env_width_def scope_get le_max_iff_disj split: option.splits)
qed

lemma env_le_width: "env_inv env \<Longrightarrow> env_width env \<le> L \<Longrightarrow> env_le L env"
  using env_width_get by (fastforce simp: env_le_def)

lemma arith_eval_n_total:
  assumes "env_inv env" "arith_fuel (arith_bound expr env) \<le> n"
  shows "\<exists>v e s. arith_eval_n n expr env = Some (v, e, s) \<and> env_inv (ar_env s)"
proof -
  let ?L = "arith_bound expr env"
  have "env_le ?L env"
    using assms(1) by (intro env_le_width) (simp_all add: arith_bound_def)
  moreover have "length expr \<le> ?L" "20 \<le> ?L"
    by (simp_all add: arith_bound_def)
  ultimately obtain v s where "arith_run n Expr (skip_ws (arith_init expr env)) = Some (v, s)"
    "env_le ?L (ar_env s)"
    using arith_run_returns [OF _ _ _ assms(2)] by blast
  then show ?thesis
    using assms(1) by (auto simp: arith_eval_n_def Let_def env_le_def arith_init_def)
qed

lemma arith_eval_n_mono:
  assumes "arith_eval_n n expr env = Some r" "n \<le> m"
  shows "arith_eval_n m expr env = Some r"
proof -
  have "ext (arith_eval_n n expr env) (arith_eval_n m expr env)"
    unfolding arith_eval_n_def Let_def
    by (rule ext_rules ext_call [OF arith_run_mono [OF assms(2)]])+
  with assms(1) show ?thesis
    by (simp add: ext_def)
qed

lemma arith_eval_fuel:
  assumes "env_inv env" "arith_eval_n n expr env = Some r"
  shows "arith_eval expr env = Some (arith_outcome_of r)"
proof -
  let ?n = "arith_fuel (arith_bound expr env)"
  obtain r' where r': "arith_eval_n ?n expr env = Some r'"
    using arith_eval_n_total [OF assms(1) order_refl, of expr] by blast
  have "arith_eval_n (max n ?n) expr env = Some r" "arith_eval_n (max n ?n) expr env = Some r'"
    using assms(2) r' by (auto intro: arith_eval_n_mono)
  with r' show ?thesis by (simp add: arith_eval_def)
qed

text \<open>
  C12. Arithmetic expansion always ends: for every text, however malformed, and every environment,
  variables that name one another in a circle included, the evaluator has an outcome within the fuel
  computed from the lengths of the texts, and no amount of fuel gives another one. The outcome is a
  value with a status, and then the environment left is well formed; or it is undefined behaviour,
  reported as such: a signed overflow, or a variable assigned while its own text is being read, which
  C frees under the reader (\<^verbatim>\<open>x='x=5'; $((x))\<close>).
\<close>

theorem arith_eval_terminates:
  assumes "env_inv env"
  shows "\<exists>out. arith_eval expr env = Some out \<and>
     (case out of Arith_value v e s \<Rightarrow> env_inv (ar_env s) \<and> \<not> ar_hazard s | Arith_undefined \<Rightarrow> True) \<and>
     (\<forall>n r. arith_eval_n n expr env = Some r \<longrightarrow> arith_outcome_of r = out)"
proof -
  obtain v e s where r: "arith_eval_n (arith_fuel (arith_bound expr env)) expr env = Some (v, e, s)"
    "env_inv (ar_env s)"
    using arith_eval_n_total [OF assms order_refl, of expr] by blast
  have fuel: "arith_outcome_of r = arith_outcome_of (v, e, s)" if "arith_eval_n n expr env = Some r" for n r
    using arith_eval_fuel [OF assms that] r(1) by (simp add: arith_eval_def)
  show ?thesis
  proof (intro exI conjI allI impI)
    show "arith_eval expr env = Some (arith_outcome_of (v, e, s))"
      by (simp add: arith_eval_def r(1))
    show "case arith_outcome_of (v, e, s) of
        Arith_value v e s \<Rightarrow> env_inv (ar_env s) \<and> \<not> ar_hazard s | Arith_undefined \<Rightarrow> True"
      using r(2) by (simp add: arith_outcome_of_def)
  qed (rule fuel)
qed

lemma arith_eval_terminates_witness:
  "\<exists>out. arith_eval ''1+'' (environ_new [] False) = Some out"
  using arith_eval_terminates [OF new_env_inv(1), of "''1+''"] by blast

end
