(* ===== verification/Image.thy ===== *)
theory Image
  imports Growable Cstd
begin

text \<open>
  The bytecode image of \<^verbatim>\<open>src/vm/vm.h\<close> and its construction in \<^verbatim>\<open>src/vm/vm.c\<close>: the constant pool,
  the code, the function and module tables. \<open>im_code\<close> holds the \<^verbatim>\<open>code_size\<close> bytes emitted, so a
  \<^verbatim>\<open>uint16_t\<close> or \<^verbatim>\<open>size_t\<close> count is the length of its list. A function's image is \<open>None\<close> for
  \<^verbatim>\<open>NULL\<close>, the main image, or the index of a sub-image.
\<close>

record vm_func =
  fn_name :: string
  fn_offset :: nat
  fn_image :: "nat option"

record vm_module =
  md_name :: string
  md_offset :: nat

record image =
  im_consts :: "string list"
  im_const_cap :: nat
  im_code :: "byte list"
  im_code_cap :: nat
  im_funcs :: "vm_func list"
  im_modules :: "vm_module list"

definition VM_CONST_POOL_MAX :: nat where
  "VM_CONST_POOL_MAX = 65535"

definition image_new :: image where
  "image_new = \<lparr>im_consts = [], im_const_cap = 0, im_code = [], im_code_cap = 0,
                im_funcs = [], im_modules = []\<rparr>"

subsection \<open>The constant pool\<close>

fun const_index :: "string list \<Rightarrow> string \<Rightarrow> nat option" where
  "const_index [] str = None"
| "const_index (c # cs) str = (if c = str then Some 0 else map_option Suc (const_index cs str))"

text \<open>The capacity is a \<^verbatim>\<open>uint16_t\<close>: doubling 32768 gives 0, which is then clamped.\<close>

definition const_pool_cap :: "nat \<Rightarrow> nat" where
  "const_pool_cap cap =
     (let new_cap = (if cap \<noteq> 0 then (cap * 2) mod 2 ^ 16 else 16)
      in if new_cap < cap then VM_CONST_POOL_MAX else new_cap)"

definition image_add_const :: "image \<Rightarrow> string \<Rightarrow> (u16 \<times> image) option" where
  "image_add_const img str =
     (case const_index (im_consts img) str of
        Some i \<Rightarrow> Some (of_nat i, img)
      | None \<Rightarrow>
          if length (im_consts img) \<ge> VM_CONST_POOL_MAX then None
          else
            (let cap = (if length (im_consts img) \<ge> im_const_cap img
                        then const_pool_cap (im_const_cap img) else im_const_cap img)
             in Some (of_nat (length (im_consts img)),
                      img\<lparr>im_consts := im_consts img @ [str], im_const_cap := cap\<rparr>)))"

subsection \<open>The code\<close>

definition image_ensure_capacity :: "image \<Rightarrow> nat \<Rightarrow> image option" where
  "image_ensure_capacity img additional =
     do { needed \<leftarrow> checked_add (length (im_code img)) additional;
          if needed \<le> im_code_cap img then Some img
          else do { new_cap \<leftarrow> grow_cap (if im_code_cap img \<noteq> 0 then im_code_cap img else 64) needed;
                    Some (img\<lparr>im_code_cap := new_cap\<rparr>) } }"

definition image_emit_u8 :: "image \<Rightarrow> byte \<Rightarrow> image option" where
  "image_emit_u8 img b =
     do { img \<leftarrow> image_ensure_capacity img 1;
          Some (img\<lparr>im_code := im_code img @ [b]\<rparr>) }"

definition image_emit_u16 :: "image \<Rightarrow> u16 \<Rightarrow> image option" where
  "image_emit_u16 img v =
     do { img \<leftarrow> image_ensure_capacity img 2;
          Some (img\<lparr>im_code := im_code img @ le16 v\<rparr>) }"

definition image_emit_i32 :: "image \<Rightarrow> i32 \<Rightarrow> image option" where
  "image_emit_i32 img v =
     do { img \<leftarrow> image_ensure_capacity img 4;
          Some (img\<lparr>im_code := im_code img @ le32 v\<rparr>) }"

subsection \<open>Laws\<close>

text \<open>
  Distinct C strings whose number the \<^verbatim>\<open>uint16_t\<close> holds and the pool has room for, and code
  that fits its allocation.
\<close>

definition image_inv :: "image \<Rightarrow> bool" where
  "image_inv img \<longleftrightarrow>
     distinct (im_consts img) \<and> length (im_consts img) \<le> VM_CONST_POOL_MAX \<and>
     length (im_consts img) \<le> im_const_cap img \<and> im_const_cap img \<le> VM_CONST_POOL_MAX \<and>
     length (im_code img) \<le> im_code_cap img \<and> im_code_cap img \<le> SIZE_MAX"

lemma image_new_inv: "image_inv image_new"
  by (simp add: image_inv_def image_new_def)

lemma const_index_Some: "const_index cs s = Some i \<Longrightarrow> i < length cs \<and> cs ! i = s"
  by (induction cs arbitrary: i) (auto split: if_splits)

lemma const_index_None: "const_index cs s = None \<longleftrightarrow> s \<notin> set cs"
  by (induction cs) auto

lemma const_index_nth: "distinct cs \<Longrightarrow> i < length cs \<Longrightarrow> const_index cs (cs ! i) = Some i"
  by (induction cs arbitrary: i) (auto simp: nth_Cons' less_Suc_eq_0_disj)

lemma const_index_append:
  "const_index (cs @ ds) s =
     (case const_index cs s of
        Some i \<Rightarrow> Some i | None \<Rightarrow> map_option (\<lambda>i. length cs + i) (const_index ds s))"
proof (induction cs)
  case Nil
  then show ?case by (cases "const_index ds s") simp_all
next
  case (Cons c cs)
  then show ?case
    by (cases "const_index cs s"; cases "const_index ds s") simp_all
qed

lemma const_pool_cap_room:
  assumes "cap \<le> VM_CONST_POOL_MAX" "n = cap" "n < VM_CONST_POOL_MAX"
  shows "n < const_pool_cap cap" "const_pool_cap cap \<le> VM_CONST_POOL_MAX"
proof -
  have "(cap * 2) mod 2 ^ 16 < 2 ^ 16"
    by simp
  moreover have "(cap * 2) mod 2 ^ 16 = (if cap < 2 ^ 15 then cap * 2 else cap * 2 - 2 ^ 16)"
    if "cap < 2 ^ 16"
  proof (cases "cap < 2 ^ 15")
    case False
    then have "(cap * 2) mod 2 ^ 16 = (cap * 2 - 2 ^ 16) mod 2 ^ 16"
      using le_mod_geq [of "2 ^ 16" "cap * 2"] by simp
    then show ?thesis using that False by simp
  qed simp
  ultimately show "n < const_pool_cap cap" "const_pool_cap cap \<le> VM_CONST_POOL_MAX"
    using assms by (auto simp: const_pool_cap_def VM_CONST_POOL_MAX_def Let_def)
qed

lemma image_add_const_correct:
  assumes inv: "image_inv img" and add: "image_add_const img s = Some (i, img')"
  shows "image_inv img'" "unat i < length (im_consts img')" "im_consts img' ! unat i = s"
    "\<exists>cs. im_consts img' = im_consts img @ cs" "im_code img' = im_code img"
    "im_funcs img' = im_funcs img" "im_modules img' = im_modules img"
    "im_code_cap img' = im_code_cap img"
proof -
  have small: "unat (of_nat k :: u16) = k" if "k \<le> VM_CONST_POOL_MAX" for k
    using that by (simp add: unat_of_nat take_bit_eq_mod VM_CONST_POOL_MAX_def)
  have "image_inv img' \<and> unat i < length (im_consts img') \<and> im_consts img' ! unat i = s \<and>
    (\<exists>cs. im_consts img' = im_consts img @ cs) \<and> im_code img' = im_code img \<and>
    im_funcs img' = im_funcs img \<and> im_modules img' = im_modules img \<and>
    im_code_cap img' = im_code_cap img"
  proof (cases "const_index (im_consts img) s")
    case (Some k)
    with add const_index_Some [OF Some] inv small [of k] show ?thesis
      by (auto simp: image_add_const_def image_inv_def)
  next
    case None
    let ?n = "length (im_consts img)"
    have n: "?n < VM_CONST_POOL_MAX"
      using add None by (auto simp: image_add_const_def split: if_splits)
    have room: "?n < const_pool_cap (im_const_cap img) \<and> const_pool_cap (im_const_cap img) \<le> VM_CONST_POOL_MAX"
      if "\<not> ?n < im_const_cap img"
      using that inv n const_pool_cap_room [of "im_const_cap img" ?n] by (simp add: image_inv_def)
    have "i = of_nat ?n" "img' = img\<lparr>im_consts := im_consts img @ [s],
        im_const_cap := (if ?n \<ge> im_const_cap img then const_pool_cap (im_const_cap img) else im_const_cap img)\<rparr>"
      using add None n by (auto simp: image_add_const_def Let_def)
    with inv None n room small [of ?n] show ?thesis
      by (auto simp: image_inv_def const_index_None not_le)
  qed
  then show "image_inv img'" "unat i < length (im_consts img')" "im_consts img' ! unat i = s"
    "\<exists>cs. im_consts img' = im_consts img @ cs" "im_code img' = im_code img"
    "im_funcs img' = im_funcs img" "im_modules img' = im_modules img"
    "im_code_cap img' = im_code_cap img"
    by blast+
qed

lemma image_ensure_capacity_correct:
  assumes inv: "image_inv img" and n: "n \<le> 4"
  shows "length (im_code img) + n \<le> SIZE_MAX \<Longrightarrow>
           \<exists>cap. image_ensure_capacity img n = Some (img\<lparr>im_code_cap := cap\<rparr>) \<and>
                 length (im_code img) + n \<le> cap \<and> cap \<le> SIZE_MAX"
    and "\<not> length (im_code img) + n \<le> SIZE_MAX \<Longrightarrow> image_ensure_capacity img n = None"
proof -
  have len: "length (im_code img) \<le> SIZE_MAX" and cap: "im_code_cap img \<le> SIZE_MAX"
    using inv by (simp_all add: image_inv_def)
  have small: "n \<le> SIZE_MAX" "64 \<le> SIZE_MAX"
    using n by (simp_all add: SIZE_MAX_def)
  note add = checked_add_exact [OF len small(1)]
  show "\<exists>cap. image_ensure_capacity img n = Some (img\<lparr>im_code_cap := cap\<rparr>) \<and>
          length (im_code img) + n \<le> cap \<and> cap \<le> SIZE_MAX" if fits: "length (im_code img) + n \<le> SIZE_MAX"
  proof (cases "length (im_code img) + n \<le> im_code_cap img")
    case True
    with fits add cap show ?thesis
      by (auto simp: image_ensure_capacity_def intro: exI [of _ "im_code_cap img"])
  next
    case False
    let ?c = "if im_code_cap img \<noteq> 0 then im_code_cap img else 64"
    obtain r where "grow_cap ?c (length (im_code img) + n) = Some r" "length (im_code img) + n \<le> r"
      "r \<le> SIZE_MAX"
      by (rule grow_cap_correct [of ?c "length (im_code img) + n"])
         (use cap small fits in \<open>auto split: if_splits\<close>)
    with False fits add show ?thesis
      by (intro exI [of _ r]) (simp add: image_ensure_capacity_def)
  qed
  show "image_ensure_capacity img n = None" if "\<not> length (im_code img) + n \<le> SIZE_MAX"
    using that add by (simp add: image_ensure_capacity_def)
qed

text \<open>Every emission appends its bytes, or aborts when the size would not fit.\<close>

lemma emit_correct:
  assumes inv: "image_inv img" and n: "length bs \<le> 4"
    and emit: "emit = do { img \<leftarrow> image_ensure_capacity img (length bs);
                            Some (img\<lparr>im_code := im_code img @ bs\<rparr>) }"
  shows "emit = Some img' \<Longrightarrow>
           image_inv img' \<and> im_code img' = im_code img @ bs \<and> im_consts img' = im_consts img \<and>
           im_funcs img' = im_funcs img \<and> im_modules img' = im_modules img"
    and "length (im_code img) + length bs \<le> SIZE_MAX \<Longrightarrow> \<exists>img'. emit = Some img'"
  using image_ensure_capacity_correct [OF inv n] inv
  by (cases "length (im_code img) + length bs \<le> SIZE_MAX"; auto simp: emit image_inv_def)+

lemma image_emit_u8_correct:
  assumes "image_inv img"
  shows "image_emit_u8 img b = Some img' \<Longrightarrow>
           image_inv img' \<and> im_code img' = im_code img @ [b] \<and> im_consts img' = im_consts img \<and>
           im_funcs img' = im_funcs img \<and> im_modules img' = im_modules img"
    and "length (im_code img) + 1 \<le> SIZE_MAX \<Longrightarrow> \<exists>img'. image_emit_u8 img b = Some img'"
  using emit_correct [OF assms _ refl, of "[b]"] by (simp_all add: image_emit_u8_def)

lemma image_emit_u16_correct:
  assumes "image_inv img"
  shows "image_emit_u16 img v = Some img' \<Longrightarrow>
           image_inv img' \<and> im_code img' = im_code img @ le16 v \<and> im_consts img' = im_consts img \<and>
           im_funcs img' = im_funcs img \<and> im_modules img' = im_modules img"
    and "length (im_code img) + 2 \<le> SIZE_MAX \<Longrightarrow> \<exists>img'. image_emit_u16 img v = Some img'"
  using emit_correct [OF assms _ refl, of "le16 v"] by (simp_all add: image_emit_u16_def)

lemma image_emit_i32_correct:
  assumes "image_inv img"
  shows "image_emit_i32 img w = Some img' \<Longrightarrow>
           image_inv img' \<and> im_code img' = im_code img @ le32 w \<and> im_consts img' = im_consts img \<and>
           im_funcs img' = im_funcs img \<and> im_modules img' = im_modules img"
    and "length (im_code img) + 4 \<le> SIZE_MAX \<Longrightarrow> \<exists>img'. image_emit_i32 img w = Some img'"
  using emit_correct [OF assms _ refl, of "le32 w"] by (simp_all add: image_emit_i32_def)

interpretation code: growable image_inv im_code image_emit_u8 SIZE_MAX
  by unfold_locales (simp_all add: image_emit_u8_correct)

end
