(* ===== verification/ImageIO.thy ===== *)
theory ImageIO
  imports Image
begin

text \<open>
  \<^verbatim>\<open>src/vm/image_io.c\<close>: writing an image as a \<^verbatim>\<open>.opsb\<close> file and reading it back. The output
  stream is the bytes written; the input stream of the read context is the bytes not yet read. The
  messages to \<^verbatim>\<open>stderr\<close> are left out. A reader returns \<open>None\<close> where the code frees the image and
  returns \<^verbatim>\<open>NULL\<close>, and an outer \<open>None\<close> is the abort of a full constant pool, which does not happen.
\<close>

definition OPSB_MAX_SECTION_SIZE :: nat where
  "OPSB_MAX_SECTION_SIZE = 64 * 1024 * 1024"

definition OPSB_MAX_STRING_SIZE :: nat where
  "OPSB_MAX_STRING_SIZE = 16 * 1024 * 1024"

definition OPSB_MAX_SECTIONS :: nat where
  "OPSB_MAX_SECTIONS = 256"

definition bytes_of :: "string \<Rightarrow> byte list" where
  "bytes_of s = map byte_of_char s"

definition string_of :: "byte list \<Rightarrow> string" where
  "string_of bs = map char_of_byte bs"

definition OPSB_MAGIC :: "byte list" where
  "OPSB_MAGIC = bytes_of ''OPSH''"

definition OPSB_VERSION :: u16 where
  "OPSB_VERSION = 1"

definition SECT_CONST_POOL :: byte where "SECT_CONST_POOL = 1"
definition SECT_BYTECODE :: byte where "SECT_BYTECODE = 2"
definition SECT_FUNC_TABLE :: byte where "SECT_FUNC_TABLE = 3"
definition SECT_MODULE_TABLE :: byte where "SECT_MODULE_TABLE = 4"

subsection \<open>Writing\<close>

definition write_u8 :: "byte list \<Rightarrow> byte \<Rightarrow> byte list" where
  "write_u8 f v = f @ [v]"

definition write_u16 :: "byte list \<Rightarrow> u16 \<Rightarrow> byte list" where
  "write_u16 f v = f @ le16 v"

definition write_u32 :: "byte list \<Rightarrow> u32 \<Rightarrow> byte list" where
  "write_u32 f v = f @ le32 v"

definition find_const :: "image \<Rightarrow> string \<Rightarrow> nat option" where
  "find_const img name = const_index (im_consts img) name"

definition const_pool_size :: "image \<Rightarrow> u32" where
  "const_pool_size img = foldl (\<lambda>sz c. sz + (4 + of_nat (length c))) 2 (im_consts img)"

definition func_table_size :: "image \<Rightarrow> u32" where
  "func_table_size img = 2 + of_nat (length (im_funcs img)) * 6"

definition module_table_size :: "image \<Rightarrow> u32" where
  "module_table_size img = 2 + of_nat (length (im_modules img)) * 6"

definition write_const :: "byte list \<Rightarrow> string \<Rightarrow> byte list" where
  "write_const f c = write_u32 f (of_nat (length c)) @ bytes_of c"

text \<open>An entry of a name table; \<open>None\<close> when the name is not in the constant pool.\<close>

definition write_entry :: "image \<Rightarrow> byte list \<Rightarrow> string \<times> nat \<Rightarrow> byte list option" where
  "write_entry img f entry =
     (case find_const img (fst entry) of
        None \<Rightarrow> None
      | Some idx \<Rightarrow> Some (write_u32 (write_u16 f (of_nat idx)) (of_nat (snd entry))))"

definition func_entry :: "vm_func \<Rightarrow> string \<times> nat" where
  "func_entry fn = (fn_name fn, fn_offset fn)"

definition module_entry :: "vm_module \<Rightarrow> string \<times> nat" where
  "module_entry md = (md_name md, md_offset md)"

definition write_func_table :: "image \<Rightarrow> byte list \<Rightarrow> byte list option" where
  "write_func_table img f =
     (if length (im_funcs img) > 0 then
        (let f = write_u8 f SECT_FUNC_TABLE;
             f = write_u32 f (func_table_size img);
             f = write_u16 f (of_nat (length (im_funcs img)))
         in foldM (write_entry img) f (map func_entry (im_funcs img)))
      else Some f)"

definition write_module_table :: "image \<Rightarrow> byte list \<Rightarrow> byte list option" where
  "write_module_table img f =
     (if length (im_modules img) > 0 then
        (let f = write_u8 f SECT_MODULE_TABLE;
             f = write_u32 f (module_table_size img);
             f = write_u16 f (of_nat (length (im_modules img)))
         in foldM (write_entry img) f (map module_entry (im_modules img)))
      else Some f)"

text \<open>\<open>None\<close> is the result -1.\<close>

definition image_write_opsb :: "image \<Rightarrow> byte list option" where
  "image_write_opsb img =
     (let section_count = 2 + (if length (im_funcs img) > 0 then 1 else 0)
                            + (if length (im_modules img) > 0 then 1 else 0 :: u32);
          f = OPSB_MAGIC;
          f = write_u16 f OPSB_VERSION;
          f = write_u16 f 0;
          f = write_u32 f section_count;
          f = write_u32 f 0;
          f = write_u8 f SECT_CONST_POOL;
          f = write_u32 f (const_pool_size img);
          f = write_u16 f (of_nat (length (im_consts img)));
          f = foldl write_const f (im_consts img);
          f = write_u8 f SECT_BYTECODE;
          f = write_u32 f (of_nat (length (im_code img)));
          f = f @ im_code img
      in do { f \<leftarrow> write_func_table img f;
              write_module_table img f })"

subsection \<open>The read context\<close>

record read_ctx =
  rd_in :: "byte list"
  rd_error :: bool

definition ctx_read_u8 :: "read_ctx \<Rightarrow> byte \<times> read_ctx" where
  "ctx_read_u8 ctx =
     (if rd_error ctx then (0, ctx)
      else (case rd_in ctx of
              [] \<Rightarrow> (0, ctx\<lparr>rd_error := True\<rparr>)
            | b # bs \<Rightarrow> (b, ctx\<lparr>rd_in := bs\<rparr>)))"

definition ctx_read_u16 :: "read_ctx \<Rightarrow> u16 \<times> read_ctx" where
  "ctx_read_u16 ctx =
     (let (lo, ctx) = ctx_read_u8 ctx;
          (hi, ctx) = ctx_read_u8 ctx
      in (of_le16 lo hi, ctx))"

definition ctx_read_u32 :: "read_ctx \<Rightarrow> u32 \<times> read_ctx" where
  "ctx_read_u32 ctx =
     (let (b0, ctx) = ctx_read_u8 ctx;
          (b1, ctx) = ctx_read_u8 ctx;
          (b2, ctx) = ctx_read_u8 ctx;
          (b3, ctx) = ctx_read_u8 ctx
      in (of_le32 b0 b1 b2 b3, ctx))"

text \<open>The bytes read, or \<open>None\<close> for \<^verbatim>\<open>false\<close>; a short read uses up the input.\<close>

definition ctx_read_bytes :: "read_ctx \<Rightarrow> nat \<Rightarrow> byte list option \<times> read_ctx" where
  "ctx_read_bytes ctx n =
     (if rd_error ctx then (None, ctx)
      else if n > 0 \<and> length (rd_in ctx) < n then (None, \<lparr>rd_in = [], rd_error = True\<rparr>)
      else (Some (take n (rd_in ctx)), ctx\<lparr>rd_in := drop n (rd_in ctx)\<rparr>))"

subsection \<open>Reading\<close>

text \<open>A step of the reader: aborted, refused (\<^verbatim>\<open>NULL\<close>), or the new context and image.\<close>

type_synonym read_step = "(read_ctx \<times> image) option option"

fun read_consts :: "nat \<Rightarrow> read_ctx \<Rightarrow> image \<Rightarrow> read_step" where
  "read_consts 0 ctx img = Some (Some (ctx, img))"
| "read_consts (Suc n) ctx img =
     (if rd_error ctx then Some (Some (ctx, img))
      else
        (let (slen, ctx) = ctx_read_u32 ctx in
         if unat slen > OPSB_MAX_STRING_SIZE then Some None
         else
           (case ctx_read_bytes ctx (unat slen) of
              (None, ctx) \<Rightarrow> Some (Some (ctx, img))
            | (Some bs, ctx) \<Rightarrow>
                (case image_add_const img (takeWhile (\<lambda>c. c \<noteq> NUL) (string_of bs)) of
                   None \<Rightarrow> None
                 | Some (_, img) \<Rightarrow> read_consts n ctx img))))"

text \<open>The entries of a name table; a name index out of range gives the empty name.\<close>

fun read_entries :: "nat \<Rightarrow> read_ctx \<Rightarrow> string list \<Rightarrow> (string \<times> nat) list \<times> read_ctx" where
  "read_entries 0 ctx pool = ([], ctx)"
| "read_entries (Suc n) ctx pool =
     (if rd_error ctx then ([], ctx)
      else
        (let (name_idx, ctx) = ctx_read_u16 ctx;
             (offset, ctx) = ctx_read_u32 ctx in
         if rd_error ctx then ([], ctx)
         else
           (let name = (if unat name_idx < length pool then pool ! unat name_idx else []);
                (entries, ctx) = read_entries n ctx pool
            in ((name, unat offset) # entries, ctx))))"

record read_flags =
  has_const_pool :: bool
  has_bytecode :: bool
  has_func_table :: bool
  has_module_table :: bool

definition read_section ::
  "read_ctx \<Rightarrow> image \<Rightarrow> read_flags \<Rightarrow> byte \<Rightarrow> nat \<Rightarrow> (read_ctx \<times> image \<times> read_flags) option option" where
  "read_section ctx img flags sect_type sect_len =
     (if sect_type = SECT_CONST_POOL then
        (if has_const_pool flags then Some None
         else
           (let (count, ctx) = ctx_read_u16 ctx in
            case read_consts (unat count) ctx img of
              None \<Rightarrow> None
            | Some None \<Rightarrow> Some None
            | Some (Some (ctx, img)) \<Rightarrow> Some (Some (ctx, img, flags\<lparr>has_const_pool := True\<rparr>))))
      else if sect_type = SECT_BYTECODE then
        (if has_bytecode flags then Some None
         else
           (let (bs, ctx) = ctx_read_bytes ctx sect_len;
                code = (case bs of None \<Rightarrow> replicate sect_len 0 | Some bs \<Rightarrow> bs)
            in Some (Some (ctx, img\<lparr>im_code := code, im_code_cap := sect_len\<rparr>,
                           flags\<lparr>has_bytecode := True\<rparr>))))
      else if sect_type = SECT_FUNC_TABLE then
        (if \<not> has_const_pool flags then Some None
         else if has_func_table flags then Some None
         else
           (let (count, ctx) = ctx_read_u16 ctx;
                (entries, ctx) = read_entries (unat count) ctx (im_consts img)
            in Some (Some (ctx,
                 img\<lparr>im_funcs := map (\<lambda>(nm, off). \<lparr>fn_name = nm, fn_offset = off, fn_image = None\<rparr>) entries\<rparr>,
                 flags\<lparr>has_func_table := True\<rparr>))))
      else if sect_type = SECT_MODULE_TABLE then
        (if \<not> has_const_pool flags then Some None
         else if has_module_table flags then Some None
         else
           (let (count, ctx) = ctx_read_u16 ctx;
                (entries, ctx) = read_entries (unat count) ctx (im_consts img)
            in Some (Some (ctx,
                 img\<lparr>im_modules := map (\<lambda>(nm, off). \<lparr>md_name = nm, md_offset = off\<rparr>) entries\<rparr>,
                 flags\<lparr>has_module_table := True\<rparr>))))
      else Some (Some (snd (ctx_read_bytes ctx sect_len), img, flags)))"

fun read_sections :: "nat \<Rightarrow> read_ctx \<Rightarrow> image \<Rightarrow> read_flags \<Rightarrow> read_step" where
  "read_sections 0 ctx img flags = Some (Some (ctx, img))"
| "read_sections (Suc n) ctx img flags =
     (if rd_error ctx then Some (Some (ctx, img))
      else
        (let (sect_type, ctx) = ctx_read_u8 ctx;
             (sect_len, ctx) = ctx_read_u32 ctx in
         if rd_error ctx then Some (Some (ctx, img))
         else if unat sect_len > OPSB_MAX_SECTION_SIZE then Some None
         else
           (case read_section ctx img flags sect_type (unat sect_len) of
              None \<Rightarrow> None
            | Some None \<Rightarrow> Some None
            | Some (Some (ctx, img, flags)) \<Rightarrow> read_sections n ctx img flags)))"

definition image_read_opsb :: "byte list \<Rightarrow> image option option" where
  "image_read_opsb inp =
     (let ctx = \<lparr>rd_in = inp, rd_error = False\<rparr>;
          (magic, ctx) = ctx_read_bytes ctx 4 in
      if magic \<noteq> Some OPSB_MAGIC then Some None
      else
        (let (version, ctx) = ctx_read_u16 ctx in
         if rd_error ctx \<or> version \<noteq> OPSB_VERSION then Some None
         else
           (let (_, ctx) = ctx_read_u16 ctx;
                (section_count, ctx) = ctx_read_u32 ctx;
                (_, ctx) = ctx_read_u32 ctx in
            if rd_error ctx then Some None
            else if unat section_count > OPSB_MAX_SECTIONS then Some None
            else
              (case read_sections (unat section_count) ctx image_new
                      \<lparr>has_const_pool = False, has_bytecode = False,
                       has_func_table = False, has_module_table = False\<rparr> of
                 None \<Rightarrow> None
               | Some None \<Rightarrow> Some None
               | Some (Some (ctx, img)) \<Rightarrow> if rd_error ctx then Some None else Some (Some img)))))"

subsection \<open>The wire format of the numbers\<close>

definition good_ctx :: "byte list \<Rightarrow> read_ctx" where
  "good_ctx r = \<lparr>rd_in = r, rd_error = False\<rparr>"

lemma good_ctx_simps [simp]:
  "rd_in (good_ctx r) = r" "\<not> rd_error (good_ctx r)"
  by (simp_all add: good_ctx_def)

text \<open>What a pair of writer and reader promises: the reader undoes the writer and no more.\<close>

locale codec =
  fixes put :: "'a \<Rightarrow> byte list"
    and get :: "read_ctx \<Rightarrow> 'a \<times> read_ctx"
  assumes get_put: "get (good_ctx (put v @ r)) = (v, good_ctx r)"
begin

text \<open>A prefix is read back on its own, and two writings with the same bytes are the same value.\<close>

lemma put_inj: "put v @ r = put w @ r' \<Longrightarrow> v = w \<and> r = r'"
  using get_put [of v r] get_put [of w r'] by (simp add: good_ctx_def)

lemma get_put_last: "get (good_ctx (put v)) = (v, good_ctx [])"
  using get_put [of v "[]"] by simp

end

text \<open>Two values in sequence.\<close>

locale codec_pair = fst: codec put1 get1 + snd: codec put2 get2
  for put1 :: "'a \<Rightarrow> byte list" and get1 and put2 :: "'b \<Rightarrow> byte list" and get2
begin

lemma get_pair:
  "(let (v, ctx) = get1 (good_ctx (put1 v @ put2 w @ r)); (w, ctx) = get2 ctx in (v, w, ctx)) =
   (v, w, good_ctx r)"
  by (simp add: fst.get_put snd.get_put)

end

lemma read_u8_byte: "ctx_read_u8 (good_ctx (b # r)) = (b, good_ctx r)"
  by (simp add: ctx_read_u8_def good_ctx_def)

interpretation u8: codec "\<lambda>b. [b]" ctx_read_u8
  by unfold_locales (simp add: read_u8_byte)

interpretation u16: codec le16 ctx_read_u16
  by unfold_locales (simp add: le16_def ctx_read_u16_def read_u8_byte)

interpretation u32: codec le32 ctx_read_u32
  by unfold_locales (simp add: le32_def ctx_read_u32_def read_u8_byte)

interpretation entry: codec_pair le16 ctx_read_u16 le32 ctx_read_u32
  by unfold_locales

lemma read_bytes_back: "n = length bs \<Longrightarrow> ctx_read_bytes (good_ctx (bs @ r)) n = (Some bs, good_ctx r)"
  by (simp add: ctx_read_bytes_def good_ctx_def)

lemma string_of_bytes_of [simp]: "string_of (bytes_of s) = s"
  by (simp add: string_of_def bytes_of_def o_def)

lemma length_bytes_of [simp]: "length (bytes_of s) = length s"
  by (simp add: bytes_of_def)

subsection \<open>Sections\<close>

definition const_bytes :: "string \<Rightarrow> byte list" where
  "const_bytes c = le32 (of_nat (length c)) @ bytes_of c"

lemma write_consts_bytes: "foldl write_const f cs = f @ concat (map const_bytes cs)"
  by (induction cs arbitrary: f) (simp_all add: write_const_def const_bytes_def write_u32_def)

lemma unat_of_nat32: "n < 2 ^ 32 \<Longrightarrow> unat (of_nat n :: u32) = n"
  by (simp add: unat_of_nat take_bit_eq_mod)

lemma unat_of_nat16: "n < 2 ^ 16 \<Longrightarrow> unat (of_nat n :: u16) = n"
  by (simp add: unat_of_nat take_bit_eq_mod)

definition const_ok :: "string \<Rightarrow> bool" where
  "const_ok c \<longleftrightarrow> cstr c \<and> length c \<le> OPSB_MAX_STRING_SIZE"

lemma add_const_new:
  assumes "image_inv img" "c \<notin> set (im_consts img)" "length (im_consts img) < VM_CONST_POOL_MAX"
  obtains i img' where "image_add_const img c = Some (i, img')" "image_inv img'"
    "im_consts img' = im_consts img @ [c]" "im_code img' = im_code img"
    "im_funcs img' = im_funcs img" "im_modules img' = im_modules img"
proof -
  have none: "const_index (im_consts img) c = None"
    using assms(2) by (simp add: const_index_None)
  then obtain img' where img': "image_add_const img c = Some (of_nat (length (im_consts img)), img')"
    using assms(3) by (auto simp: image_add_const_def Let_def)
  moreover have "im_consts img' = im_consts img @ [c]"
    using img' none assms(3) by (auto simp: image_add_const_def Let_def)
  ultimately show ?thesis
    using that image_add_const_correct [OF assms(1) img'] by blast
qed

lemma read_consts_back:
  "image_inv img \<Longrightarrow> distinct (im_consts img @ cs) \<Longrightarrow> \<forall>c \<in> set cs. const_ok c \<Longrightarrow>
   length (im_consts img @ cs) \<le> VM_CONST_POOL_MAX \<Longrightarrow>
   \<exists>img'. read_consts (length cs) (good_ctx (concat (map const_bytes cs) @ r)) img =
            Some (Some (good_ctx r, img')) \<and> image_inv img' \<and>
          im_consts img' = im_consts img @ cs \<and> im_code img' = im_code img \<and>
          im_funcs img' = im_funcs img \<and> im_modules img' = im_modules img"
proof (induction cs arbitrary: img)
  case Nil
  then show ?case by simp
next
  case (Cons c cs)
  have ok: "cstr c" "length c \<le> OPSB_MAX_STRING_SIZE"
    using Cons.prems(3) by (simp_all add: const_ok_def)
  have tw: "takeWhile (\<lambda>c. c \<noteq> NUL) c = c"
    using ok(1) by (auto simp: cstr_def takeWhile_eq_all_conv)
  have len: "unat (of_nat (length c) :: u32) = length c"
    using ok(2) by (intro unat_of_nat32) (simp add: OPSB_MAX_STRING_SIZE_def)
  obtain i img1 where img1: "image_add_const img c = Some (i, img1)" "image_inv img1"
    "im_consts img1 = im_consts img @ [c]" "im_code img1 = im_code img"
    "im_funcs img1 = im_funcs img" "im_modules img1 = im_modules img"
    using add_const_new [of img c] Cons.prems by auto
  have "\<exists>img'. read_consts (length cs) (good_ctx (concat (map const_bytes cs) @ r)) img1 =
            Some (Some (good_ctx r, img')) \<and> image_inv img' \<and>
          im_consts img' = im_consts img1 @ cs \<and> im_code img' = im_code img1 \<and>
          im_funcs img' = im_funcs img1 \<and> im_modules img' = im_modules img1"
    by (rule Cons.IH) (use Cons.prems img1 in auto)
  then show ?case
    using ok(2) img1
    by (simp add: const_bytes_def [of c] u32.get_put read_bytes_back len tw del: takeWhile_eq_all_conv)
qed

definition entry_bytes :: "string list \<Rightarrow> string \<times> nat \<Rightarrow> byte list" where
  "entry_bytes pool entry =
     le16 (of_nat (the (const_index pool (fst entry)))) @ le32 (of_nat (snd entry))"

definition entries_ok :: "string list \<Rightarrow> (string \<times> nat) list \<Rightarrow> bool" where
  "entries_ok pool es \<longleftrightarrow>
     length es \<le> 65535 \<and> (\<forall>e \<in> set es. fst e \<in> set pool \<and> snd e < 2 ^ 32)"

lemma write_entries_bytes:
  "\<forall>e \<in> set es. fst e \<in> set (im_consts img) \<Longrightarrow>
   foldM (write_entry img) f es = Some (f @ concat (map (entry_bytes (im_consts img)) es))"
proof (induction es arbitrary: f)
  case Nil
  then show ?case by simp
next
  case (Cons e es)
  then obtain i where "const_index (im_consts img) (fst e) = Some i"
    using const_index_None [of "im_consts img" "fst e"] by (cases "const_index (im_consts img) (fst e)") auto
  with Cons show ?case
    by (simp add: write_entry_def find_const_def entry_bytes_def write_u16_def write_u32_def)
qed

lemma read_entries_back:
  "\<forall>e \<in> set es. fst e \<in> set pool \<and> snd e < 2 ^ 32 \<Longrightarrow> length pool \<le> VM_CONST_POOL_MAX \<Longrightarrow>
   read_entries (length es) (good_ctx (concat (map (entry_bytes pool) es) @ r)) pool =
     (es, good_ctx r)"
proof (induction es)
  case Nil
  then show ?case by simp
next
  case (Cons e es)
  then obtain i where i: "const_index pool (fst e) = Some i" "i < length pool" "pool ! i = fst e"
    using const_index_None [of pool "fst e"] const_index_Some [of pool "fst e"]
    by (cases "const_index pool (fst e)") auto
  have "unat (of_nat i :: u16) = i" "unat (of_nat (snd e) :: u32) = snd e"
    using i(2) Cons.prems by (simp_all add: unat_of_nat16 unat_of_nat32 VM_CONST_POOL_MAX_def)
  with i Cons show ?case
    by (simp add: entry_bytes_def [of _ e] u16.get_put u32.get_put)
qed

lemma const_pool_size_eq:
  "const_pool_size img = of_nat (2 + sum_list (map (\<lambda>c. 4 + length c) (im_consts img)))"
proof -
  have "foldl (\<lambda>sz c. sz + (4 + of_nat (length c))) x cs =
      (x + of_nat (sum_list (map (\<lambda>c. 4 + length c) cs)) :: u32)" for x and cs :: "string list"
    by (induction cs arbitrary: x) (simp_all add: algebra_simps)
  then show ?thesis
    by (simp add: const_pool_size_def)
qed

text \<open>
  The images the format can hold: within the reader's limits, and with the name of every function and
  module in the constant pool. The compiler puts a module's name there, for the import that runs it, but
  a function's only when a word of the script is the same text, which a call is.
\<close>

definition opsb_ok :: "image \<Rightarrow> bool" where
  "opsb_ok img \<longleftrightarrow>
     image_inv img \<and> (\<forall>c \<in> set (im_consts img). const_ok c) \<and>
     2 + sum_list (map (\<lambda>c. 4 + length c) (im_consts img)) \<le> OPSB_MAX_SECTION_SIZE \<and>
     length (im_code img) \<le> OPSB_MAX_SECTION_SIZE \<and>
     entries_ok (im_consts img) (map func_entry (im_funcs img)) \<and>
     entries_ok (im_consts img) (map module_entry (im_modules img)) \<and>
     (\<forall>fn \<in> set (im_funcs img). fn_image fn = None)"

definition section_bytes :: "byte \<Rightarrow> u32 \<Rightarrow> byte list \<Rightarrow> byte list" where
  "section_bytes t sz body = [t] @ le32 sz @ body"

lemma read_sections_step:
  assumes "unat sz \<le> OPSB_MAX_SECTION_SIZE"
    and "read_section (good_ctx (body @ r)) img flags t (unat sz) = Some (Some (good_ctx r, img', flags'))"
  shows "read_sections (Suc n) (good_ctx (section_bytes t sz body @ r)) img flags =
     read_sections n (good_ctx r) img' flags'"
  using assms by (simp add: section_bytes_def read_u8_byte u32.get_put)

definition table_bytes :: "byte \<Rightarrow> u32 \<Rightarrow> string list \<Rightarrow> (string \<times> nat) list \<Rightarrow> byte list" where
  "table_bytes t sz pool es =
     (if es = [] then []
      else section_bytes t sz (le16 (of_nat (length es)) @ concat (map (entry_bytes pool) es)))"

lemma image_write_bytes:
  assumes ok: "opsb_ok img"
  shows "image_write_opsb img = Some (OPSB_MAGIC @ le16 OPSB_VERSION @ le16 0 @
     le32 (2 + (if im_funcs img \<noteq> [] then 1 else 0) + (if im_modules img \<noteq> [] then 1 else 0)) @ le32 0 @
     section_bytes SECT_CONST_POOL (const_pool_size img)
       (le16 (of_nat (length (im_consts img))) @ concat (map const_bytes (im_consts img))) @
     section_bytes SECT_BYTECODE (of_nat (length (im_code img))) (im_code img) @
     table_bytes SECT_FUNC_TABLE (func_table_size img) (im_consts img) (map func_entry (im_funcs img)) @
     table_bytes SECT_MODULE_TABLE (module_table_size img) (im_consts img)
       (map module_entry (im_modules img)))"
proof -
  have "\<forall>e \<in> set (map func_entry (im_funcs img)). fst e \<in> set (im_consts img)"
    "\<forall>e \<in> set (map module_entry (im_modules img)). fst e \<in> set (im_consts img)"
    using ok by (auto simp: opsb_ok_def entries_ok_def)
  note entries = this [THEN write_entries_bytes]
  show ?thesis
    by (cases "im_funcs img = []"; cases "im_modules img = []";
        simp add: image_write_opsb_def Let_def write_func_table_def write_module_table_def entries
          write_consts_bytes section_bytes_def table_bytes_def write_u8_def write_u16_def write_u32_def)
qed

lemma table_size_small:
  "length es \<le> 65535 \<Longrightarrow> unat (2 + of_nat (length es) * 6 :: u32) \<le> OPSB_MAX_SECTION_SIZE"
proof -
  assume len: "length es \<le> 65535"
  have "(2 + of_nat (length es) * 6 :: u32) = of_nat (2 + length es * 6)"
    by simp
  also have "unat \<dots> = 2 + length es * 6"
    using len by (intro unat_of_nat32) simp
  finally show ?thesis
    using len by (simp add: OPSB_MAX_SECTION_SIZE_def)
qed

lemma read_func_section:
  assumes "entries_ok pool es" "im_consts img = pool" "length pool \<le> VM_CONST_POOL_MAX"
    and "has_const_pool flags" "\<not> has_func_table flags"
  shows "read_section (good_ctx ((le16 (of_nat (length es)) @ concat (map (entry_bytes pool) es)) @ r))
           img flags SECT_FUNC_TABLE n =
     Some (Some (good_ctx r,
       img\<lparr>im_funcs := map (\<lambda>(nm, off). \<lparr>fn_name = nm, fn_offset = off, fn_image = None\<rparr>) es\<rparr>,
       flags\<lparr>has_func_table := True\<rparr>))"
proof -
  have "unat (of_nat (length es) :: u16) = length es"
    using assms(1) by (intro unat_of_nat16) (simp add: entries_ok_def)
  then show ?thesis
    using assms read_entries_back [of es pool r]
    by (simp add: read_section_def SECT_FUNC_TABLE_def SECT_CONST_POOL_def SECT_BYTECODE_def
        u16.get_put entries_ok_def)
qed

lemma read_module_section:
  assumes "entries_ok pool es" "im_consts img = pool" "length pool \<le> VM_CONST_POOL_MAX"
    and "has_const_pool flags" "\<not> has_module_table flags"
  shows "read_section (good_ctx ((le16 (of_nat (length es)) @ concat (map (entry_bytes pool) es)) @ r))
           img flags SECT_MODULE_TABLE n =
     Some (Some (good_ctx r,
       img\<lparr>im_modules := map (\<lambda>(nm, off). \<lparr>md_name = nm, md_offset = off\<rparr>) es\<rparr>,
       flags\<lparr>has_module_table := True\<rparr>))"
proof -
  have "unat (of_nat (length es) :: u16) = length es"
    using assms(1) by (intro unat_of_nat16) (simp add: entries_ok_def)
  then show ?thesis
    using assms read_entries_back [of es pool r]
    by (simp add: read_section_def SECT_FUNC_TABLE_def SECT_CONST_POOL_def SECT_BYTECODE_def
        SECT_MODULE_TABLE_def u16.get_put entries_ok_def)
qed

definition funcs_of :: "(string \<times> nat) list \<Rightarrow> vm_func list" where
  "funcs_of es = map (\<lambda>(nm, off). \<lparr>fn_name = nm, fn_offset = off, fn_image = None\<rparr>) es"

definition modules_of :: "(string \<times> nat) list \<Rightarrow> vm_module list" where
  "modules_of es = map (\<lambda>(nm, off). \<lparr>md_name = nm, md_offset = off\<rparr>) es"

lemma read_func_table:
  assumes es: "entries_ok pool es" and img: "im_consts img = pool" "length pool \<le> VM_CONST_POOL_MAX"
    "im_funcs img = []" and flags: "has_const_pool flags" "\<not> has_func_table flags"
  obtains flags' where "has_const_pool flags'" "has_module_table flags' = has_module_table flags"
    "read_sections ((if es \<noteq> [] then 1 else 0) + n)
       (good_ctx (table_bytes SECT_FUNC_TABLE (2 + of_nat (length es) * 6) pool es @ r)) img flags =
     read_sections n (good_ctx r) (img\<lparr>im_funcs := funcs_of es\<rparr>) flags'"
proof (cases "es = []")
  case True
  have "img\<lparr>im_funcs := []\<rparr> = img"
    using img(3) by simp
  with True flags that [of flags] show ?thesis
    by (simp add: table_bytes_def funcs_of_def)
next
  case False
  have sz: "unat (2 + of_nat (length es) * 6 :: u32) \<le> OPSB_MAX_SECTION_SIZE"
    using es by (simp add: entries_ok_def table_size_small)
  have "read_sections (Suc n) (good_ctx (section_bytes SECT_FUNC_TABLE (2 + of_nat (length es) * 6)
      (le16 (of_nat (length es)) @ concat (map (entry_bytes pool) es)) @ r)) img flags =
      read_sections n (good_ctx r) (img\<lparr>im_funcs := funcs_of es\<rparr>) (flags\<lparr>has_func_table := True\<rparr>)"
    unfolding funcs_of_def
    by (rule read_sections_step [OF sz read_func_section [OF es img(1,2) flags]])
  with False flags that [of "flags\<lparr>has_func_table := True\<rparr>"] show ?thesis
    by (simp add: table_bytes_def)
qed

lemma read_module_table:
  assumes es: "entries_ok pool es" and img: "im_consts img = pool" "length pool \<le> VM_CONST_POOL_MAX"
    "im_modules img = []" and flags: "has_const_pool flags" "\<not> has_module_table flags"
  shows "read_sections (if es \<noteq> [] then 1 else 0)
       (good_ctx (table_bytes SECT_MODULE_TABLE (2 + of_nat (length es) * 6) pool es @ r)) img flags =
     Some (Some (good_ctx r, img\<lparr>im_modules := modules_of es\<rparr>))"
proof (cases "es = []")
  case True
  have "img\<lparr>im_modules := []\<rparr> = img"
    using img(3) by simp
  with True show ?thesis
    by (simp add: table_bytes_def modules_of_def)
next
  case False
  have sz: "unat (2 + of_nat (length es) * 6 :: u32) \<le> OPSB_MAX_SECTION_SIZE"
    using es by (simp add: entries_ok_def table_size_small)
  have "read_sections (Suc 0) (good_ctx (section_bytes SECT_MODULE_TABLE (2 + of_nat (length es) * 6)
      (le16 (of_nat (length es)) @ concat (map (entry_bytes pool) es)) @ r)) img flags =
      read_sections 0 (good_ctx r) (img\<lparr>im_modules := modules_of es\<rparr>) (flags\<lparr>has_module_table := True\<rparr>)"
    unfolding modules_of_def
    by (rule read_sections_step [OF sz read_module_section [OF es img(1,2) flags]])
  with False show ?thesis
    by (simp add: table_bytes_def)
qed

lemma read_tables:
  assumes fs: "entries_ok pool fs" and ms: "entries_ok pool ms"
    and img: "im_consts img = pool" "length pool \<le> VM_CONST_POOL_MAX"
      "im_funcs img = []" "im_modules img = []"
    and flags: "has_const_pool flags" "\<not> has_func_table flags" "\<not> has_module_table flags"
  shows "read_sections ((if fs \<noteq> [] then 1 else 0) + (if ms \<noteq> [] then 1 else 0))
     (good_ctx (table_bytes SECT_FUNC_TABLE (2 + of_nat (length fs) * 6) pool fs @
                table_bytes SECT_MODULE_TABLE (2 + of_nat (length ms) * 6) pool ms @ r)) img flags =
     Some (Some (good_ctx r, img\<lparr>im_funcs := funcs_of fs, im_modules := modules_of ms\<rparr>))"
proof (rule read_func_table [OF fs img(1-3) flags(1,2)])
  fix flags'
  assume "has_const_pool flags'" "has_module_table flags' = has_module_table flags"
    and step: "read_sections ((if fs \<noteq> [] then 1 else 0) + (if ms \<noteq> [] then 1 else 0))
       (good_ctx (table_bytes SECT_FUNC_TABLE (2 + of_nat (length fs) * 6) pool fs @
          table_bytes SECT_MODULE_TABLE (2 + of_nat (length ms) * 6) pool ms @ r)) img flags =
     read_sections (if ms \<noteq> [] then 1 else 0)
       (good_ctx (table_bytes SECT_MODULE_TABLE (2 + of_nat (length ms) * 6) pool ms @ r))
       (img\<lparr>im_funcs := funcs_of fs\<rparr>) flags'"
  with flags(3) show ?thesis
    unfolding step by (subst read_module_table [OF ms]) (use img in simp_all)
qed

text \<open>A reader stops at the end of the image, whatever follows it.\<close>

lemma image_read_back:
  assumes ok: "opsb_ok img"
  shows "\<exists>f img'. image_write_opsb img = Some f \<and> image_read_opsb (f @ r) = Some (Some img') \<and>
     im_consts img' = im_consts img \<and> im_code img' = im_code img \<and>
     im_funcs img' = im_funcs img \<and> im_modules img' = im_modules img"
proof -
  let ?fs = "map func_entry (im_funcs img)" and ?ms = "map module_entry (im_modules img)"
  let ?pool = "im_consts img"
  have inv: "image_inv img" and pool: "distinct ?pool" "length ?pool \<le> VM_CONST_POOL_MAX"
    using ok by (simp_all add: opsb_ok_def image_inv_def)
  have cnt: "unat (of_nat (length ?pool) :: u16) = length ?pool"
    using pool by (intro unat_of_nat16) (simp add: VM_CONST_POOL_MAX_def)
  have total: "2 + sum_list (map (\<lambda>c. 4 + length c) ?pool) \<le> OPSB_MAX_SECTION_SIZE"
    using ok by (simp add: opsb_ok_def)
  have csize: "unat (const_pool_size img) \<le> OPSB_MAX_SECTION_SIZE"
    unfolding const_pool_size_eq using total
    by (subst unat_of_nat32) (simp_all add: OPSB_MAX_SECTION_SIZE_def)
  have code: "unat (of_nat (length (im_code img)) :: u32) = length (im_code img)"
    "length (im_code img) \<le> OPSB_MAX_SECTION_SIZE"
    using ok by (auto simp: opsb_ok_def OPSB_MAX_SECTION_SIZE_def intro!: unat_of_nat32)
  let ?f0 = "\<lparr>has_const_pool = False, has_bytecode = False, has_func_table = False, has_module_table = False\<rparr>"
  let ?rest = "table_bytes SECT_FUNC_TABLE (func_table_size img) ?pool ?fs @
    table_bytes SECT_MODULE_TABLE (module_table_size img) ?pool ?ms @ r"
  let ?s2 = "section_bytes SECT_BYTECODE (of_nat (length (im_code img))) (im_code img) @ ?rest"
  let ?n = "(if ?fs \<noteq> [] then 1 else 0) + (if ?ms \<noteq> [] then 1 else (0 :: nat))"
  obtain img1 where img1: "read_consts (length ?pool) (good_ctx (concat (map const_bytes ?pool) @ ?s2)) image_new =
      Some (Some (good_ctx ?s2, img1))" "im_consts img1 = ?pool" "im_funcs img1 = []" "im_modules img1 = []"
    using read_consts_back [OF image_new_inv, of ?pool ?s2] ok pool
    by (auto simp: image_new_def opsb_ok_def)
  let ?img2 = "img1\<lparr>im_code := im_code img, im_code_cap := length (im_code img)\<rparr>"
  let ?img3 = "?img2\<lparr>im_funcs := funcs_of ?fs, im_modules := modules_of ?ms\<rparr>"
  have sect1: "read_section (good_ctx ((le16 (of_nat (length ?pool)) @ concat (map const_bytes ?pool)) @ ?s2))
      image_new ?f0 SECT_CONST_POOL k = Some (Some (good_ctx ?s2, img1, ?f0\<lparr>has_const_pool := True\<rparr>))" for k
    by (simp add: read_section_def u16.get_put cnt img1(1))
  have sect2: "read_section (good_ctx (im_code img @ ?rest)) img1 (?f0\<lparr>has_const_pool := True\<rparr>) SECT_BYTECODE
      (unat (of_nat (length (im_code img)) :: u32)) =
      Some (Some (good_ctx ?rest, ?img2, ?f0\<lparr>has_const_pool := True, has_bytecode := True\<rparr>))"
    by (simp add: read_section_def read_bytes_back code SECT_BYTECODE_def SECT_CONST_POOL_def)
  have tables: "read_sections ?n (good_ctx ?rest) ?img2 (?f0\<lparr>has_const_pool := True, has_bytecode := True\<rparr>) =
      Some (Some (good_ctx r, ?img3))"
    using read_tables [of ?pool ?fs ?ms ?img2 "?f0\<lparr>has_const_pool := True, has_bytecode := True\<rparr>"]
      ok pool img1 by (simp add: opsb_ok_def func_table_size_def module_table_size_def)
  have code32: "unat (of_nat (length (im_code img)) :: u32) \<le> OPSB_MAX_SECTION_SIZE"
    using code by simp
  have body: "read_sections (Suc (Suc ?n)) (good_ctx (section_bytes SECT_CONST_POOL (const_pool_size img)
       (le16 (of_nat (length ?pool)) @ concat (map const_bytes ?pool)) @ ?s2)) image_new ?f0 =
      Some (Some (good_ctx r, ?img3))"
    unfolding read_sections_step [OF csize sect1] read_sections_step [OF code32 sect2] by (rule tables)
  have funcs: "funcs_of ?fs = im_funcs img"
    using ok by (auto simp: opsb_ok_def func_entry_def funcs_of_def intro!: map_idI)
  have mods: "modules_of ?ms = im_modules img"
    by (auto simp: module_entry_def modules_of_def intro!: map_idI)
  have secs: "unat (2 + (if im_funcs img \<noteq> [] then 1 else 0) + (if im_modules img \<noteq> [] then 1 else 0) :: u32)
      = Suc (Suc ?n)"
    by simp
  have magic: "ctx_read_bytes \<lparr>rd_in = OPSB_MAGIC @ t, rd_error = False\<rparr> 4 = (Some OPSB_MAGIC, good_ctx t)" for t
    using read_bytes_back [of 4 OPSB_MAGIC t] by (simp add: good_ctx_def OPSB_MAGIC_def)
  have "image_read_opsb (the (image_write_opsb img) @ r) = Some (Some ?img3)"
    unfolding image_write_bytes [OF ok] option.sel image_read_opsb_def Let_def
    using body secs
    by (simp add: magic u16.get_put u32.get_put OPSB_MAX_SECTIONS_def)
  then show ?thesis
    using image_write_bytes [OF ok] img1(2) funcs mods by simp
qed

text \<open>The limits alone, and the names.\<close>

definition opsb_sized :: "image \<Rightarrow> bool" where
  "opsb_sized img \<longleftrightarrow>
     image_inv img \<and> (\<forall>c \<in> set (im_consts img). const_ok c) \<and>
     2 + sum_list (map (\<lambda>c. 4 + length c) (im_consts img)) \<le> OPSB_MAX_SECTION_SIZE \<and>
     length (im_code img) \<le> OPSB_MAX_SECTION_SIZE \<and>
     length (im_funcs img) \<le> 65535 \<and> length (im_modules img) \<le> 65535 \<and>
     (\<forall>fn \<in> set (im_funcs img). fn_offset fn < 2 ^ 32 \<and> fn_image fn = None) \<and>
     (\<forall>md \<in> set (im_modules img). md_offset md < 2 ^ 32)"

definition names_pooled :: "image \<Rightarrow> bool" where
  "names_pooled img \<longleftrightarrow>
     fn_name ` set (im_funcs img) \<union> md_name ` set (im_modules img) \<subseteq> set (im_consts img)"

lemma opsb_ok_parts: "opsb_sized img \<Longrightarrow> names_pooled img \<Longrightarrow> opsb_ok img"
  by (auto simp: opsb_sized_def names_pooled_def opsb_ok_def entries_ok_def func_entry_def module_entry_def)

lemma write_entries_fail:
  "e \<in> set es \<Longrightarrow> fst e \<notin> set (im_consts img) \<Longrightarrow> foldM (write_entry img) f es = None"
proof (induction es arbitrary: f)
  case (Cons x es)
  then show ?case
    by (cases "write_entry img f x") (auto simp: write_entry_def find_const_def const_index_None [symmetric] split: option.splits)
qed simp

lemma image_write_fails:
  assumes "\<not> names_pooled img"
  shows "image_write_opsb img = None"
proof -
  have none: "Option.bind m (\<lambda>f. None) = None" for m :: "byte list option"
    by (cases m) simp_all
  from assms consider fn where "fn \<in> set (im_funcs img)" "fn_name fn \<notin> set (im_consts img)"
    | md where "md \<in> set (im_modules img)" "md_name md \<notin> set (im_consts img)"
    by (auto simp: names_pooled_def)
  then show ?thesis
  proof cases
    case 1
    then have "func_entry fn \<in> set (map func_entry (im_funcs img))" "fst (func_entry fn) \<notin> set (im_consts img)"
      by (simp_all add: func_entry_def)
    from write_entries_fail [OF this] have "write_func_table img f = None" for f
      using 1(1) by (auto simp: write_func_table_def Let_def)
    then show ?thesis
      by (simp add: image_write_opsb_def Let_def)
  next
    case 2
    then have "module_entry md \<in> set (map module_entry (im_modules img))" "fst (module_entry md) \<notin> set (im_consts img)"
      by (simp_all add: module_entry_def)
    from write_entries_fail [OF this] have "write_module_table img f = None" for f
      using 2(1) by (auto simp: write_module_table_def Let_def)
    then show ?thesis
      by (simp add: image_write_opsb_def Let_def none)
  qed
qed

text \<open>
  C13. An image within the limits of the format survives its file: when the name of every function and
  module is in the constant pool, writing succeeds and reading the file gives the same constants, code,
  functions and modules. When a name is missing, which is so for a function that the script never
  calls, writing fails.
\<close>

theorem image_roundtrip:
  assumes "opsb_sized img"
  shows "if names_pooled img
     then \<exists>f img'. image_write_opsb img = Some f \<and> image_read_opsb f = Some (Some img') \<and>
       im_consts img' = im_consts img \<and> im_code img' = im_code img \<and>
       im_funcs img' = im_funcs img \<and> im_modules img' = im_modules img
     else image_write_opsb img = None"
  using image_read_back [OF opsb_ok_parts [OF assms], of "[]"] image_write_fails by simp

text \<open>A function that is called, and one that is not.\<close>

lemma image_roundtrip_witness:
  "(\<exists>f img'. image_write_opsb (image_new\<lparr>im_consts := [''f'', ''echo''], im_const_cap := 16, im_code := [0x34],
       im_code_cap := 64, im_funcs := [\<lparr>fn_name = ''f'', fn_offset = 0, fn_image = None\<rparr>]\<rparr>) = Some f \<and>
     image_read_opsb f = Some (Some img') \<and> im_code img' = [0x34] \<and>
     im_funcs img' = [\<lparr>fn_name = ''f'', fn_offset = 0, fn_image = None\<rparr>]) \<and>
   image_write_opsb (image_new\<lparr>im_consts := [''echo''], im_const_cap := 16, im_code := [0x34],
       im_code_cap := 64, im_funcs := [\<lparr>fn_name = ''f'', fn_offset = 0, fn_image = None\<rparr>]\<rparr>) = None"
proof -
  let ?img = "\<lambda>consts. image_new\<lparr>im_consts := consts, im_const_cap := 16, im_code := [0x34],
    im_code_cap := 64, im_funcs := [\<lparr>fn_name = ''f'', fn_offset = 0, fn_image = None\<rparr>]\<rparr>"
  have "opsb_sized (?img [''f'', ''echo''])" "opsb_sized (?img [''echo''])"
    by (simp_all add: opsb_sized_def image_inv_def image_new_def const_ok_def cstr_def NUL_def
        VM_CONST_POOL_MAX_def SIZE_MAX_def OPSB_MAX_SECTION_SIZE_def OPSB_MAX_STRING_SIZE_def)
  from this [THEN image_roundtrip] show ?thesis
    by (auto simp: names_pooled_def image_new_def)
qed

end
