(* ===== verification/Bytecode.thy ===== *)
theory Bytecode
  imports Image
begin

text \<open>
  The instruction set of \<^verbatim>\<open>src/compiler/bytecode.h\<close> and its disassembler, \<^verbatim>\<open>src/vm/disasm.c\<close>. The opcodes are
  a datatype with the byte of each; \<open>opcode_of\<close> reads a byte as the cast to \<^verbatim>\<open>opcode_t\<close> and the switch
  on it do, with \<open>None\<close> for the default branch. What is printed is the text returned.
\<close>

subsection \<open>Opcodes\<close>

datatype (plugins only: code size) opcode =
  OP_PUSH_CONST | OP_PUSH_INT | OP_POP | OP_DUP | OP_GET_VAR | OP_SET_VAR | OP_GET_LOCAL
  | OP_SET_LOCAL | OP_GET_ARRAY | OP_SET_ARRAY | OP_SET_ARRAY_BULK | OP_EXPORT
  | OP_PUSH_SCOPE | OP_POP_SCOPE | OP_GET_SPECIAL | OP_CONCAT | OP_EXPAND_PARAM
  | OP_EXPAND_ARITH | OP_SPLIT_FIELDS | OP_GLOB | OP_QUOTE_REMOVE | OP_EXPAND_TILDE
  | OP_COLLECT_WORDS | OP_EXPAND_ARGS | OP_JMP | OP_JMP_TRUE | OP_JMP_FALSE
  | OP_JMP_NONE | OP_RET | OP_LOOP_ENTER | OP_LOOP_EXIT | OP_BREAK | OP_CONTINUE
  | OP_GET_NEXT_ITER | OP_INIT_ITER | OP_EXEC_SIMPLE | OP_EXEC_BUILTIN | OP_EXEC_FUNC
  | OP_PIPELINE | OP_PIPELINE_CMD | OP_PIPELINE_END | OP_CMD_SUBST | OP_SUBSHELL
  | OP_BACKGROUND | OP_REDIR_SAVE | OP_REDIR_RESTORE | OP_REDIR_OPEN | OP_REDIR_DUP
  | OP_REDIR_CLOSE | OP_REDIR_HERE | OP_TEST_UNARY | OP_TEST_BINARY | OP_NEGATE_STATUS
  | OP_PATTERN_MATCH | OP_IMPORT | OP_CAP_CHECK | OP_ERREXIT_PUSH | OP_ERREXIT_POP
  | OP_STATUS_ZERO | OP_PUSH_STATUS | OP_POP_STATUS | OP_HALT

text \<open>The opcodes with their bytes, in the order of the header.\<close>

definition opcode_table :: "(opcode \<times> byte) list" where
  "opcode_table =
    [(OP_PUSH_CONST, 0x01), (OP_PUSH_INT, 0x02), (OP_POP, 0x03), (OP_DUP, 0x04),
     (OP_GET_VAR, 0x10), (OP_SET_VAR, 0x11), (OP_GET_LOCAL, 0x19),
     (OP_SET_LOCAL, 0x1A), (OP_GET_ARRAY, 0x12), (OP_SET_ARRAY, 0x13),
     (OP_SET_ARRAY_BULK, 0x14), (OP_EXPORT, 0x15), (OP_PUSH_SCOPE, 0x16),
     (OP_POP_SCOPE, 0x17), (OP_GET_SPECIAL, 0x18), (OP_CONCAT, 0x20),
     (OP_EXPAND_PARAM, 0x21), (OP_EXPAND_ARITH, 0x22), (OP_SPLIT_FIELDS, 0x23),
     (OP_GLOB, 0x24), (OP_QUOTE_REMOVE, 0x25), (OP_EXPAND_TILDE, 0x26),
     (OP_COLLECT_WORDS, 0x27), (OP_EXPAND_ARGS, 0x28), (OP_JMP, 0x30),
     (OP_JMP_TRUE, 0x31), (OP_JMP_FALSE, 0x32), (OP_JMP_NONE, 0x33), (OP_RET, 0x34),
     (OP_LOOP_ENTER, 0x35), (OP_LOOP_EXIT, 0x36), (OP_BREAK, 0x37),
     (OP_CONTINUE, 0x38), (OP_GET_NEXT_ITER, 0x39), (OP_INIT_ITER, 0x3A),
     (OP_EXEC_SIMPLE, 0x40), (OP_EXEC_BUILTIN, 0x41), (OP_EXEC_FUNC, 0x42),
     (OP_PIPELINE, 0x43), (OP_PIPELINE_CMD, 0x44), (OP_PIPELINE_END, 0x45),
     (OP_CMD_SUBST, 0x46), (OP_SUBSHELL, 0x47), (OP_BACKGROUND, 0x48),
     (OP_REDIR_SAVE, 0x50), (OP_REDIR_RESTORE, 0x51), (OP_REDIR_OPEN, 0x52),
     (OP_REDIR_DUP, 0x53), (OP_REDIR_CLOSE, 0x54), (OP_REDIR_HERE, 0x55),
     (OP_TEST_UNARY, 0x60), (OP_TEST_BINARY, 0x61), (OP_NEGATE_STATUS, 0x62),
     (OP_PATTERN_MATCH, 0x63), (OP_IMPORT, 0x70), (OP_CAP_CHECK, 0x71),
     (OP_ERREXIT_PUSH, 0x80), (OP_ERREXIT_POP, 0x81), (OP_STATUS_ZERO, 0x82),
     (OP_PUSH_STATUS, 0x83), (OP_POP_STATUS, 0x84), (OP_HALT, 0xFF)]"

definition opcode_byte :: "opcode \<Rightarrow> byte" where
  "opcode_byte opc = the (map_of opcode_table opc)"

definition opcode_of :: "byte \<Rightarrow> opcode option" where
  "opcode_of b = map_of (map (\<lambda>(opc, b). (b, opc)) opcode_table) b"

definition opcode_operand_size :: "opcode \<Rightarrow> nat" where
  "opcode_operand_size opc =
     (if opc \<in> {OP_PUSH_CONST, OP_GET_VAR, OP_SET_VAR, OP_GET_LOCAL, OP_SET_LOCAL, OP_GET_ARRAY,
                OP_SET_ARRAY, OP_EXPORT, OP_CONCAT, OP_EXEC_BUILTIN, OP_EXEC_FUNC,
                OP_PIPELINE, OP_IMPORT, OP_INIT_ITER, OP_REDIR_OPEN, OP_REDIR_DUP,
                OP_REDIR_HERE} then 2
      else if opc \<in> {OP_SET_ARRAY_BULK, OP_EXPAND_PARAM, OP_PUSH_INT, OP_JMP, OP_JMP_TRUE, OP_JMP_FALSE,
                     OP_JMP_NONE, OP_PIPELINE_CMD, OP_CMD_SUBST, OP_SUBSHELL,
                     OP_BACKGROUND} then 4
      else if opc \<in> {OP_PUSH_SCOPE, OP_GET_SPECIAL, OP_EXEC_SIMPLE, OP_BREAK, OP_CONTINUE,
                     OP_PIPELINE_END, OP_CAP_CHECK, OP_REDIR_CLOSE, OP_TEST_UNARY,
                     OP_TEST_BINARY} then 1
      else 0)"

subsection \<open>Numbers of the test and special-parameter operands\<close>

definition TEST_F :: byte where "TEST_F = 0"
definition TEST_D :: byte where "TEST_D = 1"
definition TEST_E :: byte where "TEST_E = 2"
definition TEST_S :: byte where "TEST_S = 3"
definition TEST_R :: byte where "TEST_R = 4"
definition TEST_W :: byte where "TEST_W = 5"
definition TEST_X :: byte where "TEST_X = 6"
definition TEST_L :: byte where "TEST_L = 7"
definition TEST_P :: byte where "TEST_P = 8"
definition TEST_B :: byte where "TEST_B = 9"
definition TEST_C :: byte where "TEST_C = 10"
definition TEST_SS :: byte where "TEST_SS = 11"
definition TEST_G :: byte where "TEST_G = 12"
definition TEST_U :: byte where "TEST_U = 13"
definition TEST_K :: byte where "TEST_K = 14"
definition TEST_O :: byte where "TEST_O = 15"
definition TEST_GG :: byte where "TEST_GG = 16"
definition TEST_T :: byte where "TEST_T = 17"
definition TEST_NT :: byte where "TEST_NT = 18"
definition TEST_N :: byte where "TEST_N = 20"
definition TEST_Z :: byte where "TEST_Z = 21"
definition TEST_SEQ :: byte where "TEST_SEQ = 30"
definition TEST_SNE :: byte where "TEST_SNE = 31"
definition TEST_EQ :: byte where "TEST_EQ = 40"
definition TEST_NE :: byte where "TEST_NE = 41"
definition TEST_LT :: byte where "TEST_LT = 42"
definition TEST_LE :: byte where "TEST_LE = 43"
definition TEST_GT :: byte where "TEST_GT = 44"
definition TEST_GE :: byte where "TEST_GE = 45"
definition TEST_FNT :: byte where "TEST_FNT = 50"
definition TEST_FOT :: byte where "TEST_FOT = 51"
definition TEST_FEF :: byte where "TEST_FEF = 52"
definition TEST_REGEX :: byte where "TEST_REGEX = 60"
definition SPECIAL_QUESTION :: byte where "SPECIAL_QUESTION = 0"
definition SPECIAL_HASH :: byte where "SPECIAL_HASH = 1"
definition SPECIAL_AT :: byte where "SPECIAL_AT = 2"
definition SPECIAL_STAR :: byte where "SPECIAL_STAR = 3"
definition SPECIAL_DOLLAR :: byte where "SPECIAL_DOLLAR = 4"
definition SPECIAL_BANG :: byte where "SPECIAL_BANG = 5"
definition SPECIAL_DASH :: byte where "SPECIAL_DASH = 6"
definition SPECIAL_ZERO :: byte where "SPECIAL_ZERO = 7"

lemmas test_op_defs =
  TEST_F_def TEST_D_def TEST_E_def TEST_S_def TEST_R_def TEST_W_def TEST_X_def
  TEST_L_def TEST_P_def TEST_B_def TEST_C_def TEST_SS_def TEST_G_def TEST_U_def
  TEST_K_def TEST_O_def TEST_GG_def TEST_T_def TEST_NT_def TEST_N_def TEST_Z_def
  TEST_SEQ_def TEST_SNE_def TEST_EQ_def TEST_NE_def TEST_LT_def TEST_LE_def
  TEST_GT_def TEST_GE_def TEST_FNT_def TEST_FOT_def TEST_FEF_def TEST_REGEX_def

lemmas special_defs =
  SPECIAL_QUESTION_def SPECIAL_HASH_def SPECIAL_AT_def SPECIAL_STAR_def
  SPECIAL_DOLLAR_def SPECIAL_BANG_def SPECIAL_DASH_def SPECIAL_ZERO_def

subsection \<open>Disassembly\<close>

text \<open>\<^verbatim>\<open>%04zu\<close> and \<^verbatim>\<open>%-16s\<close>.\<close>

definition pad_zero :: "nat \<Rightarrow> string \<Rightarrow> string" where
  "pad_zero n s = replicate (n - length s) CHR ''0'' @ s"

definition pad_right :: "nat \<Rightarrow> string \<Rightarrow> string" where
  "pad_right n s = s @ replicate (n - length s) CHR '' ''"

definition peek_u8 :: "image \<Rightarrow> nat \<Rightarrow> byte" where
  "peek_u8 img offset = (if offset \<ge> length (im_code img) then 0 else im_code img ! offset)"

definition peek_u16 :: "image \<Rightarrow> nat \<Rightarrow> u16" where
  "peek_u16 img offset = of_le16 (peek_u8 img offset) (peek_u8 img (offset + 1))"

definition peek_i32 :: "image \<Rightarrow> nat \<Rightarrow> i32" where
  "peek_i32 img offset =
     of_le32 (peek_u8 img offset) (peek_u8 img (offset + 1)) (peek_u8 img (offset + 2)) (peek_u8 img (offset + 3))"

primrec opcode_name :: "opcode \<Rightarrow> string" where
  "opcode_name OP_PUSH_CONST = ''PUSH_CONST''"
| "opcode_name OP_PUSH_INT = ''PUSH_INT''"
| "opcode_name OP_POP = ''POP''"
| "opcode_name OP_DUP = ''DUP''"
| "opcode_name OP_GET_VAR = ''GET_VAR''"
| "opcode_name OP_SET_VAR = ''SET_VAR''"
| "opcode_name OP_GET_LOCAL = ''GET_LOCAL''"
| "opcode_name OP_SET_LOCAL = ''SET_LOCAL''"
| "opcode_name OP_GET_ARRAY = ''GET_ARRAY''"
| "opcode_name OP_SET_ARRAY = ''SET_ARRAY''"
| "opcode_name OP_SET_ARRAY_BULK = ''SET_ARRAY_BULK''"
| "opcode_name OP_EXPORT = ''EXPORT''"
| "opcode_name OP_PUSH_SCOPE = ''PUSH_SCOPE''"
| "opcode_name OP_POP_SCOPE = ''POP_SCOPE''"
| "opcode_name OP_GET_SPECIAL = ''GET_SPECIAL''"
| "opcode_name OP_CONCAT = ''CONCAT''"
| "opcode_name OP_EXPAND_PARAM = ''EXPAND_PARAM''"
| "opcode_name OP_EXPAND_ARITH = ''EXPAND_ARITH''"
| "opcode_name OP_SPLIT_FIELDS = ''SPLIT_FIELDS''"
| "opcode_name OP_GLOB = ''GLOB''"
| "opcode_name OP_QUOTE_REMOVE = ''QUOTE_REMOVE''"
| "opcode_name OP_EXPAND_TILDE = ''EXPAND_TILDE''"
| "opcode_name OP_COLLECT_WORDS = ''COLLECT_WORDS''"
| "opcode_name OP_EXPAND_ARGS = ''EXPAND_ARGS''"
| "opcode_name OP_JMP = ''JMP''"
| "opcode_name OP_JMP_TRUE = ''JMP_TRUE''"
| "opcode_name OP_JMP_FALSE = ''JMP_FALSE''"
| "opcode_name OP_JMP_NONE = ''JMP_NONE''"
| "opcode_name OP_RET = ''RET''"
| "opcode_name OP_LOOP_ENTER = ''LOOP_ENTER''"
| "opcode_name OP_LOOP_EXIT = ''LOOP_EXIT''"
| "opcode_name OP_BREAK = ''BREAK''"
| "opcode_name OP_CONTINUE = ''CONTINUE''"
| "opcode_name OP_GET_NEXT_ITER = ''GET_NEXT_ITER''"
| "opcode_name OP_INIT_ITER = ''INIT_ITER''"
| "opcode_name OP_EXEC_SIMPLE = ''EXEC_SIMPLE''"
| "opcode_name OP_EXEC_BUILTIN = ''EXEC_BUILTIN''"
| "opcode_name OP_EXEC_FUNC = ''EXEC_FUNC''"
| "opcode_name OP_PIPELINE = ''PIPELINE''"
| "opcode_name OP_PIPELINE_CMD = ''PIPELINE_CMD''"
| "opcode_name OP_PIPELINE_END = ''PIPELINE_END''"
| "opcode_name OP_CMD_SUBST = ''CMD_SUBST''"
| "opcode_name OP_SUBSHELL = ''SUBSHELL''"
| "opcode_name OP_BACKGROUND = ''BACKGROUND''"
| "opcode_name OP_REDIR_SAVE = ''REDIR_SAVE''"
| "opcode_name OP_REDIR_RESTORE = ''REDIR_RESTORE''"
| "opcode_name OP_REDIR_OPEN = ''REDIR_OPEN''"
| "opcode_name OP_REDIR_DUP = ''REDIR_DUP''"
| "opcode_name OP_REDIR_CLOSE = ''REDIR_CLOSE''"
| "opcode_name OP_REDIR_HERE = ''REDIR_HERE''"
| "opcode_name OP_TEST_UNARY = ''TEST_UNARY''"
| "opcode_name OP_TEST_BINARY = ''TEST_BINARY''"
| "opcode_name OP_NEGATE_STATUS = ''NEGATE_STATUS''"
| "opcode_name OP_PATTERN_MATCH = ''PATTERN_MATCH''"
| "opcode_name OP_IMPORT = ''IMPORT''"
| "opcode_name OP_CAP_CHECK = ''CAP_CHECK''"
| "opcode_name OP_ERREXIT_PUSH = ''ERREXIT_PUSH''"
| "opcode_name OP_ERREXIT_POP = ''ERREXIT_POP''"
| "opcode_name OP_STATUS_ZERO = ''STATUS_ZERO''"
| "opcode_name OP_PUSH_STATUS = ''PUSH_STATUS''"
| "opcode_name OP_POP_STATUS = ''POP_STATUS''"
| "opcode_name OP_HALT = ''HALT''"

definition const_text :: "image \<Rightarrow> u16 \<Rightarrow> string \<Rightarrow> string" where
  "const_text img idx otherwise =
     (if unat idx < length (im_consts img)
      then show_nat (unat idx) @ '' ('' @ [CHR 0x22] @ im_consts img ! unat idx @ [CHR 0x22] @ '')''
      else show_nat (unat idx) @ otherwise)"

text \<open>The text of the operands and the offset behind them.\<close>

definition disasm_operands :: "image \<Rightarrow> opcode option \<Rightarrow> nat \<Rightarrow> string \<times> nat" where
  "disasm_operands img opc offset =
     (case opc of
        None \<Rightarrow> ([], offset)
      | Some opc \<Rightarrow>
          if opc = OP_PUSH_CONST then (const_text img (peek_u16 img offset) '' (invalid)'', offset + 2)
          else if opc = OP_PUSH_INT then (show_int (sint (peek_i32 img offset)), offset + 4)
          else if opc \<in> {OP_CONCAT, OP_EXEC_BUILTIN, OP_EXEC_FUNC, OP_PIPELINE, OP_IMPORT, OP_INIT_ITER}
          then (show_nat (unat (peek_u16 img offset)), offset + 2)
          else if opc \<in> {OP_GET_VAR, OP_SET_VAR, OP_GET_LOCAL, OP_SET_LOCAL, OP_GET_ARRAY, OP_SET_ARRAY,
                        OP_EXPORT}
          then (const_text img (peek_u16 img offset) [], offset + 2)
          else if opc = OP_SET_ARRAY_BULK
          then (show_nat (unat (peek_u16 img offset)) @ '', '' @ show_nat (unat (peek_u16 img (offset + 2))),
                offset + 4)
          else if opc = OP_EXPAND_PARAM
          then (show_nat (unat (peek_u16 img offset)) @ '', op='' @ show_nat (unat (peek_u8 img (offset + 2))) @
                  '', flags='' @ show_nat (unat (peek_u8 img (offset + 3))), offset + 4)
          else if opc \<in> {OP_JMP, OP_JMP_TRUE, OP_JMP_FALSE, OP_JMP_NONE}
          then (let off = sint (peek_i32 img offset);
                    target = nat ((int (offset + 4) + off) mod 2 ^ 64)
                in (show_int off @ '' (-> '' @ pad_zero 4 (show_nat target) @ '')'', offset + 4))
          else if opc \<in> {OP_PIPELINE_CMD, OP_CMD_SUBST, OP_SUBSHELL}
          then (show_nat (unat (peek_i32 img offset)), offset + 4)
          else if opc \<in> {OP_PUSH_SCOPE, OP_GET_SPECIAL, OP_EXEC_SIMPLE, OP_BREAK, OP_CONTINUE,
                        OP_PIPELINE_END, OP_CAP_CHECK, OP_REDIR_CLOSE, OP_TEST_UNARY, OP_TEST_BINARY}
          then (show_nat (unat (peek_u8 img offset)), offset + 1)
          else if opc \<in> {OP_REDIR_OPEN, OP_REDIR_DUP, OP_REDIR_HERE}
          then (show_nat (unat (peek_u8 img offset)) @ '', '' @ show_nat (unat (peek_u8 img (offset + 1))),
                offset + 2)
          else ([], offset))"

definition disasm_instruction :: "image \<Rightarrow> nat \<Rightarrow> string \<times> nat" where
  "disasm_instruction img offset =
     (if offset \<ge> length (im_code img) then ([], offset)
      else
        (let opc = opcode_of (peek_u8 img offset);
             name = (case opc of None \<Rightarrow> ''UNKNOWN'' | Some opc \<Rightarrow> opcode_name opc);
             (operands, next) = disasm_operands img opc (offset + 1)
         in (pad_zero 4 (show_nat offset) @ ''  '' @ pad_right 16 name @ operands @ [CHR 0x0A], next)))"

lemma disasm_advances: "offset < length (im_code img) \<Longrightarrow> offset < snd (disasm_instruction img offset)"
  by (auto simp: disasm_instruction_def disasm_operands_def Let_def split: option.splits prod.splits if_splits)

function disasm_loop :: "image \<Rightarrow> nat \<Rightarrow> string" where
  "disasm_loop img offset =
     (if offset < length (im_code img)
      then fst (disasm_instruction img offset) @ disasm_loop img (snd (disasm_instruction img offset))
      else [])"
  by pat_completeness auto
termination
  by (relation "measure (\<lambda>(img, offset). length (im_code img) - offset)")
     (use disasm_advances in \<open>auto simp: diff_less_mono2\<close>)

declare disasm_loop.simps [simp del]

definition disasm_image :: "image \<Rightarrow> string" where
  "disasm_image img =
     ''=== Constants ==='' @ [CHR 0x0A] @
     concat (map (\<lambda>i. ''  ['' @ show_nat i @ ''] '' @ [CHR 0x22] @ im_consts img ! i @ [CHR 0x22, CHR 0x0A])
               [0..<length (im_consts img)]) @
     ''=== Bytecode ('' @ show_nat (length (im_code img)) @ '' bytes) ==='' @ [CHR 0x0A] @
     disasm_loop img 0"

subsection \<open>Opcodes and bytes\<close>

lemma opcode_of_byte [simp]: "opcode_of (opcode_byte opc) = Some opc"
  by (cases opc) (simp_all add: opcode_of_def opcode_byte_def opcode_table_def)

lemma opcode_byte_of: "opcode_of b = Some opc \<Longrightarrow> opcode_byte opc = b"
proof -
  assume "opcode_of b = Some opc"
  then have "(opc, b) \<in> set opcode_table"
    by (auto simp: opcode_of_def dest!: map_of_SomeD)
  moreover have "list_all (\<lambda>(opc, b). opcode_byte opc = b) opcode_table"
    unfolding opcode_byte_def by (simp add: opcode_table_def)
  ultimately show ?thesis
    by (auto simp: list_all_iff)
qed

lemma opcode_byte_eq [simp]: "opcode_byte a = opcode_byte b \<longleftrightarrow> a = b"
  by (metis opcode_of_byte option.inject)

text \<open>
  C27. The disassembler reads instructions where the machine's operand sizes say they are: past a known
  opcode other than the one of a background command it goes on behind exactly the operands of that
  opcode, so a listing of well-formed code without background commands shows its instructions.
\<close>

theorem disasm_operand_size:
  assumes "offset < length (im_code img)" "opcode_of (im_code img ! offset) = Some opc" "opc \<noteq> OP_BACKGROUND"
  shows "snd (disasm_instruction img offset) = offset + 1 + opcode_operand_size opc"
  using assms by (cases opc) (simp_all add: disasm_instruction_def disasm_operands_def peek_u8_def
    opcode_operand_size_def Let_def)

lemma disasm_operand_size_witness:
  "snd (disasm_instruction (image_new\<lparr>im_code := [0x30, 1, 0, 0, 0]\<rparr>) 0) = 5"
  using disasm_operand_size [of 0 "image_new\<lparr>im_code := [0x30, 1, 0, 0, 0]\<rparr>" OP_JMP]
  by (simp add: opcode_of_def opcode_table_def opcode_operand_size_def)

text \<open>
  The opcode of a background command has a four-byte operand the disassembler does not skip: it goes
  on inside the operand.
\<close>

lemma disasm_background_misread:
  "opcode_operand_size OP_BACKGROUND = 4"
  "offset < length (im_code img) \<Longrightarrow> opcode_of (im_code img ! offset) = Some OP_BACKGROUND \<Longrightarrow>
   snd (disasm_instruction img offset) = offset + 1"
  by (simp_all add: opcode_operand_size_def disasm_instruction_def disasm_operands_def peek_u8_def Let_def)

end
