(* ===== verification/Fnmatch.thy ===== *)
theory Fnmatch
  imports Cstd
begin

text \<open>
  The C library's \<^verbatim>\<open>fnmatch(pattern, string, 0)\<close>, in the C locale, as POSIX 2.13 describes it: \<open>*\<close>, \<open>?\<close>,
  the backslash, and bracket expressions with ranges, negation and the named classes. With no flags
  a slash and a leading period are ordinary characters. The machine uses it for \<^verbatim>\<open>case\<close>, \<^verbatim>\<open>[[ == ]]\<close> and
  the trimming and replacing expansions.
\<close>

datatype bracket_item = Range char char | Class string

definition in_class :: "string \<Rightarrow> char \<Rightarrow> bool" where
  "in_class name c =
     (let digit = between CHR ''0'' CHR ''9'' c;
          lower = between CHR ''a'' CHR ''z'' c;
          upper = between CHR ''A'' CHR ''Z'' c;
          graph = between CHR ''!'' CHR ''~'' c
      in if name = ''digit'' then digit
         else if name = ''lower'' then lower
         else if name = ''upper'' then upper
         else if name = ''alpha'' then lower \<or> upper
         else if name = ''alnum'' then lower \<or> upper \<or> digit
         else if name = ''space'' then is_space c
         else if name = ''blank'' then c = CHR '' '' \<or> c = CHR 0x09
         else if name = ''punct'' then graph \<and> \<not> (lower \<or> upper \<or> digit)
         else if name = ''graph'' then graph
         else if name = ''print'' then graph \<or> c = CHR '' ''
         else if name = ''xdigit''
         then digit \<or> between CHR ''a'' CHR ''f'' c \<or> between CHR ''A'' CHR ''F'' c
         else name = ''cntrl'' \<and> (of_char c < (32 :: nat) \<or> of_char c = (127 :: nat)))"

fun in_item :: "bracket_item \<Rightarrow> char \<Rightarrow> bool" where
  "in_item (Range lo hi) c = between lo hi c"
| "in_item (Class name) c = in_class name c"

text \<open>One character of a bracket expression, a backslash quoting the next.\<close>

definition bracket_char :: "string \<Rightarrow> (char \<times> string) option" where
  "bracket_char p =
     (case p of
        [] \<Rightarrow> None
      | c # p \<Rightarrow> if c = CHR 0x5C then (case p of [] \<Rightarrow> None | d # p \<Rightarrow> Some (d, p)) else Some (c, p))"

text \<open>A class \<^verbatim>\<open>[:name:]\<close> behind its first bracket.\<close>

definition bracket_class :: "string \<Rightarrow> (string \<times> string) option" where
  "bracket_class p =
     (case p of
        c # p \<Rightarrow>
          if c = CHR '':'' then
            (let name = takeWhile (\<lambda>c. c \<noteq> CHR '':'') p; rest = dropWhile (\<lambda>c. c \<noteq> CHR '':'') p
             in if take 2 rest = '':]'' then Some (name, drop 2 rest) else None)
          else None
      | [] \<Rightarrow> None)"

text \<open>The items up to the closing bracket, which is literal in the first place.\<close>

fun bracket_items :: "nat \<Rightarrow> bool \<Rightarrow> string \<Rightarrow> (bracket_item list \<times> string) option" where
  "bracket_items 0 first p = None"
| "bracket_items (Suc n) first p =
     (case p of
        [] \<Rightarrow> None
      | c # r \<Rightarrow>
          if c = CHR '']'' \<and> \<not> first then Some ([], r)
          else
            (case (if c = CHR ''['' then bracket_class r else None) of
               Some (name, r) \<Rightarrow>
                 map_option (\<lambda>(items, r). (Class name # items, r)) (bracket_items n False r)
             | None \<Rightarrow>
                 (case bracket_char p of
                    None \<Rightarrow> None
                  | Some (lo, r) \<Rightarrow>
                      if peek r 0 = CHR ''-'' \<and> peek r 1 \<noteq> CHR '']'' \<and> peek r 1 \<noteq> NUL then
                        (case bracket_char (drop 1 r) of
                           None \<Rightarrow> None
                         | Some (hi, r) \<Rightarrow>
                             map_option (\<lambda>(items, r). (Range lo hi # items, r)) (bracket_items n False r))
                      else
                        map_option (\<lambda>(items, r). (Range lo lo # items, r)) (bracket_items n False r))))"

definition bracket :: "string \<Rightarrow> ((char \<Rightarrow> bool) \<times> string) option" where
  "bracket p =
     (let neg = (peek p 0 = CHR ''!'' \<or> peek p 0 = CHR ''^'');
          p = (if neg then drop 1 p else p)
      in map_option (\<lambda>(items, r). (\<lambda>c. list_ex (\<lambda>i. in_item i c) items \<noteq> neg, r))
           (bracket_items (length p) True p))"

lemma bracket_char_shorter: "bracket_char p = Some (c, r) \<Longrightarrow> length r < length p"
  by (auto simp: bracket_char_def split: list.splits if_splits)

lemma bracket_class_shorter: "bracket_class p = Some (name, r) \<Longrightarrow> length r < length p"
  using length_dropWhile_le [of "\<lambda>c. c \<noteq> CHR '':''" "tl p"]
  by (auto simp: bracket_class_def Let_def split: list.splits if_splits)

lemma bracket_items_shorter: "bracket_items n first p = Some (items, r) \<Longrightarrow> length r < length p"
proof (induction n arbitrary: first p items r)
  case (Suc n)
  obtain c q where p: "p = c # q"
    using Suc.prems by (cases p) auto
  consider (close) "c = CHR '']''" "\<not> first"
    | (cls) name s where "\<not> (c = CHR '']'' \<and> \<not> first)" "(if c = CHR ''['' then bracket_class q else None) = Some (name, s)"
    | (char) lo s where "\<not> (c = CHR '']'' \<and> \<not> first)" "(if c = CHR ''['' then bracket_class q else None) = None"
        "bracket_char p = Some (lo, s)"
    using Suc.prems p by (fastforce split: option.splits if_splits)
  then show ?case
  proof cases
    case close
    with Suc.prems p show ?thesis by simp
  next
    case cls
    with Suc.prems p obtain is' where "bracket_items n False s = Some (is', r)"
      by (auto simp del: if_split_asm split: if_splits)
    from Suc.IH [OF this] bracket_class_shorter [of q name s] cls(2) p
    show ?thesis by (auto split: if_splits)
  next
    case char
    have s: "length s < length p"
      by (rule bracket_char_shorter [OF char(3)])
    show ?thesis
    proof (cases "peek s 0 = CHR ''-'' \<and> peek s 1 \<noteq> CHR '']'' \<and> peek s 1 \<noteq> NUL")
      case True
      with Suc.prems p char obtain hi t is' where
        t: "bracket_char (drop 1 s) = Some (hi, t)" "bracket_items n False t = Some (is', r)"
        by (auto split: option.splits)
      from Suc.IH [OF t(2)] bracket_char_shorter [OF t(1)] s show ?thesis
        by simp
    next
      case False
      with Suc.prems p char obtain is' where "bracket_items n False s = Some (is', r)"
        by auto
      from Suc.IH [OF this] s show ?thesis
        by simp
    qed
  qed
qed simp

lemma bracket_shorter: "bracket p = Some (accept, r) \<Longrightarrow> length r < Suc (length p)"
  by (auto simp: bracket_def Let_def less_Suc_eq split: if_splits dest!: bracket_items_shorter)

function fnmatch :: "string \<Rightarrow> string \<Rightarrow> bool" where
  "fnmatch [] s = (s = [])"
| "fnmatch (c # p) s =
     (if c = CHR ''*'' then fnmatch p s \<or> (case s of [] \<Rightarrow> False | _ # s \<Rightarrow> fnmatch (c # p) s)
      else if c = CHR ''?'' then s \<noteq> [] \<and> fnmatch p (tl s)
      else if c = CHR 0x5C then
        (case p of [] \<Rightarrow> False | d # p \<Rightarrow> s \<noteq> [] \<and> hd s = d \<and> fnmatch p (tl s))
      else
        (case (if c = CHR ''['' then bracket p else None) of
           Some (accept, r) \<Rightarrow> s \<noteq> [] \<and> accept (hd s) \<and> fnmatch r (tl s)
         | None \<Rightarrow> s \<noteq> [] \<and> hd s = c \<and> fnmatch p (tl s)))"
  by pat_completeness auto
termination
  by (relation "measure (\<lambda>(p, s). length p + length s)")
     (auto simp: neq_Nil_conv split: if_splits dest!: bracket_shorter)

declare fnmatch.simps(2) [simp del]

lemma fnmatch_star [simp]: "fnmatch ''*'' s"
  by (induction s) (simp_all add: fnmatch.simps(2))

text \<open>A pattern without special characters matches its own text only.\<close>

definition plain_pattern :: "string \<Rightarrow> bool" where
  "plain_pattern p \<longleftrightarrow> set p \<inter> {CHR ''*'', CHR ''?'', CHR ''['', CHR 0x5C} = {}"

lemma fnmatch_plain: "plain_pattern p \<Longrightarrow> fnmatch p s \<longleftrightarrow> s = p"
  proof (induction p arbitrary: s)
  case (Cons c p)
  then have "c \<noteq> CHR ''*''" "c \<noteq> CHR ''?''" "c \<noteq> CHR ''[''" "c \<noteq> CHR 0x5C" "plain_pattern p"
    by (auto simp: plain_pattern_def)
  with Cons.IH show ?case
    by (cases s) (auto simp: fnmatch.simps(2))
qed simp

end
