(* ===== verification/Host.thy ===== *)
theory Host
  imports Json Environ Job Image Fnmatch
begin

text \<open>
  What the machine asks of the operating system, as a record of functions on a state \<open>'w\<close> of the
  world, and the tests on files that \<^verbatim>\<open>src/builtins/builtins.c\<close> and the machine share. The functions are
  parameters of every definition that uses them. A function that can fail in C gives what the call
  returns: a negative descriptor or process number, or \<open>None\<close>. The type \<open>'m\<close> is that of the machine, a
  copy of which a forked child runs.
\<close>

datatype file_kind = S_REG | S_DIR | S_LNK | S_FIFO | S_BLK | S_CHR | S_SOCK

record file_stat =
  st_kind :: file_kind
  st_setgid :: bool
  st_setuid :: bool
  st_sticky :: bool
  st_size :: int
  st_uid :: nat
  st_gid :: nat
  st_mtime :: int
  st_dev :: nat
  st_ino :: nat

datatype open_flag = O_RDONLY | O_WRONLY | O_RDWR | O_CREAT | O_TRUNC | O_APPEND

text \<open>
  What a forked child does before it runs: descriptors it moves over its input and output, and its
  process group. Then it runs a program, in a C environment, or a copy of the machine.
\<close>

datatype child_setup =
  Stdin_from int | Stdout_to int | Stdin_null | Own_group | Join_group int

datatype 'm process =
    Exec_program "string list" cenv
  | Machine "child_setup list" 'm

text \<open>
  \<open>h_puts\<close> writes to a stream of the C library; \<open>h_signals\<close> gives the signals that have arrived since
  the last safe point; \<open>h_wait\<close> is a \<^verbatim>\<open>waitpid\<close> repeated while interrupted, \<open>h_wait_group\<close> the results
  of the calls of one blocking wait on a process group, \<open>h_reap\<close> those of the non-blocking calls
  until there is no more. \<open>h_read_all\<close> and \<open>h_write_all\<close> are the loops of \<^verbatim>\<open>read\<close> and \<^verbatim>\<open>write\<close> up to the
  end or an error; \<open>h_read_byte\<close> is one \<^verbatim>\<open>read\<close> of a byte, repeated while interrupted. \<open>h_chdir\<close>,
  \<open>h_getcwd\<close>, \<open>h_kill\<close> and \<open>h_exec\<close> give the text of the error when they fail, \<open>h_exec\<close> also whether the
  program does not exist; when it succeeds the process is another's and there is no result. The regular expressions are those of \<^verbatim>\<open>regcomp\<close> and \<^verbatim>\<open>regexec\<close>: invalid, no match, or
  the text of each group that took part.
\<close>

record ('w, 'm) host =
  h_puts :: "'w \<Rightarrow> int \<Rightarrow> string \<Rightarrow> 'w"
  h_emit :: "'w \<Rightarrow> event_sink \<Rightarrow> event \<Rightarrow> 'w"
  h_signals :: "'w \<Rightarrow> signo list \<times> 'w"
  h_fork :: "'w \<Rightarrow> 'm process \<Rightarrow> int \<times> 'w"
  h_wait :: "'w \<Rightarrow> int \<Rightarrow> wstatus option \<times> 'w"
  h_wait_group :: "'w \<Rightarrow> int \<Rightarrow> wait_result list \<times> 'w"
  h_reap :: "'w \<Rightarrow> (int \<times> wstatus) list \<times> 'w"
  h_kill :: "'w \<Rightarrow> int \<Rightarrow> int \<Rightarrow> string option \<times> 'w"
  h_setpgid :: "'w \<Rightarrow> int \<Rightarrow> int \<Rightarrow> 'w"
  h_pipe :: "'w \<Rightarrow> (int \<times> int) option \<times> 'w"
  h_open :: "'w \<Rightarrow> string \<Rightarrow> open_flag list \<Rightarrow> int \<times> 'w"
  h_dup :: "'w \<Rightarrow> int \<Rightarrow> int \<times> 'w"
  h_dup2 :: "'w \<Rightarrow> int \<Rightarrow> int \<Rightarrow> 'w"
  h_close :: "'w \<Rightarrow> int \<Rightarrow> 'w"
  h_mkstemp :: "'w \<Rightarrow> string \<Rightarrow> int \<times> 'w"
  h_read_all :: "'w \<Rightarrow> int \<Rightarrow> string \<times> 'w"
  h_write_all :: "'w \<Rightarrow> int \<Rightarrow> string \<Rightarrow> 'w"
  h_rewind :: "'w \<Rightarrow> int \<Rightarrow> 'w"
  h_stat :: "'w \<Rightarrow> bool \<Rightarrow> string \<Rightarrow> file_stat option"
  h_access :: "'w \<Rightarrow> string \<Rightarrow> char \<Rightarrow> bool"
  h_ids :: "'w \<Rightarrow> nat \<times> nat"
  h_isatty :: "'w \<Rightarrow> int \<Rightarrow> bool"
  h_getpid :: "'w \<Rightarrow> int"
  h_home_of :: "'w \<Rightarrow> string \<Rightarrow> string option"
  h_glob :: "'w \<Rightarrow> string \<Rightarrow> string list option"
  h_chdir :: "'w \<Rightarrow> string \<Rightarrow> string option \<times> 'w"
  h_getcwd :: "'w \<Rightarrow> string + string"
  h_umask :: "'w \<Rightarrow> nat \<Rightarrow> nat \<times> 'w"
  h_read_byte :: "'w \<Rightarrow> int \<Rightarrow> char option \<times> 'w"
  h_read_file :: "'w \<Rightarrow> string \<Rightarrow> string option"
  h_exec :: "'w \<Rightarrow> string list \<Rightarrow> cenv \<Rightarrow> (bool \<times> string \<times> 'w) option"
  h_tcsetpgrp :: "'w \<Rightarrow> int \<Rightarrow> int \<Rightarrow> 'w"
  h_getpgrp :: "'w \<Rightarrow> int"
  h_regex :: "'w \<Rightarrow> string \<Rightarrow> string \<Rightarrow> string option list option option"

subsection \<open>Tests on files\<close>

definition status_of :: "bool \<Rightarrow> int" where
  "status_of b = (if b then 0 else 1)"

definition test_file :: "('w, 'm) host \<Rightarrow> 'w \<Rightarrow> string \<Rightarrow> string \<Rightarrow> int" where
  "test_file h w opr path =
     (case h_stat h w (\<not> (opr = ''-L'' \<or> opr = ''-h'')) path of
        None \<Rightarrow> 1
      | Some st \<Rightarrow>
          if opr = ''-f'' then status_of (st_kind st = S_REG)
          else if opr = ''-d'' then status_of (st_kind st = S_DIR)
          else if opr = ''-e'' then 0
          else if opr = ''-s'' then status_of (st_size st > 0)
          else if opr = ''-r'' then status_of (h_access h w path CHR ''r'')
          else if opr = ''-w'' then status_of (h_access h w path CHR ''w'')
          else if opr = ''-x'' then status_of (h_access h w path CHR ''x'')
          else if opr = ''-L'' \<or> opr = ''-h'' then status_of (st_kind st = S_LNK)
          else if opr = ''-p'' then status_of (st_kind st = S_FIFO)
          else if opr = ''-b'' then status_of (st_kind st = S_BLK)
          else if opr = ''-c'' then status_of (st_kind st = S_CHR)
          else if opr = ''-S'' then status_of (st_kind st = S_SOCK)
          else if opr = ''-g'' then status_of (st_setgid st)
          else if opr = ''-u'' then status_of (st_setuid st)
          else if opr = ''-k'' then status_of (st_sticky st)
          else if opr = ''-O'' then status_of (st_uid st = fst (h_ids h w))
          else if opr = ''-G'' then status_of (st_gid st = snd (h_ids h w))
          else if opr = ''-N'' then 0
          else 1)"

end
