(* ===== verification/Vm.thy ===== *)
theory Vm
  imports Bytecode Host Arith
begin

text \<open>
  The stack machine of \<^verbatim>\<open>src/vm/vm.c\<close>: its state, the reading of operands, one definition for each
  opcode, the dispatch, and the run to completion with fuel. An operation that C ends with
  \<^verbatim>\<open>abort()\<close>, or whose behaviour C leaves undefined, gives \<open>None\<close>; so does a wait that the host never
  ends. The scopes are a list, and the empty list is the null pointer. A machine that runs a text or a
  module works on its caller's scopes, and its caller goes on with the pointer it had:
  \<open>vm_env_kept\<close> counts the outermost scopes that have been there ever since the machine started, which
  tells whether that scope is still allocated, and \<open>vm_crashed\<close> records that a null scope was read or
  written, which ends the step with \<open>None\<close>; C has neither. \<open>vm_stack\<close> has the top first, and its length is \<^verbatim>\<open>stack_top\<close>. Images are kept in one list,
  \<open>vm_images\<close>, shared by the machines of a process, and a pointer to an image is an index in it; the
  list only grows, where C frees an image no function refers to. The values are those of \<open>Value\<close>, by
  their texts.
\<close>

subsection \<open>State\<close>

definition VM_STACK_MAX :: nat where "VM_STACK_MAX = 1024"
definition VM_CALL_STACK_MAX :: nat where "VM_CALL_STACK_MAX = 256"
definition VM_LOOP_STACK_MAX :: nat where "VM_LOOP_STACK_MAX = 64"
definition VM_REDIR_STACK_MAX :: nat where "VM_REDIR_STACK_MAX = 64"

record saved_fd =
  original_fd :: int
  saved_fd :: int

text \<open>A call frame. \<^verbatim>\<open>saved_env\<close> is written by the machine and never read.\<close>

record call_frame =
  cf_return_ip :: nat
  cf_stack_base :: nat
  cf_loop_depth :: nat
  cf_image :: nat

type_synonym vm_value = "string value_t"

record 'w vm =
  vm_images :: "image list"
  vm_image :: nat
  vm_main_image :: nat
  vm_ip :: nat
  vm_stack :: "vm_value list"
  vm_calls :: "call_frame list"
  vm_loop_depth :: nat
  vm_loop_tops :: "nat \<Rightarrow> nat"
  vm_redirs :: "saved_fd list list"
  vm_funcs :: "vm_func list"
  vm_env :: environ
  vm_env_kept :: nat
  vm_crashed :: bool
  vm_laststatus :: int
  vm_modules_loaded :: "unit hashtable"
  vm_no_fork :: bool
  vm_sink :: "event_sink option"
  vm_next_command_id :: i64
  vm_halted :: bool
  vm_exit_requested :: bool
  vm_return_requested :: bool
  vm_script_name :: "string option"
  vm_last_bg_pid :: int
  vm_option_flags :: string
  vm_jobs :: job_table
  vm_opt_errexit :: bool
  vm_opt_nounset :: bool
  vm_opt_xtrace :: bool
  vm_errexit_suppressed :: nat
  vm_traps :: "nat \<Rightarrow> string option"
  vm_exit_trap :: "string option"
  vm_sigs :: sigstate
  vm_cenv :: cenv
  vm_world :: 'w

text \<open>
  What the machine calls that is defined elsewhere: the host, the parser and compiler of a text with
  its label, and the machine's own run to completion, for the machines it starts in turn. The
  builtins are given to the step separately, as they call the machine back.
\<close>

record 'w shell =
  sh_host :: "('w, 'w vm) host"
  sh_compile :: "'w \<Rightarrow> string \<Rightarrow> string \<Rightarrow> image option \<times> 'w"
  sh_run :: "'w vm \<Rightarrow> 'w vm option"

type_synonym 'w builtins = "'w shell \<Rightarrow> nat \<Rightarrow> vm_value list \<Rightarrow> 'w vm \<Rightarrow> (int \<times> 'w vm) option"

definition vm_init :: "image list \<Rightarrow> nat \<Rightarrow> sigstate \<Rightarrow> cenv \<Rightarrow> 'w \<Rightarrow> 'w vm" where
  "vm_init images i sigs cenv w =
     \<lparr>vm_images = images, vm_image = i, vm_main_image = i, vm_ip = 0, vm_stack = [], vm_calls = [],
      vm_loop_depth = 0, vm_loop_tops = (\<lambda>_. 0), vm_redirs = [],
      vm_funcs = (if i < length images then im_funcs (images ! i) else []),
      vm_env = environ_new [] False, vm_env_kept = 1, vm_crashed = False, vm_laststatus = 0, vm_modules_loaded = ht_init,
      vm_no_fork = False, vm_sink = None, vm_next_command_id = 0, vm_halted = False,
      vm_exit_requested = False, vm_return_requested = False, vm_script_name = None,
      vm_last_bg_pid = 0, vm_option_flags = [], vm_jobs = job_table_init, vm_opt_errexit = False,
      vm_opt_nounset = False, vm_opt_xtrace = False, vm_errexit_suppressed = 0,
      vm_traps = (\<lambda>_. None), vm_exit_trap = None, vm_sigs = sigs, vm_cenv = cenv, vm_world = w\<rparr>"

definition vm_register_func :: "'w vm \<Rightarrow> string \<Rightarrow> nat \<Rightarrow> 'w vm" where
  "vm_register_func vm name offset =
     vm\<lparr>vm_funcs := vm_funcs vm @ [\<lparr>fn_name = name, fn_offset = offset, fn_image = None\<rparr>]\<rparr>"

subsection \<open>Messages, status and variables\<close>

definition vm_puts :: "('w, 'm) host \<Rightarrow> string \<Rightarrow> 'w vm \<Rightarrow> 'w vm" where
  "vm_puts h s vm = (if s = [] then vm else vm\<lparr>vm_world := h_puts h (vm_world vm) 2 s\<rparr>)"

text \<open>\<^verbatim>\<open>fprintf(stderr, "opsh: ...\n")\<close>.\<close>

definition vm_complain :: "('w, 'm) host \<Rightarrow> string \<Rightarrow> 'w vm \<Rightarrow> 'w vm" where
  "vm_complain h s vm = vm_puts h (''opsh: '' @ s @ [CHR 0x0A]) vm"

definition vm_status :: "int \<Rightarrow> 'w vm \<Rightarrow> 'w vm" where
  "vm_status s vm = vm\<lparr>vm_laststatus := s\<rparr>"

text \<open>The end of an instruction the machine cannot go on from: a message, status 1, and halt.\<close>

definition vm_fail :: "('w, 'm) host \<Rightarrow> string \<Rightarrow> 'w vm \<Rightarrow> 'w vm" where
  "vm_fail h s vm = (vm_complain h s vm)\<lparr>vm_laststatus := 1, vm_halted := True\<rparr>"

text \<open>
  An operation that goes through the pointer to the current scope, with the diagnostics it prints; a
  null pointer ends it.
\<close>

definition vm_on_env :: "('w, 'm) host \<Rightarrow> (environ \<Rightarrow> environ \<times> string) \<Rightarrow> 'w vm \<Rightarrow> 'w vm" where
  "vm_on_env h f vm =
     (if vm_env vm = [] then vm\<lparr>vm_crashed := True\<rparr>
      else (case f (vm_env vm) of (env, msg) \<Rightarrow> vm_puts h msg (vm\<lparr>vm_env := env\<rparr>)))"

text \<open>\<^verbatim>\<open>environ_unset\<close>, whose loop starts with the test for a null pointer.\<close>

definition vm_unset :: "('w, 'm) host \<Rightarrow> string \<Rightarrow> 'w vm \<Rightarrow> 'w vm" where
  "vm_unset h name vm =
     (case environ_unset (vm_env vm) name of (env, msg) \<Rightarrow> vm_puts h msg (vm\<lparr>vm_env := env\<rparr>))"

text \<open>The destruction of the current scope: the pointer moves to its parent.\<close>

definition vm_drop_scope :: "'w vm \<Rightarrow> 'w vm" where
  "vm_drop_scope vm =
     (let env = environ_pop (vm_env vm)
      in vm\<lparr>vm_env := env, vm_env_kept := min (vm_env_kept vm) (length env)\<rparr>)"

text \<open>
  The scopes of a machine whose pointer has not moved while another one ran on them and left \<open>sub\<close>:
  those from the scope it points to on, as they are now. When the other has destroyed that scope the
  pointer dangles.
\<close>

definition scopes_after :: "'w vm \<Rightarrow> 'w vm \<Rightarrow> environ option" where
  "scopes_after vm sub =
     (if length (vm_env vm) \<le> vm_env_kept sub
      then Some (drop (length (vm_env sub) - length (vm_env vm)) (vm_env sub)) else None)"

fun set_args_from :: "('w, 'm) host \<Rightarrow> nat \<Rightarrow> string list \<Rightarrow> 'w vm \<Rightarrow> 'w vm" where
  "set_args_from h i [] vm = vm"
| "set_args_from h i (s # args) vm =
     set_args_from h (i + 1) args
       (vm_on_env h (\<lambda>env. environ_set env (show_nat (i + 1)) (VT_STRING s)) vm)"

definition vm_set_args :: "('w, 'm) host \<Rightarrow> string list \<Rightarrow> 'w vm \<Rightarrow> 'w vm" where
  "vm_set_args h args vm =
     vm_on_env h (\<lambda>env. environ_set env ''#'' (VT_STRING (show_nat (length args))))
       (set_args_from h 0 args vm)"

text \<open>The value of a variable, where the code asks for one of string type.\<close>

definition string_var :: "environ \<Rightarrow> string \<Rightarrow> string option" where
  "string_var env name =
     (case environ_get env name of
        None \<Rightarrow> None
      | Some var \<Rightarrow> (case var_value var of VT_STRING s \<Rightarrow> Some s | _ \<Rightarrow> None))"

text \<open>\<^verbatim>\<open>(int)value_to_integer\<close> of \<^verbatim>\<open>$#\<close>.\<close>

definition param_count :: "environ \<Rightarrow> int" where
  "param_count env =
     (case environ_get env ''#'' of
        None \<Rightarrow> 0 | Some var \<Rightarrow> int_of_i64 (value_to_integer (var_value var)))"

subsection \<open>The operand stack\<close>

definition vm_push :: "vm_value \<Rightarrow> 'w vm \<Rightarrow> 'w vm option" where
  "vm_push v vm =
     (if length (vm_stack vm) \<ge> VM_STACK_MAX then None else Some (vm\<lparr>vm_stack := v # vm_stack vm\<rparr>))"

definition vm_pop :: "'w vm \<Rightarrow> (vm_value \<times> 'w vm) option" where
  "vm_pop vm = (case vm_stack vm of [] \<Rightarrow> None | v # vs \<Rightarrow> Some (v, vm\<lparr>vm_stack := vs\<rparr>))"

definition vm_peek :: "nat \<Rightarrow> 'w vm \<Rightarrow> vm_value option" where
  "vm_peek offset vm = (if offset < length (vm_stack vm) then Some (vm_stack vm ! offset) else None)"

abbreviation vm_push_string :: "string \<Rightarrow> 'w vm \<Rightarrow> 'w vm option" where
  "vm_push_string s \<equiv> vm_push (VT_STRING s)"

abbreviation vm_push_int :: "int \<Rightarrow> 'w vm \<Rightarrow> 'w vm option" where
  "vm_push_int i \<equiv> vm_push (VT_INTEGER (word_of_int i))"

definition vm_pop_string :: "'w vm \<Rightarrow> (string \<times> 'w vm) option" where
  "vm_pop_string vm = map_option (\<lambda>(v, vm). (value_to_string v, vm)) (vm_pop vm)"

text \<open>A count: \<^verbatim>\<open>(int)value_to_integer\<close> of the value on top.\<close>

definition vm_pop_int :: "'w vm \<Rightarrow> (int \<times> 'w vm) option" where
  "vm_pop_int vm = map_option (\<lambda>(v, vm). (int_of_i64 (value_to_integer v), vm)) (vm_pop vm)"

text \<open>
  \<^verbatim>\<open>count\<close> values popped into an array from its end: the deepest comes first. A negative count ends in
  the allocation of the array.
\<close>

definition vm_pop_n :: "int \<Rightarrow> 'w vm \<Rightarrow> (vm_value list \<times> 'w vm) option" where
  "vm_pop_n n vm =
     (if 0 \<le> n \<and> nat n \<le> length (vm_stack vm)
      then Some (rev (take (nat n) (vm_stack vm)), vm\<lparr>vm_stack := drop (nat n) (vm_stack vm)\<rparr>)
      else None)"

fun vm_push_all :: "vm_value list \<Rightarrow> 'w vm \<Rightarrow> 'w vm option" where
  "vm_push_all [] vm = Some vm"
| "vm_push_all (v # vs) vm = do { vm \<leftarrow> vm_push v vm; vm_push_all vs vm }"

subsection \<open>The code\<close>

definition cur_image :: "'w vm \<Rightarrow> image" where
  "cur_image vm = vm_images vm ! vm_image vm"

abbreviation code_size :: "'w vm \<Rightarrow> nat" where
  "code_size vm \<equiv> length (im_code (cur_image vm))"

definition read_u8 :: "'w vm \<Rightarrow> (byte \<times> 'w vm) option" where
  "read_u8 vm =
     (if vm_ip vm \<ge> code_size vm then None
      else Some (im_code (cur_image vm) ! vm_ip vm, vm\<lparr>vm_ip := vm_ip vm + 1\<rparr>))"

definition read_u16 :: "'w vm \<Rightarrow> (u16 \<times> 'w vm) option" where
  "read_u16 vm =
     do { (lo, vm) \<leftarrow> read_u8 vm;
          (hi, vm) \<leftarrow> read_u8 vm;
          Some (of_le16 lo hi, vm) }"

definition read_i32 :: "'w vm \<Rightarrow> (i32 \<times> 'w vm) option" where
  "read_i32 vm =
     do { (b0, vm) \<leftarrow> read_u8 vm;
          (b1, vm) \<leftarrow> read_u8 vm;
          (b2, vm) \<leftarrow> read_u8 vm;
          (b3, vm) \<leftarrow> read_u8 vm;
          Some (of_le32 b0 b1 b2 b3, vm) }"

definition vm_jump :: "('w, 'm) host \<Rightarrow> i32 \<Rightarrow> 'w vm \<Rightarrow> 'w vm" where
  "vm_jump h offset vm =
     (let target = int (vm_ip vm) + sint offset in
      if target < 0 \<or> nat target > code_size vm
      then vm_fail h (''jump target '' @ show_int target @ '' out of bounds (code size '' @
             show_nat (code_size vm) @ '')'') vm
      else vm\<lparr>vm_ip := nat target\<rparr>)"

text \<open>\<^verbatim>\<open>const_pool[idx]\<close> without a check: past the end it is undefined.\<close>

definition pool_at :: "u16 \<Rightarrow> 'w vm \<Rightarrow> string option" where
  "pool_at idx vm =
     (if unat idx < length (im_consts (cur_image vm))
      then Some (im_consts (cur_image vm) ! unat idx) else None)"

text \<open>A name operand: the index and the constant it stands for.\<close>

definition read_name :: "'w vm \<Rightarrow> (string \<times> 'w vm) option" where
  "read_name vm =
     do { (idx, vm) \<leftarrow> read_u16 vm;
          name \<leftarrow> pool_at idx vm;
          Some (name, vm) }"

subsection \<open>Running a text\<close>

text \<open>The first function of a name in a table.\<close>

definition find_func :: "vm_func list \<Rightarrow> string \<Rightarrow> nat option" where
  "find_func fs name = find_index (\<lambda>f. fn_name f = name) fs"

text \<open>The caller's functions the new machine does not define itself are appended to its table.\<close>

fun inherit_funcs :: "vm_func list \<Rightarrow> vm_func list \<Rightarrow> vm_func list" where
  "inherit_funcs fs [] = fs"
| "inherit_funcs fs (p # ps) =
     inherit_funcs (if find_func fs (fn_name p) = None then fs @ [p] else fs) ps"

text \<open>
  The functions merged back into the caller's table: those of the text's own image, the inherited
  ones that were redefined, and those added while it ran. An entry without an image of its own is
  given the text's image.
\<close>

definition merge_func :: "nat \<Rightarrow> vm_func list \<Rightarrow> vm_func \<Rightarrow> vm_func list" where
  "merge_func img fs f =
     (let f = f\<lparr>fn_image := Some (case fn_image f of Some i \<Rightarrow> i | None \<Rightarrow> img)\<rparr> in
      case find_func fs (fn_name f) of
        Some pi \<Rightarrow> fs[pi := (fs ! pi)\<lparr>fn_offset := fn_offset f, fn_image := fn_image f\<rparr>]
      | None \<Rightarrow> fs @ [f])"

definition unchanged :: "vm_func \<Rightarrow> vm_func \<Rightarrow> bool" where
  "unchanged f snap \<longleftrightarrow> fn_offset f = fn_offset snap \<and> fn_image f = fn_image snap"

fun merge_funcs ::
  "nat \<Rightarrow> nat \<Rightarrow> vm_func list \<Rightarrow> nat \<Rightarrow> vm_func list \<Rightarrow> vm_func list \<Rightarrow> vm_func list" where
  "merge_funcs img img_count snap fi [] fs = fs"
| "merge_funcs img img_count snap fi (f # sub) fs =
     merge_funcs img img_count snap (fi + 1) sub
       (if fi \<ge> img_count \<and> fi < img_count + length snap \<and> unchanged f (snap ! (fi - img_count))
        then fs else merge_func img fs f)"

text \<open>The two functions that call each other: a text ends by an exit, an exit runs the trap's text.\<close>

definition vm_exec_with ::
  "(int \<Rightarrow> 'w vm \<Rightarrow> 'w vm option) \<Rightarrow> 'w shell \<Rightarrow> string \<Rightarrow> string \<Rightarrow> 'w vm \<Rightarrow> (int \<times> 'w vm) option" where
  "vm_exec_with exit_fn sh source label vm =
     (case sh_compile sh (vm_world vm) source label of
        (None, w) \<Rightarrow> Some (1, vm\<lparr>vm_world := w, vm_laststatus := 2\<rparr>)
      | (Some img, w) \<Rightarrow>
          (let images = vm_images vm @ [img];
               img_id = length (vm_images vm);
               sub = vm_init images img_id (vm_sigs vm) (vm_cenv vm) w;
               sub = sub\<lparr>vm_env := vm_env vm, vm_env_kept := length (vm_env vm),
                         vm_funcs := inherit_funcs (vm_funcs sub) (vm_funcs vm)\<rparr>;
               img_count = length (im_funcs img);
               snapshot = drop img_count (vm_funcs sub)
           in
           case sh_run sh sub of
             None \<Rightarrow> None
           | Some sub \<Rightarrow>
               do { env \<leftarrow> scopes_after vm sub;
                let vm = vm\<lparr>vm_images := vm_images sub, vm_world := vm_world sub, vm_sigs := vm_sigs sub,
                            vm_cenv := vm_cenv sub, vm_env := env,
                            vm_funcs := merge_funcs img_id img_count snapshot 0 (vm_funcs sub) (vm_funcs vm),
                            vm_laststatus := vm_laststatus sub\<rparr>;
                vm \<leftarrow> (if vm_exit_requested sub
                            then exit_fn (vm_laststatus sub) (vm\<lparr>vm_exit_requested := True\<rparr>)
                            else Some vm);
                Some (vm_laststatus sub,
                      if vm_return_requested sub then vm\<lparr>vm_return_requested := True\<rparr> else vm) }))"

text \<open>
  An exit runs the trap once: the trap is cleared first, so the exit of its own text sets the status
  and halts only.
\<close>

definition vm_exit_plain :: "int \<Rightarrow> 'w vm \<Rightarrow> 'w vm option" where
  "vm_exit_plain status vm = Some (vm\<lparr>vm_laststatus := status, vm_halted := True\<rparr>)"

definition vm_exit :: "'w shell \<Rightarrow> int \<Rightarrow> 'w vm \<Rightarrow> 'w vm option" where
  "vm_exit sh status vm =
     (let vm = vm\<lparr>vm_laststatus := status\<rparr> in
      do { vm \<leftarrow>
             (case vm_exit_trap vm of
                None \<Rightarrow> Some vm
              | Some cmd \<Rightarrow>
                  if cmd = [] then Some vm
                  else map_option snd
                    (vm_exec_with vm_exit_plain sh cmd ''EXIT trap'' (vm\<lparr>vm_exit_trap := None\<rparr>)));
           Some (vm\<lparr>vm_laststatus := status, vm_halted := True\<rparr>) })"

definition vm_exec_string :: "'w shell \<Rightarrow> string \<Rightarrow> string \<Rightarrow> 'w vm \<Rightarrow> (int \<times> 'w vm) option" where
  "vm_exec_string sh = vm_exec_with (vm_exit sh) sh"

end
