(* ===== verification/Expand.thy ===== *)
theory Expand
  imports Fnmatch Environ
begin

text \<open>
  The word expansions of \<^verbatim>\<open>vm_run\<close> in \<^verbatim>\<open>src/vm/vm.c\<close> as functions on texts: trimming and replacing by
  pattern, field splitting, tilde expansion and the joining of the positional parameters. Where the
  code cuts a text by writing a NUL and restores it, the function takes a prefix.
\<close>

subsection \<open>Trimming\<close>

text \<open>The candidates are tried from the shortest match on; \<^verbatim>\<open>longest\<close> keeps the last that matches.\<close>

definition pick_match :: "bool \<Rightarrow> nat list \<Rightarrow> nat option" where
  "pick_match longest is = (if is = [] then None else Some (if longest then last is else hd is))"

definition trim_prefix :: "bool \<Rightarrow> string \<Rightarrow> string \<Rightarrow> string" where
  "trim_prefix longest pat val =
     (case pick_match longest (filter (\<lambda>i. fnmatch pat (take i val)) [0..<Suc (length val)]) of
        None \<Rightarrow> val | Some best \<Rightarrow> drop best val)"

definition trim_suffix :: "bool \<Rightarrow> string \<Rightarrow> string \<Rightarrow> string" where
  "trim_suffix longest pat val =
     (case pick_match longest (filter (\<lambda>i. fnmatch pat (drop i val)) (rev [0..<Suc (length val)])) of
        None \<Rightarrow> val | Some best \<Rightarrow> take best val)"

subsection \<open>Replacing\<close>

text \<open>With the tail anchor: the longest suffix that matches, unless that is the empty one.\<close>

definition replace_tail :: "string \<Rightarrow> string \<Rightarrow> string \<Rightarrow> string" where
  "replace_tail pat rep val =
     (case filter (\<lambda>i. fnmatch pat (drop i val)) [0..<Suc (length val)] of
        [] \<Rightarrow> val
      | best # _ \<Rightarrow> if best < length val then take best val @ rep else val)"

text \<open>The longest match that starts at a position, by its end.\<close>

definition match_end :: "string \<Rightarrow> string \<Rightarrow> nat \<Rightarrow> nat option" where
  "match_end pat val pos =
     pick_match True (filter (\<lambda>j. fnmatch pat (drop pos (take j val))) [pos..<Suc (length val)])"

lemma pick_match_in: "pick_match longest is = Some e \<Longrightarrow> e \<in> set is"
  by (auto simp: pick_match_def split: if_splits)

lemma match_end_ge: "match_end pat val pos = Some e \<Longrightarrow> pos \<le> e \<and> e \<le> length val"
  unfolding match_end_def by (drule pick_match_in) auto

function replace_from :: "string \<Rightarrow> string \<Rightarrow> string \<Rightarrow> bool \<Rightarrow> bool \<Rightarrow> nat \<Rightarrow> string" where
  "replace_from pat rep val replace_all anchor_head pos =
     (if pos > length val then []
      else if anchor_head \<and> pos \<noteq> 0 then drop pos val
      else
        (case match_end pat val pos of
           Some e \<Rightarrow>
             (let copied = (if e = pos \<and> pos < length val then [val ! pos] else []);
                  pos' = (if e = pos then pos + 1 else e)
              in rep @ copied @
                 (if pos' \<ge> length val \<and> e \<ge> length val then []
                  else if \<not> replace_all then drop pos' val
                  else replace_from pat rep val replace_all anchor_head pos'))
         | None \<Rightarrow>
             (if pos < length val then [val ! pos] else []) @
             replace_from pat rep val replace_all anchor_head (pos + 1)))"
  by pat_completeness auto
termination
  by (relation "measure (\<lambda>(pat, rep, val, al, ah, pos). Suc (length val) - pos)")
     (auto dest!: match_end_ge split: if_splits)

declare replace_from.simps [simp del]

definition replace_pattern :: "string \<Rightarrow> string \<Rightarrow> string \<Rightarrow> bool \<Rightarrow> bool \<Rightarrow> bool \<Rightarrow> string" where
  "replace_pattern pat rep val replace_all anchor_head anchor_tail =
     (if anchor_tail then replace_tail pat rep val
      else replace_from pat rep val replace_all anchor_head 0)"

subsection \<open>Field splitting\<close>

definition blank :: "char \<Rightarrow> bool" where
  "blank c \<longleftrightarrow> c = CHR '' '' \<or> c = CHR 0x09 \<or> c = CHR 0x0A"

definition ifs_blank :: "string \<Rightarrow> char \<Rightarrow> bool" where
  "ifs_blank ifs c \<longleftrightarrow> c \<in> set ifs \<and> blank c"

lemma split_rest_shorter:
  fixes ifs p
  assumes "p \<noteq> []"
  defines "rest \<equiv> dropWhile (\<lambda>c. c \<notin> set ifs) p"
  shows "length (dropWhile (ifs_blank ifs) (if rest \<noteq> [] \<and> \<not> blank (hd rest) then tl rest else rest)) < length p"
proof (cases rest)
  case Nil
  with assms show ?thesis by simp
next
  case (Cons c r)
  then have "length rest \<le> length p" "c \<in> set ifs"
    using length_dropWhile_le [of "\<lambda>c. c \<notin> set ifs" p] hd_dropWhile [of "\<lambda>c. c \<notin> set ifs" p]
    by (auto simp: rest_def)
  moreover have "length (dropWhile (ifs_blank ifs) r) \<le> length r"
    by (rule length_dropWhile_le)
  ultimately show ?thesis
    using Cons by (auto simp: ifs_blank_def)
qed

text \<open>
  One round of the loop: the field, then one delimiter that is no blank, then the blanks. When the
  text ends behind such a delimiter an empty field is left.
\<close>

function split_loop :: "string \<Rightarrow> string \<Rightarrow> string list" where
  "split_loop ifs p =
     (if p = [] then []
      else
        (let field = takeWhile (\<lambda>c. c \<notin> set ifs) p;
             rest = dropWhile (\<lambda>c. c \<notin> set ifs) p;
             nonblank = (rest \<noteq> [] \<and> \<not> blank (hd rest));
             after = dropWhile (ifs_blank ifs) (if nonblank then tl rest else rest)
         in if nonblank \<and> after = [] then [field, []]
            else field # split_loop ifs after))"
  by pat_completeness auto

termination
proof (relation "measure (\<lambda>(ifs, p). length p)", goal_cases)
  case (2 ifs p field rest nonblank after)
  show ?case
    unfolding 2(5) 2(4) 2(3) in_measure prod.case by (rule split_rest_shorter [OF 2(1)])
qed simp

declare split_loop.simps [simp del]

definition split_fields :: "string \<Rightarrow> string \<Rightarrow> string list" where
  "split_fields ifs str =
     (if ifs = [] then [str] else split_loop ifs (dropWhile (ifs_blank ifs) str))"

subsection \<open>Tilde expansion and positional parameters\<close>

text \<open>Whether a tilde in front of the text stands for the home directory of the user itself.\<close>

definition tilde_end :: "string \<Rightarrow> bool" where
  "tilde_end s \<longleftrightarrow> s = [] \<or> hd s = CHR ''/'' \<or> hd s = CHR '':''"

fun tilde_rest :: "string \<Rightarrow> string \<Rightarrow> string" where
  "tilde_rest hdir [] = []"
| "tilde_rest hdir (c # p) =
     (if c = CHR '':'' \<and> p \<noteq> [] \<and> hd p = CHR ''~'' \<and> tilde_end (tl p)
      then CHR '':'' # hdir @ tilde_rest hdir (tl p)
      else c # tilde_rest hdir p)"

definition expand_tilde :: "(string \<Rightarrow> string option) \<Rightarrow> string option \<Rightarrow> string \<Rightarrow> string" where
  "expand_tilde home_of hdir s =
     (case s of
        [] \<Rightarrow> s
      | c # p \<Rightarrow>
          if c \<noteq> CHR ''~'' then s
          else if \<not> tilde_end p then
            (let user = takeWhile (\<lambda>c. c \<noteq> CHR ''/'' \<and> c \<noteq> CHR '':'') p in
             case home_of user of
               Some dir \<Rightarrow> dir @ drop (length user) p
             | None \<Rightarrow> s)
          else (case hdir of Some dir \<Rightarrow> dir @ tilde_rest dir p | None \<Rightarrow> s))"

text \<open>The parameters set, joined; the separator is put in only behind a text that is not empty.\<close>

definition join_params :: "environ \<Rightarrow> string \<Rightarrow> int \<Rightarrow> string" where
  "join_params env sep n =
     foldl (\<lambda>r i. case environ_get env (show_int i) of
                    None \<Rightarrow> r
                  | Some pv \<Rightarrow> (if r \<noteq> [] then r @ sep else r) @ value_to_string (var_value pv))
       [] [1..n]"

end
