(* ===== verification/VmOps.thy ===== *)
theory VmOps
  imports Vm Expand Strbuf
begin

text \<open>
  The handlers of \<^verbatim>\<open>vm_run\<close>'s switch in \<^verbatim>\<open>src/vm/vm.c\<close>, one definition for each opcode, up to the command
  opcodes: stack, variables, expansions, jumps, iterators, tests, status and modules. A handler runs
  with the instruction pointer behind the opcode.
\<close>

type_synonym 'w handler = "'w shell \<Rightarrow> 'w vm \<Rightarrow> 'w vm option"

subsection \<open>Stack and constants\<close>

definition op_push_const :: "'w handler" where
  "op_push_const sh vm =
     do { (idx, vm) \<leftarrow> read_u16 vm;
          case pool_at idx vm of
            None \<Rightarrow> Some (vm_fail (sh_host sh)
                      (''constant pool index '' @ show_nat (unat idx) @ '' out of range'') vm)
          | Some s \<Rightarrow> vm_push_string s vm }"

definition op_push_int :: "'w handler" where
  "op_push_int sh vm = do { (val, vm) \<leftarrow> read_i32 vm; vm_push (VT_INTEGER (scast val)) vm }"

definition op_pop :: "'w handler" where
  "op_pop sh vm = do { (v, vm) \<leftarrow> vm_pop vm; Some vm }"

definition op_dup :: "'w handler" where
  "op_dup sh vm = do { v \<leftarrow> vm_peek 0 vm; vm_push v vm }"

definition op_concat :: "'w handler" where
  "op_concat sh vm =
     do { (n, vm) \<leftarrow> read_u16 vm;
          (vals, vm) \<leftarrow> vm_pop_n (uint n) vm;
          vm_push_string (concat (map value_to_string vals)) vm }"

subsection \<open>Special parameters\<close>

definition special_value :: "'w shell \<Rightarrow> 'w vm \<Rightarrow> byte \<Rightarrow> string" where
  "special_value sh vm which =
     (if which = SPECIAL_QUESTION then show_int (vm_laststatus vm)
      else if which = SPECIAL_HASH then
        (case string_var (vm_env vm) ''#'' of Some s \<Rightarrow> s | None \<Rightarrow> ''0'')
      else if which = SPECIAL_AT then join_params (vm_env vm) '' '' (param_count (vm_env vm))
      else if which = SPECIAL_STAR then
        (let sep = (case string_var (vm_env vm) ''IFS'' of Some ifs \<Rightarrow> take 1 ifs | None \<Rightarrow> '' '')
         in join_params (vm_env vm) sep (param_count (vm_env vm)))
      else if which = SPECIAL_DOLLAR then show_int (h_getpid (sh_host sh) (vm_world vm))
      else if which = SPECIAL_BANG then
        (if vm_last_bg_pid vm > 0 then show_int (vm_last_bg_pid vm) else [])
      else if which = SPECIAL_DASH then vm_option_flags vm
      else if which = SPECIAL_ZERO then
        (case vm_script_name vm of Some name \<Rightarrow> name | None \<Rightarrow> ''opsh'')
      else [])"

definition op_get_special :: "'w handler" where
  "op_get_special sh vm =
     do { (which, vm) \<leftarrow> read_u8 vm;
          vm_push_string (special_value sh vm which) vm }"

subsection \<open>Parameter expansion\<close>

definition PE_NONE :: byte where "PE_NONE = 0"
definition PE_DEFAULT :: byte where "PE_DEFAULT = 1"
definition PE_ALTERNATE :: byte where "PE_ALTERNATE = 2"
definition PE_ASSIGN :: byte where "PE_ASSIGN = 3"
definition PE_ERROR :: byte where "PE_ERROR = 4"
definition PE_TRIM :: byte where "PE_TRIM = 5"
definition PE_REPLACE :: byte where "PE_REPLACE = 6"

text \<open>The bits of the flags.\<close>

definition PE_COLON :: nat where "PE_COLON = 0"
definition PE_PREFIX :: nat where "PE_PREFIX = 1"
definition PE_SUFFIX :: nat where "PE_SUFFIX = 2"
definition PE_LONGEST :: nat where "PE_LONGEST = 3"
definition PE_GLOBAL :: nat where "PE_GLOBAL = 4"
definition PE_STRLEN :: nat where "PE_STRLEN = 5"

definition strlen_value :: "environ \<Rightarrow> string \<Rightarrow> string" where
  "strlen_value env name =
     (case environ_get env name of
        None \<Rightarrow> ''0''
      | Some var \<Rightarrow>
          (case var_value var of
             VT_ARRAY es \<Rightarrow> show_nat (length es)
           | VT_STRING s \<Rightarrow> show_nat (utf8_strlen s)
           | _ \<Rightarrow> ''0''))"

text \<open>The text of a variable that is set, and whether that text is empty.\<close>

definition set_value :: "environ \<Rightarrow> string \<Rightarrow> string option" where
  "set_value env name =
     (case environ_get env name of
        None \<Rightarrow> None
      | Some var \<Rightarrow>
          (case var_value var of VT_NONE \<Rightarrow> None | v \<Rightarrow> Some (value_to_string v)))"

definition param_condition :: "environ \<Rightarrow> string \<Rightarrow> bool \<Rightarrow> bool" where
  "param_condition env name use_colon =
     (case set_value env name of
        None \<Rightarrow> False
      | Some _ \<Rightarrow> use_colon \<longrightarrow> string_var env name \<noteq> Some [])"

definition or_empty :: "string option \<Rightarrow> string" where
  "or_empty s = (case s of None \<Rightarrow> [] | Some s \<Rightarrow> s)"

definition expand_word ::
  "('w, 'm) host \<Rightarrow> string \<Rightarrow> byte \<Rightarrow> bool \<Rightarrow> string option \<Rightarrow> 'w vm \<Rightarrow> 'w vm option" where
  "expand_word h name opr condition var_val vm =
     do { (word, vm) \<leftarrow> vm_pop vm;
          if opr = PE_DEFAULT then
            (if condition then vm_push_string (or_empty var_val) vm else vm_push word vm)
          else if opr = PE_ALTERNATE then
            (if condition then vm_push word vm else vm_push_string (or_empty var_val) vm)
          else if opr = PE_ASSIGN then
            (if condition then vm_push_string (or_empty var_val) vm
             else vm_push_string (value_to_string word)
                    (vm_on_env h (\<lambda>env. environ_set env name word) vm))
          else
            (if condition then vm_push_string (or_empty var_val) vm
             else vm_push_string []
                    (vm_fail h (name @ '': '' @ value_to_string word) vm)) }"

definition op_expand_param :: "'w handler" where
  "op_expand_param sh vm =
     do { (idx, vm) \<leftarrow> read_u16 vm;
          (opr, vm) \<leftarrow> read_u8 vm;
          (flags, vm) \<leftarrow> read_u8 vm;
          name \<leftarrow> pool_at idx vm;
          if bit flags PE_STRLEN then vm_push_string (strlen_value (vm_env vm) name) vm
          else
            (let var_val = set_value (vm_env vm) name;
                 condition = param_condition (vm_env vm) name (bit flags PE_COLON)
             in if opr = PE_NONE then vm_push_string (or_empty var_val) vm
                else if opr \<in> {PE_DEFAULT, PE_ALTERNATE, PE_ASSIGN, PE_ERROR}
                then expand_word (sh_host sh) name opr condition var_val vm
                else if opr = PE_TRIM then
                  do { (pat, vm) \<leftarrow> vm_pop_string vm;
                       vm_push_string
                         (case var_val of
                            None \<Rightarrow> []
                          | Some val \<Rightarrow>
                              if bit flags PE_PREFIX then trim_prefix (bit flags PE_LONGEST) pat val
                              else trim_suffix (bit flags PE_LONGEST) pat val) vm }
                else if opr = PE_REPLACE then
                  do { (rep, vm) \<leftarrow> vm_pop_string vm;
                       (pat, vm) \<leftarrow> vm_pop_string vm;
                       vm_push_string
                         (case var_val of
                            None \<Rightarrow> []
                          | Some val \<Rightarrow> replace_pattern pat rep val (bit flags PE_GLOBAL)
                                          (bit flags PE_PREFIX) (bit flags PE_SUFFIX)) vm }
                else Some vm) }"

subsection \<open>Other expansions\<close>

definition arith_message :: "arith_error \<Rightarrow> string" where
  "arith_message e =
     (case e of
        ARITH_ERR_DIV_ZERO \<Rightarrow> ''division by zero''
      | ARITH_ERR_DEPTH \<Rightarrow> ''arithmetic recursion too deep''
      | _ \<Rightarrow> ''arithmetic syntax error'')"

definition strip_paren :: "string \<Rightarrow> string" where
  "strip_paren s = (if s \<noteq> [] \<and> last s = CHR '')'' then butlast s else s)"

definition op_expand_arith :: "'w handler" where
  "op_expand_arith sh vm =
     do { (expr, vm) \<leftarrow> vm_pop_string vm;
          outcome \<leftarrow> arith_eval expr (vm_env vm);
          (result, err, s) \<leftarrow> (case outcome of
                                Arith_value result err s \<Rightarrow> Some (result, err, s)
                              | Arith_undefined \<Rightarrow> None);
          let vm = vm_puts (sh_host sh) (ar_stderr s) (vm\<lparr>vm_env := ar_env s\<rparr>);
          let vm = (if err \<noteq> ARITH_OK
                    then vm_fail (sh_host sh) (arith_message err @ '': '' @ strip_paren expr) vm
                    else vm);
          vm_push_string (show_int (sint result)) vm }"

definition op_split_fields :: "'w handler" where
  "op_split_fields sh vm =
     do { (str, vm) \<leftarrow> vm_pop_string vm;
          let ifs = (case string_var (vm_env vm) ''IFS'' of
                       Some ifs \<Rightarrow> ifs | None \<Rightarrow> [CHR '' '', CHR 0x09, CHR 0x0A]);
          let fields = split_fields ifs str;
          vm \<leftarrow> vm_push_all (map VT_STRING fields) vm;
          vm_push_int (int (length fields)) vm }"

definition has_glob :: "string \<Rightarrow> bool" where
  "has_glob s \<longleftrightarrow> list_ex (\<lambda>c. c = CHR ''*'' \<or> c = CHR ''?'' \<or> c = CHR ''['') s"

definition op_glob :: "'w handler" where
  "op_glob sh vm =
     do { (pattern, vm) \<leftarrow> vm_pop_string vm;
          let paths = (if has_glob pattern
                       then (case h_glob (sh_host sh) (vm_world vm) pattern of
                               None \<Rightarrow> [pattern]
                             | Some paths \<Rightarrow> if paths = [] then [pattern] else paths)
                       else [pattern]);
          vm \<leftarrow> vm_push_all (map VT_STRING paths) vm;
          vm_push_int (int (length paths)) vm }"

fun pop_groups :: "nat \<Rightarrow> 'w vm \<Rightarrow> (vm_value list list \<times> 'w vm) option" where
  "pop_groups 0 vm = Some ([], vm)"
| "pop_groups (Suc n) vm =
     do { (size, vm) \<leftarrow> vm_pop_int vm;
          (vals, vm) \<leftarrow> vm_pop_n size vm;
          (groups, vm) \<leftarrow> pop_groups n vm;
          Some (groups @ [vals], vm) }"

definition op_collect_words :: "'w handler" where
  "op_collect_words sh vm =
     do { (ngroups, vm) \<leftarrow> vm_pop_int vm;
          (if ngroups < 0 then None else Some ());
          (groups, vm) \<leftarrow> pop_groups (nat ngroups) vm;
          vm \<leftarrow> vm_push_all (concat groups) vm;
          vm_push_int (int (length (concat groups))) vm }"

definition op_expand_args :: "'w handler" where
  "op_expand_args sh vm =
     (let n = param_count (vm_env vm);
          args = map (\<lambda>i. case environ_get (vm_env vm) (show_int i) of
                            Some pv \<Rightarrow> var_value pv | None \<Rightarrow> VT_STRING []) [1..n]
      in do { vm \<leftarrow> vm_push_all args vm;
              vm_push_int n vm })"

definition op_quote_remove :: "'w handler" where
  "op_quote_remove sh vm = Some vm"

definition op_expand_tilde :: "'w handler" where
  "op_expand_tilde sh vm =
     do { (s, vm) \<leftarrow> vm_pop_string vm;
          vm_push_string
            (expand_tilde (h_home_of (sh_host sh) (vm_world vm)) (vm_cenv vm ''HOME'') s) vm }"

subsection \<open>Jumps\<close>

definition op_jmp :: "'w handler" where
  "op_jmp sh vm = do { (offset, vm) \<leftarrow> read_i32 vm; Some (vm_jump (sh_host sh) offset vm) }"

definition op_jmp_true :: "'w handler" where
  "op_jmp_true sh vm =
     do { (offset, vm) \<leftarrow> read_i32 vm;
          Some (if vm_laststatus vm = 0 then vm_jump (sh_host sh) offset vm else vm) }"

definition op_jmp_false :: "'w handler" where
  "op_jmp_false sh vm =
     do { (offset, vm) \<leftarrow> read_i32 vm;
          Some (if vm_laststatus vm \<noteq> 0 then vm_jump (sh_host sh) offset vm else vm) }"

definition op_jmp_none :: "'w handler" where
  "op_jmp_none sh vm =
     do { (offset, vm) \<leftarrow> read_i32 vm;
          (v, vm) \<leftarrow> vm_pop vm;
          Some (if v = VT_NONE then vm_jump (sh_host sh) offset vm else vm) }"

subsection \<open>Iterators\<close>

text \<open>All counts are popped before any field.\<close>

fun iter_sizes :: "('w, 'm) host \<Rightarrow> nat \<Rightarrow> nat list \<Rightarrow> 'w vm \<Rightarrow> (nat list option \<times> 'w vm) option" where
  "iter_sizes h 0 sizes vm = Some (Some sizes, vm)"
| "iter_sizes h (Suc n) sizes vm =
     do { (v, vm) \<leftarrow> vm_pop vm;
          (let gs = sint (value_to_integer v)
           in if gs < 0 \<or> gs > int VM_STACK_MAX
              then Some (None, vm_fail h (''INIT_ITER: invalid group size '' @ show_int gs) vm)
              else iter_sizes h n (nat gs # sizes) vm) }"

definition op_init_iter :: "'w handler" where
  "op_init_iter sh vm =
     do { (group_count, vm) \<leftarrow> read_u16 vm;
          (sizes, vm) \<leftarrow> iter_sizes (sh_host sh) (unat group_count) [] vm;
          case sizes of
            None \<Rightarrow> Some vm
          | Some sizes \<Rightarrow>
              if vm_halted vm then Some vm
              else do { (fields, vm) \<leftarrow> vm_pop_n (int (sum_list sizes)) vm;
                   vm_push (VT_ITERATOR (map value_to_string fields) 0) vm } }"

definition op_get_next_iter :: "'w handler" where
  "op_get_next_iter sh vm =
     (case vm_stack vm of
        VT_ITERATOR es pos # vs \<Rightarrow>
          if pos \<ge> length es then vm_push VT_NONE vm
          else vm_push_string (es ! pos) (vm\<lparr>vm_stack := VT_ITERATOR es (pos + 1) # vs\<rparr>)
      | _ \<Rightarrow> Some (vm_fail (sh_host sh) ''GET_NEXT_ITER: no iterator on stack'' vm))"

subsection \<open>Variables\<close>

definition op_get_var :: "'w handler" where
  "op_get_var sh vm =
     do { (name, vm) \<leftarrow> read_name vm;
          case environ_get (vm_env vm) name of
            Some var \<Rightarrow> vm_push (var_value var) vm
          | None \<Rightarrow>
              if vm_opt_nounset vm
              then vm_push_string [] (vm_fail (sh_host sh) (name @ '': unbound variable'') vm)
              else vm_push_string [] vm }"

text \<open>The lookup in the current scope and then along the chain finds what the chain alone does.\<close>

definition op_get_local :: "'w handler" where
  "op_get_local sh vm =
     do { (name, vm) \<leftarrow> read_name vm;
          (case vm_env vm of
             [] \<Rightarrow> None
           | s # _ \<Rightarrow>
               (case ht_get (vars s) name of
                  Some var \<Rightarrow> vm_push (var_value var) vm
                | None \<Rightarrow>
                    (case environ_get (vm_env vm) name of
                       Some var \<Rightarrow> vm_push (var_value var) vm
                     | None \<Rightarrow> vm_push_string [] vm))) }"

definition op_set_var :: "'w handler" where
  "op_set_var sh vm =
     do { (name, vm) \<leftarrow> read_name vm;
          (val, vm) \<leftarrow> vm_pop vm;
          Some (vm_on_env (sh_host sh) (\<lambda>env. environ_assign env name val) vm) }"

definition op_set_local :: "'w handler" where
  "op_set_local sh vm =
     do { (name, vm) \<leftarrow> read_name vm;
          (val, vm) \<leftarrow> vm_pop vm;
          Some (vm_on_env (sh_host sh) (\<lambda>env. environ_set env name val) vm) }"

definition op_push_scope :: "'w handler" where
  "op_push_scope sh vm =
     do { (flags, vm) \<leftarrow> read_u8 vm;
          Some (vm\<lparr>vm_env := environ_new (vm_env vm) (bit flags 0)\<rparr>) }"

definition op_pop_scope :: "'w handler" where
  "op_pop_scope sh vm =
     (if vm_env vm = [] then None
      else if tl (vm_env vm) = [] then Some (vm_fail (sh_host sh) ''cannot pop global scope'' vm)
      else Some (vm_drop_scope vm))"

definition op_export :: "'w handler" where
  "op_export sh vm =
     do { (name, vm) \<leftarrow> read_name vm;
          Some (vm\<lparr>vm_env := environ_export (vm_env vm) name\<rparr>) }"

subsection \<open>Arrays\<close>

definition op_get_array :: "'w handler" where
  "op_get_array sh vm =
     do { (name, vm) \<leftarrow> read_name vm;
          (idx, vm) \<leftarrow> vm_pop_int vm;
          vm_push_string
            (case environ_get (vm_env vm) name of
               None \<Rightarrow> []
             | Some var \<Rightarrow>
                 (case var_value var of
                    VT_ARRAY es \<Rightarrow> if 0 \<le> idx \<and> idx < int (length es) then es ! nat idx else []
                  | _ \<Rightarrow> [])) vm }"

text \<open>The elements after a store at an index: extended with empty texts up to it.\<close>

definition store_at :: "string list \<Rightarrow> int \<Rightarrow> string \<Rightarrow> string list" where
  "store_at es idx s =
     (let es = (if idx \<ge> int (length es) then es @ replicate (nat idx + 1 - length es) [] else es)
      in if idx \<ge> 0 then es[nat idx := s] else es)"

definition op_set_array :: "'w handler" where
  "op_set_array sh vm =
     do { (name, vm) \<leftarrow> read_name vm;
          (idx, vm) \<leftarrow> vm_pop_int vm;
          (str, vm) \<leftarrow> vm_pop_string vm;
          (if idx \<ge> INT_MAX then None else Some ());
          (case map_option var_value (environ_get (vm_env vm) name) of
             Some (VT_ARRAY es) \<Rightarrow>
               Some (vm\<lparr>vm_env := environ_modify (\<lambda>var. var\<lparr>var_value := VT_ARRAY (store_at es idx str)\<rparr>)
                                    (vm_env vm) name\<rparr>)
           | _ \<Rightarrow>
               (let es = replicate (nat (max 1 (idx + 1))) [];
                    es = (if idx \<ge> 0 then es[nat idx := str] else es)
                in Some (vm_on_env (sh_host sh) (\<lambda>env. environ_assign env name (VT_ARRAY es)) vm))) }"

definition op_set_array_bulk :: "'w handler" where
  "op_set_array_bulk sh vm =
     do { (idx, vm) \<leftarrow> read_u16 vm;
          (n, vm) \<leftarrow> read_u16 vm;
          name \<leftarrow> pool_at idx vm;
          (vals, vm) \<leftarrow> vm_pop_n (uint n) vm;
          (let arr = VT_ARRAY (map value_to_string vals) in
           case vm_env vm of
             [] \<Rightarrow> None
           | s # _ \<Rightarrow>
               Some (vm_on_env (sh_host sh)
                 (\<lambda>env. if is_temporary s then environ_set env name arr else environ_assign env name arr)
                 vm)) }"

subsection \<open>Loops\<close>

definition op_loop_enter :: "'w handler" where
  "op_loop_enter sh vm =
     Some (if vm_loop_depth vm \<ge> VM_LOOP_STACK_MAX then vm_fail (sh_host sh) ''loop nesting too deep'' vm
           else vm\<lparr>vm_loop_tops := (vm_loop_tops vm)(vm_loop_depth vm := length (vm_stack vm)),
                   vm_loop_depth := vm_loop_depth vm + 1\<rparr>)"

definition op_loop_exit :: "'w handler" where
  "op_loop_exit sh vm = Some (vm\<lparr>vm_loop_depth := vm_loop_depth vm - 1\<rparr>)"

subsection \<open>Status\<close>

definition op_negate_status :: "'w handler" where
  "op_negate_status sh vm = Some (vm_status (if vm_laststatus vm = 0 then 1 else 0) vm)"

definition op_errexit_push :: "'w handler" where
  "op_errexit_push sh vm = Some (vm\<lparr>vm_errexit_suppressed := vm_errexit_suppressed vm + 1\<rparr>)"

definition op_errexit_pop :: "'w handler" where
  "op_errexit_pop sh vm = Some (vm\<lparr>vm_errexit_suppressed := vm_errexit_suppressed vm - 1\<rparr>)"

definition op_status_zero :: "'w handler" where
  "op_status_zero sh vm = Some (vm_status 0 vm)"

definition op_push_status :: "'w handler" where
  "op_push_status sh vm = vm_push_int (vm_laststatus vm) vm"

text \<open>The union is read as an integer whatever the value's type says.\<close>

definition op_pop_status :: "'w handler" where
  "op_pop_status sh vm =
     do { (v, vm) \<leftarrow> vm_pop vm;
          case v of VT_INTEGER i \<Rightarrow> Some (vm_status (int_of_i64 i) vm) | _ \<Rightarrow> None }"

end
