(* ===== verification/BuiltinTable.thy ===== *)
theory BuiltinTable
  imports Job
begin

text \<open>
  The names of \<^verbatim>\<open>builtin_table\<close> in \<^verbatim>\<open>src/builtins/builtins.c\<close>, in its order: the compiler turns a command
  name into an index in it, the machine calls the function at an index.
\<close>

definition builtin_names :: "string list" where
  "builtin_names =
     [''echo'', ''exit'', ''true'', ''false'', '':'', ''cd'', ''pwd'', ''export'', ''unset'', ''readonly'',
      ''local'', ''shift'', ''test'', ''['', ''printf'', ''read'', ''return'', ''type'', ''trap'', ''eval'',
      ''.'', ''source'', ''command'', ''exec'', ''wait'', ''kill'', ''umask'', ''set'', ''getopts'', ''fg'',
      ''bg'', ''jobs'']"

definition builtin_lookup :: "string \<Rightarrow> nat option" where
  "builtin_lookup name = find_index (\<lambda>b. b = name) builtin_names"

definition builtin_count :: nat where
  "builtin_count = length builtin_names"

lemma builtin_lookup_sound: "builtin_lookup name = Some i \<Longrightarrow> i < builtin_count \<and> builtin_names ! i = name"
  by (auto simp: builtin_lookup_def builtin_count_def dest: find_index_Some)

end
