(* ===== verification/VmCmds.thy ===== *)
theory VmCmds
  imports VmOps BuiltinTable
begin

text \<open>
  The command opcodes of \<^verbatim>\<open>vm_run\<close> in \<^verbatim>\<open>src/vm/vm.c\<close>: builtins, functions, external programs,
  substitutions, subshells, background commands, pipelines, redirections, tests and imports; then
  the dispatch, the safe point between instructions and the run itself. A forked child is the host's;
  what it runs is handed to it as a \<open>process\<close>.
\<close>

definition on_world :: "('w \<Rightarrow> 'w) \<Rightarrow> 'w vm \<Rightarrow> 'w vm" where
  "on_world f vm = vm\<lparr>vm_world := f (vm_world vm)\<rparr>"

definition ask :: "('w \<Rightarrow> 'a \<times> 'w) \<Rightarrow> 'w vm \<Rightarrow> 'a \<times> 'w vm" where
  "ask f vm = (case f (vm_world vm) of (a, w) \<Rightarrow> (a, vm\<lparr>vm_world := w\<rparr>))"

subsection \<open>Events\<close>

definition blank_event :: "event_type \<Rightarrow> event" where
  "blank_event t = \<lparr>ev_type = t, ev_filename = None, ev_status = 0, ev_id = 0, ev_name = None, ev_message = None\<rparr>"

definition vm_emit :: "('w, 'm) host \<Rightarrow> event \<Rightarrow> 'w vm \<Rightarrow> 'w vm" where
  "vm_emit h ev vm =
     (case vm_sink vm of None \<Rightarrow> vm | Some sink \<Rightarrow> on_world (\<lambda>w. h_emit h w sink ev) vm)"

definition emit_start :: "('w, 'm) host \<Rightarrow> i64 \<Rightarrow> string option \<Rightarrow> 'w vm \<Rightarrow> 'w vm" where
  "emit_start h cmd name = vm_emit h (blank_event EVENT_COMMAND_START\<lparr>ev_id := cmd, ev_name := name\<rparr>)"

definition emit_end :: "('w, 'm) host \<Rightarrow> i64 \<Rightarrow> int \<Rightarrow> 'w vm \<Rightarrow> 'w vm" where
  "emit_end h cmd status =
     vm_emit h (blank_event EVENT_COMMAND_END\<lparr>ev_id := cmd, ev_status := word_of_int status\<rparr>)"

definition next_command :: "'w vm \<Rightarrow> i64 \<times> 'w vm" where
  "next_command vm = (vm_next_command_id vm, vm\<lparr>vm_next_command_id := vm_next_command_id vm + 1\<rparr>)"

subsection \<open>Function calls\<close>

text \<open>
  The return to the caller. The scope that is destroyed is the current one, the function's own unless
  the function has popped that; after the last one the pointer is null.
\<close>

definition vm_return_frame :: "'w vm \<Rightarrow> 'w vm option" where
  "vm_return_frame vm =
     (case vm_calls vm of
        [] \<Rightarrow> None
      | f # fs \<Rightarrow>
          if vm_env vm = [] then None
          else Some ((vm_drop_scope vm)
                 \<lparr>vm_calls := fs,
                  vm_stack := drop (length (vm_stack vm) - cf_stack_base f) (vm_stack vm),
                  vm_loop_depth := cf_loop_depth f,
                  vm_ip := cf_return_ip f,
                  vm_image := cf_image f\<rparr>))"

fun bind_params :: "('w, 'm) host \<Rightarrow> nat \<Rightarrow> vm_value list \<Rightarrow> 'w vm \<Rightarrow> 'w vm" where
  "bind_params h i [] vm = vm"
| "bind_params h i (v # vs) vm =
     bind_params h (i + 1) vs (vm_on_env h (\<lambda>env. environ_set env (show_nat i) v) vm)"

text \<open>The function's scope with \<open>$1\<close>, \<open>$2\<close>, \dots and \<open>$#\<close>, and the jump into its image.\<close>

definition enter_func :: "('w, 'm) host \<Rightarrow> vm_func \<Rightarrow> vm_value list \<Rightarrow> 'w vm \<Rightarrow> 'w vm" where
  "enter_func h f argv vm =
     (let frame = \<lparr>cf_return_ip = vm_ip vm, cf_stack_base = length (vm_stack vm),
                   cf_loop_depth = vm_loop_depth vm, cf_image = vm_image vm\<rparr>;
          vm = vm\<lparr>vm_calls := frame # vm_calls vm, vm_env := environ_new (vm_env vm) False\<rparr>;
          vm = bind_params h 1 (tl argv) vm;
          vm = vm_on_env h (\<lambda>env. environ_set env ''#'' (VT_STRING (show_nat (length argv - 1)))) vm
      in vm\<lparr>vm_image := (case fn_image f of Some i \<Rightarrow> i | None \<Rightarrow> vm_main_image vm),
            vm_ip := fn_offset f\<rparr>)"

definition call_func :: "('w, 'm) host \<Rightarrow> vm_func \<Rightarrow> vm_value list \<Rightarrow> 'w vm \<Rightarrow> 'w vm" where
  "call_func h f argv vm =
     (if length (vm_calls vm) \<ge> VM_CALL_STACK_MAX then vm_fail h ''call stack overflow'' vm
      else enter_func h f argv vm)"

definition op_exec_func :: "'w handler" where
  "op_exec_func sh vm =
     do { (func_idx, vm) \<leftarrow> read_u16 vm;
          (argc, vm) \<leftarrow> vm_pop_int vm;
          (argv, vm) \<leftarrow> vm_pop_n argc vm;
          Some (if unat func_idx \<ge> length (vm_funcs vm) mod 2 ^ 16
                then vm_status 127
                  (vm_complain (sh_host sh) (''unknown function index '' @ show_nat (unat func_idx)) vm)
                else call_func (sh_host sh) (vm_funcs vm ! unat func_idx) argv vm) }"

definition op_ret :: "'w handler" where
  "op_ret sh vm =
     (if vm_calls vm = [] then Some (vm\<lparr>vm_halted := True\<rparr>) else vm_return_frame vm)"

subsection \<open>Builtins\<close>

definition xtrace_line :: "environ \<Rightarrow> vm_value list \<Rightarrow> string" where
  "xtrace_line env argv =
     (case string_var env ''PS4'' of Some ps4 \<Rightarrow> ps4 | None \<Rightarrow> ''+ '') @
     concat (map (\<lambda>i. (if i > 0 then '' '' else []) @ value_to_string (argv ! i)) [0..<length argv]) @
     [CHR 0x0A]"

text \<open>The status of a builtin, and the exit when it is \<^verbatim>\<open>exit\<close>.\<close>

definition after_builtin :: "'w shell \<Rightarrow> nat \<Rightarrow> int \<Rightarrow> 'w vm \<Rightarrow> 'w vm option" where
  "after_builtin sh idx status vm =
     (if builtin_names ! idx = ''exit'' then vm_exit sh status (vm\<lparr>vm_exit_requested := True\<rparr>)
      else Some vm)"

definition op_exec_builtin :: "'w builtins \<Rightarrow> 'w handler" where
  "op_exec_builtin bi sh vm =
     do { (idx, vm) \<leftarrow> read_u16 vm;
          (argc, vm) \<leftarrow> vm_pop_int vm;
          (argv, vm) \<leftarrow> vm_pop_n argc vm;
          let h = sh_host sh;
          let vm = (if vm_opt_xtrace vm then vm_puts h (xtrace_line (vm_env vm) argv) vm else vm);
          if unat idx < builtin_count then
            (let (cmd, vm) = next_command vm;
                 vm = emit_start h cmd (Some (builtin_names ! unat idx)) vm
             in do { (status, vm) \<leftarrow> bi sh (unat idx) argv vm;
                     let vm = emit_end h cmd status (vm_status status vm);
                     vm \<leftarrow> after_builtin sh (unat idx) status vm;
                     if vm_return_requested vm then
                       (if vm_calls vm \<noteq> []
                        then vm_return_frame (vm\<lparr>vm_return_requested := False\<rparr>)
                        else Some (vm\<lparr>vm_halted := True\<rparr>))
                     else Some vm })
          else Some (vm_status 127
                 (vm_complain h (''unknown builtin index '' @ show_nat (unat idx)) vm)) }"

subsection \<open>Simple commands\<close>

definition exit_code :: "wstatus \<Rightarrow> int" where
  "exit_code st = (case st of Exited n \<Rightarrow> n | Signaled n \<Rightarrow> 128 + n | _ \<Rightarrow> 1)"

text \<open>
  An external program: forked and waited for. A child that cannot execute it ends with 127 when there
  is no such program and with 126 otherwise.
\<close>

definition exec_external :: "('w, 'w vm) host \<Rightarrow> string list \<Rightarrow> 'w vm \<Rightarrow> 'w vm" where
  "exec_external h args vm =
     (if vm_no_fork vm then vm_status 127 vm
      else
        (let program = Exec_program args (environ_export_to_c (vm_env vm) (vm_cenv vm));
             (pid, vm) = ask (\<lambda>w. h_fork h w program) vm
         in if pid < 0 then vm_status 126 (vm_complain h ''fork'' vm)
            else
              (let (st, vm) = ask (\<lambda>w. h_wait h w pid) vm
               in vm_status (case st of None \<Rightarrow> 127 | Some st \<Rightarrow> exit_code st) vm)))"

text \<open>The lookup at run time: a function, then a builtin, then a program. A call emits no end event.\<close>

definition op_exec_simple :: "'w builtins \<Rightarrow> 'w handler" where
  "op_exec_simple bi sh vm =
     do { (flags, vm) \<leftarrow> read_u8 vm;
          (argc, vm) \<leftarrow> vm_pop_int vm;
          (argv, vm) \<leftarrow> vm_pop_n argc vm;
          let h = sh_host sh;
          let args = map value_to_string argv;
          let (cmd, vm) = next_command vm;
          let vm = emit_start h cmd (if args = [] then None else Some (hd args)) vm;
          if args = [] then Some (emit_end h cmd (vm_laststatus vm) vm)
          else
            (case find_func (vm_funcs vm) (hd args) of
               Some fi \<Rightarrow>
                 Some (if length (vm_calls vm) \<ge> VM_CALL_STACK_MAX
                       then (let vm = vm_fail h ''call stack overflow'' vm
                             in emit_end h cmd (vm_laststatus vm) vm)
                       else enter_func h (vm_funcs vm ! fi) argv vm)
             | None \<Rightarrow>
                 (case builtin_lookup (hd args) of
                    Some i \<Rightarrow>
                      do { (status, vm) \<leftarrow> bi sh i argv vm;
                           vm \<leftarrow> after_builtin sh i status (vm_status status vm);
                           vm \<leftarrow> (if vm_return_requested vm then
                                   (let vm = vm\<lparr>vm_return_requested := False\<rparr>
                                    in if vm_calls vm \<noteq> [] then vm_return_frame vm
                                       else Some (vm\<lparr>vm_halted := True\<rparr>))
                                 else Some vm);
                           Some (emit_end h cmd (vm_laststatus vm) vm) }
                  | None \<Rightarrow>
                      (let vm = exec_external h args vm
                       in Some (emit_end h cmd (vm_laststatus vm) vm)))) }"

subsection \<open>Children that run the machine\<close>

text \<open>The copy of the machine a child runs, from an offset of the current image.\<close>

definition child_vm :: "'w vm \<Rightarrow> nat \<Rightarrow> 'w vm" where
  "child_vm vm offset =
     vm\<lparr>vm_sigs := signal_reset (vm_sigs vm), vm_jobs := job_table_reset (vm_jobs vm),
        vm_exit_trap := None, vm_sink := None, vm_ip := offset, vm_halted := False\<rparr>"

definition strip_newlines :: "string \<Rightarrow> string" where
  "strip_newlines s = rev (dropWhile (\<lambda>c. c = CHR 0x0A) (rev s))"

definition op_cmd_subst :: "'w handler" where
  "op_cmd_subst sh vm =
     do { (offset, vm) \<leftarrow> read_i32 vm;
          let h = sh_host sh;
          let (fds, vm) = ask (h_pipe h) vm;
          case fds of
            None \<Rightarrow> map_option (vm_status 1) (vm_push_string [] (vm_complain h ''pipe failed'' vm))
          | Some (rd, wr) \<Rightarrow>
              if vm_no_fork vm
              then map_option (vm_status 127)
                     (vm_push_string [] (on_world (\<lambda>w. h_close h (h_close h w rd) wr) vm))
              else
                (let (pid, vm) = ask (\<lambda>w. h_fork h w (Machine [Stdout_to wr] (child_vm vm (unat offset)))) vm
                 in if pid < 0
                    then map_option (vm_status 1)
                           (vm_push_string []
                             (on_world (\<lambda>w. h_close h (h_close h w rd) wr) (vm_complain h ''fork failed'' vm)))
                    else
                      (let vm = on_world (\<lambda>w. h_close h w wr) vm;
                           (text, vm) = ask (\<lambda>w. h_read_all h w rd) vm;
                           vm = on_world (\<lambda>w. h_close h w rd) vm;
                           (st, vm) = ask (\<lambda>w. h_wait h w pid) vm
                       in case st of
                            None \<Rightarrow> None
                          | Some st \<Rightarrow>
                              vm_push_string (strip_newlines text)
                                (vm_status (case st of Exited n \<Rightarrow> n | _ \<Rightarrow> 1) vm))) }"

definition op_subshell :: "'w handler" where
  "op_subshell sh vm =
     do { (offset, vm) \<leftarrow> read_i32 vm;
          let h = sh_host sh;
          Some (if vm_no_fork vm then vm_status 127 vm
                else
                  (let (pid, vm) = ask (\<lambda>w. h_fork h w (Machine [] (child_vm vm (unat offset)))) vm
                   in if pid < 0 then vm_status 1 (vm_complain h ''fork failed'' vm)
                      else
                        (let (st, vm) = ask (\<lambda>w. h_wait h w pid) vm
                         in vm_status (case st of None \<Rightarrow> 127 | Some st \<Rightarrow> exit_code st) vm))) }"

definition op_background :: "'w handler" where
  "op_background sh vm =
     do { (offset, vm) \<leftarrow> read_i32 vm;
          let h = sh_host sh;
          let (cmd, vm) = next_command vm;
          let vm = emit_start h cmd (Some ''(background)'') vm;
          Some
            (if vm_no_fork vm then vm_status 0 vm
             else
               (let child = (child_vm vm (unat offset))\<lparr>vm_opt_errexit := False\<rparr>;
                    (pid, vm) = ask (\<lambda>w. h_fork h w (Machine [Own_group, Stdin_null] child)) vm;
                    vm = (if pid < 0 then vm_status 1 (vm_complain h ''fork failed'' vm)
                          else (on_world (\<lambda>w. h_setpgid h w pid pid) vm)
                                 \<lparr>vm_last_bg_pid := pid, vm_laststatus := 0,
                                  vm_jobs := snd (job_add (vm_jobs vm) pid [pid] ''(background)'')\<rparr>)
                in emit_end h cmd (vm_laststatus vm) vm)) }"

subsection \<open>Pipelines\<close>

definition hex_byte :: "byte \<Rightarrow> string" where
  "hex_byte b = [hex_digit (unat b div 16), hex_digit (unat b mod 16)]"

text \<open>The operands: an offset behind each \<^verbatim>\<open>PIPELINE_CMD\<close>, then the flags behind \<^verbatim>\<open>PIPELINE_END\<close>.\<close>

fun read_members ::
  "('w, 'm) host \<Rightarrow> nat \<Rightarrow> 'w vm \<Rightarrow> (nat list option \<times> 'w vm) option" where
  "read_members h 0 vm = Some (Some [], vm)"
| "read_members h (Suc n) vm =
     do { (b, vm) \<leftarrow> read_u8 vm;
          if b \<noteq> opcode_byte OP_PIPELINE_CMD
          then Some (None, vm_fail h (''expected PIPELINE_CMD, got 0x'' @ hex_byte b) vm)
          else do { (off, vm) \<leftarrow> read_i32 vm;
                    (offs, vm) \<leftarrow> read_members h n vm;
                    Some (map_option (\<lambda>offs. unat off # offs) offs, vm) } }"

text \<open>
  The loop that forks the members: the descriptor to read from, the process group and the children so
  far. It ends early when there is no pipe or no child to be had.
\<close>

fun fork_members ::
  "('w, 'w vm) host \<Rightarrow> nat list \<Rightarrow> int \<Rightarrow> int \<Rightarrow> int list \<Rightarrow> 'w vm \<Rightarrow> int list \<times> int \<times> int \<times> 'w vm" where
  "fork_members h [] prev pgid pids vm = (pids, prev, pgid, vm)"
| "fork_members h (off # offs) prev pgid pids vm =
     (let (fds, vm) = (if offs \<noteq> [] then ask (h_pipe h) vm else (Some (-1, -1), vm)) in
      case fds of
        None \<Rightarrow> (pids, prev, pgid, vm_status 1 (vm_complain h ''pipe failed'' vm))
      | Some (rd, wr) \<Rightarrow>
          (let setup = (if pgid = 0 then Own_group else Join_group pgid) #
                       (if prev \<ge> 0 then [Stdin_from prev] else []) @
                       (if offs \<noteq> [] then [Stdout_to wr] else []);
               (pid, vm) = ask (\<lambda>w. h_fork h w (Machine setup (child_vm vm off))) vm
           in if pid < 0
              then (pids, prev, pgid,
                    vm_status 1 (on_world (\<lambda>w. if offs \<noteq> [] then h_close h (h_close h w rd) wr else w)
                                   (vm_complain h ''fork failed'' vm)))
              else
                (let pgid = (if pids = [] then pid else pgid);
                     vm = on_world (\<lambda>w. h_setpgid h w pid pgid) vm;
                     vm = on_world (\<lambda>w. if prev \<ge> 0 then h_close h w prev else w) vm;
                     vm = on_world (\<lambda>w. if offs \<noteq> [] then h_close h w wr else w) vm
                 in fork_members h offs (if offs \<noteq> [] then rd else -1) pgid (pids @ [pid]) vm)))"

definition signo_num :: "signo \<Rightarrow> int" where
  "signo_num s = (case s of SIGINT \<Rightarrow> 2 | SIGTERM \<Rightarrow> 15 | SIGCHLD \<Rightarrow> 17 | SIGTSTP \<Rightarrow> 20
                  | SIGPIPE \<Rightarrow> 13 | SIGTTIN \<Rightarrow> 21 | SIGTTOU \<Rightarrow> 22)"

text \<open>\<^verbatim>\<open>job_wait_fg\<close> on the machine's job table, with the signals it forwards.\<close>

definition vm_wait_fg :: "('w, 'm) host \<Rightarrow> int \<Rightarrow> 'w vm \<Rightarrow> (int \<times> 'w vm) option" where
  "vm_wait_fg h jid vm =
     (let (results, vm) = ask (\<lambda>w. h_wait_group h w jid) vm in
      case job_wait_fg (vm_jobs vm) jid (vm_sigs vm) results of
        None \<Rightarrow> None
      | Some (status, jt, sigs, kills) \<Rightarrow>
          Some (status,
            (on_world (\<lambda>w. fold (\<lambda>(pid, s) w. snd (h_kill h w pid (signo_num s))) kills w) vm)
              \<lparr>vm_jobs := jt, vm_sigs := sigs\<rparr>))"

text \<open>A job that is done is marked as reported, and the reported ones are reaped.\<close>

definition reap_if_done :: "job_table \<Rightarrow> int \<Rightarrow> job_table" where
  "reap_if_done jt jid =
     (case job_find_by_id jt jid of
        None \<Rightarrow> jt
      | Some i \<Rightarrow>
          if j_state (jt_jobs jt ! i) = JOB_DONE
          then job_reap_done (jt\<lparr>jt_jobs := (jt_jobs jt)[i := (jt_jobs jt ! i)\<lparr>j_notified := True\<rparr>]\<rparr>)
          else jt)"

definition wait_pipeline :: "('w, 'm) host \<Rightarrow> int \<Rightarrow> int list \<Rightarrow> 'w vm \<Rightarrow> 'w vm option" where
  "wait_pipeline h pgid pids vm =
     (if pgid > 0 \<and> pids \<noteq> [] then
        (let (jid, jt) = job_add (vm_jobs vm) pgid pids ''(pipeline)'';
             vm = vm\<lparr>vm_jobs := jt\<rparr>
         in if jid > 0
            then do { (status, vm) \<leftarrow> vm_wait_fg h jid vm;
                      Some (vm\<lparr>vm_laststatus := status, vm_jobs := reap_if_done (vm_jobs vm) jid\<rparr>) }
            else Some vm)
      else Some vm)"

definition negate_if :: "bool \<Rightarrow> 'w vm \<Rightarrow> 'w vm" where
  "negate_if b vm = (if b then vm_status (if vm_laststatus vm = 0 then 1 else 0) vm else vm)"

definition op_pipeline :: "'w handler" where
  "op_pipeline sh vm =
     do { (cmd_count, vm) \<leftarrow> read_u16 vm;
          let h = sh_host sh;
          (offsets, vm) \<leftarrow> read_members h (unat cmd_count) vm;
          case offsets of
            None \<Rightarrow> Some vm
          | Some offsets \<Rightarrow>
              do { (end_op, vm) \<leftarrow> read_u8 vm;
                   if end_op \<noteq> opcode_byte OP_PIPELINE_END
                   then Some (vm_fail h (''expected PIPELINE_END, got 0x'' @ hex_byte end_op) vm)
                   else
                     do { (flags, vm) \<leftarrow> read_u8 vm;
                          let negate = bit flags 0;
                          if vm_no_fork vm then Some (negate_if negate (vm_status 127 vm))
                          else
                            (case fork_members h offsets (-1) 0 [] vm of
                               (pids, prev, pgid, vm) \<Rightarrow>
                                 (let vm = on_world (\<lambda>w. if prev \<ge> 0 then h_close h w prev else w) vm
                                  in map_option (negate_if negate) (wait_pipeline h pgid pids vm))) } } }"

end
