(* ===== verification/VmRun.thy ===== *)
theory VmRun
  imports VmCmds
begin

text \<open>
  The rest of \<^verbatim>\<open>vm_run\<close> in \<^verbatim>\<open>src/vm/vm.c\<close>: redirections, tests and imports, the dispatch on the opcode,
  the safe point between instructions, \<^verbatim>\<open>set -e\<close>, and the loop. The loop has fuel: a round for each
  instruction, and the machines an instruction starts in turn run with the fuel that is left.
\<close>

subsection \<open>Redirections\<close>

definition op_redir_save :: "'w handler" where
  "op_redir_save sh vm =
     Some (if length (vm_redirs vm) \<ge> VM_REDIR_STACK_MAX
           then vm_fail (sh_host sh) ''redirection stack overflow'' vm
           else vm\<lparr>vm_redirs := [] # vm_redirs vm\<rparr>)"

definition restore_fd :: "('w, 'm) host \<Rightarrow> saved_fd \<Rightarrow> 'w \<Rightarrow> 'w" where
  "restore_fd h sf w =
     (if saved_fd sf \<ge> 0 then h_close h (h_dup2 h w (saved_fd sf) (original_fd sf)) (saved_fd sf)
      else h_close h w (original_fd sf))"

definition op_redir_restore :: "'w handler" where
  "op_redir_restore sh vm =
     Some (case vm_redirs vm of
             [] \<Rightarrow> vm
           | frame # frames \<Rightarrow>
               on_world (fold (restore_fd (sh_host sh)) (rev frame)) (vm\<lparr>vm_redirs := frames\<rparr>))"

text \<open>
  The original of a descriptor is saved in the innermost frame, of at most 16 entries. An open or a
  duplication drops an entry whose \<^verbatim>\<open>dup\<close> failed; a close and a here-document keep it, so the restore
  closes the descriptor again.
\<close>

definition save_fd :: "('w, 'm) host \<Rightarrow> bool \<Rightarrow> int \<Rightarrow> 'w vm \<Rightarrow> 'w vm" where
  "save_fd h keep_failed fd vm =
     (case vm_redirs vm of
        [] \<Rightarrow> vm
      | frame # frames \<Rightarrow>
          if length frame < 16 then
            (let (saved, vm) = ask (\<lambda>w. h_dup h w fd) vm
             in if saved \<ge> 0 \<or> keep_failed
                then vm\<lparr>vm_redirs := (frame @ [\<lparr>original_fd = fd, saved_fd = saved\<rparr>]) # frames\<rparr>
                else vm)
          else vm)"

definition REDIR_IN :: byte where "REDIR_IN = 0"
definition REDIR_OUT :: byte where "REDIR_OUT = 1"
definition REDIR_APPEND :: byte where "REDIR_APPEND = 2"
definition REDIR_CLOBBER :: byte where "REDIR_CLOBBER = 3"
definition REDIR_RDWR :: byte where "REDIR_RDWR = 4"

definition open_flags :: "byte \<Rightarrow> open_flag list" where
  "open_flags rtype =
     (if rtype = REDIR_OUT \<or> rtype = REDIR_CLOBBER then [O_WRONLY, O_CREAT, O_TRUNC]
      else if rtype = REDIR_APPEND then [O_WRONLY, O_CREAT, O_APPEND]
      else if rtype = REDIR_RDWR then [O_RDWR, O_CREAT]
      else [O_RDONLY])"

definition op_redir_open :: "'w handler" where
  "op_redir_open sh vm =
     do { (fd, vm) \<leftarrow> read_u8 vm;
          (rtype, vm) \<leftarrow> read_u8 vm;
          (filename, vm) \<leftarrow> vm_pop_string vm;
          let h = sh_host sh;
          let (new_fd, vm) = ask (\<lambda>w. h_open h w filename (open_flags rtype)) vm;
          Some (if new_fd < 0 then vm_status 1 (vm_complain h (filename @ '': cannot open'') vm)
                else
                  (let vm = save_fd h False (uint fd) vm;
                       vm = on_world (\<lambda>w. h_dup2 h w new_fd (uint fd)) vm
                   in if new_fd \<noteq> uint fd then on_world (\<lambda>w. h_close h w new_fd) vm else vm)) }"

definition op_redir_dup :: "'w handler" where
  "op_redir_dup sh vm =
     do { (fd, vm) \<leftarrow> read_u8 vm;
          (flags, vm) \<leftarrow> read_u8 vm;
          (target, vm) \<leftarrow> vm_pop_string vm;
          let h = sh_host sh;
          let target_fd = int_of_i64 (fst (strtoll 10 target));
          Some (on_world (\<lambda>w. h_dup2 h w target_fd (uint fd)) (save_fd h False (uint fd) vm)) }"

definition op_redir_close :: "'w handler" where
  "op_redir_close sh vm =
     do { (fd, vm) \<leftarrow> read_u8 vm;
          let h = sh_host sh;
          Some (on_world (\<lambda>w. h_close h w (uint fd)) (save_fd h True (uint fd) vm)) }"

definition op_redir_here :: "'w handler" where
  "op_redir_here sh vm =
     do { (fd, vm) \<leftarrow> read_u8 vm;
          (here_flags, vm) \<leftarrow> read_u8 vm;
          (content, vm) \<leftarrow> vm_pop_string vm;
          let h = sh_host sh;
          let tmpdir = (case vm_cenv vm ''TMPDIR'' of Some d \<Rightarrow> d | None \<Rightarrow> ''/tmp'');
          let (tmpfd, vm) = ask (\<lambda>w. h_mkstemp h w (take 4095 (tmpdir @ ''/opsh-here-XXXXXX''))) vm;
          Some (if tmpfd < 0
                then vm_status 1 (vm_complain h ''cannot create temp file for here-document'' vm)
                else
                  (let vm = on_world (\<lambda>w. h_rewind h (h_write_all h w tmpfd content) tmpfd) vm;
                       vm = save_fd h True (uint fd) vm
                   in on_world (\<lambda>w. h_close h (h_dup2 h w tmpfd (uint fd)) tmpfd) vm)) }"

subsection \<open>Tests\<close>

text \<open>The operator of \<^verbatim>\<open>test_file\<close> for a file test's number.\<close>

definition file_ops :: "(byte \<times> string) list" where
  "file_ops =
     [(TEST_F, ''-f''), (TEST_D, ''-d''), (TEST_E, ''-e''), (TEST_S, ''-s''), (TEST_R, ''-r''),
      (TEST_W, ''-w''), (TEST_X, ''-x''), (TEST_L, ''-L''), (TEST_P, ''-p''), (TEST_B, ''-b''),
      (TEST_C, ''-c''), (TEST_SS, ''-S''), (TEST_G, ''-g''), (TEST_U, ''-u''), (TEST_K, ''-k''),
      (TEST_O, ''-O''), (TEST_GG, ''-G''), (TEST_NT, ''-N'')]"

definition test_unary :: "('w, 'm) host \<Rightarrow> 'w \<Rightarrow> byte \<Rightarrow> string \<Rightarrow> int" where
  "test_unary h w opr s =
     (case map_of file_ops opr of
        Some name \<Rightarrow> test_file h w name s
      | None \<Rightarrow>
          if opr = TEST_T then status_of (h_isatty h w (int_of_i64 (fst (strtoll 10 s))))
          else if opr = TEST_N then status_of (s \<noteq> [])
          else if opr = TEST_Z then status_of (s = [])
          else 1)"

definition op_test_unary :: "'w handler" where
  "op_test_unary sh vm =
     do { (opr, vm) \<leftarrow> read_u8 vm;
          (s, vm) \<leftarrow> vm_pop_string vm;
          Some (vm_status (test_unary (sh_host sh) (vm_world vm) opr s) vm) }"

text \<open>The binary tests that only compare.\<close>

definition test_compare :: "('w, 'm) host \<Rightarrow> 'w \<Rightarrow> byte \<Rightarrow> string \<Rightarrow> string \<Rightarrow> int" where
  "test_compare h w opr lhs rhs =
     (let l = sint (fst (strtoll 10 lhs)); r = sint (fst (strtoll 10 rhs)) in
      if opr = TEST_SEQ then status_of (fnmatch rhs lhs)
      else if opr = TEST_SNE then status_of (\<not> fnmatch rhs lhs)
      else if opr = TEST_EQ then status_of (l = r)
      else if opr = TEST_NE then status_of (l \<noteq> r)
      else if opr = TEST_LT then status_of (l < r)
      else if opr = TEST_LE then status_of (l \<le> r)
      else if opr = TEST_GT then status_of (l > r)
      else if opr = TEST_GE then status_of (l \<ge> r)
      else if opr \<in> {TEST_FNT, TEST_FOT, TEST_FEF} then
        (case (h_stat h w True lhs, h_stat h w True rhs) of
           (Some a, Some b) \<Rightarrow>
             if opr = TEST_FNT then status_of (st_mtime a > st_mtime b)
             else if opr = TEST_FOT then status_of (st_mtime a < st_mtime b)
             else status_of (st_dev a = st_dev b \<and> st_ino a = st_ino b)
         | _ \<Rightarrow> 1)
      else 1)"

text \<open>The groups up to the last that took part in the match; one in between that did not is empty.\<close>

definition rematch_elements :: "string option list \<Rightarrow> string list" where
  "rematch_elements groups = map or_empty (rev (dropWhile (\<lambda>g. g = None) (rev groups)))"

definition test_regex :: "('w, 'm) host \<Rightarrow> string \<Rightarrow> string \<Rightarrow> 'w vm \<Rightarrow> 'w vm" where
  "test_regex h lhs rhs vm =
     (case h_regex h (vm_world vm) rhs lhs of
        None \<Rightarrow> vm_status 2 (vm_complain h (''invalid regex: '' @ rhs) vm)
      | Some None \<Rightarrow>
          vm_status 1 (vm_on_env h (\<lambda>env. environ_assign env ''BASH_REMATCH'' (VT_ARRAY [])) vm)
      | Some (Some groups) \<Rightarrow>
          vm_status 0
            (vm_on_env h (\<lambda>env. environ_assign env ''BASH_REMATCH'' (VT_ARRAY (rematch_elements groups))) vm))"

definition op_test_binary :: "'w handler" where
  "op_test_binary sh vm =
     do { (opr, vm) \<leftarrow> read_u8 vm;
          (rhs, vm) \<leftarrow> vm_pop_string vm;
          (lhs, vm) \<leftarrow> vm_pop_string vm;
          Some (if opr = TEST_REGEX then test_regex (sh_host sh) lhs rhs vm
                else vm_status (test_compare (sh_host sh) (vm_world vm) opr lhs rhs) vm) }"

definition op_pattern_match :: "'w handler" where
  "op_pattern_match sh vm =
     do { (pattern, vm) \<leftarrow> vm_pop_string vm;
          (subject, vm) \<leftarrow> vm_pop_string vm;
          Some (vm_status (status_of (fnmatch pattern subject)) vm) }"

subsection \<open>Modules\<close>

text \<open>
  The first import of a module runs its code in a machine of its own on the same scopes; what that
  machine knows of functions, imports and status is dropped, and the importer's scope is the one it was.
\<close>

definition op_import :: "'w handler" where
  "op_import sh vm =
     do { (name, vm) \<leftarrow> read_name vm;
          if ht_get (vm_modules_loaded vm) name \<noteq> None then Some vm
          else
            (case find_index (\<lambda>m. md_name m = name) (im_modules (cur_image vm)) of
               None \<Rightarrow> Some (vm_status 1
                         (vm_complain (sh_host sh) (''module '' @ CHR 0x27 # name @ [CHR 0x27] @ '' not found in image'') vm))
             | Some mi \<Rightarrow>
                 (let vm = vm\<lparr>vm_modules_loaded := fst (ht_set (vm_modules_loaded vm) name ())\<rparr>;
                      init = vm_init (vm_images vm) (vm_image vm) (vm_sigs vm) (vm_cenv vm) (vm_world vm);
                      init = init\<lparr>vm_env := vm_env vm, vm_env_kept := length (vm_env vm),
                                   vm_ip := md_offset (im_modules (cur_image vm) ! mi)\<rparr>
                  in do { init \<leftarrow> sh_run sh init;
                          env \<leftarrow> scopes_after vm init;
                          Some (vm\<lparr>vm_images := vm_images init, vm_env := env,
                                   vm_sigs := vm_sigs init, vm_cenv := vm_cenv init,
                                   vm_world := vm_world init\<rparr>) })) }"

subsection \<open>Dispatch\<close>

definition op_halt :: "'w handler" where
  "op_halt sh vm = vm_exit sh (vm_laststatus vm) vm"

definition op_stray_pipeline :: "'w handler" where
  "op_stray_pipeline sh vm =
     Some (vm_fail (sh_host sh) ''unexpected PIPELINE_CMD/END outside pipeline'' vm)"

definition op_unimplemented :: "byte \<Rightarrow> 'w handler" where
  "op_unimplemented b sh vm =
     Some (vm_fail (sh_host sh)
       (''unimplemented opcode 0x'' @ hex_byte b @ '' at offset '' @ show_nat (vm_ip vm - 1)) vm)"

definition vm_dispatch :: "'w builtins \<Rightarrow> byte \<Rightarrow> 'w handler" where
  "vm_dispatch bi b =
     (case opcode_of b of
        None \<Rightarrow> op_unimplemented b
      | Some opc \<Rightarrow>
          (case opc of
             OP_PUSH_CONST \<Rightarrow> op_push_const | OP_PUSH_INT \<Rightarrow> op_push_int
           | OP_POP \<Rightarrow> op_pop | OP_DUP \<Rightarrow> op_dup
           | OP_GET_VAR \<Rightarrow> op_get_var | OP_SET_VAR \<Rightarrow> op_set_var
           | OP_GET_LOCAL \<Rightarrow> op_get_local | OP_SET_LOCAL \<Rightarrow> op_set_local
           | OP_GET_ARRAY \<Rightarrow> op_get_array | OP_SET_ARRAY \<Rightarrow> op_set_array
           | OP_SET_ARRAY_BULK \<Rightarrow> op_set_array_bulk | OP_EXPORT \<Rightarrow> op_export
           | OP_PUSH_SCOPE \<Rightarrow> op_push_scope | OP_POP_SCOPE \<Rightarrow> op_pop_scope
           | OP_GET_SPECIAL \<Rightarrow> op_get_special | OP_CONCAT \<Rightarrow> op_concat
           | OP_EXPAND_PARAM \<Rightarrow> op_expand_param | OP_EXPAND_ARITH \<Rightarrow> op_expand_arith
           | OP_SPLIT_FIELDS \<Rightarrow> op_split_fields | OP_GLOB \<Rightarrow> op_glob
           | OP_QUOTE_REMOVE \<Rightarrow> op_quote_remove | OP_EXPAND_TILDE \<Rightarrow> op_expand_tilde
           | OP_COLLECT_WORDS \<Rightarrow> op_collect_words | OP_EXPAND_ARGS \<Rightarrow> op_expand_args
           | OP_JMP \<Rightarrow> op_jmp | OP_JMP_TRUE \<Rightarrow> op_jmp_true
           | OP_JMP_FALSE \<Rightarrow> op_jmp_false | OP_JMP_NONE \<Rightarrow> op_jmp_none
           | OP_RET \<Rightarrow> op_ret | OP_LOOP_ENTER \<Rightarrow> op_loop_enter | OP_LOOP_EXIT \<Rightarrow> op_loop_exit
           | OP_BREAK \<Rightarrow> op_unimplemented b | OP_CONTINUE \<Rightarrow> op_unimplemented b
           | OP_GET_NEXT_ITER \<Rightarrow> op_get_next_iter | OP_INIT_ITER \<Rightarrow> op_init_iter
           | OP_EXEC_SIMPLE \<Rightarrow> op_exec_simple bi | OP_EXEC_BUILTIN \<Rightarrow> op_exec_builtin bi
           | OP_EXEC_FUNC \<Rightarrow> op_exec_func
           | OP_PIPELINE \<Rightarrow> op_pipeline | OP_PIPELINE_CMD \<Rightarrow> op_stray_pipeline
           | OP_PIPELINE_END \<Rightarrow> op_stray_pipeline
           | OP_CMD_SUBST \<Rightarrow> op_cmd_subst | OP_SUBSHELL \<Rightarrow> op_subshell
           | OP_BACKGROUND \<Rightarrow> op_background
           | OP_REDIR_SAVE \<Rightarrow> op_redir_save | OP_REDIR_RESTORE \<Rightarrow> op_redir_restore
           | OP_REDIR_OPEN \<Rightarrow> op_redir_open | OP_REDIR_DUP \<Rightarrow> op_redir_dup
           | OP_REDIR_CLOSE \<Rightarrow> op_redir_close | OP_REDIR_HERE \<Rightarrow> op_redir_here
           | OP_TEST_UNARY \<Rightarrow> op_test_unary | OP_TEST_BINARY \<Rightarrow> op_test_binary
           | OP_NEGATE_STATUS \<Rightarrow> op_negate_status | OP_PATTERN_MATCH \<Rightarrow> op_pattern_match
           | OP_IMPORT \<Rightarrow> op_import | OP_CAP_CHECK \<Rightarrow> op_unimplemented b
           | OP_ERREXIT_PUSH \<Rightarrow> op_errexit_push | OP_ERREXIT_POP \<Rightarrow> op_errexit_pop
           | OP_STATUS_ZERO \<Rightarrow> op_status_zero | OP_PUSH_STATUS \<Rightarrow> op_push_status
           | OP_POP_STATUS \<Rightarrow> op_pop_status | OP_HALT \<Rightarrow> op_halt))"

subsection \<open>The run\<close>

definition signum :: "signo \<Rightarrow> nat" where
  "signum s = nat (signo_num s)"

text \<open>
  The signals that have arrived are handled, and a pending one runs its trap, or halts the machine
  when it is an interrupt or a termination without one. The result says whether to leave the loop.
\<close>

definition vm_safe_point :: "'w shell \<Rightarrow> 'w vm \<Rightarrow> (bool \<times> 'w vm) option" where
  "vm_safe_point sh vm =
     (let (arrived, vm) = ask (h_signals (sh_host sh)) vm;
          vm = vm\<lparr>vm_sigs := fold (\<lambda>n s. handle_signal (sig_disp s n) s) arrived (vm_sigs vm)\<rparr>
      in
      if signal_pending (vm_sigs vm) then
        (case signal_get_pending (vm_sigs vm) of
           None \<Rightarrow> Some (False, vm\<lparr>vm_sigs := signal_clear (vm_sigs vm)\<rparr>)
         | Some sig \<Rightarrow>
             (let vm = vm\<lparr>vm_sigs := signal_clear (vm_sigs vm)\<rparr> in
              case vm_traps vm (signum sig) of
                Some cmd \<Rightarrow>
                  if cmd = [] then Some (False, vm)
                  else map_option (\<lambda>(status, vm). (False, vm)) (vm_exec_string sh cmd ''trap'' vm)
              | None \<Rightarrow> Some (True, vm\<lparr>vm_laststatus := 128 + signo_num sig, vm_halted := True\<rparr>)))
      else Some (False, vm))"

definition errexit_opcodes :: "byte set" where
  "errexit_opcodes =
     opcode_byte ` {OP_EXEC_SIMPLE, OP_EXEC_BUILTIN, OP_EXEC_FUNC, OP_PIPELINE, OP_SUBSHELL}"

definition vm_errexit :: "'w shell \<Rightarrow> byte \<Rightarrow> 'w vm \<Rightarrow> 'w vm option" where
  "vm_errexit sh b vm =
     (if vm_opt_errexit vm \<and> vm_errexit_suppressed vm = 0 \<and> vm_laststatus vm \<noteq> 0 \<and> b \<in> errexit_opcodes
      then vm_exit sh (vm_laststatus vm) vm else Some vm)"

definition vm_step :: "'w builtins \<Rightarrow> 'w shell \<Rightarrow> 'w vm \<Rightarrow> 'w vm option" where
  "vm_step bi sh vm =
     do { (stop, vm) \<leftarrow> vm_safe_point sh vm;
          if stop then Some vm
          else do { (b, vm) \<leftarrow> read_u8 vm;
                    vm \<leftarrow> vm_dispatch bi b sh vm;
                    if vm_crashed vm then None else vm_errexit sh b vm } }"

fun vm_run :: "nat \<Rightarrow> 'w builtins \<Rightarrow> 'w shell \<Rightarrow> 'w vm \<Rightarrow> 'w vm option" where
  "vm_run 0 bi sh vm = (if vm_halted vm \<or> vm_ip vm \<ge> code_size vm then Some vm else None)"
| "vm_run (Suc n) bi sh vm =
     (if vm_halted vm \<or> vm_ip vm \<ge> code_size vm then Some vm
      else
        (case vm_step bi (sh\<lparr>sh_run := vm_run n bi sh\<rparr>) vm of
           None \<Rightarrow> None
         | Some vm \<Rightarrow> vm_run n bi sh vm))"

end
