(* ===== verification/Builtins.thy ===== *)
theory Builtins
  imports VmRun
begin

text \<open>
  The builtins of \<^verbatim>\<open>src/builtins/builtins.c\<close>, one definition for each function of \<^verbatim>\<open>builtin_table\<close>, on the
  arguments \<^verbatim>\<open>argv\<close> with the name first. A builtin gives its status and the machine; \<open>None\<close> is a call
  that does not come back: an abort, a wait or a read without end, the program \<^verbatim>\<open>exec\<close> has become.
  \<open>write_fd1\<close> is the loop of \<^verbatim>\<open>write\<close> of that name. \<open>BuiltinJobs\<close> has the builtins on jobs and the table.
\<close>

type_synonym 'w builtin = "'w shell \<Rightarrow> vm_value list \<Rightarrow> 'w vm \<Rightarrow> (int \<times> 'w vm) option"

definition write_fd1 :: "('w, 'm) host \<Rightarrow> string \<Rightarrow> 'w vm \<Rightarrow> 'w vm" where
  "write_fd1 h s = on_world (\<lambda>w. h_write_all h w 1 s)"

text \<open>The arguments behind the name, as texts.\<close>

abbreviation arg_texts :: "vm_value list \<Rightarrow> string list" where
  "arg_texts argv \<equiv> map value_to_string (tl argv)"

text \<open>The first argument as a number, when there is one.\<close>

definition number_arg :: "int \<Rightarrow> vm_value list \<Rightarrow> int" where
  "number_arg dflt argv =
     (if length argv > 1 then int_of_i64 (value_to_integer (argv ! 1)) else dflt)"

fun join_words :: "string list \<Rightarrow> string" where
  "join_words [] = []"
| "join_words [s] = s"
| "join_words (s # ss) = s @ '' '' @ join_words ss"

text \<open>\<^verbatim>\<open>NAME=VALUE\<close>, split at the first \<^verbatim>\<open>=\<close>.\<close>

definition split_assignment :: "string \<Rightarrow> (string \<times> string) option" where
  "split_assignment arg =
     (let name = takeWhile (\<lambda>c. c \<noteq> CHR ''='') arg in
      if length name < length arg then Some (name, drop (length name + 1) arg) else None)"

definition assign_text :: "('w, 'm) host \<Rightarrow> string \<Rightarrow> string \<Rightarrow> 'w vm \<Rightarrow> 'w vm" where
  "assign_text h name s = vm_on_env h (\<lambda>env. environ_assign env name (VT_STRING s))"

subsection \<open>Output, status and directory\<close>

definition builtin_echo :: "'w builtin" where
  "builtin_echo sh argv vm =
     Some (0, write_fd1 (sh_host sh) (join_words (arg_texts argv) @ [CHR 0x0A]) vm)"

definition builtin_exit :: "'w builtin" where
  "builtin_exit sh argv vm = Some (number_arg 0 argv, vm)"

definition builtin_true :: "'w builtin" where
  "builtin_true sh argv vm = Some (0, vm)"

definition builtin_false :: "'w builtin" where
  "builtin_false sh argv vm = Some (1, vm)"

definition cd_target :: "vm_value list \<Rightarrow> environ \<Rightarrow> string option" where
  "cd_target argv env =
     (if length argv > 1 then Some (value_to_string (argv ! 1))
      else map_option (\<lambda>var. value_to_string (var_value var)) (environ_get env ''HOME''))"

definition builtin_cd :: "'w builtin" where
  "builtin_cd sh argv vm =
     (let h = sh_host sh in
      case cd_target argv (vm_env vm) of
        None \<Rightarrow> Some (1, vm_complain h ''cd: HOME not set'' vm)
      | Some dir \<Rightarrow>
          if dir = [] then Some (1, vm_complain h ''cd: HOME not set'' vm)
          else
            (let (err, vm) = ask (\<lambda>w. h_chdir h w dir) vm in
             case err of
               Some e \<Rightarrow> Some (1, vm_complain h (''cd: '' @ dir @ '': '' @ e) vm)
             | None \<Rightarrow>
                 Some (0, case h_getcwd h (vm_world vm) of
                            Inl e \<Rightarrow> vm
                          | Inr cwd \<Rightarrow> assign_text h ''PWD'' cwd vm)))"

definition builtin_pwd :: "'w builtin" where
  "builtin_pwd sh argv vm =
     (case h_getcwd (sh_host sh) (vm_world vm) of
        Inl e \<Rightarrow> Some (1, vm_complain (sh_host sh) (''pwd: '' @ e) vm)
      | Inr cwd \<Rightarrow> Some (0, write_fd1 (sh_host sh) (cwd @ [CHR 0x0A]) vm))"

subsection \<open>Variables\<close>

definition export_arg :: "('w, 'm) host \<Rightarrow> string \<Rightarrow> 'w vm \<Rightarrow> 'w vm" where
  "export_arg h arg vm =
     (case split_assignment arg of
        Some (name, val) \<Rightarrow>
          (let vm = assign_text h name val vm in vm\<lparr>vm_env := environ_export (vm_env vm) name\<rparr>)
      | None \<Rightarrow> vm\<lparr>vm_env := environ_export (vm_env vm) arg\<rparr>)"

definition builtin_export :: "'w builtin" where
  "builtin_export sh argv vm = Some (0, fold (export_arg (sh_host sh)) (arg_texts argv) vm)"

definition builtin_unset :: "'w builtin" where
  "builtin_unset sh argv vm =
     Some (0, fold (vm_unset (sh_host sh)) (arg_texts argv) vm)"

definition readonly_arg :: "('w, 'm) host \<Rightarrow> string \<Rightarrow> 'w vm \<Rightarrow> 'w vm" where
  "readonly_arg h arg vm =
     (case split_assignment arg of
        Some (name, val) \<Rightarrow> vm_on_env h (\<lambda>env. environ_set_flags env name (VT_STRING val) VF_READONLY) vm
      | None \<Rightarrow>
          if environ_get (vm_env vm) arg \<noteq> None
          then vm\<lparr>vm_env := environ_modify (\<lambda>var. var\<lparr>var_flags := var_flags var OR VF_READONLY\<rparr>) (vm_env vm) arg\<rparr>
          else vm_on_env h (\<lambda>env. environ_set_flags env arg (VT_STRING []) VF_READONLY) vm)"

definition builtin_readonly :: "'w builtin" where
  "builtin_readonly sh argv vm = Some (0, fold (readonly_arg (sh_host sh)) (arg_texts argv) vm)"

definition local_arg :: "('w, 'm) host \<Rightarrow> string \<Rightarrow> 'w vm \<Rightarrow> 'w vm" where
  "local_arg h arg vm =
     (let (name, val) = (case split_assignment arg of Some p \<Rightarrow> p | None \<Rightarrow> (arg, []))
      in vm_on_env h (\<lambda>env. (environ_set_local env name (VT_STRING val), [])) vm)"

definition builtin_local :: "'w builtin" where
  "builtin_local sh argv vm = Some (0, fold (local_arg (sh_host sh)) (arg_texts argv) vm)"

subsection \<open>Positional parameters\<close>

text \<open>The parameters from one number to another, unset.\<close>

definition unset_params :: "('w, 'm) host \<Rightarrow> int \<Rightarrow> int \<Rightarrow> 'w vm \<Rightarrow> 'w vm" where
  "unset_params h i j = fold (\<lambda>i. vm_unset h (show_int i)) [i..j]"

definition shift_param :: "('w, 'm) host \<Rightarrow> int \<Rightarrow> int \<Rightarrow> 'w vm \<Rightarrow> 'w vm" where
  "shift_param h n i vm =
     (case environ_get (vm_env vm) (show_int (i + n)) of
        None \<Rightarrow> vm
      | Some src \<Rightarrow> vm_on_env h (\<lambda>env. environ_set env (show_int i) (var_value src)) vm)"

definition builtin_shift :: "'w builtin" where
  "builtin_shift sh argv vm =
     (let h = sh_host sh; n = number_arg 1 argv; params = param_count (vm_env vm) in
      if n < 0 \<or> n > params then Some (1, vm_complain h ''shift: shift count out of range'' vm)
      else
        (let vm = fold (shift_param h n) [1..params - n] vm;
             vm = unset_params h (params - n + 1) params vm
         in Some (0, vm_on_env h (\<lambda>env. environ_set env ''#'' (VT_STRING (show_int (params - n)))) vm)))"

subsection \<open>Tests\<close>

definition strtoll_int :: "string \<Rightarrow> int" where
  "strtoll_int s = sint (fst (strtoll 10 s))"

definition test_binary :: "string \<Rightarrow> string \<Rightarrow> string \<Rightarrow> int" where
  "test_binary left opr right =
     (let l = strtoll_int left; r = strtoll_int right in
      if opr = ''='' \<or> opr = ''=='' then status_of (left = right)
      else if opr = ''!='' then status_of (left \<noteq> right)
      else if opr = ''-eq'' then status_of (l = r)
      else if opr = ''-ne'' then status_of (l \<noteq> r)
      else if opr = ''-lt'' then status_of (l < r)
      else if opr = ''-le'' then status_of (l \<le> r)
      else if opr = ''-gt'' then status_of (l > r)
      else if opr = ''-ge'' then status_of (l \<ge> r)
      else 1)"

text \<open>By the number of arguments. With four, the first negates the other three.\<close>

definition test_args :: "('w, 'm) host \<Rightarrow> 'w \<Rightarrow> string list \<Rightarrow> int" where
  "test_args h w args =
     (case args of
        [] \<Rightarrow> 1
      | [s] \<Rightarrow> status_of (s \<noteq> [])
      | [opr, arg] \<Rightarrow>
          if opr = ''-n'' then status_of (arg \<noteq> [])
          else if opr = ''-z'' then status_of (arg = [])
          else if opr = ''!'' then status_of (arg = [])
          else if peek opr 0 = CHR ''-'' then test_file h w opr arg
          else 1
      | [left, opr, right] \<Rightarrow> test_binary left opr right
      | [bang, left, opr, right] \<Rightarrow>
          if bang = ''!'' then (if test_binary left opr right = 0 then 1 else 0) else 1
      | _ \<Rightarrow> 1)"

definition builtin_test :: "'w builtin" where
  "builtin_test sh argv vm =
     Some (if tl argv = [] then (1, vm)
           else if value_to_string (hd argv) = ''['' then
             (if value_to_string (last argv) \<noteq> '']''
              then (2, vm_complain (sh_host sh) ''[: missing ]'' vm)
              else (test_args (sh_host sh) (vm_world vm) (butlast (arg_texts argv)), vm))
           else (test_args (sh_host sh) (vm_world vm) (arg_texts argv), vm))"

subsection \<open>Formatted output\<close>

text \<open>The characters the format gives, with the arguments that are left.\<close>

fun printf_text :: "string \<Rightarrow> vm_value list \<Rightarrow> string" where
  "printf_text [] args = []"
| "printf_text (c # p) args =
     (if c = CHR 0x5C then
        (case p of
           [] \<Rightarrow> [CHR 0x5C]
         | d # p' \<Rightarrow>
             (if d = CHR ''n'' then [CHR 0x0A] else if d = CHR ''t'' then [CHR 0x09]
              else if d = CHR 0x5C then [CHR 0x5C] else [CHR 0x5C, d]) @ printf_text p' args)
      else if c = CHR 0x25 then
        (case p of
           [] \<Rightarrow> [CHR 0x25]
         | d # p' \<Rightarrow>
             if d = CHR ''s'' then
               (case args of [] \<Rightarrow> printf_text p' [] | a # as \<Rightarrow> value_to_string a @ printf_text p' as)
             else if d = CHR ''d'' then
               (case args of
                  [] \<Rightarrow> printf_text p' []
                | a # as \<Rightarrow> show_int (sint (value_to_integer a)) @ printf_text p' as)
             else if d = CHR 0x25 then CHR 0x25 # printf_text p' args
             else CHR 0x25 # printf_text (d # p') args)
      else c # printf_text p args)"

definition builtin_printf :: "'w builtin" where
  "builtin_printf sh argv vm =
     Some (0, if length argv < 2 then vm
              else write_fd1 (sh_host sh) (printf_text (value_to_string (argv ! 1)) (drop 2 argv)) vm)"

subsection \<open>Reading a line\<close>

text \<open>
  The bytes up to a newline, and whether the input ended before one. It does not return when neither
  comes.
\<close>

partial_function (option) read_line :: "('w, 'm) host \<Rightarrow> string \<Rightarrow> 'w \<Rightarrow> (string \<times> bool \<times> 'w) option" where
  "read_line h acc w =
     (let (c, w) = h_read_byte h w 0 in
      case c of
        None \<Rightarrow> Some (acc, True, w)
      | Some c \<Rightarrow> if c = CHR 0x0A then Some (acc, False, w) else read_line h (acc @ [c]) w)"

abbreviation read_blank :: "char \<Rightarrow> bool" where
  "read_blank c \<equiv> c = CHR '' '' \<or> c = CHR 0x09"

text \<open>The value each variable gets, in the order of the assignments.\<close>

fun read_fields :: "string list \<Rightarrow> string \<Rightarrow> (string \<times> string) list" where
  "read_fields [] p = []"
| "read_fields (name # names) p =
     (let p = dropWhile (\<lambda>c. read_blank c) p in
      if p = [] then map (\<lambda>name. (name, [])) (name # names)
      else if names = [] then [(name, p)]
      else (name, takeWhile (\<lambda>c. \<not> read_blank c) p) # read_fields names (dropWhile (\<lambda>c. \<not> read_blank c) p))"

definition builtin_read :: "'w builtin" where
  "builtin_read sh argv vm =
     (let h = sh_host sh in
      do { (line, eof, w) \<leftarrow> read_line h [] (vm_world vm);
           let vm = vm\<lparr>vm_world := w\<rparr>;
           let text = takeWhile (\<lambda>c. c \<noteq> NUL) line;
           Some
             (if eof \<and> line = [] then (1, vm)
              else if length argv \<le> 1 then (0, assign_text h ''REPLY'' text vm)
              else (0, fold (\<lambda>(name, s). assign_text h name s) (read_fields (arg_texts argv) text) vm)) })"

subsection \<open>Control\<close>

definition builtin_return :: "'w builtin" where
  "builtin_return sh argv vm =
     (let code = number_arg 0 argv
      in Some (code, vm\<lparr>vm_laststatus := code, vm_return_requested := True\<rparr>))"

definition type_arg :: "('w, 'm) host \<Rightarrow> string \<Rightarrow> int \<times> 'w vm \<Rightarrow> int \<times> 'w vm" where
  "type_arg h name r =
     (let (result, vm) = r in
      if builtin_lookup name \<noteq> None
      then (result, write_fd1 h (name @ '' is a shell builtin'' @ [CHR 0x0A]) vm)
      else if find_func (vm_funcs vm) name \<noteq> None
      then (result, write_fd1 h (name @ '' is a function'' @ [CHR 0x0A]) vm)
      else (1, vm_complain h (''type: '' @ name @ '': not found'') vm))"

definition builtin_type :: "'w builtin" where
  "builtin_type sh argv vm = Some (fold (type_arg (sh_host sh)) (arg_texts argv) (0, vm))"

definition signal_names :: "(string \<times> int) list" where
  "signal_names =
     [(''EXIT'', 0), (''INT'', 2), (''SIGINT'', 2), (''TERM'', 15), (''SIGTERM'', 15), (''HUP'', 1),
      (''SIGHUP'', 1), (''QUIT'', 3), (''SIGQUIT'', 3), (''KILL'', 9), (''SIGKILL'', 9), (''USR1'', 10),
      (''SIGUSR1'', 10), (''USR2'', 12), (''SIGUSR2'', 12), (''PIPE'', 13), (''SIGPIPE'', 13),
      (''ALRM'', 14), (''SIGALRM'', 14)]"

definition signame_to_num :: "string \<Rightarrow> int" where
  "signame_to_num name =
     (case map_of signal_names name of
        Some n \<Rightarrow> n
      | None \<Rightarrow>
          (let (num, used) = strtoll 10 name in
           if drop used name = [] \<and> 0 \<le> sint num \<and> sint num < 32 then sint num else -1))"

text \<open>The traps for each signal named, up to the first name that is none.\<close>

fun trap_args :: "('w, 'm) host \<Rightarrow> string \<Rightarrow> string list \<Rightarrow> 'w vm \<Rightarrow> int \<times> 'w vm" where
  "trap_args h action [] vm = (0, vm)"
| "trap_args h action (name # names) vm =
     (let n = signame_to_num name;
          trap = (if action = ''-'' then None else Some action)
      in if n < 0 then (1, vm_complain h (''trap: '' @ name @ '': invalid signal'') vm)
         else trap_args h action names
                (if n = 0 then vm\<lparr>vm_exit_trap := trap\<rparr>
                 else vm\<lparr>vm_traps := (vm_traps vm)(nat n := trap)\<rparr>))"

definition builtin_trap :: "'w builtin" where
  "builtin_trap sh argv vm =
     Some (if length argv \<le> 2 then (0, vm)
           else trap_args (sh_host sh) (value_to_string (argv ! 1)) (map value_to_string (drop 2 argv)) vm)"

definition builtin_eval :: "'w builtin" where
  "builtin_eval sh argv vm =
     (if length argv \<le> 1 then Some (0, vm)
      else vm_exec_string sh (join_words (arg_texts argv)) ''eval'' vm)"

definition builtin_dot :: "'w builtin" where
  "builtin_dot sh argv vm =
     (let h = sh_host sh in
      if length argv < 2 then Some (2, vm_complain h ''.: filename argument required'' vm)
      else
        (let filename = value_to_string (argv ! 1) in
         case h_read_file h (vm_world vm) filename of
           None \<Rightarrow> Some (1, vm_complain h (''.: '' @ filename @ '': not found'') vm)
         | Some source \<Rightarrow> vm_exec_string sh (takeWhile (\<lambda>c. c \<noteq> NUL) source) filename vm))"

text \<open>The program the shell becomes. Its C environment is the one the shell was started with.\<close>

definition builtin_exec :: "'w builtin" where
  "builtin_exec sh argv vm =
     (if length argv < 2 then Some (0, vm)
      else
        (let h = sh_host sh; args = arg_texts argv in
         case h_exec h (vm_world vm) args (vm_cenv vm) of
           None \<Rightarrow> None
         | Some (missing, err, w) \<Rightarrow>
             (let vm = vm\<lparr>vm_world := w, vm_sigs := signal_reset (vm_sigs vm)\<rparr>;
                  vm = vm_complain h (''exec: '' @ hd args @ '': '' @ err) vm
              in Some (if missing then 127 else 126, vm\<lparr>vm_sigs := signal_init (vm_sigs vm)\<rparr>))))"

subsection \<open>File mode mask\<close>

text \<open>The value, with the wrap-around of a minus sign, and the characters read.\<close>

definition strtoul :: "nat \<Rightarrow> string \<Rightarrow> nat \<times> nat" where
  "strtoul base s =
     (let blanks = length (takeWhile is_space s);
          r = drop blanks s;
          sign = (if peek r 0 = CHR ''-'' \<or> peek r 0 = CHR ''+'' then 1 else 0);
          ds = takeWhile (is_digit_of base) (drop sign r);
          n = number_of base ds
      in if ds = [] then (0, 0)
         else (if n > SIZE_MAX then SIZE_MAX
               else if peek r 0 = CHR ''-'' then (2 ^ 64 - n) mod 2 ^ 64 else n,
               blanks + sign + length ds))"

fun show_octal :: "nat \<Rightarrow> string" where
  "show_octal n = (if n < 8 then [digit_char n] else show_octal (n div 8) @ [digit_char (n mod 8)])"

declare show_octal.simps [simp del]

definition pad_left :: "nat \<Rightarrow> char \<Rightarrow> string \<Rightarrow> string" where
  "pad_left n c s = replicate (n - length s) c @ s"

definition builtin_umask :: "'w builtin" where
  "builtin_umask sh argv vm =
     (let h = sh_host sh in
      if length argv < 2 then
        (let (m, vm) = ask (\<lambda>w. h_umask h w 0) vm;
             (m', vm) = ask (\<lambda>w. h_umask h w m) vm
         in Some (0, write_fd1 h (pad_left 4 CHR ''0'' (show_octal m) @ [CHR 0x0A]) vm))
      else
        (let arg = value_to_string (argv ! 1); (val, used) = strtoul 8 arg in
         if drop used arg \<noteq> [] \<or> val > 511
         then Some (1, vm_complain h (''umask: '' @ arg @ '': invalid mask'') vm)
         else (let (m, vm) = ask (\<lambda>w. h_umask h w val) vm in Some (0, vm))))"

subsection \<open>Options\<close>

definition update_option_flags :: "'w vm \<Rightarrow> 'w vm" where
  "update_option_flags vm =
     vm\<lparr>vm_option_flags :=
          (if vm_opt_errexit vm then ''e'' else []) @ (if vm_opt_nounset vm then ''u'' else []) @
          (if vm_opt_xtrace vm then ''x'' else [])\<rparr>"

text \<open>The letters of one argument; the first that is no option ends the builtin.\<close>

fun set_flags :: "bool \<Rightarrow> string \<Rightarrow> 'w vm \<Rightarrow> char option \<times> 'w vm" where
  "set_flags enable [] vm = (None, vm)"
| "set_flags enable (c # p) vm =
     (if c = CHR ''e'' then set_flags enable p (vm\<lparr>vm_opt_errexit := enable\<rparr>)
      else if c = CHR ''u'' then set_flags enable p (vm\<lparr>vm_opt_nounset := enable\<rparr>)
      else if c = CHR ''x'' then set_flags enable p (vm\<lparr>vm_opt_xtrace := enable\<rparr>)
      else (Some c, vm))"

definition set_params :: "('w, 'm) host \<Rightarrow> string list \<Rightarrow> 'w vm \<Rightarrow> 'w vm" where
  "set_params h args vm =
     (let vm = unset_params h 1 (param_count (vm_env vm)) vm;
          vm = (if args \<noteq> [] then vm_set_args h args vm
                else vm_on_env h (\<lambda>env. environ_set env ''#'' (VT_STRING ''0'')) vm)
      in update_option_flags (assign_text h ''OPTIND'' ''1'' vm))"

fun set_args_loop :: "('w, 'm) host \<Rightarrow> string list \<Rightarrow> 'w vm \<Rightarrow> int \<times> 'w vm" where
  "set_args_loop h [] vm = (0, update_option_flags vm)"
| "set_args_loop h (arg # args) vm =
     (if arg = ''--'' then (0, set_params h args vm)
      else if (peek arg 0 = CHR ''-'' \<or> peek arg 0 = CHR ''+'') \<and> peek arg 1 \<noteq> NUL then
        (let (bad, vm) = set_flags (peek arg 0 = CHR ''-'') (tl arg) vm in
         case bad of
           Some c \<Rightarrow> (2, vm_complain h (''set: '' @ [peek arg 0, c] @ '': invalid option'') vm)
         | None \<Rightarrow> set_args_loop h args vm)
      else set_args_loop h args vm)"

definition builtin_set :: "'w builtin" where
  "builtin_set sh argv vm =
     Some (if length argv < 2 then (0, vm) else set_args_loop (sh_host sh) (arg_texts argv) vm)"

end
