(* ===== verification/Getopts.thy ===== *)
theory Getopts
  imports Builtins
begin

text \<open>
  \<^verbatim>\<open>builtin_getopts\<close> of \<^verbatim>\<open>src/builtins/builtins.c\<close>. The arguments come from the command or from the
  positional parameters; \<^verbatim>\<open>OPTIND\<close> numbers the argument and \<^verbatim>\<open>_OPTPOS\<close> the character in it, both in
  variables of the shell.
\<close>

text \<open>Where the arguments come from, how many there are, and one of them.\<close>

definition option_count :: "vm_value list \<Rightarrow> environ \<Rightarrow> int" where
  "option_count argv env = (if length argv > 3 then int (length argv) - 3 else param_count env)"

definition option_arg :: "vm_value list \<Rightarrow> environ \<Rightarrow> int \<Rightarrow> string" where
  "option_arg argv env i =
     (if length argv > 3 then value_to_string (argv ! nat (i + 2))
      else (case environ_get env (show_int i) of Some pv \<Rightarrow> value_to_string (var_value pv) | None \<Rightarrow> []))"

definition int_var :: "int \<Rightarrow> environ \<Rightarrow> string \<Rightarrow> int" where
  "int_var dflt env name =
     (case environ_get env name of
        None \<Rightarrow> dflt | Some var \<Rightarrow> int_of_i64 (value_to_integer (var_value var)))"

text \<open>The position in the argument: behind the dash, unless an earlier call has left one.\<close>

definition option_pos :: "environ \<Rightarrow> int" where
  "option_pos env = (let pv = int_var 1 env ''_OPTPOS'' in if pv > 1 then pv else 1)"

text \<open>Whether an option takes an argument; \<open>None\<close> when it is no option.\<close>

definition option_kind :: "string \<Rightarrow> char \<Rightarrow> bool option" where
  "option_kind opts c =
     (case find_index (\<lambda>o'. o' = c) opts of
        None \<Rightarrow> None | Some i \<Rightarrow> Some (peek opts (i + 1) = CHR '':''))"

text \<open>
  What is assigned for an option character, in order, and the index of the last argument used.
  \<open>rest\<close> is the text behind the character.
\<close>

definition option_values ::
  "bool \<Rightarrow> bool option \<Rightarrow> char \<Rightarrow> string \<Rightarrow> string \<Rightarrow> int \<Rightarrow> int \<Rightarrow> (int \<Rightarrow> string) \<Rightarrow>
   (string \<times> string) list \<times> int \<times> string" where
  "option_values silent kind c rest varname optind src_argc arg =
     (case kind of
        None \<Rightarrow>
          ((varname, ''?'') # (if silent then [(''OPTARG'', [c])] else []), optind,
           if silent then [] else ''opsh: illegal option -- '' @ [c, CHR 0x0A])
      | Some True \<Rightarrow>
          if rest \<noteq> [] then ([(varname, [c]), (''OPTARG'', rest)], optind, [])
          else if optind < src_argc then
            ([(varname, [c]), (''OPTARG'', arg (optind + 1))], optind + 1, [])
          else if silent then ([(varname, '':''), (''OPTARG'', [c])], optind, [])
          else ([(varname, ''?'')], optind, ''opsh: option requires an argument -- '' @ [c, CHR 0x0A])
      | Some False \<Rightarrow> ([(varname, [c]), (''OPTARG'', [])], optind, []))"

definition assign_all :: "('w, 'm) host \<Rightarrow> (string \<times> string) list \<Rightarrow> 'w vm \<Rightarrow> 'w vm" where
  "assign_all h = fold (\<lambda>(name, s). assign_text h name s)"

definition builtin_getopts :: "'w builtin" where
  "builtin_getopts sh argv vm =
     (let h = sh_host sh in
      if length argv < 3
      then Some (2, vm_complain h ''getopts: usage: getopts optstring varname [args]'' vm)
      else
        (let optstring = value_to_string (argv ! 1);
             varname = value_to_string (argv ! 2);
             env = vm_env vm;
             optind = int_var 1 env ''OPTIND'';
             src_argc = option_count argv env;
             silent = (peek optstring 0 = CHR '':'');
             opts = (if silent then tl optstring else optstring)
         in if optind < 1 \<or> optind > src_argc then Some (1, assign_text h varname ''?'' vm)
            else
              (let cur = option_arg argv env optind; pos = option_pos env in
               if peek cur 0 \<noteq> CHR ''-'' \<or> peek cur 1 = NUL \<or> cur = ''--''
               then Some (1, assign_all h [(varname, ''?''), (''_OPTPOS'', ''1'')] vm)
               else if pos > int (length cur) then None
               else if peek cur (nat pos) = NUL
               then Some (1, assign_all h [(''_OPTPOS'', ''1''), (varname, ''?'')] vm)
               else
                 (let c = peek cur (nat pos);
                      kind = option_kind opts c;
                      rest = drop (nat pos + 1) cur;
                      (vals, optind, msg) =
                        option_values silent kind c rest varname optind src_argc (option_arg argv env);
                      vm = vm_puts h msg vm;
                      vm = assign_all h vals vm
                  in if rest \<noteq> [] \<and> kind \<noteq> Some True
                     then Some (0, assign_text h ''_OPTPOS'' (show_int (pos + 1)) vm)
                     else Some (0, assign_all h [(''_OPTPOS'', ''1''), (''OPTIND'', show_int (optind + 1))] vm)))))"

end
