(* ===== verification/BuiltinJobs.thy ===== *)
theory BuiltinJobs
  imports Getopts
begin

text \<open>
  The builtins of \<^verbatim>\<open>src/builtins/builtins.c\<close> on processes and jobs, \<^verbatim>\<open>command\<close>, and the call through
  \<^verbatim>\<open>builtin_table\<close>. A pointer to a job is its index in the table.
\<close>

definition SIGCONT :: int where "SIGCONT = 18"

subsection \<open>Jobs\<close>

definition update_jobs :: "('w, 'm) host \<Rightarrow> 'w vm \<Rightarrow> 'w vm" where
  "update_jobs h vm =
     (let (reaped, vm) = ask (h_reap h) vm
      in vm\<lparr>vm_jobs := snd (job_update (vm_jobs vm) reaped)\<rparr>)"

definition set_job :: "nat \<Rightarrow> (job \<Rightarrow> job) \<Rightarrow> job_table \<Rightarrow> job_table" where
  "set_job i f jt = jt\<lparr>jt_jobs := (jt_jobs jt)[i := f (jt_jobs jt ! i)]\<rparr>"

definition continue_job :: "('w, 'm) host \<Rightarrow> nat \<Rightarrow> 'w vm \<Rightarrow> 'w vm" where
  "continue_job h i vm =
     (let (err, vm) = ask (\<lambda>w. h_kill h w (- j_pgid (jt_jobs (vm_jobs vm) ! i)) SIGCONT) vm
      in vm\<lparr>vm_jobs := set_job i (\<lambda>j. j\<lparr>j_state := JOB_RUNNING\<rparr>) (vm_jobs vm)\<rparr>)"

definition resume_stopped :: "('w, 'm) host \<Rightarrow> nat \<Rightarrow> 'w vm \<Rightarrow> 'w vm" where
  "resume_stopped h i vm =
     (if j_state (jt_jobs (vm_jobs vm) ! i) = JOB_STOPPED then continue_job h i vm else vm)"

text \<open>A job that is done is marked as reported.\<close>

definition mark_done :: "nat \<Rightarrow> job_table \<Rightarrow> job_table" where
  "mark_done i jt =
     (if j_state (jt_jobs jt ! i) = JOB_DONE then set_job i (\<lambda>j. j\<lparr>j_notified := True\<rparr>) jt else jt)"

definition reap_at :: "nat \<Rightarrow> job_table \<Rightarrow> job_table" where
  "reap_at i jt =
     (if j_state (jt_jobs jt ! i) = JOB_DONE then job_reap_done (mark_done i jt) else jt)"

text \<open>The wait for the job at an index, which is reaped when it is done.\<close>

definition wait_job :: "('w, 'm) host \<Rightarrow> nat \<Rightarrow> 'w vm \<Rightarrow> (int \<times> 'w vm) option" where
  "wait_job h i vm =
     do { (status, vm) \<leftarrow> vm_wait_fg h (j_id (jt_jobs (vm_jobs vm) ! i)) vm;
          Some (status, vm\<lparr>vm_jobs := reap_at i (vm_jobs vm)\<rparr>) }"

text \<open>The rounds of \<^verbatim>\<open>wait\<close> without arguments: each waits for the first job that is not done.\<close>

partial_function (option) wait_all :: "('w, 'm) host \<Rightarrow> int \<Rightarrow> 'w vm \<Rightarrow> (int \<times> 'w vm) option" where
  "wait_all h last_status vm =
     (let vm = update_jobs h vm in
      case find_index (\<lambda>j. j_state j \<noteq> JOB_DONE) (jt_jobs (vm_jobs vm)) of
        None \<Rightarrow> Some (last_status, vm\<lparr>vm_jobs := job_reap_done (vm_jobs vm)\<rparr>)
      | Some i \<Rightarrow>
          (let vm = resume_stopped h i vm in
           case vm_wait_fg h (j_id (jt_jobs (vm_jobs vm) ! i)) vm of
             None \<Rightarrow> None
           | Some (status, vm) \<Rightarrow> wait_all h status (vm\<lparr>vm_jobs := mark_done i (vm_jobs vm)\<rparr>)))"

definition builtin_wait :: "'w builtin" where
  "builtin_wait sh argv vm =
     (let h = sh_host sh in
      if length argv < 2 then wait_all h 0 vm
      else
        (let arg = value_to_string (argv ! 1) in
         if peek arg 0 = CHR 0x25 then
           (case job_parse_spec (vm_jobs vm) (Some arg) of
              None \<Rightarrow> Some (127, vm_complain h ''wait: no such job'' vm)
            | Some i \<Rightarrow> wait_job h i vm)
         else
           (let (pval, used) = strtoll 10 arg; pid = int_of_i64 pval in
            if drop used arg \<noteq> [] then Some (2, vm_complain h (''wait: '' @ arg @ '': invalid pid'') vm)
            else
              (case job_find_by_pid (vm_jobs vm) pid of
                 Some i \<Rightarrow> wait_job h i vm
               | None \<Rightarrow>
                   (let (st, vm) = ask (\<lambda>w. h_wait h w pid) vm
                    in Some (case st of None \<Rightarrow> 127 | Some st \<Rightarrow> exit_code st, vm))))))"

definition kill_arg :: "('w, 'm) host \<Rightarrow> int \<Rightarrow> string \<Rightarrow> int \<times> 'w vm \<Rightarrow> int \<times> 'w vm" where
  "kill_arg h sig ps r =
     (let (result, vm) = r in
      if peek ps 0 = CHR 0x25 then
        (case job_parse_spec (vm_jobs vm) (Some ps) of
           None \<Rightarrow> (1, vm_complain h ''kill: no such job'' vm)
         | Some i \<Rightarrow>
             (let j = jt_jobs (vm_jobs vm) ! i;
                  (err, vm) = ask (\<lambda>w. h_kill h w (- j_pgid j) sig) vm
              in case err of
                   None \<Rightarrow> (result, vm)
                 | Some e \<Rightarrow> (1, vm_complain h (''kill: '' @ CHR 0x25 # show_int (j_id j) @ '': '' @ e) vm)))
      else
        (let (pval, used) = strtoll 10 ps; pid = int_of_i64 pval in
         if drop used ps \<noteq> [] then (1, vm_complain h (''kill: '' @ ps @ '': invalid pid'') vm)
         else
           (let (err, vm) = ask (\<lambda>w. h_kill h w pid sig) vm
            in case err of
                 None \<Rightarrow> (result, vm)
               | Some e \<Rightarrow> (1, vm_complain h (''kill: '' @ show_int pid @ '': '' @ e) vm))))"

definition builtin_kill :: "'w builtin" where
  "builtin_kill sh argv vm =
     Some
       (let h = sh_host sh in
        if length argv < 2 then (2, vm_complain h ''kill: usage: kill [-signal] pid...'' vm)
        else
          (let arg1 = value_to_string (argv ! 1);
               dashed = (peek arg1 0 = CHR ''-'' \<and> peek arg1 1 \<noteq> NUL);
               sig = (if dashed then signame_to_num (tl arg1) else 15);
               pids = drop (if dashed then 2 else 1) (map value_to_string argv)
           in if arg1 = ''-l''
              then (0, write_fd1 h (''HUP INT QUIT TERM KILL USR1 USR2'' @ [CHR 0x0A]) vm)
              else if sig < 0 then (2, vm_complain h (''kill: '' @ tl arg1 @ '': invalid signal'') vm)
              else if pids = [] then (2, vm_complain h ''kill: no pid specified'' vm)
              else fold (kill_arg h sig) pids (0, vm)))"

definition state_name :: "job_state \<Rightarrow> string" where
  "state_name s = (case s of JOB_RUNNING \<Rightarrow> ''Running'' | JOB_STOPPED \<Rightarrow> ''Stopped'' | JOB_DONE \<Rightarrow> ''Done'')"

definition pad_right :: "nat \<Rightarrow> string \<Rightarrow> string" where
  "pad_right n s = s @ replicate (n - length s) CHR '' ''"

text \<open>The buffer of a line has 256 bytes.\<close>

definition job_line :: "job_table \<Rightarrow> bool \<Rightarrow> job \<Rightarrow> string" where
  "job_line jt long_format j =
     take 255
       (''['' @ show_int (j_id j) @ ''] '' @
        [if j_id j = jt_current jt then CHR ''+'' else if j_id j = jt_previous jt then CHR ''-'' else CHR '' ''] @
        '' '' @ (if long_format then show_int (j_pgid j) @ '' '' else []) @
        pad_right 10 (state_name (j_state j)) @ '' '' @ j_command j @ [CHR 0x0A])"

definition print_job :: "('w, 'm) host \<Rightarrow> bool \<Rightarrow> nat \<Rightarrow> 'w vm \<Rightarrow> 'w vm" where
  "print_job h long_format i vm =
     (let vm = write_fd1 h (job_line (vm_jobs vm) long_format (jt_jobs (vm_jobs vm) ! i)) vm
      in vm\<lparr>vm_jobs := mark_done i (vm_jobs vm)\<rparr>)"

definition builtin_jobs :: "'w builtin" where
  "builtin_jobs sh argv vm =
     (let h = sh_host sh;
          vm = update_jobs h vm;
          long_format = (length argv \<ge> 2 \<and> value_to_string (argv ! 1) = ''-l'');
          vm = fold (print_job h long_format) [0..<length (jt_jobs (vm_jobs vm))] vm
      in Some (0, vm\<lparr>vm_jobs := job_reap_done (vm_jobs vm)\<rparr>))"

text \<open>The job \<^verbatim>\<open>fg\<close> and \<^verbatim>\<open>bg\<close> are about, or the message that there is none.\<close>

definition target_job :: "string \<Rightarrow> vm_value list \<Rightarrow> job_table \<Rightarrow> string + nat" where
  "target_job name argv jt =
     (if length argv \<ge> 2 then
        (let spec = value_to_string (argv ! 1) in
         case job_parse_spec jt (Some spec) of
           None \<Rightarrow> Inl (name @ '': '' @ spec @ '': no such job'')
         | Some i \<Rightarrow> Inr i)
      else (case job_current jt of None \<Rightarrow> Inl (name @ '': no current job'') | Some i \<Rightarrow> Inr i))"

definition give_terminal :: "('w, 'm) host \<Rightarrow> int \<Rightarrow> 'w \<Rightarrow> 'w" where
  "give_terminal h pgid w = (if h_isatty h w 0 then h_tcsetpgrp h w 0 pgid else w)"

definition builtin_fg :: "'w builtin" where
  "builtin_fg sh argv vm =
     (let h = sh_host sh in
      case target_job ''fg'' argv (vm_jobs vm) of
        Inl msg \<Rightarrow> Some (1, vm_complain h msg vm)
      | Inr i \<Rightarrow>
          (let vm = resume_stopped h i vm;
               vm = on_world (give_terminal h (j_pgid (jt_jobs (vm_jobs vm) ! i))) vm
           in do { (status, vm) \<leftarrow> vm_wait_fg h (j_id (jt_jobs (vm_jobs vm) ! i)) vm;
                   let vm = on_world (\<lambda>w. give_terminal h (h_getpgrp h w) w) vm;
                   Some (status, vm\<lparr>vm_jobs := reap_at i (vm_jobs vm)\<rparr>) }))"

definition builtin_bg :: "'w builtin" where
  "builtin_bg sh argv vm =
     Some
       (let h = sh_host sh in
        case target_job ''bg'' argv (vm_jobs vm) of
          Inl msg \<Rightarrow> (1, vm_complain h msg vm)
        | Inr i \<Rightarrow>
            (let j = jt_jobs (vm_jobs vm) ! i in
             if j_state j \<noteq> JOB_STOPPED
             then (1, vm_complain h (''bg: job '' @ show_int (j_id j) @ '' is not stopped'') vm)
             else
               (0, write_fd1 h (take 255 (''['' @ show_int (j_id j) @ ''] '' @ j_command j @ '' &'' @ [CHR 0x0A]))
                     (continue_job h i vm))))"

subsection \<open>Command\<close>

text \<open>The directories of \<^verbatim>\<open>PATH\<close>, empty ones left out; one at the end of the text is not seen.\<close>

function path_dirs :: "string \<Rightarrow> string list" where
  "path_dirs p =
     (if p = [] then []
      else
        (let dir = takeWhile (\<lambda>c. c \<noteq> CHR '':'') p
         in (if dir = [] then [] else [dir]) @ path_dirs (drop (length dir + 1) p)))"
  by pat_completeness auto
termination
  by (relation "measure length") auto

declare path_dirs.simps [simp del]

text \<open>\<^verbatim>\<open>command -v\<close>: what is printed when the name is found.\<close>

definition resolve_command :: "('w, 'm) host \<Rightarrow> string \<Rightarrow> 'w vm \<Rightarrow> string option" where
  "resolve_command h name vm =
     (if builtin_lookup name \<noteq> None \<or> find_func (vm_funcs vm) name \<noteq> None then Some name
      else
        (case vm_cenv vm ''PATH'' of
           None \<Rightarrow> None
         | Some path \<Rightarrow>
             find (\<lambda>p. h_access h (vm_world vm) p CHR ''x'')
               (map (\<lambda>dir. take 4095 (dir @ ''/'' @ name)) (path_dirs path))))"

text \<open>
  An external program run by \<^verbatim>\<open>command\<close>: its C environment is that of the shell, not the exported
  variables.
\<close>

definition command_external :: "('w, 'w vm) host \<Rightarrow> string list \<Rightarrow> 'w vm \<Rightarrow> int \<times> 'w vm" where
  "command_external h args vm =
     (let program = Exec_program args (vm_cenv vm);
          (pid, vm) = ask (\<lambda>w. h_fork h w program) vm
      in if pid < 0 then (126, vm_complain h ''fork'' vm)
         else
           (let (st, vm) = ask (\<lambda>w. h_wait h w pid) vm
            in (case st of None \<Rightarrow> 127 | Some st \<Rightarrow> exit_code st, vm)))"

text \<open>What \<^verbatim>\<open>command\<close> does when its argument names no builtin.\<close>

definition builtin_command :: "'w builtin" where
  "builtin_command sh argv vm =
     Some
       (let h = sh_host sh in
        if length argv < 2 then (0, vm)
        else if value_to_string (argv ! 1) = ''-v'' then
          (if length argv < 3 then (1, vm)
           else
             (case resolve_command h (value_to_string (argv ! 2)) vm of
                None \<Rightarrow> (1, vm)
              | Some s \<Rightarrow> (0, write_fd1 h (s @ [CHR 0x0A]) vm)))
        else command_external h (arg_texts argv) vm)"

subsection \<open>The table\<close>

definition builtin_fns :: "'w builtin list" where
  "builtin_fns =
     [builtin_echo, builtin_exit, builtin_true, builtin_false, builtin_true, builtin_cd, builtin_pwd,
      builtin_export, builtin_unset, builtin_readonly, builtin_local, builtin_shift, builtin_test,
      builtin_test, builtin_printf, builtin_read, builtin_return, builtin_type, builtin_trap,
      builtin_eval, builtin_dot, builtin_dot, builtin_command, builtin_exec, builtin_wait,
      builtin_kill, builtin_umask, builtin_set, builtin_getopts, builtin_fg, builtin_bg, builtin_jobs]"

text \<open>The builtin \<^verbatim>\<open>command\<close> is to run, when its argument names one.\<close>

definition command_target :: "nat \<Rightarrow> vm_value list \<Rightarrow> nat option" where
  "command_target i argv =
     (if builtin_names ! i = ''command'' \<and> length argv \<ge> 2 \<and> value_to_string (argv ! 1) \<noteq> ''-v''
      then builtin_lookup (value_to_string (argv ! 1)) else None)"

text \<open>The call at an index. \<^verbatim>\<open>command\<close> calls the builtin it names with the arguments behind.\<close>

function builtin_call :: "'w shell \<Rightarrow> nat \<Rightarrow> vm_value list \<Rightarrow> 'w vm \<Rightarrow> (int \<times> 'w vm) option" where
  "builtin_call sh i argv vm =
     (case command_target i argv of
        Some b \<Rightarrow>
          do { (status, vm) \<leftarrow> builtin_call sh b (tl argv) vm;
               vm \<leftarrow> after_builtin sh b status (vm_status status vm);
               Some (status, vm) }
      | None \<Rightarrow> (builtin_fns ! i) sh argv vm)"
  by pat_completeness auto
termination
  by (relation "measure (\<lambda>(sh, i, argv, vm). length argv)") (auto simp: command_target_def split: if_splits)

declare builtin_call.simps [simp del]

lemma builtin_fns_count: "length builtin_fns = builtin_count"
  by (simp add: builtin_fns_def builtin_count_def builtin_names_def)

end
