(* ===== verification/VmSafe.thy ===== *)
theory VmSafe
  imports VmRun
begin

text \<open>
  The machine's arrays are never overrun, whatever bytes it runs: the stack, the call stack, the loop
  stack, the redirection frames and the references to images stay within their bounds, and the tables
  of the scopes stay well formed. \<open>safe\<close> says of the result of an operation that the machine it ends in, when it does
  not abort, is within its bounds and has kept the images it had.
\<close>

subsection \<open>The bounds\<close>

text \<open>The functions of an image are its own.\<close>

definition image_plain :: "image \<Rightarrow> bool" where
  "image_plain img \<longleftrightarrow> (\<forall>f \<in> set (im_funcs img). fn_image f = None)"

definition vm_ok :: "'w vm \<Rightarrow> bool" where
  "vm_ok vm \<longleftrightarrow>
     length (vm_stack vm) \<le> VM_STACK_MAX \<and>
     length (vm_calls vm) \<le> VM_CALL_STACK_MAX \<and>
     vm_loop_depth vm \<le> VM_LOOP_STACK_MAX \<and>
     (\<forall>f \<in> set (vm_calls vm). cf_loop_depth f \<le> VM_LOOP_STACK_MAX \<and> cf_image f < length (vm_images vm)) \<and>
     length (vm_redirs vm) \<le> VM_REDIR_STACK_MAX \<and> (\<forall>f \<in> set (vm_redirs vm). length f \<le> 16) \<and>
     (\<forall>img \<in> set (vm_images vm). image_plain img) \<and>
     vm_image vm < length (vm_images vm) \<and> vm_main_image vm < length (vm_images vm) \<and>
     (\<forall>f \<in> set (vm_funcs vm). \<forall>i. fn_image f = Some i \<longrightarrow> i < length (vm_images vm)) \<and>
     env_inv (vm_env vm)"

definition vm_le :: "'w vm \<Rightarrow> 'w vm \<Rightarrow> bool" where
  "vm_le vm0 vm \<longleftrightarrow> vm_ok vm \<and> length (vm_images vm0) \<le> length (vm_images vm)"

definition safe :: "'w vm \<Rightarrow> 'w vm option \<Rightarrow> bool" where
  "safe vm0 r \<longleftrightarrow> (\<forall>vm. r = Some vm \<longrightarrow> vm_le vm0 vm)"

definition safe_with :: "'w vm \<Rightarrow> ('a \<times> 'w vm) option \<Rightarrow> bool" where
  "safe_with vm0 r \<longleftrightarrow> (\<forall>a vm. r = Some (a, vm) \<longrightarrow> vm_le vm0 vm)"

lemma vm_le_refl: "vm_ok vm \<Longrightarrow> vm_le vm vm"
  by (simp add: vm_le_def)

lemma vm_le_ok: "vm_le vm0 vm \<Longrightarrow> vm_ok vm"
  by (simp add: vm_le_def)

lemma vm_le_trans: "vm_le vm0 vm1 \<Longrightarrow> vm_le vm1 vm2 \<Longrightarrow> vm_le vm0 vm2"
  by (simp add: vm_le_def)

lemma safe_weaken: "vm_le vm0 vm \<Longrightarrow> safe vm r \<Longrightarrow> safe vm0 r"
  by (auto simp: safe_def intro: vm_le_trans)

lemma safe_with_weaken: "vm_le vm0 vm \<Longrightarrow> safe_with vm r \<Longrightarrow> safe_with vm0 r"
  by (auto simp: safe_with_def intro: vm_le_trans)

lemma safe_None: "safe vm0 None" "safe_with vm0 None"
  by (simp_all add: safe_def safe_with_def)

lemma safe_Some: "vm_le vm0 vm \<Longrightarrow> safe vm0 (Some vm)"
  by (simp add: safe_def)

lemma safe_with_Some: "vm_le vm0 vm \<Longrightarrow> safe_with vm0 (Some (a, vm))"
  by (simp add: safe_with_def)

text \<open>The rules follow the shape of the code: a bind, a test, a case, a local definition.\<close>

lemma safe_bind: "safe vm0 r \<Longrightarrow> (\<And>vm. vm_le vm0 vm \<Longrightarrow> safe vm0 (f vm)) \<Longrightarrow> safe vm0 (Option.bind r f)"
  by (cases r) (auto simp: safe_def)

lemma safe_bind_prod:
  "safe_with vm0 r \<Longrightarrow> (\<And>a vm. vm_le vm0 vm \<Longrightarrow> safe vm0 (f a vm)) \<Longrightarrow>
   safe vm0 (Option.bind r (\<lambda>(a, vm). f a vm))"
  by (cases r) (auto simp: safe_def safe_with_def)

lemma safe_with_bind:
  "safe vm0 r \<Longrightarrow> (\<And>vm. vm_le vm0 vm \<Longrightarrow> safe_with vm0 (f vm)) \<Longrightarrow> safe_with vm0 (Option.bind r f)"
  by (cases r) (auto simp: safe_def safe_with_def)

lemma safe_with_bind_prod:
  "safe_with vm0 r \<Longrightarrow> (\<And>a vm. vm_le vm0 vm \<Longrightarrow> safe_with vm0 (f a vm)) \<Longrightarrow>
   safe_with vm0 (Option.bind r (\<lambda>(a, vm). f a vm))"
  by (cases r) (auto simp: safe_with_def)

lemma safe_bind_pure: "(\<And>a. r = Some a \<Longrightarrow> safe vm0 (f a)) \<Longrightarrow> safe vm0 (Option.bind r f)"
  by (cases r) (simp_all add: safe_None)

lemma safe_with_bind_pure: "(\<And>a. r = Some a \<Longrightarrow> safe_with vm0 (f a)) \<Longrightarrow> safe_with vm0 (Option.bind r f)"
  by (cases r) (simp_all add: safe_None)

lemma safe_map: "safe vm0 r \<Longrightarrow> (\<And>vm. vm_le vm0 vm \<Longrightarrow> vm_le vm0 (f vm)) \<Longrightarrow> safe vm0 (map_option f r)"
  by (cases r) (auto simp: safe_def)

lemma safe_map_snd: "safe_with vm0 r \<Longrightarrow> safe vm0 (map_option snd r)"
  by (cases r) (auto simp: safe_def safe_with_def)

lemma safe_with_map: "safe_with vm0 r \<Longrightarrow> safe_with vm0 (map_option (\<lambda>(a, vm). (f a, vm)) r)"
  by (cases r) (auto simp: safe_with_def)

lemma safe_let:
  "vm_le vm0 vm \<Longrightarrow> (\<And>vm. vm_le vm0 vm \<Longrightarrow> safe vm0 (f vm)) \<Longrightarrow> safe vm0 (Let vm f)"
  "vm_le vm0 vm \<Longrightarrow> (\<And>vm. vm_le vm0 vm \<Longrightarrow> safe_with vm0 (g vm)) \<Longrightarrow> safe_with vm0 (Let vm g)"
  "vm_le vm0 vm \<Longrightarrow> (\<And>vm. vm_le vm0 vm \<Longrightarrow> vm_le vm0 (k vm)) \<Longrightarrow> vm_le vm0 (Let vm k)"
  by (simp_all add: Let_def)

lemma safe_let_pure:
  "safe vm0 (f a) \<Longrightarrow> safe vm0 (Let a f)"
  "safe_with vm0 (g a) \<Longrightarrow> safe_with vm0 (Let a g)"
  "vm_le vm0 (k a) \<Longrightarrow> vm_le vm0 (Let a k)"
  by (simp_all add: Let_def)

lemma safe_if:
  "(b \<Longrightarrow> safe vm0 r) \<Longrightarrow> (\<not> b \<Longrightarrow> safe vm0 r') \<Longrightarrow> safe vm0 (if b then r else r')"
  "(b \<Longrightarrow> safe_with vm0 p) \<Longrightarrow> (\<not> b \<Longrightarrow> safe_with vm0 p') \<Longrightarrow> safe_with vm0 (if b then p else p')"
  "(b \<Longrightarrow> vm_le vm0 vm) \<Longrightarrow> (\<not> b \<Longrightarrow> vm_le vm0 vm') \<Longrightarrow> vm_le vm0 (if b then vm else vm')"
  by simp_all

lemma safe_option:
  "(x = None \<Longrightarrow> safe vm0 r) \<Longrightarrow> (\<And>y. x = Some y \<Longrightarrow> safe vm0 (f y)) \<Longrightarrow>
   safe vm0 (case x of None \<Rightarrow> r | Some y \<Rightarrow> f y)"
  "(x = None \<Longrightarrow> safe_with vm0 p) \<Longrightarrow> (\<And>y. x = Some y \<Longrightarrow> safe_with vm0 (g y)) \<Longrightarrow>
   safe_with vm0 (case x of None \<Rightarrow> p | Some y \<Rightarrow> g y)"
  "(x = None \<Longrightarrow> vm_le vm0 vm) \<Longrightarrow> (\<And>y. x = Some y \<Longrightarrow> vm_le vm0 (k y)) \<Longrightarrow>
   vm_le vm0 (case x of None \<Rightarrow> vm | Some y \<Rightarrow> k y)"
  by (auto split: option.split)

lemma safe_prod:
  "(\<And>a b. x = (a, b) \<Longrightarrow> safe vm0 (f a b)) \<Longrightarrow> safe vm0 (case x of (a, b) \<Rightarrow> f a b)"
  "(\<And>a b. x = (a, b) \<Longrightarrow> safe_with vm0 (g a b)) \<Longrightarrow> safe_with vm0 (case x of (a, b) \<Rightarrow> g a b)"
  "(\<And>a b. x = (a, b) \<Longrightarrow> vm_le vm0 (k a b)) \<Longrightarrow> vm_le vm0 (case x of (a, b) \<Rightarrow> k a b)"
  by (auto split: prod.split)

lemmas safe_shapes =
  safe_None safe_Some safe_with_Some safe_bind safe_bind_prod safe_with_bind safe_with_bind_prod
  safe_map safe_map_snd safe_with_map safe_let safe_if safe_option

text \<open>Tried behind the others: what the code computes without touching the machine.\<close>

lemmas safe_pure = safe_let_pure safe_bind_pure safe_with_bind_pure safe_prod

subsection \<open>Updates that touch no bound\<close>

lemma vm_le_updates [simp]:
  "vm_le vm0 (vm\<lparr>vm_ip := i\<rparr>) = vm_le vm0 vm"
  "vm_le vm0 (vm\<lparr>vm_env_kept := k\<rparr>) = vm_le vm0 vm"
  "vm_le vm0 (vm\<lparr>vm_crashed := b\<rparr>) = vm_le vm0 vm"
  "vm_le vm0 (vm\<lparr>vm_laststatus := s\<rparr>) = vm_le vm0 vm"
  "vm_le vm0 (vm\<lparr>vm_world := w\<rparr>) = vm_le vm0 vm"
  "vm_le vm0 (vm\<lparr>vm_halted := b\<rparr>) = vm_le vm0 vm"
  "vm_le vm0 (vm\<lparr>vm_exit_requested := b\<rparr>) = vm_le vm0 vm"
  "vm_le vm0 (vm\<lparr>vm_return_requested := b\<rparr>) = vm_le vm0 vm"
  "vm_le vm0 (vm\<lparr>vm_next_command_id := n\<rparr>) = vm_le vm0 vm"
  "vm_le vm0 (vm\<lparr>vm_last_bg_pid := p\<rparr>) = vm_le vm0 vm"
  "vm_le vm0 (vm\<lparr>vm_jobs := jt\<rparr>) = vm_le vm0 vm"
  "vm_le vm0 (vm\<lparr>vm_sigs := sg\<rparr>) = vm_le vm0 vm"
  "vm_le vm0 (vm\<lparr>vm_exit_trap := t\<rparr>) = vm_le vm0 vm"
  "vm_le vm0 (vm\<lparr>vm_traps := ts\<rparr>) = vm_le vm0 vm"
  "vm_le vm0 (vm\<lparr>vm_cenv := ce\<rparr>) = vm_le vm0 vm"
  "vm_le vm0 (vm\<lparr>vm_modules_loaded := ml\<rparr>) = vm_le vm0 vm"
  "vm_le vm0 (vm\<lparr>vm_errexit_suppressed := n'\<rparr>) = vm_le vm0 vm"
  "vm_le vm0 (vm\<lparr>vm_loop_tops := lt\<rparr>) = vm_le vm0 vm"
  "vm_le vm0 (vm\<lparr>vm_sink := sk\<rparr>) = vm_le vm0 vm"
  "vm_le vm0 (vm\<lparr>vm_no_fork := b\<rparr>) = vm_le vm0 vm"
  "vm_le vm0 (vm\<lparr>vm_script_name := sn\<rparr>) = vm_le vm0 vm"
  "vm_le vm0 (vm\<lparr>vm_option_flags := ofl\<rparr>) = vm_le vm0 vm"
  "vm_le vm0 (vm\<lparr>vm_opt_errexit := b\<rparr>) = vm_le vm0 vm"
  "vm_le vm0 (vm\<lparr>vm_opt_nounset := b\<rparr>) = vm_le vm0 vm"
  "vm_le vm0 (vm\<lparr>vm_opt_xtrace := b\<rparr>) = vm_le vm0 vm"
  by (simp_all add: vm_le_def vm_ok_def)

lemma vm_le_env: "vm_le vm0 vm \<Longrightarrow> env_inv e \<Longrightarrow> vm_le vm0 (vm\<lparr>vm_env := e\<rparr>)"
  by (simp add: vm_le_def vm_ok_def)

lemma vm_le_has_env: "vm_le vm0 vm \<Longrightarrow> env_inv (vm_env vm)"
  by (simp add: vm_le_def vm_ok_def)

lemma vm_puts_le [simp]: "vm_le vm0 (vm_puts h s vm) = vm_le vm0 vm"
  by (simp add: vm_puts_def)

lemma vm_complain_le [simp]: "vm_le vm0 (vm_complain h s vm) = vm_le vm0 vm"
  by (simp add: vm_complain_def)

lemma vm_status_le [simp]: "vm_le vm0 (vm_status s vm) = vm_le vm0 vm"
  by (simp add: vm_status_def)

lemma vm_fail_le [simp]: "vm_le vm0 (vm_fail h s vm) = vm_le vm0 vm"
  by (simp add: vm_fail_def)

lemma on_world_le [simp]: "vm_le vm0 (on_world f vm) = vm_le vm0 vm"
  by (simp add: on_world_def)

text \<open>A question to the world, and the number of the next command.\<close>

lemma ask_le: "vm_le vm0 vm \<Longrightarrow> ask f vm = (a, vm') \<Longrightarrow> vm_le vm0 vm'"
  by (auto simp: ask_def split: prod.splits)

lemma next_command_le: "vm_le vm0 vm \<Longrightarrow> next_command vm = (cmd, vm') \<Longrightarrow> vm_le vm0 vm'"
  by (auto simp: next_command_def)

lemma safe_ask:
  "vm_le vm0 vm \<Longrightarrow> (\<And>a vm. vm_le vm0 vm \<Longrightarrow> safe vm0 (g a vm)) \<Longrightarrow> safe vm0 (case ask f vm of (a, vm) \<Rightarrow> g a vm)"
  "vm_le vm0 vm \<Longrightarrow> (\<And>a vm. vm_le vm0 vm \<Longrightarrow> safe_with vm0 (k a vm)) \<Longrightarrow>
   safe_with vm0 (case ask f vm of (a, vm) \<Rightarrow> k a vm)"
  "vm_le vm0 vm \<Longrightarrow> (\<And>a vm. vm_le vm0 vm \<Longrightarrow> vm_le vm0 (m a vm)) \<Longrightarrow> vm_le vm0 (case ask f vm of (a, vm) \<Rightarrow> m a vm)"
  "vm_le vm0 vm \<Longrightarrow> (\<And>a vm. vm_le vm0 vm \<Longrightarrow> safe vm0 (g' a vm)) \<Longrightarrow>
   safe vm0 (case next_command vm of (a, vm) \<Rightarrow> g' a vm)"
  by (auto split: prod.split intro: ask_le next_command_le)

lemma vm_jump_le [simp]: "vm_le vm0 (vm_jump h offset vm) = vm_le vm0 vm"
  by (simp add: vm_jump_def Let_def)

lemma vm_emit_le [simp]: "vm_le vm0 (vm_emit h ev vm) = vm_le vm0 vm"
  "vm_le vm0 (emit_start h cmd name vm) = vm_le vm0 vm" "vm_le vm0 (emit_end h cmd s vm) = vm_le vm0 vm"
  by (simp_all add: vm_emit_def emit_start_def emit_end_def split: option.split)

lemma negate_if_le [simp]: "vm_le vm0 (negate_if b vm) = vm_le vm0 vm"
  by (simp add: negate_if_def)

subsection \<open>Operations on the scopes\<close>

lemma vm_on_env_le:
  assumes "vm_le vm0 vm" "\<And>env env' msg. env_inv env \<Longrightarrow> env \<noteq> [] \<Longrightarrow> f env = (env', msg) \<Longrightarrow> env_inv env'"
  shows "vm_le vm0 (vm_on_env h f vm)"
  using assms(1) assms(2) [of "vm_env vm"] vm_le_has_env [OF assms(1)]
  by (cases "f (vm_env vm)") (auto simp: vm_on_env_def intro: vm_le_env)

lemma env_ops_keep:
  assumes "env_inv env" "env \<noteq> []"
  shows "environ_set env name v = (env', msg) \<Longrightarrow> env_inv env'"
    and "environ_assign env name v = (env', msg) \<Longrightarrow> env_inv env'"
    and "environ_set_flags env name v flags = (env', msg) \<Longrightarrow> env_inv env'"
  using environ_set_flags_correct(1) [OF assms(1)] environ_assign_correct(1) [OF assms]
  unfolding environ_set_def by blast+

lemma vm_set_le:
  "vm_le vm0 vm \<Longrightarrow> vm_le vm0 (vm_on_env h (\<lambda>env. environ_set env name v) vm)"
  "vm_le vm0 vm \<Longrightarrow> vm_le vm0 (vm_on_env h (\<lambda>env. environ_assign env name v) vm)"
  "vm_le vm0 vm \<Longrightarrow> vm_le vm0 (vm_on_env h (\<lambda>env. if b then environ_set env name v else environ_assign env name v) vm)"
  by (rule vm_on_env_le, assumption, cases b, auto dest: env_ops_keep)+

lemma environ_modify_le:
  assumes "vm_le vm0 vm" "\<And>var. var_name (f var) = var_name var"
  shows "vm_le vm0 (vm\<lparr>vm_env := environ_modify f (vm_env vm) name\<rparr>)"
proof (rule vm_le_env [OF assms(1)])
  note mod = environ_modify_correct [of f, OF assms(2)] and env = vm_le_has_env [OF assms(1)]
  show "env_inv (environ_modify f (vm_env vm) name)"
    by (rule mod(1)) (simp add: env)
qed

subsection \<open>The stack and the operands\<close>

lemma vm_le_stack:
  "vm_le vm0 vm \<Longrightarrow> length vs \<le> length (vm_stack vm) \<Longrightarrow> vm_le vm0 (vm\<lparr>vm_stack := vs\<rparr>)"
  by (simp add: vm_le_def vm_ok_def)

lemma vm_push_safe: "vm_le vm0 vm \<Longrightarrow> safe vm0 (vm_push v vm)"
  by (simp add: safe_def vm_push_def vm_le_def vm_ok_def)

lemma vm_push_all_safe: "vm_le vm0 vm \<Longrightarrow> safe vm0 (vm_push_all vs vm)"
  by (induction vs arbitrary: vm) (simp_all add: safe_Some safe_bind vm_push_safe)

lemma vm_pop_safe: "vm_le vm0 vm \<Longrightarrow> safe_with vm0 (vm_pop vm)"
  by (auto simp: safe_with_def vm_pop_def intro: vm_le_stack split: list.splits)

lemma vm_pop_string_safe: "vm_le vm0 vm \<Longrightarrow> safe_with vm0 (vm_pop_string vm)"
  unfolding vm_pop_string_def by (rule safe_with_map [OF vm_pop_safe])

lemma vm_pop_int_safe: "vm_le vm0 vm \<Longrightarrow> safe_with vm0 (vm_pop_int vm)"
  unfolding vm_pop_int_def by (rule safe_with_map [OF vm_pop_safe])

lemma vm_pop_n_safe: "vm_le vm0 vm \<Longrightarrow> safe_with vm0 (vm_pop_n n vm)"
  by (auto simp: safe_with_def vm_pop_n_def intro: vm_le_stack)

lemma read_u8_safe: "vm_le vm0 vm \<Longrightarrow> safe_with vm0 (read_u8 vm)"
  by (simp add: safe_with_def read_u8_def)

lemma read_u16_safe: "vm_le vm0 vm \<Longrightarrow> safe_with vm0 (read_u16 vm)"
  unfolding read_u16_def by (rule safe_shapes read_u8_safe | assumption)+

lemma read_i32_safe: "vm_le vm0 vm \<Longrightarrow> safe_with vm0 (read_i32 vm)"
  unfolding read_i32_def by (rule safe_shapes read_u8_safe | assumption)+

lemma read_name_safe: "vm_le vm0 vm \<Longrightarrow> safe_with vm0 (read_name vm)"
  unfolding read_name_def by (rule safe_shapes read_u16_safe | assumption | rule safe_pure)+

lemmas operand_safe =
  vm_push_safe vm_push_all_safe vm_pop_safe vm_pop_string_safe vm_pop_int_safe vm_pop_n_safe
  read_u8_safe read_u16_safe read_i32_safe read_name_safe vm_set_le

subsection \<open>The handlers of data and control\<close>

lemma expand_word_safe: "vm_le vm0 vm \<Longrightarrow> safe vm0 (expand_word h name opr condition var_val vm)"
  unfolding expand_word_def
  by (rule operand_safe safe_shapes | assumption | simp)+

lemma data_ops_safe:
  assumes "vm_le vm0 vm"
  shows "safe vm0 (op_push_const sh vm)" "safe vm0 (op_push_int sh vm)" "safe vm0 (op_pop sh vm)"
    "safe vm0 (op_dup sh vm)" "safe vm0 (op_concat sh vm)" "safe vm0 (op_get_special sh vm)"
    "safe vm0 (op_glob sh vm)" "safe vm0 (op_expand_args sh vm)" "safe vm0 (op_split_fields sh vm)"
    "safe vm0 (op_expand_tilde sh vm)" "safe vm0 (op_quote_remove sh vm)" "safe vm0 (op_expand_param sh vm)"
  unfolding op_push_const_def op_push_int_def op_pop_def op_dup_def op_concat_def op_get_special_def
    op_glob_def op_expand_args_def op_split_fields_def op_expand_tilde_def op_quote_remove_def
    op_expand_param_def
  by (rule assms operand_safe expand_word_safe safe_shapes | assumption | rule safe_pure | simp)+

lemma arith_eval_env:
  assumes "env_inv env" "arith_eval expr env = Some (Arith_value v e s)"
  shows "env_inv (ar_env s)"
  using arith_eval_n_total [OF assms(1) order_refl, of expr] assms(2)
  by (auto simp: arith_eval_def arith_outcome_of_def split: if_splits)

lemma safe_bind_arith:
  assumes "vm_le vm0 vm"
    "\<And>v e s. vm_le vm0 (vm\<lparr>vm_env := ar_env s\<rparr>) \<Longrightarrow> safe vm0 (f v e s)"
  shows "safe vm0 (do { outcome \<leftarrow> arith_eval expr (vm_env vm);
                        (v, e, s) \<leftarrow> (case outcome of
                                     Arith_value v e s \<Rightarrow> Some (v, e, s) | Arith_undefined \<Rightarrow> None);
                        f v e s })"
  using assms arith_eval_env [OF vm_le_has_env [OF assms(1)], of expr]
  by (auto simp: safe_None vm_le_env split: Option.bind_split arith_outcome.split)

lemma expand_arith_safe: "vm_le vm0 vm \<Longrightarrow> safe vm0 (op_expand_arith sh vm)"
  unfolding op_expand_arith_def
  by (rule operand_safe safe_bind_arith safe_shapes | assumption | simp)+

lemma pop_groups_safe: "vm_le vm0 vm \<Longrightarrow> safe_with vm0 (pop_groups n vm)"
proof (induction n arbitrary: vm)
  case (Suc n)
  show ?case
    unfolding pop_groups.simps by (rule operand_safe safe_shapes Suc | assumption | rule safe_pure)+
qed (simp add: safe_with_Some)

lemma collect_words_safe: "vm_le vm0 vm \<Longrightarrow> safe vm0 (op_collect_words sh vm)"
  unfolding op_collect_words_def
  by (rule operand_safe pop_groups_safe safe_shapes | assumption | rule safe_pure)+

lemma jump_ops_safe:
  assumes "vm_le vm0 vm"
  shows "safe vm0 (op_jmp sh vm)" "safe vm0 (op_jmp_true sh vm)" "safe vm0 (op_jmp_false sh vm)"
    "safe vm0 (op_jmp_none sh vm)"
  unfolding op_jmp_def op_jmp_true_def op_jmp_false_def op_jmp_none_def
  by (rule assms operand_safe safe_shapes | assumption | rule safe_pure | simp)+

lemma iter_sizes_safe: "vm_le vm0 vm \<Longrightarrow> safe_with vm0 (iter_sizes h n sizes vm)"
proof (induction n arbitrary: vm sizes)
  case (Suc n)
  show ?case
    unfolding iter_sizes.simps by (rule operand_safe safe_shapes Suc | assumption | rule safe_pure | simp)+
qed (simp add: safe_with_Some)

lemma iter_ops_safe:
  assumes "vm_le vm0 vm"
  shows "safe vm0 (op_init_iter sh vm)" "safe vm0 (op_get_next_iter sh vm)"
proof -
  show "safe vm0 (op_init_iter sh vm)"
    unfolding op_init_iter_def
    by (rule assms operand_safe iter_sizes_safe safe_shapes | assumption | rule safe_pure)+
  show "safe vm0 (op_get_next_iter sh vm)"
    using assms unfolding op_get_next_iter_def
    by (auto split: list.split value_t.split intro!: vm_push_safe safe_Some vm_le_stack)
qed

lemma vm_le_new_scope: "vm_le vm0 vm \<Longrightarrow> vm_le vm0 (vm\<lparr>vm_env := environ_new (vm_env vm) b\<rparr>)"
  by (rule vm_le_env) (auto simp: environ_new_correct vm_le_has_env)

lemma env_inv_tl: "env_inv env \<Longrightarrow> env_inv (tl env)"
  by (cases env) simp_all

lemma env_inv_drop: "env_inv env \<Longrightarrow> env_inv (drop n env)"
  by (induction n) (simp_all add: env_inv_tl drop_Suc tl_drop [symmetric])

lemma vm_le_drop_scope: "vm_le vm0 vm \<Longrightarrow> vm_le vm0 (vm_drop_scope vm)"
  using vm_le_env [OF _ env_inv_tl [OF vm_le_has_env], of vm0 vm]
  by (simp add: vm_drop_scope_def Let_def environ_pop_def)

lemma safe_case_array:
  "(\<And>es. v = VT_ARRAY es \<Longrightarrow> safe vm0 (f es)) \<Longrightarrow> safe vm0 r \<Longrightarrow> safe vm0 (case v of VT_ARRAY es \<Rightarrow> f es | _ \<Rightarrow> r)"
  by (cases v) simp_all

lemma variable_ops_safe:
  assumes "vm_le vm0 vm"
  shows "safe vm0 (op_get_var sh vm)" "safe vm0 (op_set_var sh vm)" "safe vm0 (op_set_local sh vm)"
    "safe vm0 (op_push_scope sh vm)" "safe vm0 (op_pop_scope sh vm)" "safe vm0 (op_export sh vm)"
    "safe vm0 (op_get_array sh vm)" "safe vm0 (op_set_array sh vm)"
proof -
  show "safe vm0 (op_get_var sh vm)" "safe vm0 (op_set_var sh vm)" "safe vm0 (op_set_local sh vm)"
    "safe vm0 (op_push_scope sh vm)" "safe vm0 (op_pop_scope sh vm)" "safe vm0 (op_get_array sh vm)"
    unfolding op_get_var_def op_set_var_def op_set_local_def op_push_scope_def op_pop_scope_def
      op_get_array_def
    by (rule assms operand_safe vm_le_new_scope vm_le_drop_scope safe_shapes
         | assumption | rule safe_pure | simp)+
  show "safe vm0 (op_export sh vm)"
    unfolding op_export_def environ_export_def
    by (rule assms operand_safe environ_modify_le safe_shapes | assumption | rule safe_pure | simp)+
  show "safe vm0 (op_set_array sh vm)"
    unfolding op_set_array_def
    by (rule assms operand_safe environ_modify_le safe_shapes safe_case_array
         | assumption | rule safe_pure | simp)+
qed

lemma op_get_local_safe: "vm_le vm0 vm \<Longrightarrow> safe vm0 (op_get_local sh vm)"
  unfolding op_get_local_def
  by (rule operand_safe safe_shapes | assumption | rule safe_pure | simp split: list.split, intro conjI allI impI)+

lemma op_set_array_bulk_safe: "vm_le vm0 vm \<Longrightarrow> safe vm0 (op_set_array_bulk sh vm)"
  unfolding op_set_array_bulk_def
  by (rule operand_safe safe_shapes | assumption | rule safe_pure
      | simp only: list.case split: list.split, intro conjI allI impI)+

lemma vm_le_loop: "vm_le vm0 vm \<Longrightarrow> d \<le> VM_LOOP_STACK_MAX \<Longrightarrow> vm_le vm0 (vm\<lparr>vm_loop_depth := d\<rparr>)"
  by (simp add: vm_le_def vm_ok_def)

lemma vm_le_loop_depth: "vm_le vm0 vm \<Longrightarrow> vm_loop_depth vm \<le> VM_LOOP_STACK_MAX"
  by (simp add: vm_le_def vm_ok_def)

lemma loop_status_ops_safe:
  assumes "vm_le vm0 vm"
  shows "safe vm0 (op_loop_enter sh vm)" "safe vm0 (op_loop_exit sh vm)" "safe vm0 (op_negate_status sh vm)"
    "safe vm0 (op_errexit_push sh vm)" "safe vm0 (op_errexit_pop sh vm)" "safe vm0 (op_status_zero sh vm)"
    "safe vm0 (op_push_status sh vm)" "safe vm0 (op_pop_status sh vm)"
  using assms vm_le_loop_depth [OF assms]
  by (auto simp: op_loop_enter_def op_loop_exit_def op_negate_status_def op_errexit_push_def op_errexit_pop_def
      op_status_zero_def op_push_status_def intro!: safe_Some vm_le_loop vm_push_safe)
     (auto simp: op_pop_status_def intro!: safe_bind_prod vm_pop_safe safe_None safe_Some split: value_t.split)

subsection \<open>Calls\<close>

lemma vm_le_goto:
  "vm_le vm0 vm \<Longrightarrow> i < length (vm_images vm) \<Longrightarrow> vm_le vm0 (vm\<lparr>vm_image := i, vm_ip := ip\<rparr>)"
  by (simp add: vm_le_def vm_ok_def)

lemma return_frame_safe: "vm_le vm0 vm \<Longrightarrow> safe vm0 (vm_return_frame vm)"
  unfolding vm_return_frame_def
  by (auto simp: vm_le_def vm_ok_def vm_drop_scope_def Let_def environ_pop_def env_inv_tl intro!: safe_None safe_Some split: list.splits)

lemma bind_params_le: "vm_le vm0 vm \<Longrightarrow> vm_le vm0 (bind_params h i vs vm)"
  by (induction vs arbitrary: i vm) (simp_all add: vm_set_le)

lemma images_kept [simp]:
  "vm_images (vm_puts h s vm) = vm_images vm" "vm_images (vm_on_env h f vm) = vm_images vm"
  "vm_main_image (vm_puts h s vm) = vm_main_image vm" "vm_main_image (vm_on_env h f vm) = vm_main_image vm"
  by (simp_all add: vm_puts_def vm_on_env_def split: prod.split)

lemma bind_params_images [simp]:
  "vm_images (bind_params h i vs vm) = vm_images vm" "vm_main_image (bind_params h i vs vm) = vm_main_image vm"
  by (induction vs arbitrary: i vm) simp_all

lemma vm_le_push_frame:
  "vm_le vm0 vm \<Longrightarrow> length (vm_calls vm) < VM_CALL_STACK_MAX \<Longrightarrow> cf_loop_depth f \<le> VM_LOOP_STACK_MAX \<Longrightarrow>
   cf_image f < length (vm_images vm) \<Longrightarrow> vm_le vm0 (vm\<lparr>vm_calls := f # vm_calls vm\<rparr>)"
  by (simp add: vm_le_def vm_ok_def)

lemma vm_le_image: "vm_le vm0 vm \<Longrightarrow> vm_image vm < length (vm_images vm) \<and> vm_main_image vm < length (vm_images vm)"
  by (simp add: vm_le_def vm_ok_def)

lemma func_image:
  "vm_le vm0 vm \<Longrightarrow> f \<in> set (vm_funcs vm) \<Longrightarrow>
   (case fn_image f of Some i \<Rightarrow> i | None \<Rightarrow> vm_main_image vm) < length (vm_images vm)"
  by (auto simp: vm_le_def vm_ok_def split: option.split)

lemma enter_func_le:
  assumes "vm_le vm0 vm" "length (vm_calls vm) < VM_CALL_STACK_MAX" "f \<in> set (vm_funcs vm)"
  shows "vm_le vm0 (enter_func h f argv vm)"
proof -
  let ?frame = "\<lparr>cf_return_ip = vm_ip vm, cf_stack_base = length (vm_stack vm),
                 cf_loop_depth = vm_loop_depth vm, cf_image = vm_image vm\<rparr>"
  let ?vm1 = "vm\<lparr>vm_calls := ?frame # vm_calls vm, vm_env := environ_new (vm_env vm) False\<rparr>"
  have "vm_le vm0 (vm\<lparr>vm_calls := ?frame # vm_calls vm\<rparr>)"
    using assms(1,2) by (intro vm_le_push_frame) (simp_all add: vm_le_loop_depth vm_le_image)
  from vm_le_new_scope [OF this, of False] have "vm_le vm0 ?vm1"
    by simp
  then have "vm_le vm0 (vm_on_env h (\<lambda>env. environ_set env ''#'' (VT_STRING (show_nat (length argv - 1))))
      (bind_params h 1 (tl argv) ?vm1))"
    by (intro vm_set_le bind_params_le)
  then show ?thesis
    unfolding enter_func_def Let_def
    by (rule vm_le_goto) (use func_image [OF assms(1,3)] in \<open>auto split: option.splits\<close>)
qed

lemma call_func_le: "vm_le vm0 vm \<Longrightarrow> f \<in> set (vm_funcs vm) \<Longrightarrow> vm_le vm0 (call_func h f argv vm)"
  by (simp add: call_func_def enter_func_le)

lemma call_ops_safe:
  assumes "vm_le vm0 vm"
  shows "safe vm0 (op_exec_func sh vm)" "safe vm0 (op_ret sh vm)"
proof -
  have "n < length (vm_funcs vm')" if "n < length (vm_funcs vm') mod 2 ^ 16" for n and vm' :: "'a vm"
    using that by (meson less_le_trans mod_less_eq_dividend)
  then show "safe vm0 (op_exec_func sh vm)"
    unfolding op_exec_func_def
    by (auto intro!: assms safe_bind_prod operand_safe safe_Some call_func_le nth_mem simp: not_le)
  show "safe vm0 (op_ret sh vm)"
    using assms by (simp add: op_ret_def safe_Some return_frame_safe)
qed

subsection \<open>Running a text\<close>

text \<open>What a run to completion promises, and what the compiler gives.\<close>

definition run_safe :: "('w vm \<Rightarrow> 'w vm option) \<Rightarrow> bool" where
  "run_safe run \<longleftrightarrow> (\<forall>vm. vm_ok vm \<longrightarrow> safe vm (run vm))"

definition compile_plain :: "('w \<Rightarrow> string \<Rightarrow> string \<Rightarrow> image option \<times> 'w) \<Rightarrow> bool" where
  "compile_plain compile \<longleftrightarrow> (\<forall>w source label img w'. compile w source label = (Some img, w') \<longrightarrow> image_plain img)"

abbreviation shell_safe :: "'w shell \<Rightarrow> bool" where
  "shell_safe sh \<equiv> run_safe (sh_run sh) \<and> compile_plain (sh_compile sh)"

definition funcs_in :: "nat \<Rightarrow> vm_func list \<Rightarrow> bool" where
  "funcs_in n fs \<longleftrightarrow> (\<forall>f \<in> set fs. \<forall>i. fn_image f = Some i \<longrightarrow> i < n)"

lemma funcs_in_mono: "funcs_in n fs \<Longrightarrow> n \<le> m \<Longrightarrow> funcs_in m fs"
  by (fastforce simp: funcs_in_def)

lemma funcs_in_Cons: "funcs_in n (f # fs) \<longleftrightarrow> (\<forall>i. fn_image f = Some i \<longrightarrow> i < n) \<and> funcs_in n fs"
  by (simp add: funcs_in_def)

lemma funcs_in_snoc: "funcs_in n (fs @ [f]) \<longleftrightarrow> (\<forall>i. fn_image f = Some i \<longrightarrow> i < n) \<and> funcs_in n fs"
  by (auto simp: funcs_in_def)

lemma vm_ok_funcs: "vm_ok vm \<Longrightarrow> funcs_in (length (vm_images vm)) (vm_funcs vm)"
  by (simp add: vm_ok_def funcs_in_def)

lemma inherit_funcs_in: "funcs_in n fs \<Longrightarrow> funcs_in n ps \<Longrightarrow> funcs_in n (inherit_funcs fs ps)"
  by (induction ps arbitrary: fs) (simp_all add: funcs_in_Cons funcs_in_snoc)

lemma merge_func_in:
  assumes "funcs_in n fs" "img < n" "\<And>i. fn_image f = Some i \<Longrightarrow> i < n"
  shows "funcs_in n (merge_func img fs f)"
proof -
  have "(case fn_image f of Some i \<Rightarrow> i | None \<Rightarrow> img) < n"
    using assms(2,3) by (simp split: option.split)
  then show ?thesis
    using assms(1) by (auto simp: funcs_in_def merge_func_def Let_def dest!: set_update_subset_insert [THEN subsetD]
        split: option.splits)
qed

lemma merge_funcs_in:
  "funcs_in n fs \<Longrightarrow> img < n \<Longrightarrow> funcs_in n sub \<Longrightarrow> funcs_in n (merge_funcs img c snap fi sub fs)"
  by (induction sub arbitrary: fi fs) (simp_all add: funcs_in_Cons merge_func_in)

lemma vm_init_ok:
  assumes "\<forall>img \<in> set images. image_plain img" "i < length images"
  shows "vm_ok (vm_init images i sigs cenv w)"
proof -
  have "image_plain (images ! i)"
    using assms by simp
  then show ?thesis
    using assms by (simp add: vm_init_def vm_ok_def image_plain_def environ_new_correct)
qed

text \<open>The machine a text or a module is run in, on the scopes of the one that starts it.\<close>

lemma sub_vm_ok:
  assumes "vm_ok sub" "env_inv env" "funcs_in (length (vm_images sub)) fs"
  shows "vm_ok (sub\<lparr>vm_env := env, vm_env_kept := k, vm_funcs := fs\<rparr>)"
    "vm_ok (sub\<lparr>vm_env := env, vm_env_kept := k, vm_ip := ip\<rparr>)"
  using assms by (simp_all add: vm_ok_def funcs_in_def)

lemma scopes_after_inv: "vm_ok sub \<Longrightarrow> scopes_after vm sub = Some env \<Longrightarrow> env_inv env"
  by (auto simp: scopes_after_def vm_ok_def env_inv_drop split: if_splits)

lemma vm_ok_adopt:
  assumes "vm_ok vm" "vm_ok sub" "length (vm_images vm) \<le> length (vm_images sub)"
    "funcs_in (length (vm_images sub)) fs" "scopes_after vm sub = Some env"
  shows "vm_ok (vm\<lparr>vm_images := vm_images sub, vm_env := env, vm_funcs := fs\<rparr>)"
  using assms(1-4) scopes_after_inv [OF assms(2,5)] by (auto simp: vm_ok_def funcs_in_def intro: less_le_trans)

lemma vm_ok_updates [simp]:
  "vm_ok (vm\<lparr>vm_world := w\<rparr>) = vm_ok vm" "vm_ok (vm\<lparr>vm_sigs := sg\<rparr>) = vm_ok vm"
  "vm_ok (vm\<lparr>vm_cenv := ce\<rparr>) = vm_ok vm" "vm_ok (vm\<lparr>vm_laststatus := st\<rparr>) = vm_ok vm"
  by (simp_all add: vm_ok_def)

lemma run_safeD: "run_safe run \<Longrightarrow> vm_ok vm \<Longrightarrow> run vm = Some vm' \<Longrightarrow> vm_le vm vm'"
  by (simp add: run_safe_def safe_def)

lemma vm_exec_with_safe:
  assumes ok: "vm_le vm0 vm" and sh: "shell_safe sh"
    and exit: "\<And>st vm. vm_le vm0 vm \<Longrightarrow> safe vm0 (exit_fn st vm)"
  shows "safe_with vm0 (vm_exec_with exit_fn sh source label vm)"
proof (cases "sh_compile sh (vm_world vm) source label")
  case (Pair r w)
  show ?thesis
  proof (cases r)
    case None
    with Pair ok show ?thesis by (simp add: vm_exec_with_def safe_with_Some)
  next
    case (Some img)
    let ?images = "vm_images vm @ [img]"
    let ?sub = "vm_init ?images (length (vm_images vm)) (vm_sigs vm) (vm_cenv vm) w"
    let ?sub' = "?sub\<lparr>vm_env := vm_env vm, vm_env_kept := length (vm_env vm), vm_funcs := inherit_funcs (vm_funcs ?sub) (vm_funcs vm)\<rparr>"
    have vm: "vm_ok vm" "length (vm_images vm0) \<le> length (vm_images vm)"
      using ok by (simp_all add: vm_le_def)
    have "image_plain img"
      using sh Pair Some unfolding compile_plain_def by blast
    with vm(1) have sub: "vm_ok ?sub"
      by (intro vm_init_ok) (auto simp: vm_ok_def)
    have images: "vm_images ?sub = ?images"
      by (simp add: vm_init_def)
    have "funcs_in (length ?images) (inherit_funcs (vm_funcs ?sub) (vm_funcs vm))"
      using vm_ok_funcs [OF sub] vm_ok_funcs [OF vm(1)] images
      by (intro inherit_funcs_in) (auto intro: funcs_in_mono)
    with sub vm_le_has_env [OF ok] have sub': "vm_ok ?sub'"
      by (intro sub_vm_ok) (simp_all add: images)
    have "vm_le vm0 (vm\<lparr>vm_images := vm_images s, vm_world := vm_world s, vm_sigs := vm_sigs s,
                 vm_cenv := vm_cenv s, vm_env := env,
                 vm_funcs := merge_funcs (length (vm_images vm)) (length (im_funcs img))
                   (drop (length (im_funcs img)) (vm_funcs ?sub')) 0 (vm_funcs s) (vm_funcs vm),
                 vm_laststatus := vm_laststatus s\<rparr>)" if "sh_run sh ?sub' = Some s" "scopes_after vm s = Some env" for s env
    proof -
      have s: "vm_ok s" "Suc (length (vm_images vm)) \<le> length (vm_images s)"
        using run_safeD [OF conjunct1 [OF sh] sub' that(1)] by (simp_all add: vm_le_def images)
      have "funcs_in (length (vm_images s)) (merge_funcs (length (vm_images vm)) c snap 0 (vm_funcs s) (vm_funcs vm))"
        for c snap
        using s vm_ok_funcs [OF s(1)] vm_ok_funcs [OF vm(1)]
        by (intro merge_funcs_in) (auto intro: funcs_in_mono)
      from vm_ok_adopt [OF vm(1) s(1) _ this that(2)] s(2) vm(2) show ?thesis
        by (simp add: vm_le_def vm_ok_def)
    qed
    then show ?thesis
      unfolding vm_exec_with_def Pair Some option.case prod.case Let_def
      by (intro safe_option safe_None safe_with_bind_pure safe_with_bind safe_with_Some safe_if safe_Some exit) simp_all
  qed
qed

lemma vm_exit_safe: "vm_le vm0 vm \<Longrightarrow> shell_safe sh \<Longrightarrow> safe vm0 (vm_exit sh st vm)"
  unfolding vm_exit_def
  by (rule safe_shapes vm_exec_with_safe | assumption | simp add: vm_exit_plain_def)+

lemma vm_exec_string_safe:
  "vm_le vm0 vm \<Longrightarrow> shell_safe sh \<Longrightarrow> safe_with vm0 (vm_exec_string sh source label vm)"
  unfolding vm_exec_string_def by (rule vm_exec_with_safe vm_exit_safe | assumption)+

subsection \<open>Commands\<close>

definition builtins_safe :: "'w builtins \<Rightarrow> bool" where
  "builtins_safe bi \<longleftrightarrow>
     (\<forall>sh i argv vm. shell_safe sh \<longrightarrow> vm_ok vm \<longrightarrow> i < builtin_count \<longrightarrow> safe_with vm (bi sh i argv vm))"

lemma builtin_safe:
  assumes "builtins_safe bi" "shell_safe sh" "i < builtin_count" "vm_le vm0 vm"
  shows "safe_with vm0 (bi sh i argv vm)"
proof -
  have "safe_with vm (bi sh i argv vm)"
    using assms vm_le_ok unfolding builtins_safe_def by blast
  then show ?thesis
    by (rule safe_with_weaken [OF assms(4)])
qed

lemma after_builtin_safe: "vm_le vm0 vm \<Longrightarrow> shell_safe sh \<Longrightarrow> safe vm0 (after_builtin sh i status vm)"
  unfolding after_builtin_def
  by (rule safe_shapes vm_exit_safe | assumption | simp)+

lemma op_exec_builtin_safe:
  assumes "vm_le vm0 vm" "shell_safe sh" "builtins_safe bi"
  shows "safe vm0 (op_exec_builtin bi sh vm)"
  unfolding op_exec_builtin_def
  by (rule assms operand_safe safe_ask builtin_safe [OF assms(3,2)] after_builtin_safe return_frame_safe safe_shapes
      | assumption | rule safe_pure | simp)+

lemma exec_external_le: "vm_le vm0 vm \<Longrightarrow> vm_le vm0 (exec_external h args vm)"
  unfolding exec_external_def
  by (rule safe_shapes safe_ask | assumption | simp | rule safe_pure)+

lemma find_func_mem: "find_func fs name = Some i \<Longrightarrow> fs ! i \<in> set fs"
  unfolding find_func_def by (drule find_index_Some) simp

lemma op_exec_simple_safe:
  assumes "vm_le vm0 vm" "shell_safe sh" "builtins_safe bi"
  shows "safe vm0 (op_exec_simple bi sh vm)"
  unfolding op_exec_simple_def
  by (rule assms operand_safe safe_ask builtin_safe [OF assms(3,2)] after_builtin_safe return_frame_safe
        exec_external_le safe_shapes
      | assumption | (simp add: builtin_lookup_sound enter_func_le find_func_mem; fail) | rule safe_pure)+

lemma child_vm_le [simp]: "vm_le vm0 (child_vm vm offset) = vm_le vm0 vm"
  by (simp add: child_vm_def)

lemma child_ops_safe:
  assumes "vm_le vm0 vm"
  shows "safe vm0 (op_cmd_subst sh vm)" "safe vm0 (op_subshell sh vm)" "safe vm0 (op_background sh vm)"
  unfolding op_cmd_subst_def op_subshell_def op_background_def
  by (rule assms operand_safe safe_ask safe_shapes | assumption | (simp; fail) | rule safe_pure)+

subsection \<open>Pipelines\<close>

lemma read_members_safe: "vm_le vm0 vm \<Longrightarrow> safe_with vm0 (read_members h n vm)"
proof (induction n arbitrary: vm)
  case (Suc n)
  show ?case
    unfolding read_members.simps
    by (rule operand_safe safe_shapes Suc | assumption | (simp; fail))+
qed (simp add: safe_with_Some)

lemma fork_members_le:
  "fork_members h offs prev pgid pids vm = (pids', prev', pgid', vm') \<Longrightarrow> vm_le vm0 vm \<Longrightarrow> vm_le vm0 vm'"
  by (induction offs arbitrary: prev pgid pids vm)
     (auto simp: Let_def ask_def split: prod.splits option.splits if_splits)

lemma safe_fork_members:
  "vm_le vm0 vm \<Longrightarrow> (\<And>pids prev pgid vm. vm_le vm0 vm \<Longrightarrow> safe vm0 (g pids prev pgid vm)) \<Longrightarrow>
   safe vm0 (case fork_members h offs prv pg ps vm of (pids, prev, pgid, vm) \<Rightarrow> g pids prev pgid vm)"
  using fork_members_le [of h offs prv pg ps vm] by (cases "fork_members h offs prv pg ps vm") auto

lemma vm_wait_fg_safe: "vm_le vm0 vm \<Longrightarrow> safe_with vm0 (vm_wait_fg h jid vm)"
  unfolding vm_wait_fg_def
  by (rule safe_ask safe_shapes | assumption | (simp; fail) | rule safe_pure)+

lemma wait_pipeline_safe: "vm_le vm0 vm \<Longrightarrow> safe vm0 (wait_pipeline h pgid pids vm)"
  unfolding wait_pipeline_def
  by (rule vm_wait_fg_safe safe_shapes | assumption | (simp; fail) | rule safe_pure)+

lemma op_pipeline_safe:
  assumes "vm_le vm0 vm"
  shows "safe vm0 (op_pipeline sh vm)"
  unfolding op_pipeline_def
  by (rule assms operand_safe read_members_safe wait_pipeline_safe safe_fork_members safe_shapes
      | assumption | (simp; fail) | rule safe_pure)+

subsection \<open>Redirections, tests and modules\<close>

lemma vm_le_redirs:
  "vm_le vm0 vm \<Longrightarrow> length fs \<le> VM_REDIR_STACK_MAX \<Longrightarrow> \<forall>f \<in> set fs. length f \<le> 16 \<Longrightarrow>
   vm_le vm0 (vm\<lparr>vm_redirs := fs\<rparr>)"
  by (simp add: vm_le_def vm_ok_def)

lemma vm_le_frames:
  "vm_le vm0 vm \<Longrightarrow> length (vm_redirs vm) \<le> VM_REDIR_STACK_MAX \<and> (\<forall>f \<in> set (vm_redirs vm). length f \<le> 16)"
  by (simp add: vm_le_def vm_ok_def)

lemma ask_redirs: "ask f vm = (a, vm') \<Longrightarrow> vm_redirs vm' = vm_redirs vm"
  by (auto simp: ask_def split: prod.splits)

lemma save_fd_le: "vm_le vm0 vm \<Longrightarrow> vm_le vm0 (save_fd h keep fd vm)"
  using vm_le_frames [of vm0 vm]
  by (auto simp: save_fd_def Let_def intro!: vm_le_redirs dest: ask_le split: list.split prod.split)

lemma redir_ops_safe:
  assumes "vm_le vm0 vm"
  shows "safe vm0 (op_redir_save sh vm)" "safe vm0 (op_redir_restore sh vm)" "safe vm0 (op_redir_open sh vm)"
    "safe vm0 (op_redir_dup sh vm)" "safe vm0 (op_redir_close sh vm)" "safe vm0 (op_redir_here sh vm)"
proof -
  show "safe vm0 (op_redir_save sh vm)" "safe vm0 (op_redir_restore sh vm)"
    using assms vm_le_frames [OF assms]
    by (auto simp: op_redir_save_def op_redir_restore_def intro!: safe_Some vm_le_redirs split: list.split)
  show "safe vm0 (op_redir_open sh vm)" "safe vm0 (op_redir_dup sh vm)" "safe vm0 (op_redir_close sh vm)"
    "safe vm0 (op_redir_here sh vm)"
    unfolding op_redir_open_def op_redir_dup_def op_redir_close_def op_redir_here_def
    by (rule assms operand_safe save_fd_le safe_ask safe_shapes
        | assumption | (simp add: save_fd_le; fail) | rule safe_pure)+
qed

lemma test_regex_le: "vm_le vm0 vm \<Longrightarrow> vm_le vm0 (test_regex h lhs rhs vm)"
  by (auto simp: test_regex_def vm_set_le split: option.split)

lemma test_ops_safe:
  assumes "vm_le vm0 vm"
  shows "safe vm0 (op_test_unary sh vm)" "safe vm0 (op_test_binary sh vm)" "safe vm0 (op_pattern_match sh vm)"
  unfolding op_test_unary_def op_test_binary_def op_pattern_match_def
  by (rule assms operand_safe test_regex_le safe_shapes | assumption | (simp; fail) | rule safe_pure)+

lemma module_run_safe:
  assumes ok: "vm_le vm0 vm" and run: "run_safe run"
  shows "safe vm0 (do { init \<leftarrow> run ((vm_init (vm_images vm) (vm_image vm) (vm_sigs vm) (vm_cenv vm) (vm_world vm))
                                  \<lparr>vm_env := vm_env vm, vm_env_kept := length (vm_env vm), vm_ip := ip\<rparr>);
                       env \<leftarrow> scopes_after vm init;
                       Some (vm\<lparr>vm_images := vm_images init, vm_env := env, vm_sigs := vm_sigs init,
                                vm_cenv := vm_cenv init, vm_world := vm_world init\<rparr>) })"
    (is "safe vm0 (do { init \<leftarrow> run ?init; env \<leftarrow> scopes_after vm init; Some (?done init env) })")
proof -
  have vm: "vm_ok vm" "length (vm_images vm0) \<le> length (vm_images vm)"
    using ok by (simp_all add: vm_le_def)
  then have init: "vm_ok ?init"
    using vm_le_has_env [OF ok] vm_le_image [OF ok]
    by (intro sub_vm_ok vm_init_ok) (auto simp: vm_ok_def vm_init_def funcs_in_def)
  have "vm_le vm0 (?done s env)" if "run ?init = Some s" "scopes_after vm s = Some env" for s env
  proof -
    have s: "vm_ok s" "length (vm_images vm) \<le> length (vm_images s)"
      using run_safeD [OF run init that(1)] by (simp_all add: vm_le_def vm_init_def)
    from vm_ok_adopt [OF vm(1) s funcs_in_mono [OF vm_ok_funcs [OF vm(1)] s(2)] that(2)] s(2) vm(2) show ?thesis
      by (simp add: vm_le_def vm_ok_def)
  qed
  then show ?thesis
    by (intro safe_bind_pure safe_Some)
qed

lemma op_import_safe:
  assumes "vm_le vm0 vm" "shell_safe sh"
  shows "safe vm0 (op_import sh vm)"
  unfolding op_import_def Let_def
  by (rule assms(1) module_run_safe conjunct1 [OF assms(2)] operand_safe safe_shapes
      | assumption | (simp; fail) | rule safe_pure)+

subsection \<open>The run\<close>

lemma vm_dispatch_safe:
  assumes "vm_le vm0 vm" "shell_safe sh" "builtins_safe bi"
  shows "safe vm0 (vm_dispatch bi b sh vm)"
proof (cases "opcode_of b")
  case None
  with assms(1) show ?thesis
    by (simp add: vm_dispatch_def op_unimplemented_def safe_Some)
next
  case (Some opc)
  have stray: "safe vm0 (op_unimplemented b sh vm)" "safe vm0 (op_stray_pipeline sh vm)" "safe vm0 (op_halt sh vm)"
    using assms by (simp_all add: op_unimplemented_def op_stray_pipeline_def op_halt_def safe_Some vm_exit_safe)
  note handlers = data_ops_safe [OF assms(1)] expand_arith_safe [OF assms(1)] collect_words_safe [OF assms(1)]
    jump_ops_safe [OF assms(1)] iter_ops_safe [OF assms(1)] variable_ops_safe [OF assms(1)]
    op_get_local_safe [OF assms(1)] op_set_array_bulk_safe [OF assms(1)] loop_status_ops_safe [OF assms(1)]
    call_ops_safe [OF assms(1)] op_exec_builtin_safe [OF assms] op_exec_simple_safe [OF assms]
    child_ops_safe [OF assms(1)] op_pipeline_safe [OF assms(1)] redir_ops_safe [OF assms(1)]
    test_ops_safe [OF assms(1)] op_import_safe [OF assms(1,2)] stray
  show ?thesis
    unfolding vm_dispatch_def Some option.case by (cases opc) (simp_all only: opcode.case handlers)
qed

lemma vm_safe_point_safe: "vm_le vm0 vm \<Longrightarrow> shell_safe sh \<Longrightarrow> safe_with vm0 (vm_safe_point sh vm)"
  unfolding vm_safe_point_def
  by (rule safe_ask vm_exec_string_safe safe_shapes | assumption | (simp; fail) | rule safe_pure)+

lemma vm_step_safe:
  assumes "vm_le vm0 vm" "shell_safe sh" "builtins_safe bi"
  shows "safe vm0 (vm_step bi sh vm)"
  unfolding vm_step_def vm_errexit_def
  by (rule assms vm_safe_point_safe operand_safe vm_dispatch_safe vm_exit_safe safe_shapes | assumption)+

lemma vm_run_safe:
  assumes "builtins_safe bi" "compile_plain (sh_compile sh)"
  shows "run_safe (vm_run n bi sh)"
proof (induction n)
  case 0
  then show ?case by (auto simp: run_safe_def safe_def vm_le_refl)
next
  case (Suc n)
  let ?sh = "sh\<lparr>sh_run := vm_run n bi sh\<rparr>"
  have sh: "shell_safe ?sh"
    using Suc assms(2) by simp
  show ?case
    unfolding run_safe_def
  proof (intro allI impI)
    fix vm :: "'a vm"
    assume vm: "vm_ok vm"
    have "safe vm (vm_run n bi sh vm')" if "vm_step bi ?sh vm = Some vm'" for vm'
    proof -
      have "vm_le vm vm'"
        using vm_step_safe [OF vm_le_refl [OF vm] sh assms(1)] that by (simp add: safe_def)
      with Suc show ?thesis
        by (auto simp: run_safe_def intro: safe_weaken vm_le_ok)
    qed
    then show "safe vm (vm_run (Suc n) bi sh vm)"
      by (auto simp: safe_Some vm_le_refl vm safe_None split: option.split)
  qed
qed

end
