(* ===== verification/BuiltinSafe.thy ===== *)
theory BuiltinSafe
  imports BuiltinJobs VmSafe
begin

text \<open>
  The builtins keep the machine within its bounds, so no run of the machine with them overruns its
  arrays: the bounds of \<open>VmSafe\<close> hold at every step of every program, with no assumption on the code.
\<close>

subsection \<open>Operations on the scopes\<close>

lemma environ_unset_keep: "env_inv env \<Longrightarrow> environ_unset env name = (env', msg) \<Longrightarrow> env_inv env'"
  using environ_unset_correct by blast

lemma vm_unset_le: "vm_le vm0 vm \<Longrightarrow> vm_le vm0 (vm_unset h name vm)"
  using environ_unset_keep [OF vm_le_has_env, of vm0 vm name]
  by (auto simp: vm_unset_def intro: vm_le_env split: prod.split)

lemma environ_set_local_le:
  "vm_le vm0 vm \<Longrightarrow> vm_le vm0 (vm_on_env h (\<lambda>env. (environ_set_local env name v, [])) vm)"
  by (rule vm_on_env_le) (auto intro: environ_set_local_correct(1))

lemma environ_export_le: "vm_le vm0 vm \<Longrightarrow> vm_le vm0 (vm\<lparr>vm_env := environ_export (vm_env vm) name\<rparr>)"
  unfolding environ_export_def by (rule environ_modify_le) simp_all

lemma scope_ops_le:
  "vm_le vm0 vm \<Longrightarrow> vm_le vm0 (vm_unset h name vm)"
  "vm_le vm0 vm \<Longrightarrow> vm_le vm0 (vm_on_env h (\<lambda>env. environ_set_flags env name v flags) vm)"
  "vm_le vm0 vm \<Longrightarrow> vm_le vm0 (assign_text h name s vm)"
  unfolding assign_text_def
  by (erule vm_unset_le, erule vm_on_env_le, erule (2) env_ops_keep(3), erule vm_set_le)

lemma fold_le: "vm_le vm0 vm \<Longrightarrow> (\<And>x vm. vm_le vm0 vm \<Longrightarrow> vm_le vm0 (f x vm)) \<Longrightarrow> vm_le vm0 (fold f xs vm)"
  by (induction xs arbitrary: vm) simp_all

lemma safe_with_fold:
  assumes "vm_le vm0 vm" "\<And>x r. vm_le vm0 (snd r) \<Longrightarrow> vm_le vm0 (snd (f x r))"
  shows "safe_with vm0 (Some (fold f xs (st, vm)))"
proof -
  have "vm_le vm0 (snd (fold f xs r))" if "vm_le vm0 (snd r)" for r
    using that by (induction xs arbitrary: r) (simp_all add: assms(2))
  from this [of "(st, vm)"] assms(1) show ?thesis
    by (auto simp: safe_with_def)
qed

lemma write_fd1_le [simp]: "vm_le vm0 (write_fd1 h s vm) = vm_le vm0 vm"
  by (simp add: write_fd1_def)

lemma export_arg_le: "vm_le vm0 vm \<Longrightarrow> vm_le vm0 (export_arg h arg vm)"
  unfolding export_arg_def by (rule scope_ops_le environ_export_le safe_shapes | assumption | rule safe_pure)+

lemma readonly_arg_le: "vm_le vm0 vm \<Longrightarrow> vm_le vm0 (readonly_arg h arg vm)"
  unfolding readonly_arg_def
  by (rule scope_ops_le environ_modify_le safe_shapes | assumption | (simp; fail) | rule safe_pure)+

lemma local_arg_le: "vm_le vm0 vm \<Longrightarrow> vm_le vm0 (local_arg h arg vm)"
  unfolding local_arg_def by (rule environ_set_local_le safe_shapes | assumption | rule safe_pure)+

lemma unset_params_le: "vm_le vm0 vm \<Longrightarrow> vm_le vm0 (unset_params h i j vm)"
  unfolding unset_params_def by (rule fold_le scope_ops_le | assumption)+

lemma shift_param_le: "vm_le vm0 vm \<Longrightarrow> vm_le vm0 (shift_param h n i vm)"
  unfolding shift_param_def by (rule vm_set_le safe_shapes | assumption)+

lemma variable_builtins_safe:
  assumes "vm_le vm0 vm"
  shows "safe_with vm0 (builtin_export sh argv vm)" "safe_with vm0 (builtin_unset sh argv vm)"
    "safe_with vm0 (builtin_readonly sh argv vm)" "safe_with vm0 (builtin_local sh argv vm)"
    "safe_with vm0 (builtin_shift sh argv vm)"
  unfolding builtin_export_def builtin_unset_def builtin_readonly_def builtin_local_def builtin_shift_def
  by (rule assms fold_le export_arg_le readonly_arg_le local_arg_le unset_params_le shift_param_le
        scope_ops_le vm_set_le safe_shapes | assumption | (simp add: assms; fail) | rule safe_pure)+

subsection \<open>Output, tests, reading and control\<close>

lemma vm_set_args_le: "vm_le vm0 vm \<Longrightarrow> vm_le vm0 (vm_set_args h args vm)"
proof -
  have "vm_le vm0 (set_args_from h i args vm)" if "vm_le vm0 vm" for i vm
    using that by (induction args arbitrary: i vm) (simp_all add: vm_set_le)
  then show "vm_le vm0 vm \<Longrightarrow> vm_le vm0 (vm_set_args h args vm)"
    unfolding vm_set_args_def by (intro vm_set_le)
qed

lemma safe_with_pair: "vm_le vm0 (snd r) \<Longrightarrow> safe_with vm0 (Some r)"
  by (cases r) (simp add: safe_with_def)

lemma cwd_le:
  "vm_le vm0 vm \<Longrightarrow> vm_le vm0 (case r of Inl e \<Rightarrow> vm | Inr cwd \<Rightarrow> assign_text h name cwd vm)"
  by (simp add: scope_ops_le split: sum.split)

lemma assign_pairs_le: "vm_le vm0 vm \<Longrightarrow> vm_le vm0 (fold (\<lambda>(name, s). assign_text h name s) xs vm)"
  by (rule fold_le) (auto simp: scope_ops_le)

lemma plain_builtins_safe:
  assumes "vm_le vm0 vm"
  shows "safe_with vm0 (builtin_echo sh argv vm)" "safe_with vm0 (builtin_exit sh argv vm)"
    "safe_with vm0 (builtin_true sh argv vm)" "safe_with vm0 (builtin_false sh argv vm)"
    "safe_with vm0 (builtin_cd sh argv vm)" "safe_with vm0 (builtin_pwd sh argv vm)"
    "safe_with vm0 (builtin_printf sh argv vm)" "safe_with vm0 (builtin_return sh argv vm)"
    "safe_with vm0 (builtin_test sh argv vm)"
proof -
  show "safe_with vm0 (builtin_echo sh argv vm)" "safe_with vm0 (builtin_exit sh argv vm)"
    "safe_with vm0 (builtin_true sh argv vm)" "safe_with vm0 (builtin_false sh argv vm)"
    "safe_with vm0 (builtin_printf sh argv vm)" "safe_with vm0 (builtin_return sh argv vm)"
    using assms by (auto simp: builtin_echo_def builtin_exit_def builtin_true_def builtin_false_def
        builtin_printf_def builtin_return_def Let_def intro!: safe_with_pair)
  show "safe_with vm0 (builtin_test sh argv vm)"
    unfolding builtin_test_def by (rule safe_with_pair) (simp add: assms)
  show "safe_with vm0 (builtin_pwd sh argv vm)"
    using assms by (auto simp: builtin_pwd_def safe_with_def split: sum.splits)
  show "safe_with vm0 (builtin_cd sh argv vm)"
    unfolding builtin_cd_def
    by (rule assms cwd_le safe_ask safe_shapes | assumption | (simp add: assms; fail) | rule safe_pure)+
qed

lemma builtin_read_safe: "vm_le vm0 vm \<Longrightarrow> safe_with vm0 (builtin_read sh argv vm)"
  unfolding builtin_read_def Let_def
  by (intro safe_with_bind_pure safe_prod safe_with_pair) (auto simp: scope_ops_le assign_pairs_le)

lemma type_arg_le: "vm_le vm0 (snd r) \<Longrightarrow> vm_le vm0 (snd (type_arg h name r))"
  by (cases r) (simp add: type_arg_def)

lemma trap_args_le: "vm_le vm0 vm \<Longrightarrow> vm_le vm0 (snd (trap_args h action names vm))"
  by (induction names arbitrary: vm) (simp_all add: Let_def)

lemma control_builtins_safe:
  assumes "vm_le vm0 vm" "shell_safe sh"
  shows "safe_with vm0 (builtin_type sh argv vm)" "safe_with vm0 (builtin_trap sh argv vm)"
    "safe_with vm0 (builtin_eval sh argv vm)" "safe_with vm0 (builtin_dot sh argv vm)"
    "safe_with vm0 (builtin_exec sh argv vm)"
proof -
  show "safe_with vm0 (builtin_type sh argv vm)"
    unfolding builtin_type_def by (rule safe_with_fold [OF assms(1) type_arg_le])
  show "safe_with vm0 (builtin_trap sh argv vm)"
    unfolding builtin_trap_def by (rule safe_with_pair) (simp add: assms(1) trap_args_le)
  show "safe_with vm0 (builtin_eval sh argv vm)" "safe_with vm0 (builtin_dot sh argv vm)"
    "safe_with vm0 (builtin_exec sh argv vm)"
    unfolding builtin_eval_def builtin_dot_def builtin_exec_def
    by (rule assms vm_exec_string_safe safe_shapes | assumption | (simp add: assms; fail) | rule safe_pure)+
qed

lemma set_flags_le: "vm_le vm0 (snd (set_flags enable p vm)) = vm_le vm0 vm"
  by (induction p arbitrary: vm) simp_all

lemma update_option_flags_le [simp]: "vm_le vm0 (update_option_flags vm) = vm_le vm0 vm"
  by (simp add: update_option_flags_def)

lemma set_params_le: "vm_le vm0 vm \<Longrightarrow> vm_le vm0 (set_params h args vm)"
  unfolding set_params_def Let_def update_option_flags_le
  by (rule scope_ops_le unset_params_le vm_set_args_le vm_set_le safe_if | assumption)+

lemma set_args_loop_le: "vm_le vm0 vm \<Longrightarrow> vm_le vm0 (snd (set_args_loop h args vm))"
proof (induction args arbitrary: vm)
  case (Cons arg args)
  have "vm_le vm0 (snd (case set_flags enable p vm of
      (bad, vm) \<Rightarrow> (case bad of Some c \<Rightarrow> (2, vm_complain h (m c) vm) | None \<Rightarrow> set_args_loop h args vm)))" for enable p m
    using set_flags_le [of vm0 enable p vm] Cons by (auto split: prod.split option.split)
  then show ?case
    using Cons by (simp add: set_params_le)
qed simp

lemma umask_set_safe:
  assumes "vm_le vm0 vm"
  shows "safe_with vm0 (builtin_umask sh argv vm)" "safe_with vm0 (builtin_set sh argv vm)"
proof -
  show "safe_with vm0 (builtin_umask sh argv vm)"
    unfolding builtin_umask_def
    by (rule assms safe_ask safe_shapes | assumption | (simp add: assms; fail) | rule safe_pure)+
  show "safe_with vm0 (builtin_set sh argv vm)"
    unfolding builtin_set_def by (rule safe_with_pair) (simp add: assms set_args_loop_le)
qed

lemma assign_all_le: "vm_le vm0 vm \<Longrightarrow> vm_le vm0 (assign_all h xs vm)"
  unfolding assign_all_def by (rule assign_pairs_le)

lemma builtin_getopts_safe: "vm_le vm0 vm \<Longrightarrow> safe_with vm0 (builtin_getopts sh argv vm)"
  unfolding builtin_getopts_def
  by (rule assign_all_le scope_ops_le safe_shapes | assumption
      | (simp only: vm_puts_le vm_complain_le; fail) | rule safe_pure)+

subsection \<open>Jobs and the table\<close>

lemma job_ops_le [simp]:
  "vm_le vm0 (update_jobs h vm) = vm_le vm0 vm"
  "vm_le vm0 (continue_job h i vm) = vm_le vm0 vm"
  "vm_le vm0 (resume_stopped h i vm) = vm_le vm0 vm"
  "vm_le vm0 (print_job h long_format i vm) = vm_le vm0 vm"
  by (simp_all add: update_jobs_def continue_job_def resume_stopped_def print_job_def ask_def Let_def
      split: prod.split)

lemma wait_job_safe: "vm_le vm0 vm \<Longrightarrow> safe_with vm0 (wait_job h i vm)"
  unfolding wait_job_def
  by (rule vm_wait_fg_safe safe_shapes | assumption | (simp; fail))+

lemma wait_all_le:
  assumes "wait_all h st vm = Some r"
  shows "vm_le vm0 vm \<Longrightarrow> vm_le vm0 (snd r)"
  using assms
proof (induction rule: wait_all.raw_induct [rotated, consumes 1, case_names Step])
  case (Step wait_all h st vm r)
  note 1 = this
  show ?case
  proof (cases "find_index (\<lambda>j. j_state j \<noteq> JOB_DONE) (jt_jobs (vm_jobs (update_jobs h vm)))")
    case None
    with 1 show ?thesis by (auto simp: Let_def)
  next
    case (Some i)
    let ?vm = "resume_stopped h i (update_jobs h vm)"
    from 1(2) Some obtain status vm' where wait: "vm_wait_fg h (j_id (jt_jobs (vm_jobs ?vm) ! i)) ?vm = Some (status, vm')"
      and rest: "wait_all h status (vm'\<lparr>vm_jobs := mark_done i (vm_jobs vm')\<rparr>) = Some r"
      by (auto simp: Let_def split: option.splits)
    have "vm_le vm0 ?vm"
      using 1(3) by simp
    from vm_wait_fg_safe [OF this] wait have "vm_le vm0 vm'"
      by (auto simp: safe_with_def)
    with 1(1) [OF rest] show ?thesis by simp
  qed
qed

lemma wait_all_safe: "vm_le vm0 vm \<Longrightarrow> safe_with vm0 (wait_all h st vm)"
  using wait_all_le [of h st vm _ vm0] by (auto simp: safe_with_def)

lemma kill_arg_le: "vm_le vm0 (snd r) \<Longrightarrow> vm_le vm0 (snd (kill_arg h sig ps r))"
  by (cases r) (simp add: kill_arg_def ask_def Let_def split: prod.split option.split)

lemma builtin_wait_safe: "vm_le vm0 vm \<Longrightarrow> safe_with vm0 (builtin_wait sh argv vm)"
  unfolding builtin_wait_def
  by (rule wait_all_safe wait_job_safe safe_ask safe_shapes | assumption | (simp; fail) | rule safe_pure)+

lemma builtin_kill_safe: "vm_le vm0 vm \<Longrightarrow> safe_with vm0 (builtin_kill sh argv vm)"
proof -
  assume vm: "vm_le vm0 vm"
  have "vm_le vm0 (snd (fold (kill_arg (sh_host sh) sig) pids r))" if "vm_le vm0 (snd r)" for sig pids r
    using that by (induction pids arbitrary: r) (simp_all add: kill_arg_le)
  with vm show ?thesis
    unfolding builtin_kill_def Let_def by (intro safe_with_pair) simp
qed

lemma job_builtins_safe:
  assumes "vm_le vm0 vm"
  shows "safe_with vm0 (builtin_jobs sh argv vm)" "safe_with vm0 (builtin_fg sh argv vm)"
    "safe_with vm0 (builtin_bg sh argv vm)" "safe_with vm0 (builtin_command sh argv vm)"
proof -
  have "vm_le vm0 (fold (print_job h l) is vm)" if "vm_le vm0 vm" for h :: "('a, 'a vm) host" and l "is" vm
    using that by (rule fold_le) simp
  then show "safe_with vm0 (builtin_jobs sh argv vm)"
    using assms by (simp add: builtin_jobs_def Let_def safe_with_Some)
  show "safe_with vm0 (builtin_fg sh argv vm)"
  proof (cases "target_job ''fg'' argv (vm_jobs vm)")
    case (Inr i)
    show ?thesis
      unfolding builtin_fg_def Inr sum.case
      by (rule vm_wait_fg_safe safe_shapes | assumption | (simp add: assms; fail) | rule safe_pure)+
  qed (simp add: builtin_fg_def assms safe_with_Some)
  show "safe_with vm0 (builtin_bg sh argv vm)"
    unfolding builtin_bg_def by (rule safe_with_pair) (simp add: assms Let_def split: sum.split)
  have "vm_le vm0 (snd (command_external h args vm))" for h :: "('a, 'a vm) host" and args
    using assms by (simp add: command_external_def ask_def Let_def split: prod.split)
  then show "safe_with vm0 (builtin_command sh argv vm)"
    unfolding builtin_command_def by (intro safe_with_pair) (simp add: assms Let_def split: option.split)
qed

lemma builtin_fns_safe:
  assumes "vm_le vm0 vm" "shell_safe sh" "i < builtin_count"
  shows "safe_with vm0 ((builtin_fns ! i) sh argv vm)"
proof -
  note each = plain_builtins_safe [OF assms(1)] variable_builtins_safe [OF assms(1)] builtin_read_safe [OF assms(1)]
    control_builtins_safe [OF assms(1,2)] umask_set_safe [OF assms(1)] builtin_getopts_safe [OF assms(1)]
    builtin_wait_safe [OF assms(1)] builtin_kill_safe [OF assms(1)] job_builtins_safe [OF assms(1)]
  have "list_all (\<lambda>f. safe_with vm0 (f sh argv vm)) builtin_fns"
    by (simp add: builtin_fns_def each)
  then show ?thesis
    using assms(3) by (simp add: list_all_length builtin_fns_count)
qed

lemma builtin_call_safe:
  "vm_le vm0 vm \<Longrightarrow> shell_safe sh \<Longrightarrow> i < builtin_count \<Longrightarrow> safe_with vm0 (builtin_call sh i argv vm)"
proof (induction sh i argv vm rule: builtin_call.induct)
  case (1 sh i argv vm)
  show ?case
  proof (cases "command_target i argv")
    case None
    then show ?thesis
      using builtin_fns_safe [OF 1(2-4)] by (simp add: builtin_call.simps)
  next
    case (Some b)
    then have "b < builtin_count"
      by (auto simp: command_target_def dest: builtin_lookup_sound split: if_splits)
    with 1 Some have "safe_with vm0 (builtin_call sh b (tl argv) vm)"
      by blast
    note call = this
    show ?thesis
      unfolding builtin_call.simps [of sh i] Some option.case
      by (rule call after_builtin_safe 1(3) safe_shapes | assumption | (simp; fail))+
  qed
qed

lemma builtin_call_builtins_safe: "builtins_safe builtin_call"
  unfolding builtins_safe_def by (intro allI impI) (rule builtin_call_safe [OF vm_le_refl])

end
