(* ===== verification/VmReach.thy ===== *)
theory VmReach
  imports BuiltinSafe
begin

text \<open>
  The states the machine can be in while it runs, as a step relation: one instruction at a time, with
  any amount of fuel for the machines an instruction starts. Every result of \<open>vm_run\<close> is such a state,
  and in every one of them the arrays are within their bounds.
\<close>

subsection \<open>Steps\<close>

definition shell_with :: "nat \<Rightarrow> 'w shell \<Rightarrow> 'w shell" where
  "shell_with n sh = sh\<lparr>sh_run := vm_run n builtin_call sh\<rparr>"

inductive vm_reaches :: "'w shell \<Rightarrow> 'w vm \<Rightarrow> 'w vm \<Rightarrow> bool" for sh where
  here: "vm_reaches sh vm vm"
| there: "vm_reaches sh vm vm1 \<Longrightarrow> \<not> vm_halted vm1 \<Longrightarrow> vm_ip vm1 < code_size vm1 \<Longrightarrow>
          vm_step builtin_call (shell_with n sh) vm1 = Some vm2 \<Longrightarrow> vm_reaches sh vm vm2"

inductive_cases vm_reachesE: "vm_reaches sh vm vm'"

lemma vm_reaches_trans: "vm_reaches sh vm1 vm2 \<Longrightarrow> vm_reaches sh vm vm1 \<Longrightarrow> vm_reaches sh vm vm2"
  by (induction rule: vm_reaches.induct) (auto intro: vm_reaches.there)

lemma vm_run_reaches: "vm_run n builtin_call sh vm = Some vm' \<Longrightarrow> vm_reaches sh vm vm'"
proof (induction n arbitrary: vm)
  case 0
  then show ?case by (auto intro: here split: if_splits)
next
  case (Suc n)
  show ?case
  proof (cases "vm_halted vm \<or> vm_ip vm \<ge> code_size vm")
    case True
    with Suc.prems show ?thesis by (auto intro: here)
  next
    case False
    with Suc.prems obtain vm1 where "vm_step builtin_call (shell_with n sh) vm = Some vm1"
      "vm_run n builtin_call sh vm1 = Some vm'"
      by (auto simp: shell_with_def split: option.splits)
    with False Suc.IH [of vm1] show ?thesis
      by (auto intro: vm_reaches_trans [OF _ there [OF here]])
  qed
qed

lemma shell_with_safe: "compile_plain (sh_compile sh) \<Longrightarrow> shell_safe (shell_with n sh)"
  using vm_run_safe [OF builtin_call_builtins_safe, of sh n] by (simp add: shell_with_def)

text \<open>
  C1. The machine's arrays are never overrun. Whatever bytes an image holds, compiled or made up, and
  whatever builtins, traps, functions, texts and imported modules it runs, each instruction either
  leaves the machine as follows or has no result: the operand stack, the call stack, the loop stack
  and the frames of saved descriptors are within the sizes of their arrays, every image that a frame, a
  function or the machine refers to exists, and the tables of all scopes are well formed. An
  instruction has no result where C aborts, and where it goes on undefined: an index past the constant
  pool, which the machine does not check, a null or destroyed scope, which made-up code can bring about
  (\<^verbatim>\<open>POP_SCOPE\<close> and then \<^verbatim>\<open>RET\<close> in a function leave no scope), and arithmetic without meaning. The
  compiler is only assumed to give images whose functions are their own.
\<close>

theorem vm_in_bounds:
  assumes "compile_plain (sh_compile sh)" "vm_ok vm" "vm_reaches sh vm vm'"
  shows "vm_ok vm'"
  using assms(3,2)
proof (induction rule: vm_reaches.induct)
  case (there vm vm1 n vm2)
  then show ?case
    using vm_step_safe [OF vm_le_refl shell_with_safe [OF assms(1)] builtin_call_builtins_safe, of vm1 n]
    by (auto simp: safe_def vm_le_def)
qed

text \<open>A host on which every call fails or does nothing, for the examples.\<close>

definition quiet_host :: "('w, 'm) host" where
  "quiet_host =
     \<lparr>h_puts = (\<lambda>w fd s. w), h_emit = (\<lambda>w sink ev. w), h_signals = (\<lambda>w. ([], w)), h_fork = (\<lambda>w p. (-1, w)),
      h_wait = (\<lambda>w pid. (None, w)), h_wait_group = (\<lambda>w jid. ([No_child], w)), h_reap = (\<lambda>w. ([], w)),
      h_kill = (\<lambda>w pid sig. (Some [], w)), h_setpgid = (\<lambda>w p g. w), h_pipe = (\<lambda>w. (None, w)),
      h_open = (\<lambda>w path flags. (-1, w)), h_dup = (\<lambda>w fd. (-1, w)), h_dup2 = (\<lambda>w a b. w),
      h_close = (\<lambda>w fd. w), h_mkstemp = (\<lambda>w t. (-1, w)), h_read_all = (\<lambda>w fd. ([], w)),
      h_write_all = (\<lambda>w fd s. w), h_rewind = (\<lambda>w fd. w), h_stat = (\<lambda>w b p. None),
      h_access = (\<lambda>w p c. False), h_ids = (\<lambda>w. (0, 0)), h_isatty = (\<lambda>w fd. False), h_getpid = (\<lambda>w. 1),
      h_home_of = (\<lambda>w u. None), h_glob = (\<lambda>w p. None), h_chdir = (\<lambda>w p. (Some [], w)),
      h_getcwd = (\<lambda>w. Inl []), h_umask = (\<lambda>w m. (0, w)), h_read_byte = (\<lambda>w fd. (None, w)),
      h_read_file = (\<lambda>w p. None), h_exec = (\<lambda>w args cenv. Some (True, [], w)),
      h_tcsetpgrp = (\<lambda>w fd g. w), h_getpgrp = (\<lambda>w. 1), h_regex = (\<lambda>w pat s. None)\<rparr>"

definition quiet_shell :: "unit shell" where
  "quiet_shell = \<lparr>sh_host = quiet_host, sh_compile = (\<lambda>w source label. (None, w)), sh_run = (\<lambda>vm. None)\<rparr>"

definition no_signals :: sigstate where
  "no_signals = \<lparr>sig_int_pending = False, sig_term_pending = False, sig_chld_pending = False,
                 sig_disp = (\<lambda>s. SIG_DFL)\<rparr>"

definition start_on :: "byte list \<Rightarrow> string list \<Rightarrow> unit vm" where
  "start_on code consts =
     vm_init [image_new\<lparr>im_code := code, im_consts := consts\<rparr>] 0 no_signals (\<lambda>_. None) ()"

lemma start_on_ok: "vm_ok (start_on code consts)"
  unfolding start_on_def by (rule vm_init_ok) (simp_all add: image_plain_def image_new_def)

lemma quiet_compile_plain: "compile_plain (sh_compile quiet_shell)"
  by (simp add: compile_plain_def quiet_shell_def)

lemma vm_in_bounds_witness:
  "\<exists>vm'. vm_run 3 builtin_call quiet_shell
            (start_on [opcode_byte OP_PUSH_CONST, 0, 0, opcode_byte OP_STATUS_ZERO] [''a'']) = Some vm' \<and>
         vm_stack vm' = [VT_STRING ''a''] \<and> vm_ok vm'"
proof -
  let ?vm = "start_on [opcode_byte OP_PUSH_CONST, 0, 0, opcode_byte OP_STATUS_ZERO] [''a'']"
  have "map_option vm_stack (vm_run 3 builtin_call quiet_shell ?vm) = Some [VT_STRING ''a'']"
    by code_simp
  then obtain vm' where vm': "vm_run 3 builtin_call quiet_shell ?vm = Some vm'" "vm_stack vm' = [VT_STRING ''a'']"
    by (cases "vm_run 3 builtin_call quiet_shell ?vm") auto
  with vm_in_bounds [OF quiet_compile_plain start_on_ok vm_run_reaches] show ?thesis
    by blast
qed

end
