(* ===== verification/VmCode.thy ===== *)
theory VmCode
  imports Vm
begin

text \<open>
  Reading the code: the bytes behind the instruction pointer, and what \<^verbatim>\<open>read_u8\<close>, \<^verbatim>\<open>read_u16\<close> and
  \<^verbatim>\<open>read_i32\<close> of \<^verbatim>\<open>src/vm/vm.c\<close> give when they are there.
\<close>

text \<open>The operands behind the instruction pointer.\<close>

definition code_at :: "'w vm \<Rightarrow> byte list \<Rightarrow> bool" where
  "code_at vm bs \<longleftrightarrow> take (length bs) (drop (vm_ip vm) (im_code (cur_image vm))) = bs"

abbreviation forward :: "nat \<Rightarrow> 'w vm \<Rightarrow> 'w vm" where
  "forward n vm \<equiv> vm\<lparr>vm_ip := vm_ip vm + n\<rparr>"

lemma cur_image_ip [simp]: "cur_image (vm\<lparr>vm_ip := i\<rparr>) = cur_image vm"
  by (simp add: cur_image_def)

lemma read_u8_at:
  assumes "code_at vm (b # bs)"
  shows "read_u8 vm = Some (b, forward 1 vm)" "code_at (forward 1 vm) bs"
proof -
  let ?code = "im_code (cur_image vm)"
  have *: "take (Suc (length bs)) (drop (vm_ip vm) ?code) = b # bs"
    using assms by (simp add: code_at_def)
  then have lt: "vm_ip vm < length ?code"
    by (cases "vm_ip vm < length ?code") simp_all
  then have "drop (vm_ip vm) ?code = ?code ! vm_ip vm # drop (Suc (vm_ip vm)) ?code"
    by (rule Cons_nth_drop_Suc [symmetric])
  with * lt show "read_u8 vm = Some (b, forward 1 vm)" "code_at (forward 1 vm) bs"
    by (simp_all add: read_u8_def code_at_def)
qed

lemma forward_forward [simp]: "forward m (forward n vm) = forward (n + m) vm"
  by (simp add: add.assoc)

lemma read_u16_at:
  assumes "code_at vm (le16 v @ bs)"
  shows "read_u16 vm = Some (v, forward 2 vm)" "code_at (forward 2 vm) bs"
proof -
  obtain lo hi where le: "le16 v = [lo, hi]" "of_le16 lo hi = v"
    by (simp add: le16_def of_le16_le16 [unfolded le16_def])
  have "code_at vm (lo # hi # bs)"
    using assms le(1) by simp
  note one = read_u8_at [OF this] and two = read_u8_at [OF read_u8_at(2) [OF this]]
  show "read_u16 vm = Some (v, forward 2 vm)" "code_at (forward 2 vm) bs"
    using two le by (simp_all add: read_u16_def one numeral_2_eq_2)
qed

lemma read_i32_at:
  assumes "code_at vm (le32 v @ bs)"
  shows "read_i32 vm = Some (v, forward 4 vm)" "code_at (forward 4 vm) bs"
proof -
  obtain b0 b1 b2 b3 where le: "le32 v = [b0, b1, b2, b3]" "of_le32 b0 b1 b2 b3 = v"
    by (simp add: le32_def of_le32_le32 [unfolded le32_def])
  have "code_at vm (b0 # b1 # b2 # b3 # bs)"
    using assms le(1) by simp
  note r0 = read_u8_at [OF this]
  note r1 = read_u8_at [OF r0(2)]
  note r2 = read_u8_at [OF r1(2)]
  note r3 = read_u8_at [OF r2(2)]
  show "read_i32 vm = Some (v, forward 4 vm)" "code_at (forward 4 vm) bs"
    using r1(1) r2(1) r3 le by (simp_all add: read_i32_def r0(1) eval_nat_numeral)
qed

end
