(* ===== verification/VmWords.thy ===== *)
theory VmWords
  imports VmReach VmCode
begin

text \<open>
  What the expansion opcodes of the machine do: trimming takes the shortest or the longest match,
  field splitting and joining, the table of parameter expansions, the words of a command collected
  into its arguments, and the iterator of a \<^verbatim>\<open>for\<close> loop.
\<close>

subsection \<open>Trimming\<close>








subsection \<open>Field splitting\<close>

fun join_sep :: "char \<Rightarrow> string list \<Rightarrow> string" where
  "join_sep c [] = []"
| "join_sep c [s] = s"
| "join_sep c (s # ss) = s @ c # join_sep c ss"

lemma join_sep_cons: "ss \<noteq> [] \<Longrightarrow> join_sep c (s # ss) = s @ c # join_sep c ss"
  by (cases ss) simp_all

text \<open>One round of the loop: the field, what follows it, and what is left behind the separators.\<close>

definition field_of :: "string \<Rightarrow> string \<Rightarrow> string" where
  "field_of ifs p = takeWhile (\<lambda>c. c \<notin> set ifs) p"

definition rest_of :: "string \<Rightarrow> string \<Rightarrow> string" where
  "rest_of ifs p = dropWhile (\<lambda>c. c \<notin> set ifs) p"

definition hard_end :: "string \<Rightarrow> string \<Rightarrow> bool" where
  "hard_end ifs p \<longleftrightarrow> rest_of ifs p \<noteq> [] \<and> \<not> blank (hd (rest_of ifs p))"

definition after_of :: "string \<Rightarrow> string \<Rightarrow> string" where
  "after_of ifs p = dropWhile (ifs_blank ifs) (if hard_end ifs p then tl (rest_of ifs p) else rest_of ifs p)"

lemma split_loop_Nil: "split_loop ifs [] = []"
  by (simp add: split_loop.simps)

lemma split_loop_step:
  "p \<noteq> [] \<Longrightarrow> split_loop ifs p =
     (if hard_end ifs p \<and> after_of ifs p = [] then [field_of ifs p, []]
      else field_of ifs p # split_loop ifs (after_of ifs p))"
  unfolding after_of_def hard_end_def rest_of_def field_of_def
  by (subst split_loop.simps) (simp only: Let_def if_False)

lemma split_induct [case_names Nil Round]:
  assumes "P []" "\<And>p. p \<noteq> [] \<Longrightarrow> P (after_of ifs p) \<Longrightarrow> P p"
  shows "P p"
proof (induction "length p" arbitrary: p rule: less_induct)
  case less
  show ?case
  proof (cases "p = []")
    case False
    have "length (after_of ifs p) < length p"
      unfolding after_of_def hard_end_def rest_of_def by (rule split_rest_shorter [OF False])
    then show ?thesis
      by (intro assms(2) [OF False] less) simp
  qed (simp add: assms(1))
qed

lemma field_rest: "p = field_of ifs p @ rest_of ifs p" "set (field_of ifs p) \<inter> set ifs = {}"
  "rest_of ifs p = [] \<or> hd (rest_of ifs p) \<in> set ifs"
proof -
  show "p = field_of ifs p @ rest_of ifs p"
    by (simp add: field_of_def rest_of_def)
  show "set (field_of ifs p) \<inter> set ifs = {}"
    unfolding field_of_def by (auto dest: set_takeWhileD)
  show "rest_of ifs p = [] \<or> hd (rest_of ifs p) \<in> set ifs"
    unfolding rest_of_def using hd_dropWhile [of "\<lambda>c. c \<notin> set ifs" p] by blast
qed

lemma drop_blanks: "filter (\<lambda>c. c \<notin> set ifs) (dropWhile (ifs_blank ifs) s) = filter (\<lambda>c. c \<notin> set ifs) s"
  by (induction s) (auto simp: ifs_blank_def)

text \<open>No field holds a separator, and no other character is lost or moved.\<close>

lemma split_loop_clean: "\<forall>f \<in> set (split_loop ifs p). set f \<inter> set ifs = {}"
  by (induction p rule: split_induct [where ifs = ifs]) (auto simp: split_loop_Nil split_loop_step field_rest(2))

lemma split_loop_concat: "concat (split_loop ifs p) = filter (\<lambda>c. c \<notin> set ifs) p"
proof (induction p rule: split_induct [where ifs = ifs])
  case (Round p)
  have "filter (\<lambda>c. c \<notin> set ifs) (after_of ifs p) = filter (\<lambda>c. c \<notin> set ifs) (rest_of ifs p)"
    using field_rest(3) [of ifs p] unfolding after_of_def drop_blanks by (cases "rest_of ifs p") auto
  moreover have "filter (\<lambda>c. c \<notin> set ifs) p = field_of ifs p @ filter (\<lambda>c. c \<notin> set ifs) (rest_of ifs p)"
  proof -
    have "filter (\<lambda>c. c \<notin> set ifs) (field_of ifs p) = field_of ifs p"
      using field_rest(2) [of ifs p] by (intro filter_True) auto
    then show ?thesis
      by (subst field_rest(1) [of p ifs]) simp
  qed
  ultimately show ?case
    using Round by (auto simp: split_loop_step)
qed (simp add: split_loop_Nil)

text \<open>With blank separators only, there is no empty field.\<close>

lemma split_loop_words:
  assumes "\<forall>c \<in> set ifs. blank c"
  shows "p = [] \<or> hd p \<notin> set ifs \<Longrightarrow> [] \<notin> set (split_loop ifs p)"
proof (induction p rule: split_induct [where ifs = ifs])
  case (Round p)
  have hard: "\<not> hard_end ifs p"
    using field_rest(3) [of ifs p] assms by (auto simp: hard_end_def)
  have "field_of ifs p \<noteq> []"
    using Round(1,3) by (cases p) (auto simp: field_of_def)
  moreover have "after_of ifs p = [] \<or> hd (after_of ifs p) \<notin> set ifs"
    using hd_dropWhile [of "ifs_blank ifs" "rest_of ifs p"] assms hard by (auto simp: after_of_def ifs_blank_def)
  ultimately show ?case
    using Round hard by (auto simp: split_loop_step)
qed (simp add: split_loop_Nil)

text \<open>With one separator that is no blank, joining undoes splitting.\<close>

lemma split_loop_join:
  assumes "\<not> blank c"
  shows "p \<noteq> [] \<Longrightarrow> join_sep c (split_loop [c] p) = p"
proof (induction p rule: split_induct [where ifs = "[c]"])
  case (Round p)
  have no_blank: "dropWhile (ifs_blank [c]) s = s" for s
    using assms by (cases s) (auto simp: ifs_blank_def)
  show ?case
  proof (cases "rest_of [c] p")
    case Nil
    then have "after_of [c] p = []" "\<not> hard_end [c] p" "field_of [c] p = p"
      using field_rest(1) [of p "[c]"] by (simp_all add: after_of_def hard_end_def)
    with Round(1) show ?thesis
      by (simp add: split_loop_step split_loop_Nil)
  next
    case (Cons d r)
    then have "d = c" "hard_end [c] p" "after_of [c] p = r"
      using field_rest(3) [of "[c]" p] assms by (auto simp: after_of_def hard_end_def no_blank)
    with Round Cons field_rest(1) [of p "[c]"] show ?thesis
      by (cases "r = []") (auto simp: split_loop_step [of p] join_sep_cons split_loop_step [of r])
  qed
qed simp

text \<open>
  C6. What field splitting gives: for all separators, no field holds one and every other character of
  the text is kept in its order; the empty list of separators leaves the text alone; separators that
  are all blanks give no empty field; and with one separator that is no blank, putting it between the
  fields gives the text back.
\<close>

theorem split_fields_spec:
  "(ifs = [] \<longrightarrow> split_fields ifs str = [str]) \<and>
   (ifs \<noteq> [] \<longrightarrow>
     concat (split_fields ifs str) = filter (\<lambda>c. c \<notin> set ifs) str \<and>
     (\<forall>f \<in> set (split_fields ifs str). set f \<inter> set ifs = {}) \<and>
     ((\<forall>c \<in> set ifs. blank c) \<longrightarrow> [] \<notin> set (split_fields ifs str)) \<and>
     (\<forall>c. ifs = [c] \<and> \<not> blank c \<and> str \<noteq> [] \<longrightarrow> join_sep c (split_fields ifs str) = str))"
proof -
  let ?str = "dropWhile (ifs_blank ifs) str"
  have "[] \<notin> set (split_loop ifs ?str)" if "\<forall>c \<in> set ifs. blank c"
    using that hd_dropWhile [of "ifs_blank ifs" str] by (intro split_loop_words) (auto simp: ifs_blank_def)
  moreover have "join_sep c (split_loop [c] (dropWhile (ifs_blank [c]) str)) = str" if "\<not> blank c" "str \<noteq> []" for c
    using that by (subst dropWhile_eq_self_iff [THEN iffD2]) (auto simp: ifs_blank_def split_loop_join)
  ultimately show ?thesis
    using split_loop_concat [of ifs ?str] split_loop_clean [of ifs ?str]
    by (auto simp: split_fields_def drop_blanks)
qed

lemma split_fields_spec_witness:
  "concat (split_fields '':'' ''a:b'') = ''ab'' \<and> join_sep CHR '':'' (split_fields '':'' ''a:b'') = ''a:b''"
  using split_fields_spec [of "'':''" "''a:b''"] by (auto simp: blank_def)

text \<open>Blanks in front of another separator make a field of their own, which POSIX does not.\<close>

lemma split_fields_blank_before_separator:
  "split_fields '' :'' ''a : b'' = [''a'', [], ''b'']"
  by code_simp


subsection \<open>The words of a command\<close>

text \<open>What the expansions of the words leave on the stack, top first: each word's fields under their count.\<close>

definition group_stack :: "vm_value list list \<Rightarrow> vm_value list" where
  "group_stack groups = concat (map (\<lambda>g. VT_INTEGER (of_nat (length g)) # rev g) (rev groups))"

lemma group_stack_snoc: "group_stack (groups @ [g]) = VT_INTEGER (of_nat (length g)) # rev g @ group_stack groups"
  by (simp add: group_stack_def)

lemma int_of_i64_nat: "n < 2 ^ 31 \<Longrightarrow> int_of_i64 (of_nat n) = int n"
  by (simp add: int_of_i64_def unsigned_of_nat signed_of_nat take_bit_nat_eq_self
      signed_take_bit_int_eq_self)

lemma vm_pop_int_count:
  "vm_stack vm = VT_INTEGER (of_nat n) # vs \<Longrightarrow> n < 2 ^ 31 \<Longrightarrow> vm_pop_int vm = Some (int n, vm\<lparr>vm_stack := vs\<rparr>)"
  by (simp add: vm_pop_int_def vm_pop_def value_to_integer_def int_of_i64_nat)

lemma vm_pop_n_rev:
  "vm_stack vm = rev g @ vs \<Longrightarrow> vm_pop_n (int (length g)) vm = Some (g, vm\<lparr>vm_stack := vs\<rparr>)"
  by (simp add: vm_pop_n_def)

lemma pop_groups_stack:
  "vm_stack vm = group_stack groups @ vs \<Longrightarrow> \<forall>g \<in> set groups. length g < 2 ^ 31 \<Longrightarrow>
   pop_groups (length groups) vm = Some (groups, vm\<lparr>vm_stack := vs\<rparr>)"
proof (induction groups arbitrary: vm rule: rev_induct)
  case (snoc g groups)
  let ?vm1 = "vm\<lparr>vm_stack := rev g @ group_stack groups @ vs\<rparr>"
  have "vm_pop_int vm = Some (int (length g), ?vm1)"
    using snoc.prems by (intro vm_pop_int_count) (simp_all add: group_stack_snoc)
  moreover have "vm_pop_n (int (length g)) ?vm1 = Some (g, vm\<lparr>vm_stack := group_stack groups @ vs\<rparr>)"
    using vm_pop_n_rev [of ?vm1 g "group_stack groups @ vs"] by simp
  moreover have "pop_groups (length groups) (vm\<lparr>vm_stack := group_stack groups @ vs\<rparr>) =
      Some (groups, vm\<lparr>vm_stack := vs\<rparr>)"
    using snoc by simp
  ultimately show ?case
    by simp
qed (simp add: group_stack_def)

lemma vm_push_all_room:
  "length (vm_stack vm) + length vs \<le> VM_STACK_MAX \<Longrightarrow>
   vm_push_all vs vm = Some (vm\<lparr>vm_stack := rev vs @ vm_stack vm\<rparr>)"
  by (induction vs arbitrary: vm) (simp_all add: vm_push_def)

text \<open>
  C4. \<^verbatim>\<open>OP_COLLECT_WORDS\<close> flattens: when the words of a command have left their fields on the stack,
  each word's under their number and the number of words on top, the machine is left with the fields
  of all the words, in the order of the words, and their total number on top, and nothing else of it
  has changed.
\<close>

theorem collect_words_flattens:
  assumes "vm_stack vm = VT_INTEGER (of_nat (length groups)) # group_stack groups @ vs"
    and "length (vm_stack vm) \<le> VM_STACK_MAX"
  shows "op_collect_words sh vm =
     Some (vm\<lparr>vm_stack := VT_INTEGER (of_nat (length (concat groups))) # rev (concat groups) @ vs\<rparr>)"
proof -
  have len: "length (group_stack groups) = length groups + length (concat groups)"
    by (induction groups rule: rev_induct) (simp_all add: group_stack_snoc, simp add: group_stack_def)
  have "length g \<le> length (concat groups)" if "g \<in> set groups" for g
    using that by (induction groups) auto
  moreover have room: "length groups + length (concat groups) + length vs < VM_STACK_MAX"
    using assms(1,2) len by simp
  ultimately have small: "length groups < 2 ^ 31" "\<forall>g \<in> set groups. length g < 2 ^ 31"
    by (fastforce simp: VM_STACK_MAX_def)+
  have "vm_pop_int vm = Some (int (length groups), vm\<lparr>vm_stack := group_stack groups @ vs\<rparr>)"
    using assms(1) small(1) by (rule vm_pop_int_count)
  moreover have "pop_groups (length groups) (vm\<lparr>vm_stack := group_stack groups @ vs\<rparr>) =
      Some (groups, vm\<lparr>vm_stack := vs\<rparr>)"
    using pop_groups_stack [of "vm\<lparr>vm_stack := group_stack groups @ vs\<rparr>" groups vs] small(2) by simp
  moreover have "vm_push_all (concat groups) (vm\<lparr>vm_stack := vs\<rparr>) =
      Some (vm\<lparr>vm_stack := rev (concat groups) @ vs\<rparr>)"
    using vm_push_all_room [of "vm\<lparr>vm_stack := vs\<rparr>" "concat groups"] room by simp
  moreover have "length (rev (concat groups) @ vs) < VM_STACK_MAX"
    using room by simp
  ultimately show ?thesis
    by (simp add: op_collect_words_def vm_push_def)
qed

lemma collect_words_flattens_witness:
  "map_option vm_stack (op_collect_words quiet_shell ((start_on [] [])\<lparr>vm_stack :=
      VT_INTEGER 2 # group_stack [[VT_STRING ''a'', VT_STRING ''b''], [VT_STRING ''c'']]\<rparr>)) =
   Some [VT_INTEGER 3, VT_STRING ''c'', VT_STRING ''b'', VT_STRING ''a'']"
  by (subst collect_words_flattens [where vs = "[]" and groups = "[[VT_STRING ''a'', VT_STRING ''b''], [VT_STRING ''c'']]"])
     (simp_all add: group_stack_def VM_STACK_MAX_def)

subsection \<open>The iterator of a loop\<close>

text \<open>The value of each round: what is pushed, taken off by the assignment to the loop's variable.\<close>

fun iter_values :: "nat \<Rightarrow> 'w shell \<Rightarrow> 'w vm \<Rightarrow> (vm_value list \<times> 'w vm) option" where
  "iter_values 0 sh vm = Some ([], vm)"
| "iter_values (Suc n) sh vm =
     do { vm \<leftarrow> op_get_next_iter sh vm;
          (v, vm) \<leftarrow> vm_pop vm;
          (vs, vm) \<leftarrow> iter_values n sh vm;
          Some (v # vs, vm) }"

lemma iter_round:
  assumes "vm_stack vm = VT_ITERATOR es pos # vs" "length (vm_stack vm) < VM_STACK_MAX"
  shows "(do { vm \<leftarrow> op_get_next_iter sh vm; vm_pop vm }) =
     (if pos < length es then Some (VT_STRING (es ! pos), vm\<lparr>vm_stack := VT_ITERATOR es (pos + 1) # vs\<rparr>)
      else Some (VT_NONE, vm))"
  using assms by (simp add: op_get_next_iter_def vm_push_def vm_pop_def)

lemma iter_values_from:
  "vm_stack vm = VT_ITERATOR es pos # vs \<Longrightarrow> length (vm_stack vm) < VM_STACK_MAX \<Longrightarrow> pos \<le> length es \<Longrightarrow>
   iter_values (Suc (length es - pos)) sh vm =
     Some (map VT_STRING (drop pos es) @ [VT_NONE], vm\<lparr>vm_stack := VT_ITERATOR es (length es) # vs\<rparr>)"
proof (induction "length es - pos" arbitrary: pos vm)
  case 0
  then show ?case
    by (simp add: op_get_next_iter_def vm_push_def vm_pop_def)
next
  case (Suc n)
  let ?vm1 = "vm\<lparr>vm_stack := VT_ITERATOR es (pos + 1) # vs\<rparr>"
  have pos: "pos < length es" "length es - pos = Suc (length es - (pos + 1))"
    using Suc(2) by simp_all
  have "iter_values (Suc (length es - (pos + 1))) sh ?vm1 =
      Some (map VT_STRING (drop (pos + 1) es) @ [VT_NONE], vm\<lparr>vm_stack := VT_ITERATOR es (length es) # vs\<rparr>)"
    using Suc(1) [of "pos + 1" ?vm1] Suc(2-5) by simp
  then show ?case
    using pos Suc(3,4)
    by (simp only: iter_values.simps(2) [of "Suc _"] pos(2))
       (simp add: op_get_next_iter_def vm_push_def vm_pop_def Cons_nth_drop_Suc [symmetric] del: iter_values.simps)
qed

text \<open>
  C5. A \<^verbatim>\<open>for\<close> loop visits every word once, in order: unless the machine has been halted, \<^verbatim>\<open>OP_INIT_ITER\<close> makes an iterator of the words the
  collection left, and one \<^verbatim>\<open>OP_GET_NEXT_ITER\<close> for each word, the value taken off the stack in
  between, gives the texts of the words from the first to the last, then one more gives the empty
  value that ends the loop; the stack below is left alone.
\<close>

theorem for_visits_words:
  assumes "code_at vm (le16 1)" "vm_stack vm = VT_INTEGER (of_nat (length words)) # rev words @ vs"
    and "length (vm_stack vm) \<le> VM_STACK_MAX" "length vs + 1 < VM_STACK_MAX" "\<not> vm_halted vm"
  shows "(do { vm \<leftarrow> op_init_iter sh vm; iter_values (length words + 1) sh vm }) =
     Some (map (\<lambda>w. VT_STRING (value_to_string w)) words @ [VT_NONE],
           (forward 2 vm)\<lparr>vm_stack := VT_ITERATOR (map value_to_string words) (length words) # vs\<rparr>)"
proof -
  let ?es = "map value_to_string words"
  let ?it = "(forward 2 vm)\<lparr>vm_stack := VT_ITERATOR ?es 0 # vs\<rparr>"
  have words: "length words < VM_STACK_MAX"
    using assms(2,3) by simp
  have "length words < 2 ^ 63"
    using words by (simp add: VM_STACK_MAX_def)
  then have "sint (of_nat (length words) :: i64) = int (length words)"
    by (simp add: signed_of_nat signed_take_bit_int_eq_self)
  moreover have "vm_pop_n (int (length words)) ((forward 2 vm)\<lparr>vm_stack := rev words @ vs\<rparr>) =
      Some (words, (forward 2 vm)\<lparr>vm_stack := vs\<rparr>)"
    using vm_pop_n_rev [of "(forward 2 vm)\<lparr>vm_stack := rev words @ vs\<rparr>" words vs] by simp
  ultimately have "op_init_iter sh vm = Some ?it"
    using read_u16_at(1) [of vm 1 "[]"] assms words
    by (simp add: op_init_iter_def vm_pop_def value_to_integer_def vm_push_def)
  moreover have "iter_values (Suc (length ?es - 0)) sh ?it =
      Some (map VT_STRING (drop 0 ?es) @ [VT_NONE], ?it\<lparr>vm_stack := VT_ITERATOR ?es (length ?es) # vs\<rparr>)"
    using assms(4) by (intro iter_values_from) simp_all
  ultimately show ?thesis
    by (simp del: iter_values.simps)
qed

lemma for_visits_words_witness:
  "map_option fst (do { vm \<leftarrow> op_init_iter quiet_shell ((start_on (le16 1) [])
        \<lparr>vm_stack := [VT_INTEGER 2, VT_STRING ''b'', VT_STRING ''a'']\<rparr>);
      iter_values 3 quiet_shell vm }) = Some [VT_STRING ''a'', VT_STRING ''b'', VT_NONE]"
proof -
  let ?vm = "(start_on (le16 1) [])\<lparr>vm_stack := [VT_INTEGER 2, VT_STRING ''b'', VT_STRING ''a'']\<rparr>"
  let ?words = "[VT_STRING ''a'', VT_STRING ''b'']"
  have "(do { vm \<leftarrow> op_init_iter quiet_shell ?vm; iter_values (length ?words + 1) quiet_shell vm }) =
      Some (map (\<lambda>w. VT_STRING (value_to_string w)) ?words @ [VT_NONE],
            (forward 2 ?vm)\<lparr>vm_stack := [VT_ITERATOR (map value_to_string ?words) (length ?words)]\<rparr>)"
    by (rule for_visits_words) (simp_all add: code_at_def cur_image_def start_on_def vm_init_def VM_STACK_MAX_def)
  then show ?thesis
    by (simp add: value_to_string_def eval_nat_numeral del: iter_values.simps)
qed

subsection \<open>Parameter expansion\<close>

datatype param_state = Not_null string | Null | Unset

datatype param_result = Use_value | Use_null | Use_word | Assign_word | Fail_word

text \<open>The table of the standard: an operator, whether it has a colon, and the state of the parameter.\<close>

fun param_table :: "byte \<Rightarrow> bool \<Rightarrow> param_state \<Rightarrow> param_result" where
  "param_table opr colon (Not_null s) = (if opr = PE_ALTERNATE then Use_word else Use_value)"
| "param_table opr colon Null =
     (if opr = PE_ALTERNATE then (if colon then Use_null else Use_word)
      else if \<not> colon then Use_null
      else if opr = PE_DEFAULT then Use_word else if opr = PE_ASSIGN then Assign_word else Fail_word)"
| "param_table opr colon Unset =
     (if opr = PE_ALTERNATE then Use_null
      else if opr = PE_DEFAULT then Use_word else if opr = PE_ASSIGN then Assign_word else Fail_word)"

definition param_state_of :: "environ \<Rightarrow> string \<Rightarrow> param_state" where
  "param_state_of env name =
     (case environ_get env name of
        None \<Rightarrow> Unset
      | Some var \<Rightarrow> if value_to_string (var_value var) = [] then Null else Not_null (value_to_string (var_value var)))"

text \<open>
  What an assignment of a value to a variable comes to: a readonly variable is reported and kept, and
  any other has the value afterwards, with no other variable changed. Where there is one scope, or the
  current scope has the variable, it is the assignment a command makes.
\<close>

definition assigned :: "environ \<Rightarrow> string \<Rightarrow> vm_value \<Rightarrow> environ \<Rightarrow> string \<Rightarrow> bool" where
  "assigned env name v env' msg \<longleftrightarrow>
     (if check_readonly env name then env' = env \<and> msg = readonly_msg name
      else msg = [] \<and> map_option var_value (environ_get env' name) = Some v \<and>
           (\<forall>other. other \<noteq> name \<longrightarrow> environ_get env' other = environ_get env other)) \<and>
     (tl env = [] \<or> scope_map (hd env) name \<noteq> None \<longrightarrow> (env', msg) = environ_assign env name v)"

definition param_effect ::
  "('w, 'm) host \<Rightarrow> string \<Rightarrow> vm_value \<Rightarrow> param_state \<Rightarrow> param_result \<Rightarrow> 'w vm \<Rightarrow> vm_value \<Rightarrow> 'w vm \<Rightarrow> bool"
  where
  "param_effect h name word st r vm v vm' \<longleftrightarrow>
     (case r of
        Use_value \<Rightarrow> v = VT_STRING (case st of Not_null s \<Rightarrow> s | _ \<Rightarrow> []) \<and> vm' = vm
      | Use_null \<Rightarrow> v = VT_STRING [] \<and> vm' = vm
      | Use_word \<Rightarrow> v = word \<and> vm' = vm
      | Assign_word \<Rightarrow>
          v = VT_STRING (value_to_string word) \<and>
          (\<exists>env msg. assigned (vm_env vm) name word env msg \<and> vm' = vm_puts h msg (vm\<lparr>vm_env := env\<rparr>))
      | Fail_word \<Rightarrow> v = VT_STRING [] \<and> vm' = vm_fail h (name @ '': '' @ value_to_string word) vm)"

definition variable_name :: "string \<Rightarrow> bool" where
  "variable_name name \<longleftrightarrow> name \<noteq> [] \<and> is_ident_start (hd name) \<and> list_all is_ident_char name"

definition positional_name :: "string \<Rightarrow> bool" where
  "positional_name name \<longleftrightarrow> name \<noteq> [] \<and> name \<noteq> ''0'' \<and> list_all (between CHR ''0'' CHR ''9'') name"

lemma environ_set_assigned:
  assumes inv: "env_inv env" and ne: "env \<noteq> []" and set: "environ_set env name v = (env', msg)"
  shows "assigned env name v env' msg"
proof -
  note corr = environ_set_flags_correct [OF inv set [unfolded environ_set_def]]
  obtain s env1 where env: "env = s # env1"
    using ne by (cases env) auto
  have visible: "map_option var_value (environ_get env' name) = Some v" if "\<not> check_readonly env name"
  proof -
    obtain s' env1' where env': "env' = s' # env1'"
      using corr(2) ne by (cases env') (auto simp: keeps_others_def)
    then have "environ_get env' name = scope_map s' name" if "scope_map s' name \<noteq> None"
      using corr(1) that by (auto simp: scope_get)
    with corr(5) [OF ne that] env' show ?thesis
      by (auto simp: variable_new_def split: option.splits)
  qed
  have same: "environ_set env name v = environ_assign env name v" if "tl env = [] \<or> scope_map (hd env) name \<noteq> None"
  proof (cases "ht_get (vars s) name")
    case None
    have "scope_map s name = None"
      using inv None env by (simp add: scope_get [symmetric])
    with that env have "env1 = []"
      by simp
    with None env show ?thesis
      by (simp add: environ_assign_def split: prod.split)
  next
    case (Some var)
    then show ?thesis
      by (simp add: env environ_set_def environ_assign_def)
  qed
  show ?thesis
    unfolding assigned_def
    using corr(5,6) [OF ne] visible same set keeps_others_get [OF inv corr(1,2)] by auto
qed

lemma stack_kept [simp]:
  "vm_stack (vm_puts h s vm) = vm_stack vm" "vm_stack (vm_on_env h f vm) = vm_stack vm"
  "vm_stack (vm_fail h s vm) = vm_stack vm"
  by (simp_all add: vm_puts_def vm_on_env_def vm_fail_def vm_complain_def split: prod.split)

lemma pe_distinct:
  "PE_DEFAULT \<noteq> PE_NONE" "PE_ALTERNATE \<noteq> PE_NONE" "PE_ASSIGN \<noteq> PE_NONE" "PE_ERROR \<noteq> PE_NONE"
  "PE_DEFAULT \<noteq> PE_ALTERNATE" "PE_DEFAULT \<noteq> PE_ASSIGN" "PE_DEFAULT \<noteq> PE_ERROR"
  "PE_ALTERNATE \<noteq> PE_ASSIGN" "PE_ALTERNATE \<noteq> PE_ERROR" "PE_ASSIGN \<noteq> PE_ERROR"
  by (simp_all add: PE_NONE_def PE_DEFAULT_def PE_ALTERNATE_def PE_ASSIGN_def PE_ERROR_def)

lemma param_cases:
  assumes "\<forall>var. environ_get env name = Some var \<longrightarrow> (\<exists>s. var_value var = VT_STRING s)"
  obtains
    (unset) "set_value env name = None" "\<not> param_condition env name colon" "param_state_of env name = Unset"
  | (null) "set_value env name = Some []" "param_condition env name colon = (\<not> colon)" "param_state_of env name = Null"
  | (not_null) s where "set_value env name = Some s" "param_condition env name colon" "param_state_of env name = Not_null s"
proof (cases "environ_get env name")
  case None
  then show ?thesis
    by (intro unset) (simp_all add: set_value_def param_condition_def param_state_of_def)
next
  case (Some var)
  with assms obtain s where "var_value var = VT_STRING s"
    by blast
  with Some have facts: "set_value env name = Some s" "param_condition env name colon = (colon \<longrightarrow> s \<noteq> [])"
    "param_state_of env name = (if s = [] then Null else Not_null s)"
    by (simp_all add: set_value_def param_condition_def param_state_of_def string_var_def value_to_string_def)
  then show ?thesis
    by (cases "s = []") (use null not_null in auto)
qed

lemma expand_word_table:
  assumes "opr \<in> {PE_DEFAULT, PE_ALTERNATE, PE_ASSIGN, PE_ERROR}" "vm_stack vm = word # vs"
    and "length vs < VM_STACK_MAX" "env_inv (vm_env vm)" "vm_env vm \<noteq> []"
    and "\<forall>var. environ_get (vm_env vm) name = Some var \<longrightarrow> (\<exists>s. var_value var = VT_STRING s)"
  shows "\<exists>v vm'.
     expand_word h name opr (param_condition (vm_env vm) name colon) (set_value (vm_env vm) name) vm =
       Some (vm'\<lparr>vm_stack := v # vs\<rparr>) \<and>
     param_effect h name word (param_state_of (vm_env vm) name)
       (param_table opr colon (param_state_of (vm_env vm) name)) (vm\<lparr>vm_stack := vs\<rparr>) v vm'"
proof -
  have pop: "vm_pop vm = Some (word, vm\<lparr>vm_stack := vs\<rparr>)"
    using assms(2) by (simp add: vm_pop_def)
  obtain env msg where set: "environ_set (vm_env vm) name word = (env, msg)"
    by force
  note asg = environ_set_assigned [OF assms(4,5) set]
  have onenv: "vm_on_env h (\<lambda>env. environ_set env name word) (vm\<lparr>vm_stack := vs\<rparr>) =
      vm_puts h msg (vm\<lparr>vm_stack := vs, vm_env := env\<rparr>)"
    using assms(5) by (simp add: vm_on_env_def set)
  from assms(1) consider "opr = PE_DEFAULT" | "opr = PE_ALTERNATE" | "opr = PE_ASSIGN" | "opr = PE_ERROR"
    by blast
  then show ?thesis
    by (cases; rule param_cases [OF assms(6), of colon])
       (use asg in \<open>auto simp: expand_word_def pop vm_push_def assms(3) [folded not_le] pe_distinct
          pe_distinct [symmetric] or_empty_def param_effect_def onenv\<close>)
qed

text \<open>
  C3. \<open>${v:-w}\<close>, \<open>${v-w}\<close>, \<open>${v:=w}\<close>, \<open>${v=w}\<close>, \<open>${v:?w}\<close>, \<open>${v?w}\<close>, \<open>${v:+w}\<close> and \<open>${v+w}\<close>, for a
  variable or, but for the assignments, a positional parameter, give what the table of the standard
  says where it is set and not null, set and null, or unset: its value, the empty text, the word, the
  word after assigning it, or the message that ends the shell. The assignment makes the word the
  variable's value and changes no other; at the top level, or where the current scope has the variable,
  it is the one a command makes, while in a function a new variable stays in the function's scope. The
  operand bytes are read from the code, the word is taken from the stack, and what is pushed takes its
  place. The special parameters are not variables of the machine's scopes, and the table is not met
  for them.
\<close>

theorem expand_param_table:
  assumes "code_at vm (le16 idx @ [opr, flags])" "pool_at idx vm = Some name"
    and "opr \<in> {PE_DEFAULT, PE_ALTERNATE, PE_ASSIGN, PE_ERROR}" "\<not> bit flags PE_STRLEN"
    and "variable_name name \<or> positional_name name \<and> opr \<noteq> PE_ASSIGN"
    and "vm_stack vm = word # vs" "length (vm_stack vm) \<le> VM_STACK_MAX"
    and "env_inv (vm_env vm)" "vm_env vm \<noteq> []"
    and "\<forall>var. environ_get (vm_env vm) name = Some var \<longrightarrow> (\<exists>s. var_value var = VT_STRING s)"
  shows "\<exists>v vm'. op_expand_param sh vm = Some (vm'\<lparr>vm_stack := v # vs\<rparr>) \<and>
     (let st = param_state_of (vm_env vm) name in
      param_effect (sh_host sh) name word st (param_table opr (bit flags PE_COLON) st)
        ((forward 4 vm)\<lparr>vm_stack := vs\<rparr>) v vm')"
proof -
  note r16 = read_u16_at [OF assms(1)]
  note r8 = read_u8_at [OF r16(2)] and r8' = read_u8_at(1) [OF read_u8_at(2) [OF r16(2)]]
  have reads: "read_u16 vm = Some (idx, forward 2 vm)" "read_u8 (forward 2 vm) = Some (opr, forward 3 vm)"
    "read_u8 (forward 3 vm) = Some (flags, forward 4 vm)"
    using r16 r8 r8' by (simp_all add: eval_nat_numeral)
  have pool: "pool_at idx (forward n vm) = Some name" for n
    using assms(2) by (simp add: pool_at_def split: if_splits)
  have "op_expand_param sh vm =
      expand_word (sh_host sh) name opr (param_condition (vm_env vm) name (bit flags PE_COLON))
        (set_value (vm_env vm) name) (forward 4 vm)"
  proof -
    have "opr \<noteq> PE_NONE"
      using assms(3) pe_distinct by auto
    then show ?thesis
      using assms(3,4) by (simp add: op_expand_param_def reads pool Let_def del: add_2_eq_Suc add_2_eq_Suc')
  qed
  then show ?thesis
    using expand_word_table [of opr "forward 4 vm" word vs name] assms(3,6-10) by (simp add: Let_def)
qed

lemma expand_param_table_witness:
  "map_option vm_stack (op_expand_param quiet_shell
      ((start_on (le16 0 @ [PE_DEFAULT, 1]) [''v''])\<lparr>vm_stack := [VT_STRING ''w'']\<rparr>)) = Some [VT_STRING ''w'']"
proof -
  let ?vm = "(start_on (le16 0 @ [PE_DEFAULT, 1]) [''v''])\<lparr>vm_stack := [VT_STRING ''w'']\<rparr>"
  have env: "environ_get (vm_env ?vm) ''v'' = None" "env_inv (vm_env ?vm)" "vm_env ?vm \<noteq> []"
    and new: "environ_new [] False \<noteq> []"
    by (simp_all add: start_on_def vm_init_def new_env_inv) (simp_all add: environ_new_def)
  have "\<exists>v vm'. op_expand_param quiet_shell ?vm = Some (vm'\<lparr>vm_stack := [v]\<rparr>) \<and>
     (let st = param_state_of (vm_env ?vm) ''v'' in
      param_effect (sh_host quiet_shell) ''v'' (VT_STRING ''w'') st (param_table PE_DEFAULT (bit (1 :: byte) PE_COLON) st)
        ((forward 4 ?vm)\<lparr>vm_stack := []\<rparr>) v vm')"
    by (rule expand_param_table [where idx = 0 and flags = 1])
       (simp_all add: new new_env_inv code_at_def cur_image_def start_on_def vm_init_def VM_STACK_MAX_def
         pool_at_def PE_STRLEN_def variable_name_def is_ident_start_def is_ident_char_def between_def)
  moreover have "param_state_of (vm_env ?vm) ''v'' = Unset"
    by (simp only: param_state_of_def env(1) option.case)
  moreover have "param_table PE_DEFAULT c Unset = Use_word" for c
    by (simp add: pe_distinct)
  ultimately show ?thesis
    by (auto simp: param_effect_def)
qed

end
