(* ===== verification/Ast.thy ===== *)
theory Ast
  imports Bytecode
begin

text \<open>
  The syntax tree of \<^verbatim>\<open>src/parser/ast.h\<close>. A linked list is a list and \<^verbatim>\<open>NULL\<close> the empty one; a union is the
  arguments of its constructor, so a node has the fields its type uses. The two parallel lists of
  array assignments are one list of pairs. The source positions of comments are in the theories that
  read them.
\<close>

subsection \<open>Words\<close>

datatype param_exp_type =
  PE_NONE | PE_DEFAULT | PE_ALTERNATE | PE_ASSIGN | PE_ERROR | PE_TRIM | PE_REPLACE

primrec pe_code :: "param_exp_type \<Rightarrow> byte" where
  "pe_code PE_NONE = 0"
| "pe_code PE_DEFAULT = 1"
| "pe_code PE_ALTERNATE = 2"
| "pe_code PE_ASSIGN = 3"
| "pe_code PE_ERROR = 4"
| "pe_code PE_TRIM = 5"
| "pe_code PE_REPLACE = 6"

definition PE_COLON :: u32 where "PE_COLON = 1"
definition PE_PREFIX :: u32 where "PE_PREFIX = 2"
definition PE_SUFFIX :: u32 where "PE_SUFFIX = 4"
definition PE_LONGEST :: u32 where "PE_LONGEST = 8"
definition PE_GLOBAL :: u32 where "PE_GLOBAL = 16"
definition PE_STRLEN :: u32 where "PE_STRLEN = 32"

lemmas pe_flag_defs =
  PE_COLON_def PE_PREFIX_def PE_SUFFIX_def PE_LONGEST_def PE_GLOBAL_def PE_STRLEN_def

datatype io_redir_type =
  REDIR_IN | REDIR_OUT | REDIR_APPEND | REDIR_CLOBBER | REDIR_RDWR | REDIR_DUPIN | REDIR_DUPOUT
  | REDIR_CLOSE | REDIR_HEREDOC | REDIR_HEREDOC_STRIP | REDIR_HERESTR

primrec redir_code :: "io_redir_type \<Rightarrow> byte" where
  "redir_code REDIR_IN = 0"
| "redir_code REDIR_OUT = 1"
| "redir_code REDIR_APPEND = 2"
| "redir_code REDIR_CLOBBER = 3"
| "redir_code REDIR_RDWR = 4"
| "redir_code REDIR_DUPIN = 5"
| "redir_code REDIR_DUPOUT = 6"
| "redir_code REDIR_CLOSE = 7"
| "redir_code REDIR_HEREDOC = 8"
| "redir_code REDIR_HEREDOC_STRIP = 9"
| "redir_code REDIR_HERESTR = 10"

datatype caseend = CASE_BREAK | CASE_FALLTHROUGH | CASE_CONTINUE

text \<open>
  A part of a word carries whether it stood inside double quotes. A command substitution is a program,
  or the text of one that is still to be parsed, and whether it was written between backticks. \<open>'p\<close>
  is the type of the programs inside: the tree is closed below.
\<close>

datatype (plugins only: code size) 'p cmd_subst =
    Preparsed bool 'p
  | Unparsed bool string

datatype (plugins only: code size) 'p word_part =
    WP_LITERAL (wp_quoted: bool) string
  | WP_PARAM (wp_quoted: bool) "'p param_exp"
  | WP_CMDSUB (wp_quoted: bool) "'p cmd_subst"
  | WP_ARITH (wp_quoted: bool) "'p word_part list"
and 'p param_exp =
    Param_exp (pe_name: string) (pe_type: param_exp_type) (pe_flags: u32)
      (pe_pattern: "'p word_part list") (pe_replacement: "'p word_part list")
      (pe_index: "'p word_part list") (pe_index_all: bool)

type_synonym 'p wordu = "'p word_part list"

subsection \<open>Commands\<close>

text \<open>
  \<open>rd_addr\<close> stands for the address of a redirection: the parser fills the body of a here-document in
  through a pointer, after the command that has it was built.
\<close>

datatype (plugins only: code size) 'p io_redir =
    Io_redir (rd_addr: nat) (rd_type: io_redir_type) (rd_fd: int) (rd_target: "'p wordu")
      (rd_heredoc_body: "'p wordu") (rd_heredoc_delim: "string option") (rd_heredoc_expand: bool)

datatype (plugins only: code size) 'p cond_expr =
    COND_AND "'p cond_expr" "'p cond_expr"
  | COND_OR "'p cond_expr" "'p cond_expr"
  | COND_NOT "'p cond_expr"
  | COND_UNARY string "'p wordu"
  | COND_BINARY string "'p wordu" "'p wordu"
  | COND_STRING "'p wordu"

text \<open>A clause without a condition is the final \<^verbatim>\<open>else\<close>.\<close>

datatype (plugins only: code size) 'p if_clause =
    If_clause (ic_condition: "'p option") (ic_body: 'p)

datatype (plugins only: code size) 'p case_item =
    Case_item (ci_patterns: "'p wordu list") (ci_body: 'p) (ci_terminator: caseend)

datatype (plugins only: code size) 'p command =
    Command (cmd_lineno: nat) (cmd_redirs: "'p io_redir list") (cmd_body: "'p command_body")
and 'p command_body =
    CT_SIMPLE "'p wordu list" "'p wordu list" "(string \<times> 'p wordu list) list"
  | CT_GROUP 'p
  | CT_SUBSHELL 'p
  | CT_IF "'p if_clause list"
  | CT_FOR string "'p wordu list" 'p
  | CT_WHILE 'p 'p
  | CT_UNTIL 'p 'p
  | CT_CASE "'p wordu" "'p case_item list"
  | CT_FUNCDEF string "'p command"
  | CT_BRACKET "'p cond_expr option"

text \<open>A pipeline, and whether the next one is joined by \<^verbatim>\<open>&&\<close> or \<^verbatim>\<open>||\<close>.\<close>

datatype (plugins only: code size) 'p and_or =
    And_or (ao_commands: "'p command list") (ao_negated: bool) (ao_connector: bool)

datatype (plugins only: code size) sh_list =
    Sh_list (sl_pipelines: "sh_list list and_or list") (sl_background: bool)

type_synonym program = "sh_list list"

text \<open>Sizes, for the functions that walk over a program.\<close>

abbreviation program_size :: "program \<Rightarrow> nat" where
  "program_size \<equiv> size_list size"

lemma size_list_member: "x \<in> set xs \<Longrightarrow> f x < size_list f xs"
  by (induction xs) auto

lemma program_size_command:
  assumes "c \<in> set (ao_commands ao)" "ao \<in> set (sl_pipelines sl)" "sl \<in> set prog"
  shows "size_command program_size c < program_size prog"
proof -
  have "size_command program_size c < size_and_or program_size ao"
    using size_list_member [OF assms(1), of "size_command program_size"] by (cases ao) auto
  moreover have "size_and_or program_size ao < size sl"
    using size_list_member [OF assms(2), of "size_and_or program_size"] by (cases sl) auto
  ultimately show ?thesis
    using size_list_member [OF assms(3), of size] by linarith
qed

lemma clause_size:
  assumes "ic \<in> set clauses"
  shows "program_size (ic_body ic) < size_list (size_if_clause program_size) clauses"
    "ic_condition ic = Some c \<Longrightarrow> program_size c < size_list (size_if_clause program_size) clauses"
  using size_list_member [OF assms, of "size_if_clause program_size"] by (cases ic; auto)+

lemma item_size:
  assumes "ci \<in> set items"
  shows "program_size (ci_body ci) < size_list (size_case_item program_size) items"
  using size_list_member [OF assms, of "size_case_item program_size"] by (cases ci) auto

lemma program_take_size: "program_size (take n prog) \<le> program_size prog"
  by (induction prog arbitrary: n) (auto simp: take_Cons split: nat.splits)

lemma node_size:
  "size_list (size_and_or program_size) (sl_pipelines sl) < size sl"
  "size_list (size_command program_size) (ao_commands pl) < size_and_or program_size pl"
  "program_size (ic_body ic) < size_if_clause program_size ic"
  "ic_condition ic = Some c \<Longrightarrow> program_size c < size_if_clause program_size ic"
  "program_size (ci_body ci) < size_case_item program_size ci"
  by (cases sl, simp) (cases pl, simp, cases ic, simp, cases ic, simp, cases ci, simp)

end
