(* ===== verification/CompilerState.thy ===== *)
theory CompilerState
  imports Ast BuiltinTable Hashtable
begin

text \<open>
  The state of \<^verbatim>\<open>src/compiler/compiler.c\<close> and the functions that emit code: jumps with an offset patched
  later, the stack of the loops around the command being compiled, errors. \<open>None\<close> is an \<^verbatim>\<open>abort()\<close> of the
  image, or a write outside the array of loops. \<^verbatim>\<open>func_depth\<close>, which the code counts and never reads, is
  left out.
\<close>

definition MAX_LOOP_DEPTH :: nat where "MAX_LOOP_DEPTH = 64"
definition MAX_FUNC_COUNT :: nat where "MAX_FUNC_COUNT = 512"
definition MAX_IMPORT_DEPTH :: nat where "MAX_IMPORT_DEPTH = 32"

record loop_info =
  li_continue :: nat
  li_breaks :: "nat list"
  li_iterator :: bool

text \<open>
  \<open>cc_loops\<close> has the innermost loop first and its length is \<^verbatim>\<open>loop_depth\<close>; \<open>cc_imports\<close> is the stack of
  modules being compiled, innermost first; \<open>cc_stderr\<close> is what was printed.
\<close>

record compiler =
  cc_image :: image
  cc_errors :: nat
  cc_stderr :: string
  cc_filename :: string
  cc_script_dir :: string
  cc_loops :: "loop_info list"
  cc_funcs :: "(string \<times> nat) list"
  cc_locals :: "unit hashtable"
  cc_locals_active :: bool
  cc_modules :: "(string \<times> nat) list"
  cc_imports :: "string list"
  cc_imported :: "unit hashtable"

type_synonym compile_step = "compiler \<Rightarrow> compiler option"

text \<open>
  What the compiler asks of others: whether a path is a regular file, \<^verbatim>\<open>OPSH_LOADPATH\<close>, the text of a
  file, and the parser, which gives a program, the number of its errors and what it printed.
\<close>

record 'p compile_env =
  ce_regular :: "string \<Rightarrow> bool"
  ce_loadpath :: "string option"
  ce_read_file :: "string \<Rightarrow> string option"
  ce_parse :: "string \<Rightarrow> string \<Rightarrow> 'p \<times> nat \<times> string"

definition strchr :: "string \<Rightarrow> char \<Rightarrow> nat option" where
  "strchr s c = find_index (\<lambda>c'. c' = c) s"

definition dirname_of :: "string \<Rightarrow> string" where
  "dirname_of filename =
     (case strchr (rev filename) CHR ''/'' of
        Some i \<Rightarrow> take (length filename - 1 - i) filename
      | None \<Rightarrow> ''.'')"

definition compiler_init :: "string \<Rightarrow> compiler" where
  "compiler_init filename =
     \<lparr>cc_image = image_new, cc_errors = 0, cc_stderr = [], cc_filename = filename,
      cc_script_dir = dirname_of filename, cc_loops = [], cc_funcs = [], cc_locals = ht_init,
      cc_locals_active = False, cc_modules = [], cc_imports = [], cc_imported = ht_init\<rparr>"

definition is_local_var :: "compiler \<Rightarrow> string \<Rightarrow> bool" where
  "is_local_var cc name \<longleftrightarrow> cc_locals_active cc \<and> ht_get (cc_locals cc) name \<noteq> None"

definition cc_print :: "string \<Rightarrow> compiler \<Rightarrow> compiler" where
  "cc_print s cc = cc\<lparr>cc_stderr := cc_stderr cc @ s\<rparr>"

definition compiler_error :: "nat \<Rightarrow> string \<Rightarrow> compiler \<Rightarrow> compiler" where
  "compiler_error lineno msg cc =
     (cc_print (''opsh: '' @ cc_filename cc @ '':'' @ show_nat lineno @ '': '' @ msg @ [CHR 0x0A]) cc)
       \<lparr>cc_errors := cc_errors cc + 1\<rparr>"

subsection \<open>Emission\<close>

definition cc_on_image :: "(image \<Rightarrow> image option) \<Rightarrow> compile_step" where
  "cc_on_image f cc = map_option (\<lambda>img. cc\<lparr>cc_image := img\<rparr>) (f (cc_image cc))"

definition emit_u8 :: "byte \<Rightarrow> compile_step" where
  "emit_u8 b = cc_on_image (\<lambda>img. image_emit_u8 img b)"

definition emit_u16 :: "u16 \<Rightarrow> compile_step" where
  "emit_u16 v = cc_on_image (\<lambda>img. image_emit_u16 img v)"

definition emit_i32 :: "i32 \<Rightarrow> compile_step" where
  "emit_i32 v = cc_on_image (\<lambda>img. image_emit_i32 img v)"

definition add_const :: "string \<Rightarrow> compiler \<Rightarrow> (u16 \<times> compiler) option" where
  "add_const s cc = map_option (\<lambda>(i, img). (i, cc\<lparr>cc_image := img\<rparr>)) (image_add_const (cc_image cc) s)"

text \<open>One instruction, by the shape of its operands.\<close>

definition emit_op :: "opcode \<Rightarrow> compile_step" where
  "emit_op opc = emit_u8 (opcode_byte opc)"

definition emit_op_u8 :: "opcode \<Rightarrow> byte \<Rightarrow> compile_step" where
  "emit_op_u8 opc b cc = do { cc \<leftarrow> emit_op opc cc; emit_u8 b cc }"

definition emit_op_u8_u8 :: "opcode \<Rightarrow> byte \<Rightarrow> byte \<Rightarrow> compile_step" where
  "emit_op_u8_u8 opc a b cc = do { cc \<leftarrow> emit_op opc cc; cc \<leftarrow> emit_u8 a cc; emit_u8 b cc }"

definition emit_op_u16 :: "opcode \<Rightarrow> u16 \<Rightarrow> compile_step" where
  "emit_op_u16 opc v cc = do { cc \<leftarrow> emit_op opc cc; emit_u16 v cc }"

definition emit_op_u16_u16 :: "opcode \<Rightarrow> u16 \<Rightarrow> u16 \<Rightarrow> compile_step" where
  "emit_op_u16_u16 opc v w cc = do { cc \<leftarrow> emit_op opc cc; cc \<leftarrow> emit_u16 v cc; emit_u16 w cc }"

definition emit_op_i32 :: "opcode \<Rightarrow> i32 \<Rightarrow> compile_step" where
  "emit_op_i32 opc v cc = do { cc \<leftarrow> emit_op opc cc; emit_i32 v cc }"

definition emit_expand_param :: "u16 \<Rightarrow> byte \<Rightarrow> u32 \<Rightarrow> compile_step" where
  "emit_expand_param name_idx typ flags cc =
     do { cc \<leftarrow> emit_op OP_EXPAND_PARAM cc;
          cc \<leftarrow> emit_u16 name_idx cc;
          cc \<leftarrow> emit_u8 typ cc;
          emit_u8 (ucast (flags AND 0xFF)) cc }"

text \<open>The offset of a segment, a \<^verbatim>\<open>uint32_t\<close>, byte by byte.\<close>

definition emit_op_offset :: "opcode \<Rightarrow> nat \<Rightarrow> compile_step" where
  "emit_op_offset opc off cc =
     do { cc \<leftarrow> emit_op opc cc; foldM (\<lambda>cc b. emit_u8 b cc) cc (le32 (of_nat off)) }"

definition push_const :: "string \<Rightarrow> compile_step" where
  "push_const s cc = do { (i, cc) \<leftarrow> add_const s cc; emit_op_u16 OP_PUSH_CONST i cc }"

subsection \<open>Jumps\<close>

definition code_pos :: "compiler \<Rightarrow> nat" where
  "code_pos cc = length (im_code (cc_image cc))"

definition emit_jump :: "opcode \<Rightarrow> compiler \<Rightarrow> (nat \<times> compiler) option" where
  "emit_jump opc cc =
     do { cc \<leftarrow> emit_op opc cc;
          let patch_pos = code_pos cc;
          cc \<leftarrow> emit_i32 0 cc;
          Some (patch_pos, cc) }"

definition jump_offset :: "nat \<Rightarrow> nat \<Rightarrow> i32" where
  "jump_offset patch_pos target = word_of_int (int target - int (patch_pos + 4))"

definition patch_code :: "nat \<Rightarrow> byte list \<Rightarrow> byte list \<Rightarrow> byte list" where
  "patch_code pos bs code = take pos code @ bs @ drop (pos + length bs) code"

definition patch_jump_to :: "nat \<Rightarrow> nat \<Rightarrow> compiler \<Rightarrow> compiler" where
  "patch_jump_to patch_pos target cc =
     cc\<lparr>cc_image := (cc_image cc)
         \<lparr>im_code := patch_code patch_pos (le32 (jump_offset patch_pos target)) (im_code (cc_image cc))\<rparr>\<rparr>"

definition patch_jump :: "nat \<Rightarrow> compiler \<Rightarrow> compiler" where
  "patch_jump patch_pos cc = patch_jump_to patch_pos (code_pos cc) cc"

text \<open>The patches of a list, in its order.\<close>

definition patch_jumps :: "nat list \<Rightarrow> compiler \<Rightarrow> compiler" where
  "patch_jumps ps cc = fold patch_jump ps cc"

text \<open>
  A segment of code that is jumped over where it stands and run from its offset: the jump, the body,
  the instruction that ends it, and the offset of the body.
\<close>

definition compile_segment :: "compile_step \<Rightarrow> opcode \<Rightarrow> compiler \<Rightarrow> (nat \<times> compiler) option" where
  "compile_segment body last_op cc =
     do { (skip_jump, cc) \<leftarrow> emit_jump OP_JMP cc;
          let sub_offset = code_pos cc;
          cc \<leftarrow> body cc;
          cc \<leftarrow> emit_op last_op cc;
          Some (sub_offset, patch_jump skip_jump cc) }"

subsection \<open>Loops\<close>

definition push_loop :: "nat \<Rightarrow> bool \<Rightarrow> compiler \<Rightarrow> compiler" where
  "push_loop target iterator cc =
     (if length (cc_loops cc) \<ge> MAX_LOOP_DEPTH then compiler_error 0 ''loop nesting too deep'' cc
      else cc\<lparr>cc_loops := \<lparr>li_continue = target, li_breaks = [], li_iterator = iterator\<rparr> # cc_loops cc\<rparr>)"

definition pop_loop :: "compiler \<Rightarrow> compiler" where
  "pop_loop cc =
     (case cc_loops cc of
        [] \<Rightarrow> cc
      | li # lis \<Rightarrow> patch_jumps (li_breaks li) (cc\<lparr>cc_loops := lis\<rparr>))"

text \<open>\<^verbatim>\<open>cc->loop_stack[cc->loop_depth - 1].continue_target = target\<close>, with no loop a write below the array.\<close>

definition set_continue :: "nat \<Rightarrow> compile_step" where
  "set_continue target cc =
     (case cc_loops cc of
        [] \<Rightarrow> None
      | li # lis \<Rightarrow> Some (cc\<lparr>cc_loops := li\<lparr>li_continue := target\<rparr> # lis\<rparr>))"

end
