(* ===== verification/Compiler.thy ===== *)
theory Compiler
  imports CompilerState
begin

text \<open>
  The compiler of \<^verbatim>\<open>src/compiler/compiler.c\<close>, one definition for each of its functions. They take the
  function \<open>prog\<close> that compiles a program inside the tree, or parsed from a text: \<open>compile_nested\<close>
  closes the recursion, with the number of programs inside one another as its fuel.
\<close>

type_synonym 'p prog = "'p \<Rightarrow> compile_step"

subsection \<open>Words\<close>

definition special_of :: "string \<Rightarrow> byte option" where
  "special_of name =
     (if name = ''?'' then Some SPECIAL_QUESTION
      else if name = ''#'' then Some SPECIAL_HASH
      else if name = ''@'' then Some SPECIAL_AT
      else if name = ''*'' then Some SPECIAL_STAR
      else if name = ''$'' then Some SPECIAL_DOLLAR
      else if name = ''!'' then Some SPECIAL_BANG
      else if name = ''-'' then Some SPECIAL_DASH
      else if name = ''0'' then Some SPECIAL_ZERO
      else None)"

definition emit_var :: "string \<Rightarrow> compile_step" where
  "emit_var name cc =
     do { (i, cc) \<leftarrow> add_const name cc;
          emit_op_u16 (if is_local_var cc name then OP_GET_LOCAL else OP_GET_VAR) i cc }"

definition compile_cmdsub :: "'p compile_env \<Rightarrow> 'p prog \<Rightarrow> nat \<Rightarrow> 'p cmd_subst \<Rightarrow> compile_step" where
  "compile_cmdsub env prog lineno cs cc =
     (let segment = (\<lambda>ast cc.
        do { (off, cc) \<leftarrow> compile_segment (prog ast) OP_HALT cc; emit_op_offset OP_CMD_SUBST off cc })
      in
      case cs of
        Preparsed backtick ast \<Rightarrow> segment ast cc
      | Unparsed backtick source \<Rightarrow>
          (let (ast, errors, text) = ce_parse env source (cc_filename cc);
               cc = cc_print text cc
           in if errors > 0
              then push_const [] (compiler_error lineno ''error in command substitution'' cc)
              else segment ast cc))"

text \<open>The end of a word: its parts joined when there are several, the empty string when there is none.\<close>

definition concat_parts :: "nat \<Rightarrow> compile_step" where
  "concat_parts n cc =
     (if n > 1 then emit_op_u16 OP_CONCAT (of_nat n) cc
      else if n = 0 then push_const [] cc
      else Some cc)"

text \<open>
  \<^verbatim>\<open>compile_word\<close>, with the loop over the parts and the branches on a part as functions of their own. Every
  part leaves one value. The second test for \<^verbatim>\<open>PE_STRLEN\<close>, on an array, is never reached in the code
  and left out; an operator without a word gets the empty string, as an empty word does.
\<close>

fun compile_word :: "'p compile_env \<Rightarrow> 'p prog \<Rightarrow> nat \<Rightarrow> 'p wordu \<Rightarrow> compile_step"
and compile_parts :: "'p compile_env \<Rightarrow> 'p prog \<Rightarrow> nat \<Rightarrow> 'p wordu \<Rightarrow> compile_step"
and compile_part :: "'p compile_env \<Rightarrow> 'p prog \<Rightarrow> nat \<Rightarrow> 'p word_part \<Rightarrow> compile_step"
where
  "compile_word env prog lineno w cc =
     do { cc \<leftarrow> compile_parts env prog lineno w cc; concat_parts (length w) cc }"
| "compile_parts env prog lineno [] cc = Some cc"
| "compile_parts env prog lineno (part # w) cc =
     do { cc \<leftarrow> compile_part env prog lineno part cc; compile_parts env prog lineno w cc }"
| "compile_part env prog lineno (WP_LITERAL quoted s) cc = push_const s cc"
| "compile_part env prog lineno
     (WP_PARAM quoted (Param_exp name typ flags pat rep idx index_all)) cc =
     (if flags AND PE_STRLEN \<noteq> 0
      then do { (i, cc) \<leftarrow> add_const name cc; emit_expand_param i (pe_code PE_NONE) flags cc }
      else case (if typ = PE_NONE then special_of name else None) of
        Some sp \<Rightarrow> emit_op_u8 OP_GET_SPECIAL sp cc
      | None \<Rightarrow>
          if idx \<noteq> []
          then do { (i, cc) \<leftarrow> add_const name cc;
                    cc \<leftarrow> compile_word env prog lineno idx cc;
                    cc \<leftarrow> emit_op OP_EXPAND_ARITH cc;
                    emit_op_u16 OP_GET_ARRAY i cc }
          else if index_all then do { (i, cc) \<leftarrow> add_const name cc; emit_op_u16 OP_GET_VAR i cc }
          else if typ = PE_NONE then emit_var name cc
          else if typ = PE_REPLACE
          then do { (i, cc) \<leftarrow> add_const name cc;
                    cc \<leftarrow> compile_word env prog lineno pat cc;
                    cc \<leftarrow> compile_word env prog lineno rep cc;
                    emit_expand_param i (pe_code typ) flags cc }
          else do { (i, cc) \<leftarrow> add_const name cc;
                    cc \<leftarrow> compile_word env prog lineno pat cc;
                    emit_expand_param i (pe_code typ) flags cc })"
| "compile_part env prog lineno (WP_ARITH quoted w) cc =
     do { cc \<leftarrow> (if w \<noteq> [] then compile_word env prog lineno w cc else push_const ''0'' cc);
          emit_op OP_EXPAND_ARITH cc }"
| "compile_part env prog lineno (WP_CMDSUB quoted cs) cc = compile_cmdsub env prog lineno cs cc"

fun word_needs_split :: "'p wordu \<Rightarrow> bool" where
  "word_needs_split [] = False"
| "word_needs_split (WP_PARAM quoted pe # w) = (\<not> quoted \<or> word_needs_split w)"
| "word_needs_split (WP_CMDSUB quoted cs # w) = (\<not> quoted \<or> word_needs_split w)"
| "word_needs_split (_ # w) = word_needs_split w"

fun word_has_glob :: "'p wordu \<Rightarrow> bool" where
  "word_has_glob [] = False"
| "word_has_glob (WP_LITERAL quoted s # w) =
     (\<not> quoted \<and> list_ex (\<lambda>c. c = CHR ''*'' \<or> c = CHR ''?'' \<or> c = CHR ''['') s \<or> word_has_glob w)"
| "word_has_glob (_ # w) = word_has_glob w"

fun is_literal_word :: "'p wordu \<Rightarrow> bool" where
  "is_literal_word [WP_LITERAL quoted s] = True"
| "is_literal_word _ = False"

fun is_quoted_at :: "'p wordu \<Rightarrow> bool" where
  "is_quoted_at [WP_PARAM quoted pe] = (quoted \<and> pe_type pe = PE_NONE \<and> pe_name pe = ''@'')"
| "is_quoted_at _ = False"

fun word_starts_with_tilde :: "'p wordu \<Rightarrow> bool" where
  "word_starts_with_tilde (WP_LITERAL quoted s # w) = (\<not> quoted \<and> peek s 0 = CHR ''~'')"
| "word_starts_with_tilde _ = False"

text \<open>The text of a word whose first part is a literal; the code asks for no other.\<close>

fun literal_value :: "'p wordu \<Rightarrow> string" where
  "literal_value (WP_LITERAL quoted s # w) = s"
| "literal_value _ = []"

subsection \<open>Modules\<close>

text \<open>\<^verbatim>\<open>snprintf\<close> into the 4096 bytes of the path.\<close>

fun search_loadpath :: "(string \<Rightarrow> bool) \<Rightarrow> string \<Rightarrow> string list \<Rightarrow> string option" where
  "search_loadpath regular name [] = None"
| "search_loadpath regular name (dir # dirs) =
     (let path = take 4095 (dir @ ''/'' @ name @ ''.opsh'') in
      if dir \<noteq> [] \<and> regular path then Some path else search_loadpath regular name dirs)"

fun split_colons :: "string \<Rightarrow> string list" where
  "split_colons [] = [[]]"
| "split_colons (c # s) =
     (if c = CHR '':'' then [] # split_colons s
      else case split_colons s of [] \<Rightarrow> [[c]] | d # ds \<Rightarrow> (c # d) # ds)"

definition resolve_module :: "'p compile_env \<Rightarrow> compiler \<Rightarrow> string \<Rightarrow> string option" where
  "resolve_module env cc name =
     (let path = take 4095 (cc_script_dir cc @ ''/lib/'' @ name @ ''.opsh'') in
      if ce_regular env path then Some path
      else case ce_loadpath env of
        None \<Rightarrow> None
      | Some loadpath \<Rightarrow> search_loadpath (ce_regular env) name (split_colons loadpath))"

text \<open>A message with a module's name in the 256 bytes of its buffer.\<close>

definition module_error :: "nat \<Rightarrow> string \<Rightarrow> string \<Rightarrow> string \<Rightarrow> compiler \<Rightarrow> compiler" where
  "module_error lineno pre name post = compiler_error lineno (take 255 (pre @ name @ post))"

definition compile_module :: "'p compile_env \<Rightarrow> 'p prog \<Rightarrow> string \<Rightarrow> string \<Rightarrow> 'p \<Rightarrow> compile_step" where
  "compile_module env prog name path ast cc =
     do { let cc = cc\<lparr>cc_imported := fst (ht_set (cc_imported cc) name ())\<rparr>;
          let saved = cc_filename cc;
          (off, cc) \<leftarrow>
            compile_segment (\<lambda>cc. prog ast (cc\<lparr>cc_filename := path\<rparr>)) OP_HALT cc;
          let cc = cc\<lparr>cc_filename := saved\<rparr>;
          let cc = (if length (cc_modules cc) < MAX_IMPORT_DEPTH * 4
                    then cc\<lparr>cc_modules := cc_modules cc @ [(name, off)]\<rparr> else cc);
          (i, cc) \<leftarrow> add_const name cc;
          emit_op_u16 OP_IMPORT i cc }"

definition compile_import :: "'p compile_env \<Rightarrow> 'p prog \<Rightarrow> string \<Rightarrow> nat \<Rightarrow> compile_step" where
  "compile_import env prog name lineno cc =
     (if ht_get (cc_imported cc) name \<noteq> None then Some cc
      else if name \<in> set (cc_imports cc)
      then Some (module_error lineno (''circular dependency: module '' @ [CHR 0x27]) name [CHR 0x27] cc)
      else if length (cc_imports cc) \<ge> MAX_IMPORT_DEPTH
      then Some (compiler_error lineno ''import nesting too deep'' cc)
      else case resolve_module env cc name of
        None \<Rightarrow> Some (module_error lineno (''module '' @ [CHR 0x27]) name ([CHR 0x27] @ '' not found'') cc)
      | Some path \<Rightarrow>
          (case ce_read_file env path of
             None \<Rightarrow> Some (module_error lineno (''cannot read module '' @ [CHR 0x27]) name [CHR 0x27] cc)
           | Some source \<Rightarrow>
               (let (ast, errors, text) = ce_parse env source path;
                    cc = cc_print text (cc\<lparr>cc_imports := name # cc_imports cc\<rparr>)
                in
                do { cc \<leftarrow> (if errors > 0
                            then Some (module_error lineno (''errors in module '' @ [CHR 0x27]) name [CHR 0x27] cc)
                            else compile_module env prog name path ast cc);
                     Some (cc\<lparr>cc_imports := tl (cc_imports cc)\<rparr>) })))"

subsection \<open>Redirections\<close>

definition compile_redir :: "'p compile_env \<Rightarrow> 'p prog \<Rightarrow> nat \<Rightarrow> 'p io_redir \<Rightarrow> compile_step" where
  "compile_redir env prog lineno rd cc =
     (let fd = word_of_int (rd_fd rd); typ = rd_type rd in
      if typ \<in> {REDIR_IN, REDIR_OUT, REDIR_APPEND, REDIR_CLOBBER, REDIR_RDWR}
      then do { cc \<leftarrow> compile_word env prog lineno (rd_target rd) cc;
                emit_op_u8_u8 OP_REDIR_OPEN fd (redir_code typ) cc }
      else if typ \<in> {REDIR_DUPIN, REDIR_DUPOUT}
      then do { cc \<leftarrow> compile_word env prog lineno (rd_target rd) cc;
                emit_op_u8_u8 OP_REDIR_DUP fd 0 cc }
      else if typ = REDIR_CLOSE then emit_op_u8 OP_REDIR_CLOSE fd cc
      else do { cc \<leftarrow> (if rd_heredoc_body rd \<noteq> []
                       then compile_word env prog lineno (rd_heredoc_body rd) cc
                       else if rd_target rd \<noteq> [] then compile_word env prog lineno (rd_target rd) cc
                       else push_const [] cc);
                emit_op_u8_u8 OP_REDIR_HERE fd (if rd_heredoc_expand rd then 1 else 0) cc })"

definition compile_redirs_open :: "'p compile_env \<Rightarrow> 'p prog \<Rightarrow> 'p io_redir list \<Rightarrow> nat \<Rightarrow> compile_step" where
  "compile_redirs_open env prog redirs lineno cc =
     do { cc \<leftarrow> emit_op OP_REDIR_SAVE cc;
          foldM (\<lambda>cc rd. compile_redir env prog lineno rd cc) cc redirs }"

subsection \<open>Simple commands\<close>

text \<open>The levels of a \<^verbatim>\<open>break\<close> or \<^verbatim>\<open>continue\<close>, at most the loops there are; \<open>None\<close> is an invalid count.\<close>

definition break_depth :: "'p wordu list \<Rightarrow> nat \<Rightarrow> nat option" where
  "break_depth words loop_depth =
     (if length words \<ge> 2 \<and> is_literal_word (words ! 1)
      then (let s = literal_value (words ! 1); (d, n) = strtoll 10 s in
            if n < length s \<or> sint d < 1 then None
            else if sint d > int loop_depth then Some loop_depth else Some (nat (sint d)))
      else Some 1)"

text \<open>The iterators of the loops left behind are popped, not that of the loop aimed at.\<close>

definition pop_iterators :: "loop_info list \<Rightarrow> compile_step" where
  "pop_iterators lis cc =
     foldM (\<lambda>cc li. if li_iterator li then emit_op OP_POP cc else Some cc) cc lis"

definition compile_break :: "bool \<Rightarrow> 'p wordu list \<Rightarrow> nat \<Rightarrow> compile_step" where
  "compile_break is_break words lineno cc =
     (let loop_depth = length (cc_loops cc) in
      case break_depth words loop_depth of
        None \<Rightarrow> Some (compiler_error lineno (if is_break then ''break: invalid count''
                                             else ''continue: invalid count'') cc)
      | Some depth \<Rightarrow>
          if loop_depth = 0
          then Some (compiler_error lineno (if is_break then ''break outside loop''
                                            else ''continue outside loop'') cc)
          else do { cc \<leftarrow> pop_iterators (take (depth - 1) (cc_loops cc)) cc;
                    let li = cc_loops cc ! (depth - 1);
                    (jmp, cc) \<leftarrow> emit_jump OP_JMP cc;
                    Some (if is_break
                          then cc\<lparr>cc_loops := (cc_loops cc)
                                    [depth - 1 := li\<lparr>li_breaks := li_breaks li @ [jmp]\<rparr>]\<rparr>
                          else patch_jump_to jmp (li_continue li) cc) })"

text \<open>
  The value of an assignment is what follows the \<^verbatim>\<open>=\<close> in the first part, joined with the other parts;
  with an index in the name, what follows the \<^verbatim>\<open>=\<close> is dropped when there are other parts.
\<close>

definition assign_element :: "'p compile_env \<Rightarrow> 'p prog \<Rightarrow> nat \<Rightarrow> string \<Rightarrow> nat \<Rightarrow> string \<Rightarrow> 'p wordu \<Rightarrow> compile_step" where
  "assign_element env prog lineno name bracket val rest cc =
     (let idx_str = takeWhile (\<lambda>c. c \<noteq> CHR '']'') (drop (bracket + 1) name) in
      do { (arr_idx, cc) \<leftarrow> add_const (take bracket name) cc;
           cc \<leftarrow> (if rest = [] then push_const val cc else compile_word env prog lineno rest cc);
           cc \<leftarrow> push_const idx_str cc;
           cc \<leftarrow> emit_op OP_EXPAND_ARITH cc;
           emit_op_u16 OP_SET_ARRAY arr_idx cc })"

definition assign_variable ::
  "'p compile_env \<Rightarrow> 'p prog \<Rightarrow> nat \<Rightarrow> bool \<Rightarrow> string \<Rightarrow> string \<Rightarrow> 'p wordu \<Rightarrow> compile_step" where
  "assign_variable env prog lineno temp name val rest cc =
     do { (name_idx, cc) \<leftarrow> add_const name cc;
          cc \<leftarrow>
            (if rest = [] then push_const val cc
             else if val \<noteq> []
             then do { cc \<leftarrow> push_const val cc;
                       cc \<leftarrow> compile_word env prog lineno rest cc;
                       emit_op_u16 OP_CONCAT 2 cc }
             else compile_word env prog lineno rest cc);
          cc \<leftarrow> (if peek val 0 = CHR ''~'' then emit_op OP_EXPAND_TILDE cc else Some cc);
          if temp
          then do { cc \<leftarrow> emit_op_u16 OP_SET_LOCAL name_idx cc; emit_op_u16 OP_EXPORT name_idx cc }
          else emit_op_u16 (if is_local_var cc name then OP_SET_LOCAL else OP_SET_VAR) name_idx cc }"

definition compile_assign :: "'p compile_env \<Rightarrow> 'p prog \<Rightarrow> nat \<Rightarrow> bool \<Rightarrow> 'p wordu \<Rightarrow> compile_step" where
  "compile_assign env prog lineno temp w cc =
     (case w of
        [] \<Rightarrow> Some cc
      | WP_LITERAL quoted s # rest \<Rightarrow>
          (case strchr s CHR ''='' of
             None \<Rightarrow> Some (compiler_error lineno ''invalid assignment'' cc)
           | Some eq \<Rightarrow>
               (case strchr (take eq s) CHR ''['' of
                  Some bracket \<Rightarrow>
                    assign_element env prog lineno (take eq s) bracket (drop (eq + 1) s) rest cc
                | None \<Rightarrow> assign_variable env prog lineno temp (take eq s) (drop (eq + 1) s) rest cc))
      | _ \<Rightarrow> Some (compiler_error lineno ''assignment with non-string prefix'' cc))"

definition compile_array :: "'p compile_env \<Rightarrow> 'p prog \<Rightarrow> nat \<Rightarrow> string \<times> 'p wordu list \<Rightarrow> compile_step" where
  "compile_array env prog lineno arr cc =
     (case arr of (name, elems) \<Rightarrow>
        do { (name_idx, cc) \<leftarrow> add_const name cc;
             cc \<leftarrow> foldM (\<lambda>cc w. compile_word env prog lineno w cc) cc elems;
             emit_op_u16_u16 OP_SET_ARRAY_BULK name_idx (of_nat (length elems)) cc })"

text \<open>What makes a word on the stack a group of fields with their number on top.\<close>

definition compile_fields :: "'p wordu \<Rightarrow> compile_step" where
  "compile_fields w cc =
     (if word_needs_split w then emit_op OP_SPLIT_FIELDS cc
      else if word_has_glob w then emit_op OP_GLOB cc
      else emit_op_i32 OP_PUSH_INT 1 cc)"

definition compile_arg :: "'p compile_env \<Rightarrow> 'p prog \<Rightarrow> nat \<Rightarrow> 'p wordu \<Rightarrow> compile_step" where
  "compile_arg env prog lineno w cc =
     (if is_quoted_at w then emit_op OP_EXPAND_ARGS cc
      else do { cc \<leftarrow> compile_word env prog lineno w cc;
                cc \<leftarrow> (if word_starts_with_tilde w then emit_op OP_EXPAND_TILDE cc else Some cc);
                compile_fields w cc })"

text \<open>A builtin by its index, a function defined before by its number, anything else by name.\<close>

definition compile_exec :: "'p wordu \<Rightarrow> compile_step" where
  "compile_exec cmd_word cc =
     (if is_literal_word cmd_word
      then case builtin_lookup (literal_value cmd_word) of
        Some i \<Rightarrow> emit_op_u16 OP_EXEC_BUILTIN (of_nat i) cc
      | None \<Rightarrow>
          (case find_index (\<lambda>(name, off). name = literal_value cmd_word) (cc_funcs cc) of
             Some fi \<Rightarrow> emit_op_u16 OP_EXEC_FUNC (of_nat fi) cc
           | None \<Rightarrow> emit_op_u8 OP_EXEC_SIMPLE 0 cc)
      else emit_op_u8 OP_EXEC_SIMPLE 0 cc)"

definition compile_run ::
  "'p compile_env \<Rightarrow> 'p prog \<Rightarrow> nat \<Rightarrow> 'p io_redir list \<Rightarrow> bool \<Rightarrow> 'p wordu list \<Rightarrow> compile_step" where
  "compile_run env prog lineno redirs temp words cc =
     do { cc \<leftarrow> compile_redirs_open env prog redirs lineno cc;
          cc \<leftarrow> foldM (\<lambda>cc w. compile_arg env prog lineno w cc) cc words;
          cc \<leftarrow> emit_op_i32 OP_PUSH_INT (of_nat (length words)) cc;
          cc \<leftarrow> emit_op OP_COLLECT_WORDS cc;
          cc \<leftarrow> compile_exec (hd words) cc;
          cc \<leftarrow> (if temp then emit_op OP_POP_SCOPE cc else Some cc);
          if length words = 1 \<and> is_literal_word (hd words) \<and> literal_value (hd words) = ''exec''
          then Some cc else emit_op OP_REDIR_RESTORE cc }"

definition compile_simple ::
  "'p compile_env \<Rightarrow> 'p prog \<Rightarrow> nat \<Rightarrow> 'p io_redir list \<Rightarrow> 'p wordu list \<Rightarrow> 'p wordu list \<Rightarrow>
    (string \<times> 'p wordu list) list \<Rightarrow> compile_step" where
  "compile_simple env prog lineno redirs assigns words arrays cc =
     (let name = (if words \<noteq> [] \<and> is_literal_word (hd words) then Some (literal_value (hd words)) else None);
          temp = ((assigns \<noteq> [] \<or> arrays \<noteq> []) \<and> words \<noteq> [])
      in
      if name = Some ''break'' then compile_break True words lineno cc
      else if name = Some ''continue'' then compile_break False words lineno cc
      else if name = Some ''lib::import'' \<and> length words \<ge> 2 then
        (if is_literal_word (words ! 1) then compile_import env prog (literal_value (words ! 1)) lineno cc
         else Some (compiler_error lineno ''lib::import requires a literal module name'' cc))
      else do { cc \<leftarrow> (if temp then emit_op_u8 OP_PUSH_SCOPE 1 cc else Some cc);
                cc \<leftarrow> foldM (\<lambda>cc w. compile_assign env prog lineno temp w cc) cc assigns;
                cc \<leftarrow> foldM (\<lambda>cc arr. compile_array env prog lineno arr cc) cc arrays;
                if words = [] then Some cc else compile_run env prog lineno redirs temp words cc })"

subsection \<open>Conditions and loops\<close>

text \<open>The clauses of an \<^verbatim>\<open>if\<close>, with the jumps to its end.\<close>

fun compile_clauses :: "'p prog \<Rightarrow> 'p if_clause list \<Rightarrow> nat list \<Rightarrow> compiler \<Rightarrow> (nat list \<times> compiler) option" where
  "compile_clauses prog [] ends cc = Some (ends, cc)"
| "compile_clauses prog (If_clause condition body # ics) ends cc =
     (case condition of
        Some condition \<Rightarrow>
          do { cc \<leftarrow> emit_op OP_ERREXIT_PUSH cc;
               cc \<leftarrow> prog condition cc;
               cc \<leftarrow> emit_op OP_ERREXIT_POP cc;
               (skip_body, cc) \<leftarrow> emit_jump OP_JMP_FALSE cc;
               cc \<leftarrow> prog body cc;
               (end_patch, cc) \<leftarrow> emit_jump OP_JMP cc;
               compile_clauses prog ics (ends @ [end_patch]) (patch_jump skip_body cc) }
      | None \<Rightarrow> do { cc \<leftarrow> prog body cc; compile_clauses prog ics ends cc })"

definition compile_if :: "'p prog \<Rightarrow> 'p if_clause list \<Rightarrow> compile_step" where
  "compile_if prog clauses cc =
     do { (ends, cc) \<leftarrow> compile_clauses prog clauses [] cc;
          cc \<leftarrow> (if list_ex (\<lambda>ic. ic_condition ic = None) clauses then Some cc
                 else emit_op OP_STATUS_ZERO cc);
          Some (patch_jumps ends cc) }"

definition compile_for_word :: "'p compile_env \<Rightarrow> 'p prog \<Rightarrow> nat \<Rightarrow> 'p wordu \<Rightarrow> compile_step" where
  "compile_for_word env prog lineno w cc =
     (if is_quoted_at w then emit_op OP_EXPAND_ARGS cc
      else do { cc \<leftarrow> compile_word env prog lineno w cc; compile_fields w cc })"

definition compile_for :: "'p compile_env \<Rightarrow> 'p prog \<Rightarrow> nat \<Rightarrow> string \<Rightarrow> 'p wordu list \<Rightarrow> 'p \<Rightarrow> compile_step" where
  "compile_for env prog lineno varname words body cc =
     do { (var_idx, cc) \<leftarrow> add_const varname cc;
          cc \<leftarrow>
            (if words = [] then emit_op OP_EXPAND_ARGS cc
             else do { cc \<leftarrow> foldM (\<lambda>cc w. compile_for_word env prog lineno w cc) cc words;
                       cc \<leftarrow> emit_op_i32 OP_PUSH_INT (of_nat (length words)) cc;
                       emit_op OP_COLLECT_WORDS cc });
          cc \<leftarrow> emit_op_u16 OP_INIT_ITER 1 cc;
          let loop_top = code_pos cc;
          cc \<leftarrow> emit_op OP_GET_NEXT_ITER cc;
          cc \<leftarrow> emit_op OP_DUP cc;
          (exit_jump, cc) \<leftarrow> emit_jump OP_JMP_NONE cc;
          cc \<leftarrow> emit_op_u16 OP_SET_VAR var_idx cc;
          cc \<leftarrow> prog body (push_loop loop_top True cc);
          (back_jump, cc) \<leftarrow> emit_jump OP_JMP cc;
          let cc = pop_loop (patch_jump_to back_jump loop_top cc);
          (break_skip, cc) \<leftarrow> emit_jump OP_JMP cc;
          cc \<leftarrow> emit_op OP_POP (patch_jump exit_jump cc);
          emit_op OP_POP (patch_jump break_skip cc) }"

definition compile_condition :: "'p prog \<Rightarrow> 'p \<Rightarrow> opcode \<Rightarrow> compiler \<Rightarrow> (nat \<times> compiler) option" where
  "compile_condition prog condition jump cc =
     do { cc \<leftarrow> emit_op OP_ERREXIT_PUSH cc;
          cc \<leftarrow> prog condition cc;
          cc \<leftarrow> emit_op OP_ERREXIT_POP cc;
          emit_jump jump cc }"

definition compile_while_until :: "'p prog \<Rightarrow> 'p \<Rightarrow> 'p \<Rightarrow> bool \<Rightarrow> compile_step" where
  "compile_while_until prog condition body is_until cc =
     do { (first_exit, cc) \<leftarrow>
            compile_condition prog condition (if is_until then OP_JMP_TRUE else OP_JMP_FALSE) cc;
          let body_start = code_pos cc;
          cc \<leftarrow> prog body (push_loop 0 False cc);
          let continue_target = code_pos cc;
          (loop_back, cc) \<leftarrow>
            compile_condition prog condition (if is_until then OP_JMP_FALSE else OP_JMP_TRUE) cc;
          cc \<leftarrow> set_continue continue_target (patch_jump_to loop_back body_start cc);
          (skip_zero, cc) \<leftarrow> emit_jump OP_JMP (pop_loop cc);
          cc \<leftarrow> emit_op OP_STATUS_ZERO (patch_jump first_exit cc);
          Some (patch_jump skip_zero cc) }"

text \<open>The patterns of an item, with the jumps to its body.\<close>

fun compile_patterns ::
  "'p compile_env \<Rightarrow> 'p prog \<Rightarrow> nat \<Rightarrow> 'p wordu \<Rightarrow> 'p wordu list \<Rightarrow> nat list \<Rightarrow> compiler \<Rightarrow> (nat list \<times> compiler) option" where
  "compile_patterns env prog lineno subject [] jumps cc = Some (jumps, cc)"
| "compile_patterns env prog lineno subject (pat # pats) jumps cc =
     do { cc \<leftarrow> compile_word env prog lineno subject cc;
          cc \<leftarrow> compile_word env prog lineno pat cc;
          cc \<leftarrow> emit_op OP_PATTERN_MATCH cc;
          (match_jump, cc) \<leftarrow> emit_jump OP_JMP_TRUE cc;
          compile_patterns env prog lineno subject pats (jumps @ [match_jump]) cc }"

fun compile_items ::
  "'p compile_env \<Rightarrow> 'p prog \<Rightarrow> nat \<Rightarrow> 'p wordu \<Rightarrow> 'p case_item list \<Rightarrow> nat list \<Rightarrow> compiler \<Rightarrow> (nat list \<times> compiler) option" where
  "compile_items env prog lineno subject [] ends cc = Some (ends, cc)"
| "compile_items env prog lineno subject (Case_item patterns body terminator # items) ends cc =
     do { (jumps, cc) \<leftarrow> compile_patterns env prog lineno subject patterns [] cc;
          (skip_body, cc) \<leftarrow>
            (if patterns \<noteq> []
             then map_option (\<lambda>(pos, cc). (Some pos, cc)) (emit_jump OP_JMP cc)
             else Some (None, cc));
          cc \<leftarrow> prog body (patch_jumps jumps cc);
          (ends, cc) \<leftarrow>
            (if terminator = CASE_BREAK
             then map_option (\<lambda>(pos, cc). (ends @ [pos], cc)) (emit_jump OP_JMP cc)
             else Some (ends, cc));
          compile_items env prog lineno subject items ends
            (case skip_body of Some pos \<Rightarrow> patch_jump pos cc | None \<Rightarrow> cc) }"

definition compile_case :: "'p compile_env \<Rightarrow> 'p prog \<Rightarrow> nat \<Rightarrow> 'p wordu \<Rightarrow> 'p case_item list \<Rightarrow> compile_step" where
  "compile_case env prog lineno subject items cc =
     do { (ends, cc) \<leftarrow> compile_items env prog lineno subject items [] cc;
          cc \<leftarrow> emit_op OP_STATUS_ZERO cc;
          (skip_status, cc) \<leftarrow> emit_jump OP_JMP cc;
          Some (patch_jump skip_status (patch_jumps ends cc)) }"

subsection \<open>Tests\<close>

definition test_op_table :: "(string \<times> byte) list" where
  "test_op_table =
     [(''-f'', TEST_F), (''-d'', TEST_D), (''-e'', TEST_E), (''-s'', TEST_S), (''-r'', TEST_R),
      (''-w'', TEST_W), (''-x'', TEST_X), (''-L'', TEST_L), (''-h'', TEST_L), (''-p'', TEST_P),
      (''-b'', TEST_B), (''-c'', TEST_C), (''-S'', TEST_SS), (''-g'', TEST_G), (''-u'', TEST_U),
      (''-k'', TEST_K), (''-O'', TEST_O), (''-G'', TEST_GG), (''-t'', TEST_T), (''-N'', TEST_NT),
      (''-n'', TEST_N), (''-z'', TEST_Z), (''=='', TEST_SEQ), (''='', TEST_SEQ), (''!='', TEST_SNE),
      (''-eq'', TEST_EQ), (''-ne'', TEST_NE), (''-lt'', TEST_LT), (''-le'', TEST_LE),
      (''-gt'', TEST_GT), (''-ge'', TEST_GE), (''-nt'', TEST_FNT), (''-ot'', TEST_FOT),
      (''-ef'', TEST_FEF)]"

definition test_op_from_string :: "string \<Rightarrow> byte option" where
  "test_op_from_string opr = map_of test_op_table opr"

definition compile_test :: "opcode \<Rightarrow> string \<Rightarrow> nat \<Rightarrow> compile_step" where
  "compile_test opc opr lineno cc =
     (case test_op_from_string opr of
        None \<Rightarrow> Some (compiler_error lineno (take 127 (''unknown test operator: '' @ opr)) cc)
      | Some b \<Rightarrow> emit_op_u8 opc b cc)"

fun compile_cond_expr :: "'p compile_env \<Rightarrow> 'p prog \<Rightarrow> nat \<Rightarrow> 'p cond_expr \<Rightarrow> compile_step" where
  "compile_cond_expr env prog lineno (COND_STRING w) cc =
     do { cc \<leftarrow> compile_word env prog lineno w cc; emit_op_u8 OP_TEST_UNARY TEST_N cc }"
| "compile_cond_expr env prog lineno (COND_UNARY opr arg) cc =
     do { cc \<leftarrow> compile_word env prog lineno arg cc; compile_test OP_TEST_UNARY opr lineno cc }"
| "compile_cond_expr env prog lineno (COND_BINARY opr lhs rhs) cc =
     do { cc \<leftarrow> compile_word env prog lineno lhs cc;
          cc \<leftarrow> compile_word env prog lineno rhs cc;
          if opr = ''=~'' then emit_op_u8 OP_TEST_BINARY TEST_REGEX cc
          else compile_test OP_TEST_BINARY opr lineno cc }"
| "compile_cond_expr env prog lineno (COND_AND lhs rhs) cc =
     do { cc \<leftarrow> compile_cond_expr env prog lineno lhs cc;
          (skip, cc) \<leftarrow> emit_jump OP_JMP_FALSE cc;
          cc \<leftarrow> compile_cond_expr env prog lineno rhs cc;
          Some (patch_jump skip cc) }"
| "compile_cond_expr env prog lineno (COND_OR lhs rhs) cc =
     do { cc \<leftarrow> compile_cond_expr env prog lineno lhs cc;
          (skip, cc) \<leftarrow> emit_jump OP_JMP_TRUE cc;
          cc \<leftarrow> compile_cond_expr env prog lineno rhs cc;
          Some (patch_jump skip cc) }"
| "compile_cond_expr env prog lineno (COND_NOT child) cc =
     do { cc \<leftarrow> compile_cond_expr env prog lineno child cc; emit_op OP_NEGATE_STATUS cc }"

subsection \<open>Local variables of a function\<close>

fun collect_local_word :: "'p wordu \<Rightarrow> unit hashtable \<Rightarrow> unit hashtable" where
  "collect_local_word (WP_LITERAL quoted s # w) locals =
     (let n = takeWhile (\<lambda>c. c \<noteq> CHR ''='') s in
      if ht_get locals n = None then fst (ht_set locals n ()) else locals)"
| "collect_local_word _ locals = locals"

definition collect_local_words :: "'p wordu list \<Rightarrow> unit hashtable \<Rightarrow> unit hashtable" where
  "collect_local_words words locals =
     (if words \<noteq> [] \<and> is_literal_word (hd words) \<and> literal_value (hd words) = ''local''
      then fold collect_local_word (tl words) locals else locals)"

text \<open>
  A walk over the commands of a program, into every compound command but a subshell and the body of
  a function defined there.
\<close>

function (sequential) collect_locals_program :: "program \<Rightarrow> unit hashtable \<Rightarrow> unit hashtable"
and collect_locals_cmd :: "program command \<Rightarrow> unit hashtable \<Rightarrow> unit hashtable"
where
  "collect_locals_program prog locals =
     foldl (\<lambda>locals sl.
       foldl (\<lambda>locals ao.
         foldl (\<lambda>locals cmd. collect_locals_cmd cmd locals) locals (ao_commands ao))
         locals (sl_pipelines sl))
       locals prog"
| "collect_locals_cmd (Command lineno redirs body) locals =
     (case body of
        CT_SIMPLE assigns words arrays \<Rightarrow> collect_local_words words locals
      | CT_IF clauses \<Rightarrow>
          foldl (\<lambda>locals ic.
            collect_locals_program (ic_body ic)
              (case ic_condition ic of None \<Rightarrow> locals | Some c \<Rightarrow> collect_locals_program c locals))
            locals clauses
      | CT_FOR varname words body \<Rightarrow> collect_locals_program body locals
      | CT_WHILE condition body \<Rightarrow> collect_locals_program body (collect_locals_program condition locals)
      | CT_UNTIL condition body \<Rightarrow> collect_locals_program body (collect_locals_program condition locals)
      | CT_CASE subject items \<Rightarrow>
          foldl (\<lambda>locals ci. collect_locals_program (ci_body ci) locals) locals items
      | CT_GROUP body \<Rightarrow> collect_locals_program body locals
      | CT_SUBSHELL body \<Rightarrow> locals
      | CT_FUNCDEF name body \<Rightarrow> locals
      | CT_BRACKET expr \<Rightarrow> locals)"
  by pat_completeness auto
termination
proof (relation "measure (\<lambda>x. case x of Inl (prog, locals) \<Rightarrow> program_size prog
                                  | Inr (cmd, locals) \<Rightarrow> size_command program_size cmd)",
       goal_cases)
  case 2
  then show ?case using program_size_command by simp
qed (auto dest: clause_size item_size)

subsection \<open>Commands\<close>

definition compile_funcdef :: "compile_step \<Rightarrow> nat \<Rightarrow> string \<Rightarrow> program command \<Rightarrow> compile_step" where
  "compile_funcdef compile_body lineno name body cc =
     do { (skip_jump, cc) \<leftarrow> emit_jump OP_JMP cc;
          let func_offset = code_pos cc;
          if length (cc_funcs cc) \<ge> MAX_FUNC_COUNT
          then Some (patch_jump skip_jump (compiler_error lineno ''too many function definitions'' cc))
          else do {
            let saved_locals = cc_locals cc;
            let saved_active = cc_locals_active cc;
            cc \<leftarrow> compile_body
              (cc\<lparr>cc_funcs := cc_funcs cc @ [(name, func_offset)],
                  cc_locals := collect_locals_cmd body ht_init, cc_locals_active := True\<rparr>);
            cc \<leftarrow> emit_op OP_RET cc;
            Some (patch_jump skip_jump
              (cc\<lparr>cc_locals := saved_locals, cc_locals_active := saved_active\<rparr>)) } }"

definition is_simple :: "'p command_body \<Rightarrow> bool" where
  "is_simple body = (case body of CT_SIMPLE assigns words arrays \<Rightarrow> True | _ \<Rightarrow> False)"

fun compile_command :: "program compile_env \<Rightarrow> program prog \<Rightarrow> program command \<Rightarrow> compile_step" where
  "compile_command env prog (Command lineno redirs body) cc =
     (let has_redirs = (redirs \<noteq> [] \<and> \<not> is_simple body) in
      do { cc \<leftarrow> (if has_redirs then compile_redirs_open env prog redirs lineno cc else Some cc);
           cc \<leftarrow>
             (case body of
                CT_SIMPLE assigns words arrays \<Rightarrow>
                  compile_simple env prog lineno redirs assigns words arrays cc
              | CT_IF clauses \<Rightarrow> compile_if prog clauses cc
              | CT_FOR varname words body \<Rightarrow> compile_for env prog lineno varname words body cc
              | CT_WHILE condition body \<Rightarrow> compile_while_until prog condition body False cc
              | CT_UNTIL condition body \<Rightarrow> compile_while_until prog condition body True cc
              | CT_CASE subject items \<Rightarrow> compile_case env prog lineno subject items cc
              | CT_GROUP body \<Rightarrow> prog body cc
              | CT_FUNCDEF name body \<Rightarrow>
                  compile_funcdef (\<lambda>cc. compile_command env prog body cc) lineno name body cc
              | CT_SUBSHELL body \<Rightarrow>
                  do { (off, cc) \<leftarrow> compile_segment (prog body) OP_HALT cc;
                       emit_op_offset OP_SUBSHELL off cc }
              | CT_BRACKET None \<Rightarrow> Some cc
              | CT_BRACKET (Some expr) \<Rightarrow> compile_cond_expr env prog lineno expr cc);
           if has_redirs then emit_op OP_REDIR_RESTORE cc else Some cc })"

subsection \<open>Pipelines and lists\<close>

fun compile_members ::
  "program compile_env \<Rightarrow> program prog \<Rightarrow> program command list \<Rightarrow> compiler \<Rightarrow> (nat list \<times> compiler) option" where
  "compile_members env prog [] cc = Some ([], cc)"
| "compile_members env prog (cmd # cmds) cc =
     do { (off, cc) \<leftarrow> compile_segment (compile_command env prog cmd) OP_HALT cc;
          (offs, cc) \<leftarrow> compile_members env prog cmds cc;
          Some (off # offs, cc) }"

definition compile_and_or :: "program compile_env \<Rightarrow> program prog \<Rightarrow> program and_or \<Rightarrow> compile_step" where
  "compile_and_or env prog pl cc =
     (case ao_commands pl of
        [] \<Rightarrow> Some cc
      | [cmd] \<Rightarrow>
          if ao_negated pl
          then do { cc \<leftarrow> emit_op OP_ERREXIT_PUSH cc;
                    cc \<leftarrow> compile_command env prog cmd cc;
                    cc \<leftarrow> emit_op OP_ERREXIT_POP cc;
                    emit_op OP_NEGATE_STATUS cc }
          else compile_command env prog cmd cc
      | cmds \<Rightarrow>
          do { (offsets, cc) \<leftarrow> compile_members env prog cmds cc;
               cc \<leftarrow> emit_op_u16 OP_PIPELINE (of_nat (length cmds)) cc;
               cc \<leftarrow> foldM (\<lambda>cc off. emit_op_offset OP_PIPELINE_CMD off cc) cc offsets;
               emit_op_u8 OP_PIPELINE_END (if ao_negated pl then 1 else 0) cc })"

text \<open>
  The pipelines of a list: all but the last with errexit suppressed, each after the first behind a
  jump on the status so far, by the connector of the one before.
\<close>

definition compile_suppressed :: "bool \<Rightarrow> compile_step \<Rightarrow> compile_step" where
  "compile_suppressed suppressed step cc =
     (if suppressed
      then do { cc \<leftarrow> emit_op OP_ERREXIT_PUSH cc; cc \<leftarrow> step cc; emit_op OP_ERREXIT_POP cc }
      else step cc)"

fun compile_connected ::
  "program compile_env \<Rightarrow> program prog \<Rightarrow> bool \<Rightarrow> program and_or list \<Rightarrow> compile_step" where
  "compile_connected env prog connector [] cc = Some cc"
| "compile_connected env prog connector (pl # pls) cc =
     do { (patch, cc) \<leftarrow> emit_jump (if connector then OP_JMP_FALSE else OP_JMP_TRUE) cc;
          cc \<leftarrow> compile_suppressed (pls \<noteq> []) (compile_and_or env prog pl) cc;
          compile_connected env prog (ao_connector pl) pls (patch_jump patch cc) }"

definition compile_sh_list :: "program compile_env \<Rightarrow> program prog \<Rightarrow> sh_list \<Rightarrow> compile_step" where
  "compile_sh_list env prog sl cc =
     (case sl_pipelines sl of
        [] \<Rightarrow> Some cc
      | pl # pls \<Rightarrow>
          do { cc \<leftarrow> compile_suppressed (pls \<noteq> []) (compile_and_or env prog pl) cc;
               compile_connected env prog (ao_connector pl) pls cc })"

definition compile_program :: "program compile_env \<Rightarrow> program prog \<Rightarrow> program \<Rightarrow> compile_step" where
  "compile_program env prog program cc =
     foldM (\<lambda>cc sl.
       if sl_background sl
       then do { (off, cc) \<leftarrow> compile_segment (compile_sh_list env prog sl) OP_HALT cc;
                 emit_op_offset OP_BACKGROUND off cc }
       else compile_sh_list env prog sl cc) cc program"

subsection \<open>The whole\<close>

text \<open>Programs nested up to \<open>n\<close> deep; deeper ones are given to \<open>deeper\<close>.\<close>

fun compile_nested :: "program prog \<Rightarrow> program compile_env \<Rightarrow> nat \<Rightarrow> program prog" where
  "compile_nested deeper env 0 = deeper"
| "compile_nested deeper env (Suc n) = compile_program env (compile_nested deeper env n)"

definition compile_image :: "compiler \<Rightarrow> image" where
  "compile_image cc =
     (cc_image cc)
       \<lparr>im_funcs := map (\<lambda>(name, off). \<lparr>fn_name = name, fn_offset = off, fn_image = None\<rparr>) (cc_funcs cc),
        im_modules := map (\<lambda>(name, off). \<lparr>md_name = name, md_offset = off\<rparr>) (cc_modules cc)\<rparr>"

text \<open>The image, or \<open>None\<close> when there were errors, and what was printed.\<close>

definition compile :: "program prog \<Rightarrow> program \<Rightarrow> string \<Rightarrow> (image option \<times> string) option" where
  "compile prog program filename =
     do { cc \<leftarrow> prog program (compiler_init filename);
          cc \<leftarrow> emit_op OP_HALT cc;
          Some (if cc_errors cc > 0 then None else Some (compile_image cc), cc_stderr cc) }"

end
