(* ===== verification/CompilerCode.thy ===== *)
theory CompilerCode
  imports Compiler
begin

text \<open>
  The code an image holds, read as a list of instructions, and the checks that make it well formed:
  every operand a constant, function, builtin or the start of an instruction. The compiler's own
  invariant is here, with the lemmas of the emission functions; \<open>CompilerChecked\<close> takes it through the
  compiler.
\<close>

type_synonym instr = "opcode \<times> byte list"

definition instr_bytes :: "instr \<Rightarrow> byte list" where
  "instr_bytes ins = opcode_byte (fst ins) # snd ins"

definition code_bytes :: "instr list \<Rightarrow> byte list" where
  "code_bytes ins = concat (map instr_bytes ins)"

definition well_sized :: "instr \<Rightarrow> bool" where
  "well_sized ins \<longleftrightarrow> length (snd ins) = opcode_operand_size (fst ins)"

function decode :: "byte list \<Rightarrow> instr list option" where
  "decode [] = Some []"
| "decode (b # bs) =
     (case opcode_of b of
        None \<Rightarrow> None
      | Some opc \<Rightarrow>
          (let n = opcode_operand_size opc in
           if length bs < n then None else map_option ((#) (opc, take n bs)) (decode (drop n bs))))"
  by pat_completeness auto
termination
  by (relation "measure length") auto

lemma code_bytes_simps [simp]:
  "code_bytes [] = []" "code_bytes (i # ins) = instr_bytes i @ code_bytes ins"
  "code_bytes (xs @ ys) = code_bytes xs @ code_bytes ys"
  by (simp_all add: code_bytes_def)

lemma length_instr_bytes [simp]: "length (instr_bytes i) = Suc (length (snd i))"
  by (simp add: instr_bytes_def)

lemma decode_code_bytes: "list_all well_sized ins \<Longrightarrow> decode (code_bytes ins) = Some ins"
  by (induction ins) (auto simp: instr_bytes_def well_sized_def opcode_of_byte Let_def)

lemma decode_sound: "decode code = Some ins \<Longrightarrow> code = code_bytes ins \<and> list_all well_sized ins"
proof (induction code arbitrary: ins rule: decode.induct)
  case (2 b bs)
  then obtain opc where opc: "opcode_of b = Some opc" and len: "\<not> length bs < opcode_operand_size opc"
    by (auto simp: Let_def split: option.splits if_splits)
  with "2.prems" obtain rest where rest: "decode (drop (opcode_operand_size opc) bs) = Some rest"
    "ins = (opc, take (opcode_operand_size opc) bs) # rest"
    by (auto simp: Let_def)
  from "2.IH" [OF opc refl len rest(1)] len rest(2) show ?case
    by (simp add: instr_bytes_def well_sized_def opcode_byte_of [OF opc] flip: append_assoc)
       (metis append_take_drop_id)
qed simp

subsection \<open>Positions\<close>

text \<open>An instruction at a position, through the lengths of those before it.\<close>

primrec instr_at :: "instr list \<Rightarrow> nat \<Rightarrow> instr \<Rightarrow> bool" where
  "instr_at [] p i \<longleftrightarrow> False"
| "instr_at (j # ins) p i \<longleftrightarrow>
     (p = 0 \<and> i = j) \<or> (length (instr_bytes j) \<le> p \<and> instr_at ins (p - length (instr_bytes j)) i)"

lemma instr_split: "instr_at ins p i \<Longrightarrow> \<exists>xs ys. ins = xs @ i # ys \<and> p = length (code_bytes xs)"
proof (induction ins arbitrary: p)
  case (Cons j ins)
  show ?case
  proof (cases "p = 0 \<and> i = j")
    case True
    then have "j # ins = [] @ i # ins \<and> p = length (code_bytes [])"
      by simp
    then show ?thesis by blast
  next
    case False
    with Cons.prems have "length (instr_bytes j) \<le> p" "instr_at ins (p - length (instr_bytes j)) i"
      by auto
    with Cons.IH [of "p - length (instr_bytes j)"] obtain xs ys where "ins = xs @ i # ys"
      "p - length (instr_bytes j) = length (code_bytes xs)" "length (instr_bytes j) \<le> p"
      by blast
    then have "j # ins = (j # xs) @ i # ys \<and> p = length (code_bytes (j # xs))"
      by simp
    then show ?thesis by blast
  qed
qed simp

lemma instr_at_append:
  "instr_at (xs @ ys) p i \<longleftrightarrow>
     instr_at xs p i \<or> (length (code_bytes xs) \<le> p \<and> instr_at ys (p - length (code_bytes xs)) i)"
proof (induction xs arbitrary: p)
  case (Cons j xs)
  show ?case
  proof (cases "length (instr_bytes j) \<le> p")
    case True
    then have "length (code_bytes xs) \<le> p - length (instr_bytes j) \<longleftrightarrow> length (code_bytes (j # xs)) \<le> p"
      "p - length (instr_bytes j) - length (code_bytes xs) = p - length (code_bytes (j # xs))"
      by auto
    with True Cons [of "p - length (instr_bytes j)"] show ?thesis
      by (simp only: append_Cons instr_at.simps) blast
  next
    case False
    then show ?thesis by auto
  qed
qed simp

lemma instr_at_unique: "instr_at ins p i \<Longrightarrow> instr_at ins p j \<Longrightarrow> i = j"
  by (induction ins arbitrary: p) auto

lemma instr_at_end: "\<not> instr_at xs (length (code_bytes xs)) i"
  by (induction xs) auto

lemma instr_at_replace:
  assumes "length args = length args'"
  shows "instr_at (xs @ (opc, args') # ys) p i \<longleftrightarrow>
     (if p = length (code_bytes xs) then i = (opc, args') else instr_at (xs @ (opc, args) # ys) p i)"
  using assms by (auto simp: instr_at_append instr_at_end)

text \<open>The starts of the instructions, and the end of the code.\<close>

definition boundary :: "instr list \<Rightarrow> nat \<Rightarrow> bool" where
  "boundary ins p \<longleftrightarrow> p = length (code_bytes ins) \<or> (\<exists>i. instr_at ins p i)"

definition is_jump :: "opcode \<Rightarrow> bool" where
  "is_jump opc \<longleftrightarrow> opc \<in> {OP_JMP, OP_JMP_TRUE, OP_JMP_FALSE, OP_JMP_NONE}"

text \<open>Where the offset of a jump stands.\<close>

definition jump_slot :: "instr list \<Rightarrow> nat \<Rightarrow> bool" where
  "jump_slot ins p \<longleftrightarrow> (\<exists>q opc args. instr_at ins q (opc, args) \<and> is_jump opc \<and> p = Suc q)"

lemma boundary_end [simp]: "boundary ins (length (code_bytes ins))"
  by (simp add: boundary_def)

lemma boundary_append: "boundary xs p \<Longrightarrow> boundary (xs @ ys) p"
  by (cases ys) (auto simp: boundary_def instr_at_append)

lemma jump_slot_append: "jump_slot xs p \<Longrightarrow> jump_slot (xs @ ys) p"
  by (auto simp: jump_slot_def instr_at_append)

text \<open>Writing the operand of a jump changes that instruction and no other.\<close>

definition set_operand :: "instr list \<Rightarrow> nat \<Rightarrow> byte list \<Rightarrow> instr list \<Rightarrow> bool" where
  "set_operand ins p args ins' \<longleftrightarrow>
     (\<exists>xs opc old ys. ins = xs @ (opc, old) # ys \<and> is_jump opc \<and> p = Suc (length (code_bytes xs)) \<and>
        length old = length args \<and> ins' = xs @ (opc, args) # ys)"

lemma set_operand_at:
  assumes "set_operand ins p args ins'" "instr_at ins q (opc, old)"
  shows "\<exists>new. instr_at ins' q (opc, new)"
proof -
  obtain xs opc' old' ys where *: "ins = xs @ (opc', old') # ys" "ins' = xs @ (opc', args) # ys"
    "length old' = length args"
    using assms(1) by (auto simp: set_operand_def)
  show ?thesis
  proof (cases "q = length (code_bytes xs)")
    case True
    with assms(2) * have "opc' = opc"
      by (auto simp: instr_at_append instr_at_end)
    with True * show ?thesis
      by (auto simp: instr_at_append)
  next
    case False
    with assms(2) * show ?thesis
      using instr_at_replace [of old' args xs opc' ys q "(opc, old)"] by auto
  qed
qed

lemma set_operand_length: "set_operand ins p args ins' \<Longrightarrow> length (code_bytes ins') = length (code_bytes ins)"
  by (auto simp: set_operand_def)

lemma set_operand_boundary: "set_operand ins p args ins' \<Longrightarrow> boundary ins q \<Longrightarrow> boundary ins' q"
  unfolding boundary_def using set_operand_at set_operand_length by (metis surj_pair)

lemma set_operand_slot: "set_operand ins p args ins' \<Longrightarrow> jump_slot ins q \<Longrightarrow> jump_slot ins' q"
  unfolding jump_slot_def using set_operand_at by blast

lemma patch_code_operand:
  assumes "ins = xs @ (opc, old) # ys" "length old = length args"
  shows "patch_code (Suc (length (code_bytes xs))) args (code_bytes ins) =
         code_bytes (xs @ (opc, args) # ys)"
  using assms by (simp add: patch_code_def instr_bytes_def)

subsection \<open>The invariant of the compiler\<close>

text \<open>What an operand may be, against the constants, the functions and the positions of the code.\<close>

definition const_ops :: "opcode set" where
  "const_ops =
     {OP_PUSH_CONST, OP_GET_VAR, OP_SET_VAR, OP_GET_LOCAL, OP_SET_LOCAL, OP_GET_ARRAY, OP_SET_ARRAY,
      OP_SET_ARRAY_BULK, OP_EXPORT, OP_EXPAND_PARAM, OP_IMPORT}"

definition segment_ops :: "opcode set" where
  "segment_ops = {OP_CMD_SUBST, OP_SUBSHELL, OP_BACKGROUND, OP_PIPELINE_CMD}"

definition operand_ok :: "nat \<Rightarrow> nat \<Rightarrow> (nat \<Rightarrow> bool) \<Rightarrow> nat \<Rightarrow> instr \<Rightarrow> bool" where
  "operand_ok const_count func_count pos_ok p i \<longleftrightarrow>
     (is_jump (fst i) \<longrightarrow> (\<exists>t. pos_ok t \<and> snd i = le32 (jump_offset (Suc p) t))) \<and>
     (fst i \<in> segment_ops \<longrightarrow> (\<exists>t. pos_ok t \<and> snd i = le32 (of_nat t))) \<and>
     (fst i \<in> const_ops \<longrightarrow> (\<exists>k rest. unat k < const_count \<and> snd i = le16 k @ rest)) \<and>
     (fst i = OP_EXEC_BUILTIN \<longrightarrow> (\<exists>k<builtin_count. snd i = le16 (of_nat k))) \<and>
     (fst i = OP_EXEC_FUNC \<longrightarrow> (\<exists>k<func_count. snd i = le16 (of_nat k)))"

definition instrs :: "compiler \<Rightarrow> instr list" where
  "instrs cc = the (decode (im_code (cc_image cc)))"

abbreviation const_count :: "compiler \<Rightarrow> nat" where
  "const_count cc \<equiv> length (im_consts (cc_image cc))"

definition cc_ok :: "compiler \<Rightarrow> bool" where
  "cc_ok cc \<longleftrightarrow>
     image_inv (cc_image cc) \<and> decode (im_code (cc_image cc)) = Some (instrs cc) \<and>
     (\<forall>p i. instr_at (instrs cc) p i \<longrightarrow>
        operand_ok (const_count cc) (length (cc_funcs cc)) (boundary (instrs cc)) p i) \<and>
     length (cc_funcs cc) \<le> MAX_FUNC_COUNT \<and>
     (\<forall>(name, off) \<in> set (cc_funcs cc) \<union> set (cc_modules cc). boundary (instrs cc) off) \<and>
     (\<forall>li \<in> set (cc_loops cc). boundary (instrs cc) (li_continue li) \<and>
        (\<forall>p \<in> set (li_breaks li). jump_slot (instrs cc) p))"

text \<open>What never goes away: positions, slots of jumps, constants, functions, errors.\<close>

definition grows :: "compiler \<Rightarrow> compiler \<Rightarrow> bool" where
  "grows cc cc' \<longleftrightarrow>
     (\<forall>p. boundary (instrs cc) p \<longrightarrow> boundary (instrs cc') p) \<and>
     (\<forall>p. jump_slot (instrs cc) p \<longrightarrow> jump_slot (instrs cc') p) \<and>
     (\<exists>cs. im_consts (cc_image cc') = im_consts (cc_image cc) @ cs) \<and>
     (\<exists>fs. cc_funcs cc' = cc_funcs cc @ fs) \<and> cc_errors cc \<le> cc_errors cc'"

lemma grows_refl: "grows cc cc"
  by (simp add: grows_def)

lemma grows_trans: "grows b c \<Longrightarrow> grows a b \<Longrightarrow> grows a c"
  unfolding grows_def by fastforce

lemma operand_ok_mono:
  assumes "operand_ok n m P p i" "n \<le> n'" "m \<le> m'" "\<And>t. P t \<Longrightarrow> P' t"
  shows "operand_ok n' m' P' p i"
  using assms unfolding operand_ok_def by (meson less_le_trans)

text \<open>Steps that change neither the code nor what the invariant reads.\<close>

lemma cc_ok_same:
  assumes "cc_image cc' = cc_image cc" "cc_funcs cc' = cc_funcs cc" "cc_modules cc' = cc_modules cc"
    "cc_loops cc' = cc_loops cc"
  shows "cc_ok cc' = cc_ok cc"
  using assms by (simp add: cc_ok_def instrs_def)

lemma grows_same:
  assumes "cc_image cc' = cc_image cc" "cc_funcs cc' = cc_funcs cc" "cc_errors cc \<le> cc_errors cc'"
  shows "grows cc cc'"
  using assms by (simp add: grows_def instrs_def)

lemma quiet_steps [simp]:
  "cc_ok (cc_print s cc) = cc_ok cc" "cc_ok (compiler_error lineno msg cc) = cc_ok cc"
  "cc_ok (cc\<lparr>cc_imported := h\<rparr>) = cc_ok cc" "cc_ok (cc\<lparr>cc_imports := ns\<rparr>) = cc_ok cc"
  "cc_ok (cc\<lparr>cc_filename := s\<rparr>) = cc_ok cc"
  "cc_ok (cc\<lparr>cc_locals := h, cc_locals_active := b\<rparr>) = cc_ok cc"
  by (rule cc_ok_same; simp add: cc_print_def compiler_error_def)+

lemma quiet_grows:
  "grows cc (cc_print s cc)" "grows cc (compiler_error lineno msg cc)"
  "grows cc (cc\<lparr>cc_imported := h\<rparr>)" "grows cc (cc\<lparr>cc_imports := ns\<rparr>)"
  "grows cc (cc\<lparr>cc_filename := s\<rparr>)" "grows cc (cc\<lparr>cc_locals := h, cc_locals_active := b\<rparr>)"
  "grows cc (cc\<lparr>cc_modules := ms\<rparr>)"
  by (rule grows_same; simp add: cc_print_def compiler_error_def)+

subsection \<open>Emission\<close>

text \<open>The code of \<open>cc\<close> with bytes appended, and nothing else changed.\<close>

definition appends :: "compiler \<Rightarrow> byte list \<Rightarrow> compiler \<Rightarrow> bool" where
  "appends cc bs cc' \<longleftrightarrow>
     (\<exists>img. cc' = cc\<lparr>cc_image := img\<rparr> \<and> image_inv img \<and> im_code img = im_code (cc_image cc) @ bs \<and>
        im_consts img = im_consts (cc_image cc))"

lemma appends_trans: "appends a xs b \<Longrightarrow> appends b ys c \<Longrightarrow> appends a (xs @ ys) c"
  by (auto simp: appends_def)

lemma appends_inv: "appends cc bs cc' \<Longrightarrow> image_inv (cc_image cc')"
  by (auto simp: appends_def)

lemma emit_appends:
  assumes "image_inv (cc_image cc)"
  shows "emit_u8 b cc = Some cc' \<Longrightarrow> appends cc [b] cc'"
    "emit_u16 v cc = Some cc' \<Longrightarrow> appends cc (le16 v) cc'"
    "emit_i32 w cc = Some cc' \<Longrightarrow> appends cc (le32 w) cc'"
  unfolding emit_u8_def emit_u16_def emit_i32_def cc_on_image_def appends_def
  by (auto dest: image_emit_u8_correct(1) [OF assms] image_emit_u16_correct(1) [OF assms]
        image_emit_i32_correct(1) [OF assms])

lemma emit_bytes_appends:
  "image_inv (cc_image cc) \<Longrightarrow> foldM (\<lambda>cc b. emit_u8 b cc) cc bs = Some cc' \<Longrightarrow> appends cc bs cc'"
proof (induction bs arbitrary: cc)
  case Nil
  then show ?case unfolding appends_def by (intro exI [of _ "cc_image cc"]) simp
next
  case (Cons b bs)
  then obtain cc1 where "emit_u8 b cc = Some cc1" "foldM (\<lambda>cc b. emit_u8 b cc) cc1 bs = Some cc'"
    by (auto split: option.splits)
  with Cons emit_appends(1) [of cc b cc1] show ?case
    using appends_inv appends_trans [of cc "[b]" cc1 bs cc'] by simp
qed

text \<open>
  A step from \<open>cc\<close> to a state that keeps the invariant and all that was there, and a step that, unless
  it counts an error, also leaves as many loops open as there were.
\<close>

definition extends :: "compiler \<Rightarrow> compiler \<Rightarrow> bool" where
  "extends cc cc' \<longleftrightarrow> cc_ok cc' \<and> grows cc cc'"

definition same_depth :: "compiler \<Rightarrow> compiler \<Rightarrow> bool" where
  "same_depth cc cc' \<longleftrightarrow> length (cc_loops cc') = length (cc_loops cc) \<or> cc_errors cc < cc_errors cc'"

definition reaches :: "compiler \<Rightarrow> compiler \<Rightarrow> bool" where
  "reaches cc cc' \<longleftrightarrow> cc_ok cc' \<and> grows cc cc' \<and> same_depth cc cc'"

lemma reaches_extends: "reaches a b \<Longrightarrow> extends a b"
  by (simp add: reaches_def extends_def)

lemma code_changed:
  assumes ok: "cc_ok cc" and img: "image_inv img" "im_consts img = im_consts (cc_image cc)"
    and dec: "decode (im_code img) = Some ins"
    and keep: "\<And>p. boundary (instrs cc) p \<Longrightarrow> boundary ins p" "\<And>p. jump_slot (instrs cc) p \<Longrightarrow> jump_slot ins p"
    and ops: "\<And>p i. instr_at ins p i \<Longrightarrow>
      operand_ok (const_count cc) (length (cc_funcs cc)) (boundary ins) p i"
  shows "reaches cc (cc\<lparr>cc_image := img\<rparr>)" "instrs (cc\<lparr>cc_image := img\<rparr>) = ins"
proof -
  show ins: "instrs (cc\<lparr>cc_image := img\<rparr>) = ins"
    by (simp add: instrs_def dec)
  have "\<forall>(name, off) \<in> set (cc_funcs cc) \<union> set (cc_modules cc). boundary ins off"
    "\<forall>li \<in> set (cc_loops cc). boundary ins (li_continue li) \<and> (\<forall>p \<in> set (li_breaks li). jump_slot ins p)"
    "length (cc_funcs cc) \<le> MAX_FUNC_COUNT"
    using ok keep unfolding cc_ok_def by (blast, blast, blast)
  moreover have "\<forall>p i. instr_at ins p i \<longrightarrow>
      operand_ok (const_count cc) (length (cc_funcs cc)) (boundary ins) p i"
    using ops by blast
  ultimately show "reaches cc (cc\<lparr>cc_image := img\<rparr>)"
    unfolding reaches_def cc_ok_def grows_def same_depth_def ins using img dec keep by simp
qed

text \<open>One instruction appended keeps the invariant when its operand is a good one.\<close>

lemma instr_appended:
  assumes ok: "cc_ok cc" and app: "appends cc (instr_bytes (opc, args)) cc'"
    and len: "length args = opcode_operand_size opc"
    and opr: "operand_ok (const_count cc) (length (cc_funcs cc)) (boundary (instrs cc @ [(opc, args)]))
                (code_pos cc) (opc, args)"
  shows "reaches cc cc'" "instrs cc' = instrs cc @ [(opc, args)]" "code_pos cc = length (code_bytes (instrs cc))"
proof -
  obtain img where cc': "cc' = cc\<lparr>cc_image := img\<rparr>" and img: "image_inv img"
    "im_code img = im_code (cc_image cc) @ instr_bytes (opc, args)" "im_consts img = im_consts (cc_image cc)"
    using app by (auto simp: appends_def)
  have code: "im_code (cc_image cc) = code_bytes (instrs cc)" "list_all well_sized (instrs cc)"
    using ok decode_sound by (auto simp: cc_ok_def)
  show pos: "code_pos cc = length (code_bytes (instrs cc))"
    by (simp add: code_pos_def code)
  have dec: "decode (im_code img) = Some (instrs cc @ [(opc, args)])"
    using decode_code_bytes [of "instrs cc @ [(opc, args)]"] code len
    by (simp add: img(2) well_sized_def)
  have ops: "operand_ok (const_count cc) (length (cc_funcs cc)) (boundary (instrs cc @ [(opc, args)])) p i"
    if "instr_at (instrs cc @ [(opc, args)]) p i" for p i
  proof (cases "instr_at (instrs cc) p i")
    case True
    then have "operand_ok (const_count cc) (length (cc_funcs cc)) (boundary (instrs cc)) p i"
      using ok by (cases i) (auto simp: cc_ok_def)
    then show ?thesis
      by (rule operand_ok_mono) (simp_all add: boundary_append)
  next
    case False
    then show ?thesis
      using that opr pos by (auto simp: instr_at_append)
  qed
  note changed = code_changed [OF ok img(1) img(3) dec boundary_append jump_slot_append ops]
  show "reaches cc cc'" "instrs cc' = instrs cc @ [(opc, args)]"
    unfolding cc' by (rule changed; assumption)+
qed

subsection \<open>Steps that keep the invariant\<close>

lemma emitted:
  assumes "cc_ok cc" "appends cc (instr_bytes (opc, args)) cc'" "length args = opcode_operand_size opc"
    "operand_ok (const_count cc) (length (cc_funcs cc)) (boundary (instrs cc)) (code_pos cc) (opc, args)"
  shows "reaches cc cc'"
  by (rule instr_appended(1) [OF assms(1-3)]) (rule operand_ok_mono [OF assms(4)]; simp add: boundary_append)

lemma emit_op_appends: "cc_ok cc \<Longrightarrow> emit_op opc cc = Some cc' \<Longrightarrow> appends cc [opcode_byte opc] cc'"
  unfolding emit_op_def by (simp add: cc_ok_def emit_appends)

text \<open>Operands the invariant says nothing of.\<close>

definition plain_op :: "opcode \<Rightarrow> bool" where
  "plain_op opc \<longleftrightarrow>
     \<not> is_jump opc \<and> opc \<notin> segment_ops \<and> opc \<notin> const_ops \<and> opc \<noteq> OP_EXEC_BUILTIN \<and> opc \<noteq> OP_EXEC_FUNC"

lemma plain_operand: "plain_op opc \<Longrightarrow> operand_ok n m P p (opc, args)"
  by (simp add: plain_op_def operand_ok_def)

lemmas op_sets = is_jump_def segment_ops_def const_ops_def plain_op_def opcode_operand_size_def

lemma step_emit_op:
  assumes "plain_op opc" "opcode_operand_size opc = 0" "cc_ok cc"
  shows "sat (emit_op opc cc) (reaches cc)"
  unfolding sat_def using assms emit_op_appends [OF assms(3)]
  by (auto intro!: emitted [of cc opc "[]"] plain_operand simp: instr_bytes_def)

lemma step_emit_op_u8:
  assumes "plain_op opc" "opcode_operand_size opc = 1" "cc_ok cc"
  shows "sat (emit_op_u8 opc b cc) (reaches cc)"
  unfolding sat_def
proof (intro allI impI)
  fix cc'
  assume "emit_op_u8 opc b cc = Some cc'"
  then obtain cc1 where *: "emit_op opc cc = Some cc1" "emit_u8 b cc1 = Some cc'"
    by (auto simp: emit_op_u8_def bind_eq_Some_conv)
  have 1: "appends cc [opcode_byte opc] cc1"
    by (rule emit_op_appends [OF assms(3) *(1)])
  have 2: "appends cc1 [b] cc'"
    by (rule emit_appends(1) [OF appends_inv [OF 1] *(2)])
  show "reaches cc cc'"
    using assms appends_trans [OF 1 2]
    by (intro emitted [of cc opc "[b]"] plain_operand) (simp_all add: instr_bytes_def)
qed

lemma step_emit_op_u8_u8:
  assumes "plain_op opc" "opcode_operand_size opc = 2" "cc_ok cc"
  shows "sat (emit_op_u8_u8 opc a b cc) (reaches cc)"
  unfolding sat_def
proof (intro allI impI)
  fix cc'
  assume "emit_op_u8_u8 opc a b cc = Some cc'"
  then obtain cc1 cc2 where *: "emit_op opc cc = Some cc1" "emit_u8 a cc1 = Some cc2" "emit_u8 b cc2 = Some cc'"
    by (auto simp: emit_op_u8_u8_def bind_eq_Some_conv)
  have 1: "appends cc [opcode_byte opc] cc1"
    by (rule emit_op_appends [OF assms(3) *(1)])
  have 2: "appends cc1 [a] cc2"
    by (rule emit_appends(1) [OF appends_inv [OF 1] *(2)])
  have 3: "appends cc2 [b] cc'"
    by (rule emit_appends(1) [OF appends_inv [OF 2] *(3)])
  show "reaches cc cc'"
    using assms appends_trans [OF appends_trans [OF 1 2] 3]
    by (intro emitted [of cc opc "[a, b]"] plain_operand) (simp_all add: instr_bytes_def)
qed

lemma emit_op_u16_appends:
  assumes "cc_ok cc" "emit_op_u16 opc v cc = Some cc'"
  shows "appends cc (instr_bytes (opc, le16 v)) cc'"
proof -
  obtain cc1 where *: "emit_op opc cc = Some cc1" "emit_u16 v cc1 = Some cc'"
    using assms(2) by (auto simp: emit_op_u16_def bind_eq_Some_conv)
  have 1: "appends cc [opcode_byte opc] cc1"
    by (rule emit_op_appends [OF assms(1) *(1)])
  have 2: "appends cc1 (le16 v) cc'"
    by (rule emit_appends(2) [OF appends_inv [OF 1] *(2)])
  show ?thesis
    using appends_trans [OF 1 2] by (simp add: instr_bytes_def)
qed

lemma step_emit_op_u16:
  assumes "plain_op opc" "opcode_operand_size opc = 2" "cc_ok cc"
  shows "sat (emit_op_u16 opc v cc) (reaches cc)"
  unfolding sat_def using assms emit_op_u16_appends [OF assms(3)]
  by (auto intro!: emitted [of cc opc "le16 v"] plain_operand)

text \<open>A constant that is in the pool.\<close>

definition has_const :: "compiler \<Rightarrow> u16 \<Rightarrow> bool" where
  "has_const cc i \<longleftrightarrow> unat i < const_count cc"

lemma step_emit_const_op:
  assumes "opc \<in> const_ops" "opcode_operand_size opc = 2" "cc_ok cc" "has_const cc i"
  shows "sat (emit_op_u16 opc i cc) (reaches cc)"
proof -
  have "operand_ok (const_count cc) (length (cc_funcs cc)) (boundary (instrs cc)) (code_pos cc) (opc, le16 i)"
    using assms unfolding operand_ok_def has_const_def by (auto simp: op_sets)
  then show ?thesis
    unfolding sat_def using assms emit_op_u16_appends [OF assms(3)]
    by (auto intro!: emitted [of cc opc "le16 i"])
qed

lemma step_exec_builtin:
  assumes "cc_ok cc" "i < builtin_count"
  shows "sat (emit_op_u16 OP_EXEC_BUILTIN (of_nat i) cc) (reaches cc)"
proof -
  have "operand_ok (const_count cc) (length (cc_funcs cc)) (boundary (instrs cc)) (code_pos cc)
      (OP_EXEC_BUILTIN, le16 (of_nat i))"
    using assms unfolding operand_ok_def by (auto simp: op_sets)
  then show ?thesis
    unfolding sat_def using assms emit_op_u16_appends [OF assms(1)]
    by (auto intro!: emitted [of cc OP_EXEC_BUILTIN "le16 (of_nat i)"] simp: op_sets)
qed

lemma step_exec_func:
  assumes "cc_ok cc" "i < length (cc_funcs cc)"
  shows "sat (emit_op_u16 OP_EXEC_FUNC (of_nat i) cc) (reaches cc)"
proof -
  have "operand_ok (const_count cc) (length (cc_funcs cc)) (boundary (instrs cc)) (code_pos cc)
      (OP_EXEC_FUNC, le16 (of_nat i))"
    using assms unfolding operand_ok_def by (auto simp: op_sets)
  then show ?thesis
    unfolding sat_def using assms emit_op_u16_appends [OF assms(1)]
    by (auto intro!: emitted [of cc OP_EXEC_FUNC "le16 (of_nat i)"] simp: op_sets)
qed


lemma step_emit_op_i32:
  assumes "plain_op opc" "opcode_operand_size opc = 4" "cc_ok cc"
  shows "sat (emit_op_i32 opc v cc) (reaches cc)"
  unfolding sat_def
proof (intro allI impI)
  fix cc'
  assume "emit_op_i32 opc v cc = Some cc'"
  then obtain cc1 where *: "emit_op opc cc = Some cc1" "emit_i32 v cc1 = Some cc'"
    by (auto simp: emit_op_i32_def bind_eq_Some_conv)
  have 1: "appends cc [opcode_byte opc] cc1"
    by (rule emit_op_appends [OF assms(3) *(1)])
  have 2: "appends cc1 (le32 v) cc'"
    by (rule emit_appends(3) [OF appends_inv [OF 1] *(2)])
  show "reaches cc cc'"
    using assms appends_trans [OF 1 2]
    by (intro emitted [of cc opc "le32 v"] plain_operand) (simp_all add: instr_bytes_def)
qed

lemma step_set_array_bulk:
  assumes "cc_ok cc" "has_const cc i"
  shows "sat (emit_op_u16_u16 OP_SET_ARRAY_BULK i n cc) (reaches cc)"
  unfolding sat_def
proof (intro allI impI)
  fix cc'
  assume "emit_op_u16_u16 OP_SET_ARRAY_BULK i n cc = Some cc'"
  then obtain cc1 cc2 where *: "emit_op OP_SET_ARRAY_BULK cc = Some cc1" "emit_u16 i cc1 = Some cc2"
    "emit_u16 n cc2 = Some cc'"
    by (auto simp: emit_op_u16_u16_def bind_eq_Some_conv)
  have 1: "appends cc [opcode_byte OP_SET_ARRAY_BULK] cc1"
    by (rule emit_op_appends [OF assms(1) *(1)])
  have 2: "appends cc1 (le16 i) cc2"
    by (rule emit_appends(2) [OF appends_inv [OF 1] *(2)])
  have 3: "appends cc2 (le16 n) cc'"
    by (rule emit_appends(2) [OF appends_inv [OF 2] *(3)])
  show "reaches cc cc'"
    using assms appends_trans [OF appends_trans [OF 1 2] 3]
    by (intro emitted [of cc OP_SET_ARRAY_BULK "le16 i @ le16 n"])
       (auto simp: instr_bytes_def op_sets operand_ok_def has_const_def)
qed

lemma step_expand_param:
  assumes "cc_ok cc" "has_const cc i"
  shows "sat (emit_expand_param i typ flags cc) (reaches cc)"
  unfolding sat_def
proof (intro allI impI)
  fix cc'
  assume "emit_expand_param i typ flags cc = Some cc'"
  then obtain cc1 cc2 cc3 where *: "emit_op OP_EXPAND_PARAM cc = Some cc1" "emit_u16 i cc1 = Some cc2"
    "emit_u8 typ cc2 = Some cc3" "emit_u8 (ucast (flags AND 0xFF)) cc3 = Some cc'"
    by (auto simp: emit_expand_param_def bind_eq_Some_conv)
  have 1: "appends cc [opcode_byte OP_EXPAND_PARAM] cc1"
    by (rule emit_op_appends [OF assms(1) *(1)])
  have 2: "appends cc1 (le16 i) cc2"
    by (rule emit_appends(2) [OF appends_inv [OF 1] *(2)])
  have 3: "appends cc2 [typ] cc3"
    by (rule emit_appends(1) [OF appends_inv [OF 2] *(3)])
  have 4: "appends cc3 [ucast (flags AND 0xFF)] cc'"
    by (rule emit_appends(1) [OF appends_inv [OF 3] *(4)])
  show "reaches cc cc'"
    using assms appends_trans [OF appends_trans [OF appends_trans [OF 1 2] 3] 4]
    by (intro emitted [of cc OP_EXPAND_PARAM "le16 i @ [typ, ucast (flags AND 0xFF)]"])
       (auto simp: instr_bytes_def op_sets operand_ok_def has_const_def)
qed

text \<open>The start of a segment, and the slot of a jump, as facts that later steps keep.\<close>

definition at_boundary :: "compiler \<Rightarrow> nat \<Rightarrow> bool" where
  "at_boundary cc p \<longleftrightarrow> boundary (instrs cc) p"

definition at_slot :: "compiler \<Rightarrow> nat \<Rightarrow> bool" where
  "at_slot cc p \<longleftrightarrow> jump_slot (instrs cc) p"

lemma kept:
  assumes "grows cc cc'"
  shows "has_const cc i \<Longrightarrow> has_const cc' i" "at_boundary cc p \<Longrightarrow> at_boundary cc' p"
    "at_slot cc p \<Longrightarrow> at_slot cc' p" "n < length (cc_funcs cc) \<Longrightarrow> n < length (cc_funcs cc')"
  using assms by (auto simp: grows_def has_const_def at_boundary_def at_slot_def)

lemma at_end: "cc_ok cc \<Longrightarrow> at_boundary cc (code_pos cc)"
  using decode_sound [of "im_code (cc_image cc)" "instrs cc"]
  by (auto simp: at_boundary_def code_pos_def cc_ok_def)

lemma step_emit_offset:
  assumes "opc \<in> segment_ops" "cc_ok cc" "at_boundary cc off"
  shows "sat (emit_op_offset opc off cc) (reaches cc)"
  unfolding sat_def
proof (intro allI impI)
  fix cc'
  assume "emit_op_offset opc off cc = Some cc'"
  then obtain cc1 where *: "emit_op opc cc = Some cc1"
    "foldM (\<lambda>cc b. emit_u8 b cc) cc1 (le32 (of_nat off)) = Some cc'"
    by (auto simp: emit_op_offset_def bind_eq_Some_conv)
  have 1: "appends cc [opcode_byte opc] cc1"
    by (rule emit_op_appends [OF assms(2) *(1)])
  have 2: "appends cc1 (le32 (of_nat off)) cc'"
    by (rule emit_bytes_appends [OF appends_inv [OF 1] *(2)])
  show "reaches cc cc'"
    using assms appends_trans [OF 1 2]
    by (intro emitted [of cc opc "le32 (of_nat off)"])
       (auto simp: instr_bytes_def op_sets operand_ok_def at_boundary_def)
qed

lemma step_emit_jump:
  assumes "is_jump opc" "cc_ok cc"
  shows "sat (emit_jump opc cc) (\<lambda>(pos, cc'). reaches cc cc' \<and> at_slot cc' pos)"
  unfolding sat_def
proof (intro allI impI, clarify)
  fix pos cc'
  assume "emit_jump opc cc = Some (pos, cc')"
  then obtain cc1 where *: "emit_op opc cc = Some cc1" "emit_i32 0 cc1 = Some cc'" "pos = code_pos cc1"
    by (auto simp: emit_jump_def bind_eq_Some_conv)
  have 1: "appends cc [opcode_byte opc] cc1"
    by (rule emit_op_appends [OF assms(2) *(1)])
  have 2: "appends cc1 (le32 0) cc'"
    by (rule emit_appends(3) [OF appends_inv [OF 1] *(2)])
  have app: "appends cc (instr_bytes (opc, le32 0)) cc'"
    using appends_trans [OF 1 2] by (simp add: instr_bytes_def)
  have pos: "pos = Suc (code_pos cc)"
    using 1 *(3) by (auto simp: appends_def code_pos_def)
  have size: "length (le32 0) = opcode_operand_size opc"
    using assms(1) by (auto simp: op_sets)
  have zero: "jump_offset (Suc (code_pos cc)) (code_pos cc + 5) = 0"
    by (simp add: jump_offset_def)
  have end_pos: "code_pos cc = length (code_bytes (instrs cc))"
    using decode_sound [of "im_code (cc_image cc)" "instrs cc"] assms(2)
    by (simp add: code_pos_def cc_ok_def)
  have "boundary (instrs cc @ [(opc, le32 0)]) (code_pos cc + 5)"
    using boundary_end [of "instrs cc @ [(opc, le32 0)]"] end_pos by (simp add: eval_nat_numeral)
  then have opr: "operand_ok (const_count cc) (length (cc_funcs cc)) (boundary (instrs cc @ [(opc, le32 0)]))
      (code_pos cc) (opc, le32 0)"
    using assms(1) zero unfolding operand_ok_def is_jump_def segment_ops_def const_ops_def by auto
  note app_jump = instr_appended [OF assms(2) app size opr]
  have "instr_at (instrs cc') (code_pos cc) (opc, le32 0)"
    using end_pos by (simp add: app_jump(2) instr_at_append)
  with app_jump(1) show "reaches cc cc' \<and> at_slot cc' pos"
    using assms(1) pos unfolding at_slot_def jump_slot_def by blast
qed

text \<open>A patched jump aims at a position of the code.\<close>

lemma patch_jump_to_ok:
  assumes ok: "cc_ok cc" and slot: "at_slot cc p" and target: "at_boundary cc t"
  shows "reaches cc (patch_jump_to p t cc)"
proof -
  let ?args = "le32 (jump_offset p t)"
  obtain q opc old where q: "instr_at (instrs cc) q (opc, old)" "is_jump opc" "p = Suc q"
    using slot by (auto simp: at_slot_def jump_slot_def)
  then obtain xs ys where split: "instrs cc = xs @ (opc, old) # ys" "q = length (code_bytes xs)"
    using instr_split by blast
  have code: "im_code (cc_image cc) = code_bytes (instrs cc)" "list_all well_sized (instrs cc)"
    using ok decode_sound by (auto simp: cc_ok_def)
  have len: "length old = length ?args"
    using code(2) q(2) by (auto simp: split(1) well_sized_def op_sets)
  let ?ins = "xs @ (opc, ?args) # ys"
  have set: "set_operand (instrs cc) p ?args ?ins"
    unfolding set_operand_def using split q len by blast
  have patched: "patch_code p ?args (im_code (cc_image cc)) = code_bytes ?ins"
    using patch_code_operand [OF split(1) len] by (simp add: code(1) q(3) split(2))
  have "list_all well_sized ?ins"
    using code(2) len by (simp add: split(1) well_sized_def)
  then have dec: "decode (patch_code p ?args (im_code (cc_image cc))) = Some ?ins"
    unfolding patched by (rule decode_code_bytes)
  have ops: "operand_ok (const_count cc) (length (cc_funcs cc)) (boundary ?ins) r i"
    if "instr_at ?ins r i" for r i
  proof (cases "r = q")
    case True
    then have "i = (opc, ?args)"
      using that instr_at_unique [of ?ins r i "(opc, ?args)"] by (simp add: split(2) instr_at_append)
    moreover have "boundary ?ins t"
      using target set_operand_boundary [OF set] by (simp add: at_boundary_def)
    ultimately show ?thesis
      using q True unfolding operand_ok_def is_jump_def segment_ops_def const_ops_def by auto
  next
    case False
    then have "instr_at (instrs cc) r i"
      using that instr_at_replace [OF len, of xs opc ys r i] by (simp add: split)
    then have "operand_ok (const_count cc) (length (cc_funcs cc)) (boundary (instrs cc)) r i"
      using ok by (cases i) (auto simp: cc_ok_def)
    then show ?thesis
      by (rule operand_ok_mono) (simp_all add: set_operand_boundary [OF set])
  qed
  let ?img = "(cc_image cc)\<lparr>im_code := patch_code p ?args (im_code (cc_image cc))\<rparr>"
  have "length (code_bytes ?ins) = length (im_code (cc_image cc))"
    using set_operand_length [OF set] by (simp add: code(1))
  then have "image_inv ?img"
    using ok patched by (simp add: cc_ok_def image_inv_def)
  then show ?thesis
    unfolding patch_jump_to_def
    by (rule code_changed(1) [OF ok, of ?img ?ins])
       (simp_all add: dec ops set_operand_boundary [OF set] set_operand_slot [OF set])
qed

lemma patch_jump_ok: "cc_ok cc \<Longrightarrow> at_slot cc p \<Longrightarrow> reaches cc (patch_jump p cc)"
  unfolding patch_jump_def by (rule patch_jump_to_ok) (simp_all add: at_end)

lemma extends_trans: "extends a b \<Longrightarrow> extends b c \<Longrightarrow> extends a c"
  unfolding extends_def using grows_trans by blast

lemma same_depth_trans: "grows a b \<Longrightarrow> grows b c \<Longrightarrow> same_depth a b \<Longrightarrow> same_depth b c \<Longrightarrow> same_depth a c"
  by (auto simp: grows_def same_depth_def)

lemma reaches_trans: "reaches a b \<Longrightarrow> reaches b c \<Longrightarrow> reaches a c"
  unfolding reaches_def using grows_trans same_depth_trans by blast

lemma reaches_refl: "cc_ok cc \<Longrightarrow> reaches cc cc"
  by (simp add: reaches_def grows_refl same_depth_def)

lemma patch_jumps_ok: "cc_ok cc \<Longrightarrow> list_all (at_slot cc) ps \<Longrightarrow> reaches cc (patch_jumps ps cc)"
  unfolding patch_jumps_def
proof (induction ps arbitrary: cc)
  case (Cons p ps)
  then have *: "reaches cc (patch_jump p cc)"
    by (simp add: patch_jump_ok)
  then have "list_all (at_slot (patch_jump p cc)) ps"
    using Cons.prems by (auto simp: list_all_iff reaches_def intro: kept)
  then have "reaches (patch_jump p cc) (fold patch_jump ps (patch_jump p cc))"
    using Cons.IH [of "patch_jump p cc"] * by (simp add: reaches_def)
  with * show ?case
    by (auto intro: reaches_trans)
qed (simp add: reaches_refl)

subsection \<open>Constants, functions and loops\<close>

lemma operands_kept:
  assumes "cc_ok cc" "const_count cc \<le> n" "length (cc_funcs cc) \<le> m"
  shows "instr_at (instrs cc) p i \<Longrightarrow> operand_ok n m (boundary (instrs cc)) p i"
  using assms by (cases i) (auto simp: cc_ok_def intro: operand_ok_mono)

lemma step_add_const:
  assumes ok: "cc_ok cc"
  shows "sat (add_const s cc) (\<lambda>(i, cc'). reaches cc cc' \<and> has_const cc' i)"
  unfolding sat_def
proof (intro allI impI, clarify)
  fix i cc'
  assume "add_const s cc = Some (i, cc')"
  then obtain img where img: "image_add_const (cc_image cc) s = Some (i, img)" "cc' = cc\<lparr>cc_image := img\<rparr>"
    by (auto simp: add_const_def)
  have "image_inv (cc_image cc)"
    using ok by (simp add: cc_ok_def)
  note add = image_add_const_correct [OF this img(1)]
  have ins: "instrs cc' = instrs cc"
    by (simp add: instrs_def img(2) add(5))
  have "const_count cc \<le> length (im_consts img)"
    using add(4) by auto
  then have "\<forall>p i. instr_at (instrs cc) p i \<longrightarrow>
      operand_ok (length (im_consts img)) (length (cc_funcs cc)) (boundary (instrs cc)) p i"
    using operands_kept [OF ok] by blast
  then have "cc_ok cc'"
    using ok add unfolding cc_ok_def ins by (simp add: img(2))
  moreover have "grows cc cc'" "same_depth cc cc'"
    using add(4) unfolding grows_def ins by (simp_all add: img(2) same_depth_def)
  ultimately show "reaches cc cc' \<and> has_const cc' i"
    using add(2) by (simp add: reaches_def has_const_def img(2))
qed

lemma step_push_const:
  assumes "cc_ok cc"
  shows "sat (push_const s cc) (reaches cc)"
proof -
  have "sat (emit_op_u16 OP_PUSH_CONST i cc1) (reaches cc)" if "reaches cc cc1" "has_const cc1 i" for i cc1
    using that by (auto simp: op_sets intro!: sat_weaken [OF step_emit_const_op]
        intro: reaches_trans simp: reaches_def)
  then show ?thesis
    unfolding push_const_def by (intro sat_bind [OF step_add_const [OF assms]]) (auto split: prod.splits)
qed

lemma loops_ok:
  assumes "cc_ok cc"
    "\<And>li. li \<in> set lis \<Longrightarrow> at_boundary cc (li_continue li) \<and> list_all (at_slot cc) (li_breaks li)"
  shows "extends cc (cc\<lparr>cc_loops := lis\<rparr>)" "length lis = length (cc_loops cc) \<Longrightarrow> reaches cc (cc\<lparr>cc_loops := lis\<rparr>)"
  using assms by (simp_all add: reaches_def extends_def same_depth_def cc_ok_def grows_def instrs_def at_boundary_def
      at_slot_def list_all_iff)

lemma cc_loops_ok:
  assumes "cc_ok cc" "li \<in> set (cc_loops cc)"
  shows "at_boundary cc (li_continue li)" "list_all (at_slot cc) (li_breaks li)"
  using assms by (auto simp: cc_ok_def at_boundary_def at_slot_def list_all_iff)

text \<open>A loop is opened, unless there are too many, which is an error.\<close>

lemma push_loop_ok:
  assumes "cc_ok cc" "at_boundary cc t"
  shows "extends cc (push_loop t iterator cc)"
    "length (cc_loops (push_loop t iterator cc)) = Suc (length (cc_loops cc)) \<or>
     cc_errors cc < cc_errors (push_loop t iterator cc)"
proof -
  show "extends cc (push_loop t iterator cc)"
  proof (cases "length (cc_loops cc) \<ge> MAX_LOOP_DEPTH")
    case True
    with assms(1) show ?thesis
      by (simp add: push_loop_def extends_def quiet_grows)
  next
    case False
    then show ?thesis
      using assms cc_loops_ok [OF assms(1)] by (auto simp: push_loop_def intro!: loops_ok)
  qed
  show "length (cc_loops (push_loop t iterator cc)) = Suc (length (cc_loops cc)) \<or>
     cc_errors cc < cc_errors (push_loop t iterator cc)"
    by (simp add: push_loop_def compiler_error_def cc_print_def)
qed

lemma patch_jumps_loops [simp]: "cc_loops (patch_jumps ps cc) = cc_loops cc" "cc_errors (patch_jumps ps cc) = cc_errors cc"
  unfolding patch_jumps_def
  by (induction ps arbitrary: cc) (simp_all add: patch_jump_def patch_jump_to_def)

lemma pop_loop_ok:
  assumes "cc_ok cc"
  shows "extends cc (pop_loop cc)"
proof (cases "cc_loops cc")
  case (Cons li lis)
  then have *: "extends cc (cc\<lparr>cc_loops := lis\<rparr>)"
    using assms cc_loops_ok [OF assms] by (intro loops_ok) auto
  then have "list_all (at_slot (cc\<lparr>cc_loops := lis\<rparr>)) (li_breaks li)"
    using cc_loops_ok(2) [OF assms, of li] Cons by (auto simp: list_all_iff extends_def intro: kept)
  with * have "extends (cc\<lparr>cc_loops := lis\<rparr>) (patch_jumps (li_breaks li) (cc\<lparr>cc_loops := lis\<rparr>))"
    by (intro reaches_extends patch_jumps_ok) (simp_all add: extends_def)
  with * show ?thesis
    by (simp add: pop_loop_def Cons) (rule extends_trans)
qed (simp add: pop_loop_def assms extends_def grows_refl)

text \<open>What is between the start of a loop and its end leaves the loops outside open.\<close>

lemma loop_closed:
  assumes "cc_ok cc" "at_boundary cc t" "reaches (push_loop t iterator cc) cc'"
  shows "reaches cc (pop_loop cc')"
proof -
  note push = push_loop_ok [OF assms(1,2), of iterator]
  have "extends cc cc'"
    using push(1) assms(3) by (blast intro: extends_trans reaches_extends)
  moreover from this have "extends cc' (pop_loop cc')"
    by (intro pop_loop_ok) (simp add: extends_def)
  ultimately have "extends cc (pop_loop cc')"
    by (rule extends_trans)
  moreover have "same_depth cc (pop_loop cc')"
    using push assms(3)
    by (auto simp: reaches_def same_depth_def extends_def grows_def pop_loop_def split: list.split)
  ultimately show ?thesis
    by (simp add: extends_def reaches_def)
qed

lemma step_set_continue:
  assumes "cc_ok cc" "at_boundary cc t"
  shows "sat (set_continue t cc) (reaches cc)"
proof (cases "cc_loops cc")
  case (Cons li lis)
  then show ?thesis
    using assms cc_loops_ok [OF assms(1)]
    by (auto simp: set_continue_def intro!: sat_Some loops_ok)
qed (simp add: set_continue_def)

lemma add_break_ok:
  assumes "cc_ok cc" "at_slot cc p" "n < length (cc_loops cc)"
  shows "reaches cc (cc\<lparr>cc_loops := (cc_loops cc)
           [n := (cc_loops cc ! n)\<lparr>li_breaks := li_breaks (cc_loops cc ! n) @ [p]\<rparr>]\<rparr>)"
proof (rule loops_ok(2) [OF assms(1)])
  fix li
  assume "li \<in> set ((cc_loops cc)[n := (cc_loops cc ! n)\<lparr>li_breaks := li_breaks (cc_loops cc ! n) @ [p]\<rparr>])"
  then consider "li \<in> set (cc_loops cc)"
    | "li = (cc_loops cc ! n)\<lparr>li_breaks := li_breaks (cc_loops cc ! n) @ [p]\<rparr>"
    using set_update_subset_insert by fastforce
  then show "at_boundary cc (li_continue li) \<and> list_all (at_slot cc) (li_breaks li)"
    using cc_loops_ok [OF assms(1)] assms nth_mem [OF assms(3)] by cases auto
qed simp

end
