(* ===== verification/CompilerChecked.thy ===== *)
theory CompilerChecked
  imports CompilerCode
begin

text \<open>
  Every function of the compiler keeps the invariant of \<open>CompilerCode\<close>, so the images it gives pass the
  checks of a bytecode verifier.
\<close>

subsection \<open>Rules\<close>

definition prog_ok :: "'p prog \<Rightarrow> bool" where
  "prog_ok prog \<longleftrightarrow> (\<forall>p cc. cc_ok cc \<longrightarrow> sat (prog p cc) (reaches cc))"

lemma step_prog: "prog_ok prog \<Longrightarrow> cc_ok cc \<Longrightarrow> sat (prog p cc) (reaches cc)"
  by (simp add: prog_ok_def)

lemma reaches_ok: "reaches a b \<Longrightarrow> cc_ok b"
  by (simp add: reaches_def)

lemma reaches_step: "reaches b c \<Longrightarrow> reaches a b \<Longrightarrow> reaches a c"
  by (rule reaches_trans)

lemma reaches_kept:
  "reaches a b \<Longrightarrow> has_const a i \<Longrightarrow> has_const b i"
  "reaches a b \<Longrightarrow> at_boundary a p \<Longrightarrow> at_boundary b p"
  "reaches a b \<Longrightarrow> at_slot a p \<Longrightarrow> at_slot b p"
  "reaches a b \<Longrightarrow> n < length (cc_funcs a) \<Longrightarrow> n < length (cc_funcs b)"
  "reaches a b \<Longrightarrow> list_all (at_slot a) ps \<Longrightarrow> list_all (at_slot b) ps"
  "reaches a b \<Longrightarrow> list_all (at_boundary a) ps \<Longrightarrow> list_all (at_boundary b) ps"
  using kept [of a b] by (auto simp: reaches_def list_all_iff)

lemma extends_kept:
  "extends a b \<Longrightarrow> at_boundary a p \<Longrightarrow> at_boundary b p"
  using kept [of a b] by (auto simp: extends_def)

text \<open>The steps that cannot fail.\<close>

lemma pure_reaches:
  "cc_ok cc \<Longrightarrow> reaches cc (cc_print s cc)"
  "cc_ok cc \<Longrightarrow> reaches cc (compiler_error lineno msg cc)"
  "cc_ok cc \<Longrightarrow> reaches cc (module_error lineno pre name post cc)"
  "cc_ok cc \<Longrightarrow> reaches cc (cc\<lparr>cc_imported := h\<rparr>)"
  "cc_ok cc \<Longrightarrow> reaches cc (cc\<lparr>cc_imports := ns\<rparr>)"
  "cc_ok cc \<Longrightarrow> reaches cc (cc\<lparr>cc_filename := s\<rparr>)"
  "cc_ok cc \<Longrightarrow> reaches cc (cc\<lparr>cc_locals := h, cc_locals_active := b\<rparr>)"
  by (simp_all add: module_error_def reaches_def same_depth_def quiet_grows)
     (simp_all add: compiler_error_def cc_print_def)

lemma module_added:
  assumes "cc_ok cc" "at_boundary cc off"
  shows "reaches cc (cc\<lparr>cc_modules := cc_modules cc @ [(name, off)]\<rparr>)"
  using assms by (auto simp: reaches_def same_depth_def quiet_grows cc_ok_def instrs_def at_boundary_def)

lemma func_added:
  assumes "cc_ok cc" "at_boundary cc off" "length (cc_funcs cc) < MAX_FUNC_COUNT"
  shows "reaches cc (cc\<lparr>cc_funcs := cc_funcs cc @ [(name, off)], cc_locals := h, cc_locals_active := b\<rparr>)"
proof -
  have "instr_at (instrs cc) p i \<Longrightarrow>
      operand_ok (const_count cc) (Suc (length (cc_funcs cc))) (boundary (instrs cc)) p i" for p i
    by (rule operands_kept [OF assms(1)]) simp_all
  then show ?thesis
    using assms by (auto simp: reaches_def same_depth_def grows_def cc_ok_def instrs_def at_boundary_def)
qed

lemmas pure_rules =
  func_added pure_reaches module_added patch_jump_ok patch_jump_to_ok patch_jumps_ok

lemmas pure_steps = pure_rules [THEN reaches_step]

lemmas pure_kept =
  pure_rules [THEN reaches_kept(1)] pure_rules [THEN reaches_kept(2)] pure_rules [THEN reaches_kept(3)]
  pure_rules [THEN reaches_kept(4)] pure_rules [THEN reaches_kept(5)]

text \<open>A computation by its shape.\<close>

lemma sat_step:
  assumes "sat m (reaches b)" "\<And>cc. m = Some cc \<Longrightarrow> reaches b cc \<Longrightarrow> sat (k cc) Q"
  shows "sat (Option.bind m k) Q"
  using assms by (cases m) (simp_all add: sat_def)

lemma sat_pair:
  assumes "sat m (\<lambda>(x, cc). reaches b cc \<and> P cc x)" "\<And>x cc. m = Some (x, cc) \<Longrightarrow> reaches b cc \<Longrightarrow> P cc x \<Longrightarrow> sat (k x cc) Q"
  shows "sat (Option.bind m (\<lambda>(x, cc). k x cc)) Q"
  using assms by (cases m) (auto simp: sat_def)

lemma sat_tail: "sat m (reaches b) \<Longrightarrow> reaches a b \<Longrightarrow> sat m (reaches a)"
  by (erule sat_weaken) (rule reaches_trans)

lemma sat_pair_tail:
  "sat m (\<lambda>(x, cc). reaches b cc \<and> P cc x) \<Longrightarrow> reaches a b \<Longrightarrow> sat m (\<lambda>(x, cc). reaches a cc \<and> P cc x)"
  by (erule sat_weaken) (auto intro: reaches_trans)

lemma sat_if: "(c \<Longrightarrow> sat a Q) \<Longrightarrow> (\<not> c \<Longrightarrow> sat b Q) \<Longrightarrow> sat (if c then a else b) Q"
  by simp

lemma sat_option: "(x = None \<Longrightarrow> sat a Q) \<Longrightarrow> (\<And>y. x = Some y \<Longrightarrow> sat (b y) Q) \<Longrightarrow>
    sat (case x of None \<Rightarrow> a | Some y \<Rightarrow> b y) Q"
  by (cases x) simp_all

lemma sat_prod: "(\<And>u v. x = (u, v) \<Longrightarrow> sat (f u v) Q) \<Longrightarrow> sat (case x of (u, v) \<Rightarrow> f u v) Q"
  by (cases x) simp

lemma sat_pair_Some: "reaches a cc \<Longrightarrow> P cc x \<Longrightarrow> sat (Some (x, cc)) (\<lambda>(x, cc). reaches a cc \<and> P cc x)"
  by (simp add: sat_def)

lemma sat_Some_refl: "cc_ok cc \<Longrightarrow> sat (Some cc) (reaches cc)"
  by (simp add: sat_def reaches_refl)

lemma sat_foldM:
  "(\<And>cc x. x \<in> set xs \<Longrightarrow> cc_ok cc \<Longrightarrow> sat (f cc x) (reaches cc)) \<Longrightarrow> cc_ok cc \<Longrightarrow> sat (foldM f cc xs) (reaches cc)"
proof (induction xs arbitrary: cc)
  case Nil
  then show ?case by (simp add: sat_def reaches_refl)
next
  case (Cons x xs)
  have "sat (f cc x) (reaches cc)"
    using Cons.prems by simp
  then have "sat (Option.bind (f cc x) (\<lambda>cc. foldM f cc xs)) (reaches cc)"
    by (rule sat_step) (rule sat_tail [OF Cons.IH], use Cons.prems in \<open>auto intro: reaches_ok\<close>)
  moreover have "foldM f cc (x # xs) = Option.bind (f cc x) (\<lambda>cc. foldM f cc xs)"
    by (cases "f cc x") simp_all
  ultimately show ?case
    by (simp only:)
qed

subsection \<open>Instructions\<close>

text \<open>The opcodes by the operands they are emitted with.\<close>

definition takes :: "nat \<Rightarrow> opcode \<Rightarrow> bool" where
  "takes n opc \<longleftrightarrow> plain_op opc \<and> opcode_operand_size opc = n"

definition takes_u16 :: "compiler \<Rightarrow> u16 \<Rightarrow> opcode \<Rightarrow> bool" where
  "takes_u16 cc v opc \<longleftrightarrow>
     opcode_operand_size opc = 2 \<and> (plain_op opc \<or> opc \<in> const_ops \<and> has_const cc v)"

lemma op_facts:
  "takes 0 OP_POP" "takes 0 OP_DUP" "takes 0 OP_EXPAND_ARITH" "takes 0 OP_EXPAND_TILDE"
  "takes 0 OP_EXPAND_ARGS" "takes 0 OP_SPLIT_FIELDS" "takes 0 OP_GLOB" "takes 0 OP_COLLECT_WORDS"
  "takes 0 OP_REDIR_SAVE" "takes 0 OP_REDIR_RESTORE" "takes 0 OP_POP_SCOPE" "takes 0 OP_GET_NEXT_ITER"
  "takes 0 OP_HALT" "takes 0 OP_RET" "takes 0 OP_ERREXIT_PUSH" "takes 0 OP_ERREXIT_POP"
  "takes 0 OP_STATUS_ZERO" "takes 0 OP_NEGATE_STATUS" "takes 0 OP_PATTERN_MATCH"
  "takes 1 OP_EXEC_SIMPLE" "takes 1 OP_GET_SPECIAL" "takes 1 OP_PIPELINE_END" "takes 1 OP_PUSH_SCOPE"
  "takes 1 OP_REDIR_CLOSE" "takes 1 OP_TEST_UNARY" "takes 1 OP_TEST_BINARY"
  "takes 2 OP_REDIR_OPEN" "takes 2 OP_REDIR_DUP" "takes 2 OP_REDIR_HERE" "takes 4 OP_PUSH_INT"
  "takes_u16 cc v OP_CONCAT" "takes_u16 cc v OP_INIT_ITER" "takes_u16 cc v OP_PIPELINE"
  "is_jump OP_JMP" "is_jump OP_JMP_TRUE" "is_jump OP_JMP_FALSE" "is_jump OP_JMP_NONE"
  "OP_CMD_SUBST \<in> segment_ops" "OP_SUBSHELL \<in> segment_ops" "OP_BACKGROUND \<in> segment_ops"
  "OP_PIPELINE_CMD \<in> segment_ops"
  by (simp_all add: takes_def takes_u16_def op_sets)

lemma const_op_facts:
  assumes "has_const cc i"
  shows "takes_u16 cc i OP_PUSH_CONST" "takes_u16 cc i OP_GET_VAR" "takes_u16 cc i OP_SET_VAR"
    "takes_u16 cc i OP_GET_LOCAL" "takes_u16 cc i OP_SET_LOCAL" "takes_u16 cc i OP_GET_ARRAY"
    "takes_u16 cc i OP_SET_ARRAY" "takes_u16 cc i OP_EXPORT" "takes_u16 cc i OP_IMPORT"
  using assms by (simp_all add: takes_u16_def op_sets)

lemma choice_facts:
  "takes_u16 cc v a \<Longrightarrow> takes_u16 cc v b \<Longrightarrow> takes_u16 cc v (if c then a else b)"
  "is_jump a \<Longrightarrow> is_jump b \<Longrightarrow> is_jump (if c then a else b)"
  by simp_all

lemma emit_steps:
  "takes 0 opc \<Longrightarrow> cc_ok cc \<Longrightarrow> sat (emit_op opc cc) (reaches cc)"
  "takes 1 opc \<Longrightarrow> cc_ok cc \<Longrightarrow> sat (emit_op_u8 opc b cc) (reaches cc)"
  "takes 2 opc \<Longrightarrow> cc_ok cc \<Longrightarrow> sat (emit_op_u8_u8 opc b b' cc) (reaches cc)"
  "takes 4 opc \<Longrightarrow> cc_ok cc \<Longrightarrow> sat (emit_op_i32 opc w cc) (reaches cc)"
  "takes_u16 cc v opc \<Longrightarrow> cc_ok cc \<Longrightarrow> sat (emit_op_u16 opc v cc) (reaches cc)"
  unfolding takes_def takes_u16_def
  by (blast intro: step_emit_op step_emit_op_u8 step_emit_op_u8_u8 step_emit_op_i32
      step_emit_op_u16 step_emit_const_op)+

subsection \<open>The rules together\<close>

named_theorems code_steps \<open>steps of the compiler that keep its invariant\<close>

lemmas [code_steps] =
  emit_steps step_set_array_bulk step_expand_param step_emit_offset step_emit_jump step_add_const
  step_push_const step_set_continue step_exec_builtin step_exec_func

lemmas code_shapes =
  sat_pair_Some sat_step sat_pair sat_if sat_option sat_prod sat_Some sat_None

lemmas code_facts =
  op_facts const_op_facts choice_facts pure_kept at_end reaches_ok pure_steps reaches_refl

text \<open>
  The proofs below are one method: take the next step, or the last one, and find its conditions among
  the facts of the states passed.
\<close>

lemma step_emit_var [code_steps]: "cc_ok cc \<Longrightarrow> sat (emit_var name cc) (reaches cc)"
  unfolding emit_var_def
  by (assumption | rule code_shapes code_steps code_facts | (rule sat_tail sat_pair_tail, rule code_steps)
      | (rule reaches_kept reaches_step, assumption))+

lemma step_segment [code_steps]:
  assumes opc: "takes 0 opc" and body: "\<And>cc. cc_ok cc \<Longrightarrow> sat (body cc) (reaches cc)" and ok: "cc_ok cc"
  shows "sat (compile_segment body opc cc) (\<lambda>(off, cc'). reaches cc cc' \<and> at_boundary cc' off)"
  unfolding compile_segment_def Let_def
  by (assumption | rule opc body ok code_shapes code_steps code_facts | (rule sat_tail sat_pair_tail, rule code_steps)
      | (rule reaches_kept reaches_step, assumption))+

lemma step_concat_parts [code_steps]: "cc_ok cc \<Longrightarrow> sat (concat_parts n cc) (reaches cc)"
  unfolding concat_parts_def
  by (assumption | rule code_shapes code_steps code_facts | (rule sat_tail sat_pair_tail, rule code_steps)
      | (rule reaches_kept reaches_step, assumption))+

lemma step_cmdsub [code_steps]:
  assumes prog: "prog_ok prog" and ok: "cc_ok cc"
  shows "sat (compile_cmdsub env prog lineno cs cc) (reaches cc)"
proof (cases cs)
  case (Preparsed backtick ast)
  then show ?thesis
    unfolding compile_cmdsub_def Let_def cmd_subst.case
    by (simp only: cmd_subst.case)
       (assumption | rule ok step_prog [OF prog] code_shapes code_steps code_facts
        | (rule sat_tail sat_pair_tail, rule code_steps) | (rule reaches_kept reaches_step, assumption))+
next
  case (Unparsed backtick source)
  then show ?thesis
    unfolding compile_cmdsub_def Let_def
    by (simp only: cmd_subst.case)
       (assumption | rule ok step_prog [OF prog] code_shapes code_steps code_facts
        | (rule sat_tail sat_pair_tail, rule code_steps) | (rule reaches_kept reaches_step, assumption))+
qed

subsection \<open>Words\<close>

lemma compile_word_ok:
  assumes prog: "prog_ok prog"
  shows "cc_ok cc \<Longrightarrow> sat (compile_word env prog lineno w cc) (reaches cc)"
    "cc_ok cc \<Longrightarrow> sat (compile_parts env prog lineno w cc) (reaches cc)"
    "cc_ok cc \<Longrightarrow> sat (compile_part env prog lineno part cc) (reaches cc)"
  using prog
proof (induction env prog lineno w cc and env prog lineno w cc and env prog lineno part cc
       rule: compile_word_compile_parts_compile_part.induct)
  case (1 env prog lineno w cc)
  note ok = "1.prems" "1.IH"
  show ?case
    unfolding compile_word.simps
    by (assumption | rule ok code_shapes code_steps code_facts
        | (rule sat_tail sat_pair_tail, rule ok code_steps) | (rule reaches_kept reaches_step, assumption))+
next
  case (2 env prog lineno cc)
  then show ?case by (simp add: sat_def reaches_refl)
next
  case (3 env prog lineno part w cc)
  note ok = "3.prems" "3.IH"
  show ?case
    unfolding compile_parts.simps
    by (assumption | rule ok code_shapes code_steps code_facts
        | (rule sat_tail sat_pair_tail, rule ok code_steps) | (rule reaches_kept reaches_step, assumption))+
next
  case (4 env prog lineno quoted s cc)
  then show ?case by (simp add: step_push_const)
next
  case (5 env prog lineno quoted name ty flags pat rep idx index_all cc)
  note ok = "5.prems" "5.IH"
  show ?case
    unfolding compile_part.simps
    by (assumption | rule ok refl code_shapes code_steps code_facts
        | (rule sat_tail sat_pair_tail, rule ok refl code_steps)
        | (rule reaches_kept reaches_step, assumption))+
next
  case (6 env prog lineno quoted w cc)
  note ok = "6.prems" "6.IH"
  show ?case
    unfolding compile_part.simps
    by (assumption | rule ok code_shapes code_steps code_facts
        | (rule sat_tail sat_pair_tail, rule ok code_steps) | (rule reaches_kept reaches_step, assumption))+
next
  case (7 env prog lineno quoted cs cc)
  then show ?case by (simp add: step_cmdsub)
qed

lemmas [code_steps] = compile_word_ok(1)

subsection \<open>Modules and redirections\<close>

lemma step_in_file:
  assumes "prog_ok prog" "cc_ok cc"
  shows "sat (prog ast (cc\<lparr>cc_filename := path\<rparr>)) (reaches cc)"
  by (rule sat_tail, rule step_prog, rule assms, simp add: assms)
     (rule pure_reaches assms)+

lemma reaches_if: "(c \<Longrightarrow> reaches a x) \<Longrightarrow> (\<not> c \<Longrightarrow> reaches a y) \<Longrightarrow> reaches a (if c then x else y)"
  by simp

lemma step_module [code_steps]:
  assumes prog: "prog_ok prog" and ok: "cc_ok cc"
  shows "sat (compile_module env prog name path ast cc) (reaches cc)"
  unfolding compile_module_def Let_def
  by (assumption | rule prog ok step_in_file [OF prog] reaches_if code_shapes code_steps code_facts
        | (rule sat_tail sat_pair_tail, rule prog ok step_in_file [OF prog] reaches_if code_steps)
        | (rule reaches_kept reaches_step, assumption))+

lemma step_import [code_steps]:
  assumes prog: "prog_ok prog" and ok: "cc_ok cc"
  shows "sat (compile_import env prog name lineno cc) (reaches cc)"
  unfolding compile_import_def Let_def
  by (assumption | rule prog ok code_shapes code_steps code_facts
        | (rule sat_tail sat_pair_tail, rule prog ok code_steps)
        | (rule reaches_kept reaches_step, assumption))+

lemma step_redir [code_steps]:
  assumes prog: "prog_ok prog" and ok: "cc_ok cc"
  shows "sat (compile_redir env prog lineno rd cc) (reaches cc)"
  unfolding compile_redir_def Let_def
  by (assumption | rule prog ok code_shapes code_steps code_facts
        | (rule sat_tail sat_pair_tail, rule prog ok code_steps)
        | (rule reaches_kept reaches_step, assumption))+

lemma step_redirs_open [code_steps]:
  assumes prog: "prog_ok prog" and ok: "cc_ok cc"
  shows "sat (compile_redirs_open env prog redirs lineno cc) (reaches cc)"
  unfolding compile_redirs_open_def
  by (assumption | rule prog ok sat_foldM code_shapes code_steps code_facts
        | (rule sat_tail sat_pair_tail, rule prog ok sat_foldM code_steps)
        | (rule reaches_kept reaches_step, assumption))+

subsection \<open>Simple commands\<close>

lemma step_pop_iterators [code_steps]:
  assumes ok: "cc_ok cc"
  shows "sat (pop_iterators lis cc) (reaches cc)"
  unfolding pop_iterators_def Let_def
  by (assumption | rule ok sat_foldM code_shapes code_steps code_facts
        | (rule sat_tail sat_pair_tail, rule ok sat_foldM code_steps)
        | (rule reaches_kept reaches_step, assumption))+

lemma cc_loops_emitted:
  "emit_op opc cc = Some cc' \<Longrightarrow> cc_loops cc' = cc_loops cc"
  "emit_jump opc cc = Some (pos, cc') \<Longrightarrow> cc_loops cc' = cc_loops cc"
  by (auto simp: emit_op_def emit_jump_def emit_u8_def emit_i32_def cc_on_image_def bind_eq_Some_conv)

lemma cc_loops_popped: "pop_iterators lis cc = Some cc' \<Longrightarrow> cc_loops cc' = cc_loops cc"
  unfolding pop_iterators_def
  by (induction lis arbitrary: cc) (auto split: option.splits if_splits dest: cc_loops_emitted)

lemma step_break [code_steps]:
  assumes ok: "cc_ok cc"
  shows "sat (compile_break is_break words lineno cc) (reaches cc)"
proof (cases "break_depth words (length (cc_loops cc))")
  case None
  then show ?thesis
    using ok by (simp add: compile_break_def sat_def pure_reaches)
next
  case (Some depth)
  note depth = this
  have range: "depth - 1 < length (cc_loops cc)" if "cc_loops cc \<noteq> []"
    using depth that by (auto simp: break_depth_def Let_def split: if_splits prod.splits)
  show ?thesis
  proof (cases "cc_loops cc = []")
    case True
    then show ?thesis
      using ok depth by (simp add: compile_break_def sat_def pure_reaches)
  next
    case False
    have "reaches cc (if is_break
             then cc2\<lparr>cc_loops := (cc_loops cc2)[depth - 1 := (cc_loops cc1 ! (depth - 1))
                    \<lparr>li_breaks := li_breaks (cc_loops cc1 ! (depth - 1)) @ [jmp]\<rparr>]\<rparr>
             else patch_jump_to jmp (li_continue (cc_loops cc1 ! (depth - 1))) cc2)"
      if pop: "pop_iterators (take (depth - 1) (cc_loops cc)) cc = Some cc1" "reaches cc cc1"
        and jump: "emit_jump OP_JMP cc1 = Some (jmp, cc2)" "reaches cc1 cc2" "at_slot cc2 jmp"
      for cc1 cc2 jmp
    proof -
      have loops: "cc_loops cc1 = cc_loops cc" "cc_loops cc2 = cc_loops cc1"
        using cc_loops_popped [OF pop(1)] cc_loops_emitted(2) [OF jump(1)] by simp_all
      have ok2: "cc_ok cc2" and reached: "reaches cc cc2"
        using reaches_trans [OF pop(2) jump(2)] reaches_ok by blast+
      have "at_boundary cc2 (li_continue (cc_loops cc2 ! (depth - 1)))"
        using cc_loops_ok(1) [OF ok2] range [OF False] loops by (simp add: nth_mem)
      then show ?thesis
        using reached add_break_ok [OF ok2 jump(3), of "depth - 1"] patch_jump_to_ok [OF ok2 jump(3)]
          range [OF False] loops by (auto intro: reaches_trans)
    qed
    note last = this
    show ?thesis
      using depth False unfolding compile_break_def Let_def
      by (simp del: One_nat_def, intro sat_pair sat_step)
         (rule step_pop_iterators ok step_emit_jump op_facts | erule reaches_ok
          | (rule sat_Some, rule last, assumption+))+
  qed
qed

lemma step_assign_element [code_steps]:
  assumes prog: "prog_ok prog" and ok: "cc_ok cc"
  shows "sat (assign_element env prog lineno name bracket val rest cc) (reaches cc)"
  unfolding assign_element_def Let_def
  by (assumption | rule prog ok code_shapes code_steps code_facts
        | (rule sat_tail sat_pair_tail, rule prog ok code_steps)
        | (rule reaches_kept reaches_step, assumption))+

lemma step_assign_variable [code_steps]:
  assumes prog: "prog_ok prog" and ok: "cc_ok cc"
  shows "sat (assign_variable env prog lineno temp name val rest cc) (reaches cc)"
  unfolding assign_variable_def Let_def
  by (assumption | rule prog ok code_shapes code_steps code_facts
        | (rule sat_tail sat_pair_tail, rule prog ok code_steps)
        | (rule reaches_kept reaches_step, assumption))+

lemma step_assign [code_steps]:
  assumes prog: "prog_ok prog" and ok: "cc_ok cc"
  shows "sat (compile_assign env prog lineno temp w cc) (reaches cc)"
  unfolding compile_assign_def
  using prog ok
  by (auto split: list.split word_part.split option.split
      intro!: sat_Some reaches_refl pure_reaches step_assign_element step_assign_variable)

lemma step_array [code_steps]:
  assumes prog: "prog_ok prog" and ok: "cc_ok cc"
  shows "sat (compile_array env prog lineno arr cc) (reaches cc)"
  unfolding compile_array_def Let_def
  by (assumption | rule prog ok sat_foldM code_shapes code_steps code_facts
        | (rule sat_tail sat_pair_tail, rule prog ok sat_foldM code_steps)
        | (rule reaches_kept reaches_step, assumption))+

lemma step_fields [code_steps]:
  assumes ok: "cc_ok cc"
  shows "sat (compile_fields w cc) (reaches cc)"
  unfolding compile_fields_def Let_def
  by (assumption | rule ok code_shapes code_steps code_facts
        | (rule sat_tail sat_pair_tail, rule ok code_steps) | (rule reaches_kept reaches_step, assumption))+

lemma step_arg [code_steps]:
  assumes prog: "prog_ok prog" and ok: "cc_ok cc"
  shows "sat (compile_arg env prog lineno w cc) (reaches cc)"
  unfolding compile_arg_def Let_def
  by (assumption | rule prog ok code_shapes code_steps code_facts
        | (rule sat_tail sat_pair_tail, rule prog ok code_steps)
        | (rule reaches_kept reaches_step, assumption))+

lemma func_listed:
  "find_index P (cc_funcs cc) = Some i \<Longrightarrow> i < length (cc_funcs cc)"
  using find_index_Some by blast

lemma builtin_listed: "builtin_lookup name = Some i \<Longrightarrow> i < builtin_count"
  using builtin_lookup_sound by blast

lemma step_exec [code_steps]:
  assumes ok: "cc_ok cc"
  shows "sat (compile_exec w cc) (reaches cc)"
  unfolding compile_exec_def Let_def
  by (assumption | rule ok func_listed builtin_listed code_shapes code_steps code_facts
        | (rule sat_tail sat_pair_tail, rule ok func_listed builtin_listed code_steps)
        | (rule reaches_kept reaches_step, assumption))+

lemma step_run [code_steps]:
  assumes prog: "prog_ok prog" and ok: "cc_ok cc"
  shows "sat (compile_run env prog lineno redirs temp words cc) (reaches cc)"
  unfolding compile_run_def Let_def
  by (assumption | rule prog ok sat_foldM code_shapes code_steps code_facts
        | (rule sat_tail sat_pair_tail, rule prog ok sat_foldM code_steps)
        | (rule reaches_kept reaches_step, assumption))+

lemma step_simple [code_steps]:
  assumes prog: "prog_ok prog" and ok: "cc_ok cc"
  shows "sat (compile_simple env prog lineno redirs assigns words arrays cc) (reaches cc)"
  unfolding compile_simple_def Let_def
  by (assumption | rule prog ok sat_foldM code_shapes code_steps code_facts
        | (rule sat_tail sat_pair_tail, rule prog ok sat_foldM code_steps)
        | (rule reaches_kept reaches_step, assumption))+

subsection \<open>Conditions and loops\<close>

lemma slots_more: "list_all P xs \<Longrightarrow> P x \<Longrightarrow> list_all P (xs @ [x])" "list_all P []"
  by simp_all

lemma step_clauses [code_steps]:
  assumes prog: "prog_ok prog" and ok: "cc_ok cc" and ends: "list_all (at_slot cc) ends"
  shows "sat (compile_clauses prog clauses ends cc) (\<lambda>(ends, cc'). reaches cc cc' \<and> list_all (at_slot cc') ends)"
  using prog ok ends
proof (induction prog clauses ends cc rule: compile_clauses.induct)
  case (1 prog ends cc)
  then show ?case by (simp add: sat_def reaches_refl)
next
  case (2 prog condition body ics ends cc)
  note IH = "2.IH" "2.prems" step_prog [OF "2.prems"(1)]
  show ?case
    unfolding compile_clauses.simps
    by (assumption | rule IH slots_more refl code_shapes code_steps code_facts
        | (rule sat_tail sat_pair_tail, rule IH slots_more refl code_steps)
        | (rule reaches_kept reaches_step, assumption))+
qed

lemma step_if [code_steps]:
  assumes prog: "prog_ok prog" and ok: "cc_ok cc"
  shows "sat (compile_if prog clauses cc) (reaches cc)"
  unfolding compile_if_def Let_def
  by (assumption | rule prog ok step_prog [OF prog] slots_more sat_Some_refl code_shapes code_steps code_facts
        | (rule sat_tail sat_pair_tail, rule prog ok step_prog [OF prog] slots_more sat_Some_refl code_steps)
        | (rule reaches_kept reaches_step, assumption))+

lemma step_for_word [code_steps]:
  assumes prog: "prog_ok prog" and ok: "cc_ok cc"
  shows "sat (compile_for_word env prog lineno w cc) (reaches cc)"
  unfolding compile_for_word_def Let_def
  by (assumption | rule prog ok step_prog [OF prog] code_shapes code_steps code_facts
        | (rule sat_tail sat_pair_tail, rule prog ok step_prog [OF prog] code_steps)
        | (rule reaches_kept reaches_step, assumption))+

text \<open>What is compiled inside a loop, with the jump back at its end.\<close>

lemma push_loop_cc_ok: "cc_ok cc \<Longrightarrow> at_boundary cc t \<Longrightarrow> cc_ok (push_loop t iterator cc)"
  using push_loop_ok(1) by (auto simp: extends_def)

lemma for_loop:
  assumes prog: "prog_ok prog" and ok: "cc_ok cc" "at_boundary cc t"
    and rest: "\<And>cc'. reaches cc cc' \<Longrightarrow> sat (emit_jump OP_JMP cc' \<bind> k) Q"
  shows "sat (do { cc \<leftarrow> prog body (push_loop t iterator cc);
                   (pos, cc) \<leftarrow> emit_jump OP_JMP cc;
                   Option.bind (emit_jump OP_JMP (pop_loop (patch_jump_to pos t cc))) k }) Q"
proof (rule sat_step [OF step_prog [OF prog push_loop_cc_ok [OF ok]]],
    rule sat_pair [OF step_emit_jump [OF op_facts(34) reaches_ok]], assumption)
  fix cc1 pos cc2
  assume cc: "reaches (push_loop t iterator cc) cc1" "reaches cc1 cc2" "at_slot cc2 pos"
  have top: "at_boundary cc2 t"
    using ok push_loop_ok(1) [OF ok, of iterator] cc(1,2) by (blast intro: extends_kept reaches_extends)
  have "reaches (push_loop t iterator cc) (patch_jump_to pos t cc2)"
    using cc patch_jump_to_ok [OF reaches_ok [OF cc(2)] cc(3) top] by (blast intro: reaches_trans)
  then show "sat (emit_jump OP_JMP (pop_loop (patch_jump_to pos t cc2)) \<bind> k) Q"
    by (intro rest loop_closed [OF ok])
qed

lemma step_for [code_steps]:
  assumes prog: "prog_ok prog" and ok: "cc_ok cc"
  shows "sat (compile_for env prog lineno varname words body cc) (reaches cc)"
  unfolding compile_for_def Let_def
  by (assumption | rule prog ok for_loop [OF prog] sat_foldM code_shapes code_steps code_facts
        | (rule sat_tail sat_pair_tail, rule prog ok sat_foldM code_steps)
        | (rule reaches_kept reaches_step, assumption))+

lemma step_condition [code_steps]:
  assumes jump: "is_jump opc" and prog: "prog_ok prog" and ok: "cc_ok cc"
  shows "sat (compile_condition prog condition opc cc) (\<lambda>(pos, cc'). reaches cc cc' \<and> at_slot cc' pos)"
  unfolding compile_condition_def
  by (assumption | rule jump prog ok step_prog [OF prog] code_shapes code_steps code_facts
        | (rule sat_tail sat_pair_tail, rule jump prog ok step_prog [OF prog] code_steps)
        | (rule reaches_kept reaches_step, assumption))+

lemma at_start: "cc_ok cc \<Longrightarrow> at_boundary cc 0"
  unfolding at_boundary_def boundary_def by (cases "instrs cc") auto

lemma while_loop:
  assumes prog: "prog_ok prog" and jump: "is_jump opc" and ok: "cc_ok cc"
    and rest: "\<And>cc'. reaches cc cc' \<Longrightarrow> sat (emit_jump OP_JMP cc' \<bind> k) Q"
  shows "sat (do { cc1 \<leftarrow> prog body (push_loop 0 False cc);
                   (loop_back, cc2) \<leftarrow> compile_condition prog condition opc cc1;
                   cc3 \<leftarrow> set_continue (code_pos cc1) (patch_jump_to loop_back (code_pos cc) cc2);
                   Option.bind (emit_jump OP_JMP (pop_loop cc3)) k }) Q"
proof (rule sat_step [OF step_prog [OF prog push_loop_cc_ok [OF ok at_start [OF ok]]]],
    rule sat_pair [OF step_condition [OF jump prog reaches_ok]], assumption)
  fix cc1 loop_back cc2
  assume cc: "reaches (push_loop 0 False cc) cc1" "reaches cc1 cc2" "at_slot cc2 loop_back"
  have here: "at_boundary cc2 (code_pos cc)"
    using at_end [OF ok] push_loop_ok(1) [OF ok at_start [OF ok], of False] cc(1,2)
    by (blast intro: extends_kept reaches_extends)
  have patched: "reaches cc2 (patch_jump_to loop_back (code_pos cc) cc2)"
    using patch_jump_to_ok [OF reaches_ok [OF cc(2)] cc(3) here] .
  have "at_boundary (patch_jump_to loop_back (code_pos cc) cc2) (code_pos cc1)"
    using at_end [OF reaches_ok [OF cc(1)]] cc(2) patched by (blast intro: reaches_kept(2))
  then have "sat (set_continue (code_pos cc1) (patch_jump_to loop_back (code_pos cc) cc2))
      (reaches (patch_jump_to loop_back (code_pos cc) cc2))"
    by (rule step_set_continue [OF reaches_ok [OF patched]])
  then show "sat (do { cc3 \<leftarrow> set_continue (code_pos cc1) (patch_jump_to loop_back (code_pos cc) cc2);
                       Option.bind (emit_jump OP_JMP (pop_loop cc3)) k }) Q"
  proof (rule sat_step)
    fix cc3
    assume "reaches (patch_jump_to loop_back (code_pos cc) cc2) cc3"
    then have "reaches (push_loop 0 False cc) cc3"
      using cc patched by (blast intro: reaches_trans)
    then show "sat (emit_jump OP_JMP (pop_loop cc3) \<bind> k) Q"
      by (intro rest loop_closed [OF ok at_start [OF ok]])
  qed
qed

lemma step_while_until [code_steps]:
  assumes prog: "prog_ok prog" and ok: "cc_ok cc"
  shows "sat (compile_while_until prog condition body is_until cc) (reaches cc)"
  unfolding compile_while_until_def Let_def
  by (assumption | rule prog ok while_loop [OF prog] code_shapes code_steps code_facts
        | (rule sat_tail sat_pair_tail, rule prog ok code_steps)
        | (rule reaches_kept reaches_step, assumption))+

lemma step_patterns [code_steps]:
  assumes prog: "prog_ok prog" and ok: "cc_ok cc" and jumps: "list_all (at_slot cc) jumps"
  shows "sat (compile_patterns env prog lineno subject pats jumps cc)
           (\<lambda>(jumps, cc'). reaches cc cc' \<and> list_all (at_slot cc') jumps)"
  using prog ok jumps
proof (induction env prog lineno subject pats jumps cc rule: compile_patterns.induct)
  case (1 env prog lineno subject jumps cc)
  then show ?case by (simp add: sat_def reaches_refl)
next
  case (2 env prog lineno subject pat pats jumps cc)
  note IH = "2.IH" "2.prems"
  show ?case
    unfolding compile_patterns.simps
    by (assumption | rule IH slots_more refl code_shapes code_steps code_facts
        | (rule sat_tail sat_pair_tail, rule IH slots_more refl code_steps)
        | (rule reaches_kept reaches_step, assumption))+
qed

text \<open>The jump over a body that only an item with patterns has, and the jump to the end after \<^verbatim>\<open>;;\<close>.\<close>

abbreviation skip_slots :: "nat option \<Rightarrow> nat list" where
  "skip_slots skip \<equiv> (case skip of None \<Rightarrow> [] | Some p \<Rightarrow> [p])"

lemma step_skip:
  assumes "cc_ok cc"
  shows "sat (if c then map_option (\<lambda>(pos, cc). (Some pos, cc)) (emit_jump OP_JMP cc) else Some (None, cc))
           (\<lambda>(skip, cc'). reaches cc cc' \<and> list_all (at_slot cc') (skip_slots skip))"
  using step_emit_jump [OF op_facts(34) assms] assms by (auto simp: sat_def reaches_refl)

lemma step_end:
  assumes ok: "cc_ok cc" and ends: "list_all (at_slot cc) ends"
  shows "sat (if c then map_option (\<lambda>(pos, cc). (ends @ [pos], cc)) (emit_jump OP_JMP cc) else Some (ends, cc))
           (\<lambda>(ends, cc'). reaches cc cc' \<and> list_all (at_slot cc') ends)"
  using step_emit_jump [OF op_facts(34) ok] ok ends reaches_kept(5)
  by (fastforce simp: sat_def reaches_refl)

lemma skip_patched:
  assumes "cc_ok cc" "list_all (at_slot cc) (skip_slots skip)"
  shows "reaches cc (case skip of Some pos \<Rightarrow> patch_jump pos cc | None \<Rightarrow> cc)"
  using assms by (cases skip) (simp_all add: reaches_refl patch_jump_ok)

lemma step_items [code_steps]:
  assumes prog: "prog_ok prog" and ok: "cc_ok cc" and ends: "list_all (at_slot cc) ends"
  shows "sat (compile_items env prog lineno subject items ends cc)
           (\<lambda>(ends, cc'). reaches cc cc' \<and> list_all (at_slot cc') ends)"
  using prog ok ends
proof (induction env prog lineno subject items ends cc rule: compile_items.induct)
  case (1 env prog lineno subject ends cc)
  then show ?case by (simp add: sat_def reaches_refl)
next
  case (2 env prog lineno subject patterns body terminator items ends cc)
  note IH = "2.IH" "2.prems" step_prog [OF "2.prems"(1)] step_skip step_end
    skip_patched [THEN reaches_step] skip_patched [THEN reaches_kept(5)]
  show ?case
    unfolding compile_items.simps
    by (assumption | rule IH slots_more refl code_shapes code_steps code_facts
        | (rule sat_tail sat_pair_tail, rule IH slots_more refl code_steps)
        | (rule reaches_kept reaches_step, assumption))+
qed

lemma step_case [code_steps]:
  assumes prog: "prog_ok prog" and ok: "cc_ok cc"
  shows "sat (compile_case env prog lineno subject items cc) (reaches cc)"
  unfolding compile_case_def Let_def
  by (assumption | rule prog ok step_prog [OF prog] slots_more code_shapes code_steps code_facts
        | (rule sat_tail sat_pair_tail, rule prog ok step_prog [OF prog] slots_more code_steps)
        | (rule reaches_kept reaches_step, assumption))+

subsection \<open>Tests and commands\<close>

lemma step_test [code_steps]:
  assumes opc: "takes 1 opc" and ok: "cc_ok cc"
  shows "sat (compile_test opc opr lineno cc) (reaches cc)"
  unfolding compile_test_def Let_def
  by (assumption | rule opc ok code_shapes code_steps code_facts
        | (rule sat_tail sat_pair_tail, rule opc ok code_steps) | (rule reaches_kept reaches_step, assumption))+

lemma step_cond_expr [code_steps]:
  assumes prog: "prog_ok prog" and ok: "cc_ok cc"
  shows "sat (compile_cond_expr env prog lineno expr cc) (reaches cc)"
  using ok
proof (induction expr arbitrary: cc)
  case (COND_AND lhs rhs)
  note IH = COND_AND.IH COND_AND.prems
  show ?case
    unfolding compile_cond_expr.simps by (assumption | rule IH code_shapes code_steps code_facts
        | (rule sat_tail sat_pair_tail, rule IH code_steps) | (rule reaches_kept reaches_step, assumption))+
next
  case (COND_OR lhs rhs)
  note IH = COND_OR.IH COND_OR.prems
  show ?case
    unfolding compile_cond_expr.simps by (assumption | rule IH code_shapes code_steps code_facts
        | (rule sat_tail sat_pair_tail, rule IH code_steps) | (rule reaches_kept reaches_step, assumption))+
next
  case (COND_NOT child)
  note IH = COND_NOT.IH COND_NOT.prems
  show ?case
    unfolding compile_cond_expr.simps by (assumption | rule IH code_shapes code_steps code_facts
        | (rule sat_tail sat_pair_tail, rule IH code_steps) | (rule reaches_kept reaches_step, assumption))+
qed (unfold compile_cond_expr.simps,
     (assumption | rule prog code_shapes code_steps code_facts
        | (rule sat_tail sat_pair_tail, rule prog code_steps) | (rule reaches_kept reaches_step, assumption))+)

lemma step_funcdef:
  assumes body: "\<And>cc. cc_ok cc \<Longrightarrow> sat (compile_body cc) (reaches cc)" and ok: "cc_ok cc"
  shows "sat (compile_funcdef compile_body lineno name body cc) (reaches cc)"
  unfolding compile_funcdef_def Let_def
  by (assumption | rule body ok not_le_imp_less code_shapes code_steps code_facts
        | (rule sat_tail sat_pair_tail, rule body ok not_le_imp_less code_steps)
        | (rule reaches_kept reaches_step, assumption))+

lemma step_command [code_steps]:
  assumes prog: "prog_ok prog" and ok: "cc_ok cc"
  shows "sat (compile_command env prog cmd cc) (reaches cc)"
  using ok
proof (induction cmd arbitrary: cc rule: measure_induct_rule [of size])
  case (less cmd cc)
  obtain lineno redirs body where cmd: "cmd = Command lineno redirs body"
    by (cases cmd)
  have func: "sat (compile_funcdef (\<lambda>cc. compile_command env prog fbody cc) lineno name fbody cc') (reaches cc')"
    if "body = CT_FUNCDEF name fbody" "cc_ok cc'" for name fbody cc'
    by (rule step_funcdef [OF less.IH that(2)]) (simp_all add: cmd that(1))
  note ok = less.prems step_prog [OF prog] prog func
  show ?case
    unfolding cmd compile_command.simps Let_def
    by (cases body; simp only: command_body.case;
        (assumption | rule ok refl sat_Some_refl code_shapes code_steps code_facts
        | (rule sat_tail sat_pair_tail, rule ok refl sat_Some_refl code_steps)
        | (rule reaches_kept reaches_step, assumption))+)
qed

subsection \<open>Pipelines, lists and programs\<close>

lemma step_members [code_steps]:
  assumes prog: "prog_ok prog" and ok: "cc_ok cc"
  shows "sat (compile_members env prog cmds cc) (\<lambda>(offs, cc'). reaches cc cc' \<and> list_all (at_boundary cc') offs)"
  using ok
proof (induction cmds arbitrary: cc)
  case (Cons cmd cmds)
  have last: "list_all (at_boundary cc2) (off # offs)"
    if "reaches cc1 cc2" "at_boundary cc1 off" "list_all (at_boundary cc2) offs" for cc1 cc2 off offs
    using that reaches_kept(2) by simp
  note ok = Cons.IH Cons.prems prog last
  show ?case
    unfolding compile_members.simps
    by (assumption | rule ok code_shapes code_steps code_facts
        | (rule sat_tail sat_pair_tail, rule ok code_steps) | (rule reaches_kept reaches_step, assumption))+
qed (simp add: sat_def reaches_refl)

lemma step_offsets:
  "list_all (at_boundary cc) offs \<Longrightarrow> cc_ok cc \<Longrightarrow>
     sat (foldM (\<lambda>cc off. emit_op_offset OP_PIPELINE_CMD off cc) cc offs) (reaches cc)"
proof (induction offs arbitrary: cc)
  case Nil
  then show ?case by (simp add: sat_def reaches_refl)
next
  case (Cons off offs)
  have "sat (emit_op_offset OP_PIPELINE_CMD off cc) (reaches cc)"
    using Cons.prems by (intro step_emit_offset op_facts) simp_all
  then have "sat (Option.bind (emit_op_offset OP_PIPELINE_CMD off cc)
      (\<lambda>cc. foldM (\<lambda>cc off. emit_op_offset OP_PIPELINE_CMD off cc) cc offs)) (reaches cc)"
    by (rule sat_step) (rule sat_tail [OF Cons.IH], use Cons.prems reaches_kept(6) reaches_ok in auto)
  moreover have "foldM (\<lambda>cc off. emit_op_offset OP_PIPELINE_CMD off cc) cc (off # offs) =
      Option.bind (emit_op_offset OP_PIPELINE_CMD off cc)
        (\<lambda>cc. foldM (\<lambda>cc off. emit_op_offset OP_PIPELINE_CMD off cc) cc offs)"
    by (cases "emit_op_offset OP_PIPELINE_CMD off cc") simp_all
  ultimately show ?case
    by (simp only:)
qed

lemma step_and_or [code_steps]:
  assumes prog: "prog_ok prog" and ok: "cc_ok cc"
  shows "sat (compile_and_or env prog pl cc) (reaches cc)"
  unfolding compile_and_or_def
  by (rule list.exhaust [of "ao_commands pl"]; rule list.exhaust [of "tl (ao_commands pl)"];
      simp only: list.case list.sel;
      (assumption | rule prog ok step_offsets code_shapes code_steps code_facts
        | (rule sat_tail sat_pair_tail, rule prog ok step_offsets code_steps)
        | (rule reaches_kept reaches_step, assumption))+)

lemma step_suppressed [code_steps]:
  assumes step: "\<And>cc. cc_ok cc \<Longrightarrow> sat (step cc) (reaches cc)" and ok: "cc_ok cc"
  shows "sat (compile_suppressed c step cc) (reaches cc)"
  unfolding compile_suppressed_def
  by (assumption | rule step ok code_shapes code_steps code_facts
        | (rule sat_tail sat_pair_tail, rule step ok code_steps)
        | (rule reaches_kept reaches_step, assumption))+

lemma step_connected [code_steps]:
  assumes prog: "prog_ok prog" and ok: "cc_ok cc"
  shows "sat (compile_connected env prog connector pls cc) (reaches cc)"
  using ok
proof (induction pls arbitrary: connector cc)
  case (Cons pl pls)
  note ok = Cons.IH Cons.prems prog
  show ?case
    unfolding compile_connected.simps
    by (assumption | rule ok code_shapes code_steps code_facts
        | (rule sat_tail sat_pair_tail, rule ok code_steps) | (rule reaches_kept reaches_step, assumption))+
qed (simp add: sat_def reaches_refl)

lemma step_sh_list [code_steps]:
  assumes prog: "prog_ok prog" and ok: "cc_ok cc"
  shows "sat (compile_sh_list env prog sl cc) (reaches cc)"
  unfolding compile_sh_list_def
  by (cases "sl_pipelines sl"; simp only: list.case;
      (assumption | rule prog ok code_shapes code_steps code_facts
        | (rule sat_tail sat_pair_tail, rule prog ok code_steps)
        | (rule reaches_kept reaches_step, assumption))+)

lemma compile_program_ok: "prog_ok prog \<Longrightarrow> prog_ok (compile_program env prog)"
  unfolding prog_ok_def [of "compile_program env prog"] compile_program_def
  by (intro allI impI)
     (assumption | rule sat_foldM code_shapes code_steps code_facts
        | (rule sat_tail sat_pair_tail, rule sat_foldM code_steps)
        | (rule reaches_kept reaches_step, assumption))+

lemma compile_nested_ok: "prog_ok deeper \<Longrightarrow> prog_ok (compile_nested deeper env n)"
  by (induction n) (simp_all add: compile_program_ok)

subsection \<open>Verified images\<close>

fun starts :: "nat \<Rightarrow> instr list \<Rightarrow> nat list" where
  "starts p [] = []"
| "starts p (i # ins) = p # starts (p + length (instr_bytes i)) ins"

definition operand_u16 :: "byte list \<Rightarrow> u16" where
  "operand_u16 args = of_le16 (args ! 0) (args ! 1)"

definition operand_u32 :: "byte list \<Rightarrow> u32" where
  "operand_u32 args = of_le32 (args ! 0) (args ! 1) (args ! 2) (args ! 3)"

text \<open>
  A verifier: the code is a sequence of whole instructions, jumps and segments lead to the start of
  one, and constants, builtins and functions exist.
\<close>

definition instr_valid :: "image \<Rightarrow> nat set \<Rightarrow> nat \<Rightarrow> instr \<Rightarrow> bool" where
  "instr_valid img positions p i \<longleftrightarrow>
     (case i of (opc, args) \<Rightarrow>
        if is_jump opc
        then 0 \<le> int p + 5 + sint (operand_u32 args) \<and> nat (int p + 5 + sint (operand_u32 args)) \<in> positions
        else if opc \<in> segment_ops then unat (operand_u32 args) \<in> positions
        else if opc \<in> const_ops then unat (operand_u16 args) < length (im_consts img)
        else if opc = OP_EXEC_BUILTIN then unat (operand_u16 args) < builtin_count
        else if opc = OP_EXEC_FUNC then unat (operand_u16 args) < length (im_funcs img)
        else True)"

definition image_verified :: "image \<Rightarrow> bool" where
  "image_verified img \<longleftrightarrow>
     (case decode (im_code img) of
        None \<Rightarrow> False
      | Some ins \<Rightarrow>
          (let positions = set (starts 0 ins) in
           list_all (\<lambda>(p, i). instr_valid img positions p i) (zip (starts 0 ins) ins) \<and>
           list_all (\<lambda>f. fn_offset f \<in> positions \<and> fn_image f = None) (im_funcs img) \<and>
           list_all (\<lambda>m. md_offset m \<in> positions) (im_modules img)))"

lemma starts_at: "(p, i) \<in> set (zip (starts q ins) ins) \<Longrightarrow> q \<le> p \<and> instr_at ins (p - q) i"
  by (induction ins arbitrary: q) (fastforce simp: diff_diff_left)+

lemma instr_at_starts: "instr_at ins p i \<Longrightarrow> q + p \<in> set (starts q ins)"
proof (induction ins arbitrary: p q)
  case (Cons j ins)
  show ?case
  proof (cases "p = 0 \<and> i = j")
    case False
    with Cons.prems have *: "length (instr_bytes j) \<le> p" "instr_at ins (p - length (instr_bytes j)) i"
      by auto
    with Cons.IH [OF *(2), of "q + length (instr_bytes j)"] show ?thesis
      by simp
  qed simp
qed simp

lemma boundary_starts: "boundary ins p \<Longrightarrow> p \<in> set (starts 0 (ins @ [i]))"
proof -
  assume p: "boundary ins p"
  obtain j where "instr_at (ins @ [i]) p j"
  proof (cases "p = length (code_bytes ins)")
    case True
    then have "instr_at (ins @ [i]) p i"
      by (simp add: instr_at_append)
    then show ?thesis by (rule that)
  next
    case False
    with p obtain k where "instr_at ins p k"
      by (auto simp: boundary_def)
    then have "instr_at (ins @ [i]) p k"
      by (simp add: instr_at_append)
    then show ?thesis by (rule that)
  qed
  from instr_at_starts [OF this, of 0] show ?thesis by simp
qed

lemma instr_at_bound: "instr_at ins p i \<Longrightarrow> p + Suc (length (snd i)) \<le> length (code_bytes ins)"
proof (induction ins arbitrary: p)
  case (Cons j ins)
  show ?case
  proof (cases "p = 0 \<and> i = j")
    case False
    with Cons.prems have "length (instr_bytes j) \<le> p" "instr_at ins (p - length (instr_bytes j)) i"
      by auto
    with Cons.IH [of "p - length (instr_bytes j)"] show ?thesis
      by simp
  qed simp
qed simp

lemma boundary_bound: "boundary ins p \<Longrightarrow> p \<le> length (code_bytes ins)"
  using instr_at_bound by (fastforce simp: boundary_def)

lemma operand_u16_le16 [simp]: "operand_u16 (le16 v @ rest) = v" "operand_u16 (le16 v) = v"
  by (simp_all add: operand_u16_def le16_def)

lemma operand_u32_le32 [simp]: "operand_u32 (le32 v) = v"
  by (simp add: operand_u32_def le32_def nth_Cons')

lemma jump_lands:
  assumes "p + 5 < 2 ^ 31" "t < 2 ^ 31"
  shows "int p + 5 + sint (jump_offset (Suc p) t) = int t"
proof -
  have "sint (word_of_int d :: 32 word) = d" if "- (2 ^ 31) \<le> d" "d < 2 ^ 31" for d
    using that by (simp add: sint_sbintrunc' signed_take_bit_int_eq_self)
  from this [of "int t - int (Suc p + 4)"] assms
  have "sint (word_of_int (int t - int (Suc p + 4)) :: 32 word) = int t - int (Suc p + 4)"
    by simp
  then show ?thesis
    unfolding jump_offset_def by linarith
qed

lemma operand_valid:
  assumes ok: "operand_ok (length (im_consts img)) (length (im_funcs img)) pos_ok p i"
    and pos: "\<And>t. pos_ok t \<Longrightarrow> t \<in> positions \<and> t < 2 ^ 31" and p: "p + Suc (length (snd i)) < 2 ^ 31"
    and funcs: "length (im_funcs img) \<le> MAX_FUNC_COUNT"
  shows "instr_valid img positions p i"
proof -
  obtain opc args where i: "i = (opc, args)"
    by (cases i)
  have small: "unat (of_nat k :: u16) = k" if "k < 1024" for k
    using that by (simp add: unat_of_nat take_bit_eq_mod)
  consider "is_jump opc" | "\<not> is_jump opc" "opc \<in> segment_ops"
    | "\<not> is_jump opc" "opc \<notin> segment_ops" "opc \<in> const_ops"
    | "opc = OP_EXEC_BUILTIN" | "opc = OP_EXEC_FUNC"
    | "\<not> is_jump opc" "opc \<notin> segment_ops" "opc \<notin> const_ops" "opc \<noteq> OP_EXEC_BUILTIN" "opc \<noteq> OP_EXEC_FUNC"
    by blast
  then show ?thesis
  proof cases
    case 1
    then obtain t where t: "pos_ok t" "args = le32 (jump_offset (Suc p) t)"
      using ok by (auto simp: operand_ok_def i)
    then have "p + 5 < 2 ^ 31"
      using p by (simp add: i)
    with 1 t pos jump_lands [of p t] show ?thesis
      by (simp add: instr_valid_def i)
  next
    case 2
    then obtain t where t: "pos_ok t" "args = le32 (of_nat t)"
      using ok by (auto simp: operand_ok_def i)
    then have "unat (of_nat t :: u32) = t"
      using pos [of t] by (simp add: unat_of_nat take_bit_eq_mod)
    with 2 t pos show ?thesis
      by (simp add: instr_valid_def i)
  next
    case 3
    then obtain k rest where "unat k < length (im_consts img)" "args = le16 k @ rest"
      using ok by (auto simp: operand_ok_def i)
    with 3 show ?thesis
      by (simp add: instr_valid_def i)
  next
    case 4
    then obtain k where "k < builtin_count" "args = le16 (of_nat k)"
      using ok by (auto simp: operand_ok_def i)
    moreover have "builtin_count < 1024"
      by (simp add: builtin_count_def builtin_names_def)
    ultimately show ?thesis
      using small [of k] by (simp add: instr_valid_def i 4 op_sets)
  next
    case 5
    then obtain k where "k < length (im_funcs img)" "args = le16 (of_nat k)"
      using ok by (auto simp: operand_ok_def i)
    then show ?thesis
      using small [of k] funcs by (simp add: instr_valid_def i 5 op_sets MAX_FUNC_COUNT_def)
  next
    case 6
    then show ?thesis
      by (simp add: instr_valid_def i)
  qed
qed

lemma init_ok: "cc_ok (compiler_init filename)"
  by (simp add: cc_ok_def instrs_def compiler_init_def image_new_inv) (simp add: image_new_def)

text \<open>The final instruction makes every position of the code before it the start of an instruction.\<close>

lemma halted_verified:
  assumes ok: "cc_ok cc" and halt: "emit_op OP_HALT cc = Some cc'"
    and small: "length (im_code (cc_image cc')) < 2 ^ 31"
  shows "image_verified (compile_image cc')"
proof -
  have app: "appends cc (instr_bytes (OP_HALT, [])) cc'"
    using emit_op_appends [OF ok halt] by (simp add: instr_bytes_def)
  have opr: "operand_ok n m P p (OP_HALT, [])" for n m P p
    by (simp add: operand_ok_def op_sets)
  have size: "length ([] :: byte list) = opcode_operand_size OP_HALT"
    by (simp add: opcode_operand_size_def)
  have ins: "instrs cc' = instrs cc @ [(OP_HALT, [])]" and reached: "reaches cc cc'"
    using instr_appended [OF ok app size opr] by simp_all
  have same: "cc_funcs cc' = cc_funcs cc" "cc_modules cc' = cc_modules cc" "const_count cc' = const_count cc"
    using app by (auto simp: appends_def)
  have ok': "cc_ok cc'"
    using reached by (rule reaches_ok)
  have dec: "decode (im_code (cc_image cc')) = Some (instrs cc')"
    using ok' by (simp add: cc_ok_def)
  then have len: "length (code_bytes (instrs cc')) < 2 ^ 31"
    using small decode_sound [OF dec] by simp
  have pos: "t \<in> set (starts 0 (instrs cc')) \<and> t < 2 ^ 31" if "boundary (instrs cc) t" for t
    using that boundary_starts [OF that, of "(OP_HALT, [])"] boundary_bound [OF that] len by (simp add: ins)
  let ?img = "compile_image cc'"
  have "instr_valid ?img (set (starts 0 (instrs cc'))) p i"
    if "(p, i) \<in> set (zip (starts 0 (instrs cc')) (instrs cc'))" for p i
  proof (rule operand_valid [OF _ pos])
    have at: "instr_at (instrs cc') p i"
      using starts_at [OF that] by simp
    then show "p + Suc (length (snd i)) < 2 ^ 31"
      using instr_at_bound len by (meson le_less_trans)
    show "operand_ok (length (im_consts ?img)) (length (im_funcs ?img)) (boundary (instrs cc)) p i"
      using at operands_kept [OF ok, of "const_count cc" "length (cc_funcs cc)" p i] opr
      by (auto simp: ins instr_at_append compile_image_def same)
    show "length (im_funcs ?img) \<le> MAX_FUNC_COUNT"
      using ok by (simp add: compile_image_def same cc_ok_def)
  qed
  moreover have "off \<in> set (starts 0 (instrs cc'))"
    if "(name, off) \<in> set (cc_funcs cc') \<union> set (cc_modules cc')" for name off
  proof -
    have "boundary (instrs cc) off"
      using that ok unfolding same cc_ok_def by blast
    then show ?thesis
      using pos by blast
  qed
  ultimately have "list_all (\<lambda>f. fn_offset f \<in> set (starts 0 (instrs cc')) \<and> fn_image f = None) (im_funcs ?img)"
    "list_all (\<lambda>m. md_offset m \<in> set (starts 0 (instrs cc'))) (im_modules ?img)"
    "list_all (\<lambda>(p, i). instr_valid ?img (set (starts 0 (instrs cc'))) p i)
       (zip (starts 0 (instrs cc')) (instrs cc'))"
    by (force simp: list_all_iff compile_image_def)+
  moreover have "im_code ?img = im_code (cc_image cc')"
    by (simp add: compile_image_def)
  ultimately show ?thesis
    unfolding image_verified_def by (simp add: dec Let_def)
qed

end
