(* ===== verification/CompilerProps.thy ===== *)
theory CompilerProps
  imports CompilerChecked VmReach
begin

text \<open>
  What the compiler gives: verified images, the code of a \<^verbatim>\<open>continue\<close> in a \<^verbatim>\<open>while\<close> loop, and no image
  after an error, wherever in the program the command stands that counts it.
\<close>

subsection \<open>Evaluation\<close>

lemma grow_cap_eval:
  "n \<le> c \<Longrightarrow> grow_cap c n = Some c"
  "c < n \<Longrightarrow> n \<le> c * 2 \<Longrightarrow> c \<le> 4294967296 \<Longrightarrow> grow_cap c n = Some (c * 2)"
proof -
  have grow: "grow_cap c n = grow_loop (Suc (Suc 63)) c n"
    by (simp add: grow_cap_def)
  show "n \<le> c \<Longrightarrow> grow_cap c n = Some c"
    by (simp only: grow grow_loop.simps) simp
  assume *: "c < n" "n \<le> c * 2" "c \<le> 4294967296"
  then have "checked_mul c 2 = Some (c * 2)"
    by (subst checked_mul_exact) (simp_all add: SIZE_MAX_def)
  with * show "grow_cap c n = Some (c * 2)"
    unfolding grow grow_loop.simps by simp
qed

lemmas compile_eval =
  compile_def compile_program_def compile_sh_list_def compile_suppressed_def compile_and_or_def
  compile_simple_def compile_run_def compile_redirs_open_def compile_arg_def compile_fields_def
  compile_exec_def compile_break_def break_depth_def compile_while_until_def compile_condition_def
  pop_iterators_def push_loop_def pop_loop_def set_continue_def is_simple_def concat_parts_def
  emit_op_def emit_u8_def emit_u16_def emit_i32_def cc_on_image_def emit_op_u8_def emit_op_u16_def
  emit_op_i32_def push_const_def add_const_def image_emit_u8_def image_emit_u16_def image_emit_i32_def
  image_ensure_capacity_def image_add_const_def checked_add_def checked_mul_def emit_jump_def
  code_pos_def patch_jump_def patch_jump_to_def patch_jumps_def patch_code_def const_pool_cap_def
  VM_CONST_POOL_MAX_def SIZE_MAX_def opcode_byte_def opcode_table_def image_new_def compiler_init_def
  MAX_LOOP_DEPTH_def compiler_error_def cc_print_def builtin_lookup_def builtin_names_def Let_def le16_def le32_def jump_offset_def
  compile_image_def grow_cap_eval

definition no_modules :: "program compile_env" where
  "no_modules = \<lparr>ce_regular = (\<lambda>_. False), ce_loadpath = None, ce_read_file = (\<lambda>_. None),
                 ce_parse = (\<lambda>_ _. ([], 0, []))\<rparr>"

definition command_list :: "program command_body \<Rightarrow> program" where
  "command_list body = [Sh_list [And_or [Command 1 [] body] False False] False]"

definition simple_list :: "string list \<Rightarrow> program" where
  "simple_list ws = command_list (CT_SIMPLE [] (map (\<lambda>s. [WP_LITERAL False s]) ws) [])"

abbreviation no_deeper :: "program prog" where
  "no_deeper \<equiv> \<lambda>_ _. None"

text \<open>\<^verbatim>\<open>:; while true; do continue; done\<close> and its image.\<close>

definition spin :: program where
  "spin = simple_list ['':''] @ command_list (CT_WHILE (simple_list [''true'']) (simple_list [''continue'']))"

definition spin_image :: image where
  "spin_image =
     \<lparr>im_consts = ['':'', ''true''], im_const_cap = 16,
      im_code =
        [80, 1, 0, 0, 2, 1, 0, 0, 0, 2, 1, 0, 0, 0, 39, 65, 4, 0, 81,
         128, 80, 1, 1, 0, 2, 1, 0, 0, 0, 2, 1, 0, 0, 0, 39, 65, 2, 0, 81, 129, 50, 36, 0, 0, 0,
         48, 206, 255, 255, 255,
         128, 80, 1, 1, 0, 2, 1, 0, 0, 0, 2, 1, 0, 0, 0, 39, 65, 2, 0, 81, 129, 49, 225, 255, 255, 255,
         48, 1, 0, 0, 0, 130, 255],
      im_code_cap = 128, im_funcs = [], im_modules = []\<rparr>"

lemma spin_compiled:
  "compile (compile_nested no_deeper no_modules (Suc (Suc 0))) spin [] = Some (Some spin_image, [])"
  by (simp add: spin_def spin_image_def simple_list_def command_list_def compile_eval)

subsection \<open>The compiler gives verified images\<close>

text \<open>
  C2. Whatever program is compiled, an image that is given passes a bytecode verifier: its code is a
  sequence of whole instructions; every jump, and every segment run from a substitution, subshell,
  background or pipeline instruction, leads to the start of one; constants, builtins and functions
  named by operands exist; functions and modules start at instructions. Its pool holds no constant twice.
\<close>

theorem compile_verified:
  assumes "compile (compile_nested no_deeper env n) program filename = Some (Some img, text)"
    "length (im_code img) < 2 ^ 31"
  shows "image_verified img \<and> image_inv img"
proof -
  have "prog_ok (compile_nested no_deeper env n)"
    by (rule compile_nested_ok) (simp add: prog_ok_def)
  note run = step_prog [OF this init_ok, of program filename]
  obtain cc1 cc2 where cc: "compile_nested no_deeper env n program (compiler_init filename) = Some cc1"
    "emit_op OP_HALT cc1 = Some cc2" "img = compile_image cc2"
    using assms(1) by (auto simp: compile_def bind_eq_Some_conv split: if_splits)
  then have "cc_ok cc1"
    using run by (simp add: sat_def reaches_def)
  then have "image_verified img"
    using halted_verified [OF _ cc(2)] assms(2) by (simp add: cc(3) compile_image_def)
  moreover have "cc_ok cc2"
    using step_emit_op [OF _ _ \<open>cc_ok cc1\<close>] cc(2) reaches_ok
    by (fastforce simp: sat_def op_sets)
  then have "image_inv img"
    by (simp add: cc(3) cc_ok_def image_inv_def compile_image_def)
  ultimately show ?thesis ..
qed

theorem compile_verified_witness: "image_verified spin_image \<and> image_inv spin_image"
  using compile_verified [OF spin_compiled] by (simp add: spin_image_def)

text \<open>
  The body of a \<^verbatim>\<open>while\<close> is compiled while the target of its loop is still 0, and nothing patches the
  jump of a \<^verbatim>\<open>continue\<close> afterwards: it leads to the start of the script, not to the condition.
\<close>

theorem continue_restarts_script:
  "\<exists>img. compile (compile_nested no_deeper no_modules 2) spin [] = Some (Some img, []) \<and>
     take 5 (drop 45 (im_code img)) = opcode_byte OP_JMP # le32 (jump_offset 46 0)"
proof (rule exI [of _ spin_image], rule conjI)
  show "compile (compile_nested no_deeper no_modules 2) spin [] = Some (Some spin_image, [])"
    using spin_compiled by (simp only: numeral_2_eq_2)
  show "take 5 (drop 45 (im_code spin_image)) = opcode_byte OP_JMP # le32 (jump_offset 46 0)"
    by (simp add: spin_image_def le32_def jump_offset_def opcode_byte_def opcode_table_def)
qed

subsection \<open>Errors\<close>

text \<open>An operator of a test that the code has no number for.\<close>

fun unknown_test :: "'p cond_expr \<Rightarrow> bool" where
  "unknown_test (COND_AND lhs rhs) = (unknown_test lhs \<or> unknown_test rhs)"
| "unknown_test (COND_OR lhs rhs) = (unknown_test lhs \<or> unknown_test rhs)"
| "unknown_test (COND_NOT child) = unknown_test child"
| "unknown_test (COND_UNARY opr arg) = (test_op_from_string opr = None)"
| "unknown_test (COND_BINARY opr lhs rhs) = (opr \<noteq> ''=~'' \<and> test_op_from_string opr = None)"
| "unknown_test (COND_STRING w) = False"

text \<open>
  Where a command stands in a program: in a list, in a pipeline, in the body or a condition of a
  compound command, in the body of a function, to any depth; the commands of substitutions are not
  among them. The flag says whether the body of a loop is around it. The condition of a \<^verbatim>\<open>while\<close> is
  outside of its loop: the compiler compiles it once before it opens the loop.
\<close>

inductive stands :: "program \<Rightarrow> bool \<Rightarrow> program command \<Rightarrow> bool"
  and stands_in :: "program command \<Rightarrow> bool \<Rightarrow> program command \<Rightarrow> bool"
where
  listed: "sl \<in> set p \<Longrightarrow> pl \<in> set (sl_pipelines sl) \<Longrightarrow> cmd \<in> set (ao_commands pl) \<Longrightarrow> stands_in cmd l c \<Longrightarrow> stands p l c"
| itself: "stands_in c False c"
| in_group: "stands p l c \<Longrightarrow> stands_in (Command n rs (CT_GROUP p)) l c"
| in_subshell: "stands p l c \<Longrightarrow> stands_in (Command n rs (CT_SUBSHELL p)) l c"
| in_condition: "If_clause (Some p) q \<in> set ics \<Longrightarrow> stands p l c \<Longrightarrow> stands_in (Command n rs (CT_IF ics)) l c"
| in_clause: "If_clause cond p \<in> set ics \<Longrightarrow> stands p l c \<Longrightarrow> stands_in (Command n rs (CT_IF ics)) l c"
| in_item: "Case_item pats p t \<in> set items \<Longrightarrow> stands p l c \<Longrightarrow> stands_in (Command n rs (CT_CASE w items)) l c"
| in_function: "stands_in cmd l c \<Longrightarrow> stands_in (Command n rs (CT_FUNCDEF name cmd)) l c"
| in_for: "stands p l c \<Longrightarrow> stands_in (Command n rs (CT_FOR v ws p)) True c"
| while_test: "stands p l c \<Longrightarrow> stands_in (Command n rs (CT_WHILE p q)) l c"
| until_test: "stands p l c \<Longrightarrow> stands_in (Command n rs (CT_UNTIL p q)) l c"
| in_while: "stands q l c \<Longrightarrow> stands_in (Command n rs (CT_WHILE p q)) True c"
| in_until: "stands q l c \<Longrightarrow> stands_in (Command n rs (CT_UNTIL p q)) True c"

text \<open>A step that counts an error: anywhere, or where no loop is open.\<close>

definition refuses :: "bool \<Rightarrow> compiler \<Rightarrow> compiler \<Rightarrow> bool" where
  "refuses anywhere cc cc' \<longleftrightarrow>
     reaches cc cc' \<and> (anywhere \<or> cc_loops cc = [] \<longrightarrow> cc_errors cc < cc_errors cc')"

lemma refuses_reaches: "refuses w a b \<Longrightarrow> reaches a b"
  by (simp add: refuses_def)

lemma refuses_True: "refuses True a b \<Longrightarrow> refuses w a b"
  by (simp add: refuses_def)

lemma reaches_counts: "reaches a b \<Longrightarrow> cc_errors a \<le> cc_errors b"
  by (simp add: reaches_def grows_def)

lemma refuse_later: "refuses w b c \<Longrightarrow> reaches a b \<Longrightarrow> refuses w a c"
  using reaches_trans [of a b c] reaches_counts [of a b] reaches_counts [of b c]
  unfolding refuses_def reaches_def same_depth_def by auto

lemma refuse_step: "reaches b c \<Longrightarrow> refuses w a b \<Longrightarrow> refuses w a c"
  using reaches_trans [of a b c] reaches_counts [of b c] unfolding refuses_def by auto

lemma error_counted: "cc_ok cc \<Longrightarrow> refuses w cc (compiler_error lineno msg cc)"
  by (simp add: refuses_def pure_reaches(2)) (simp add: compiler_error_def cc_print_def)

text \<open>The step that counts the error, in a computation, and the steps behind it.\<close>

lemma sat_key:
  assumes "\<And>cc. cc_ok cc \<Longrightarrow> sat (m cc) (refuses w cc)" "cc_ok b"
    "\<And>cc. refuses w b cc \<Longrightarrow> reaches b cc \<Longrightarrow> sat (k cc) Q"
  shows "sat (Option.bind (m b) k) Q"
  using assms(1) [OF assms(2)] assms(3) by (cases "m b") (auto simp: sat_def refuses_reaches)

lemma sat_key_pair:
  assumes "\<And>cc. cc_ok cc \<Longrightarrow> sat (m cc) (\<lambda>(x, cc'). refuses w cc cc' \<and> P cc' x)" "cc_ok b"
    "\<And>x cc. refuses w b cc \<Longrightarrow> reaches b cc \<Longrightarrow> P cc x \<Longrightarrow> sat (k x cc) Q"
  shows "sat (Option.bind (m b) (\<lambda>(x, cc). k x cc)) Q"
  using assms(1) [OF assms(2)] assms(3) by (cases "m b") (auto simp: sat_def refuses_reaches)

lemma refuse_tail: "sat m (reaches b) \<Longrightarrow> refuses w a b \<Longrightarrow> sat m (refuses w a)"
  by (erule sat_weaken) (rule refuse_step)

lemma refuse_pair_tail:
  "sat m (\<lambda>(x, cc). reaches b cc \<and> P cc x) \<Longrightarrow> refuses w a b \<Longrightarrow> sat m (\<lambda>(x, cc). refuses w a cc \<and> P cc x)"
  by (erule sat_weaken) (auto intro: refuse_step)

lemma refuse_pair_Some: "refuses w a cc \<Longrightarrow> P cc x \<Longrightarrow> sat (Some (x, cc)) (\<lambda>(x, cc). refuses w a cc \<and> P cc x)"
  by (simp add: sat_def)

lemma refuse_later_tail: "sat m (refuses w b) \<Longrightarrow> reaches a b \<Longrightarrow> sat m (refuses w a)"
  by (erule sat_weaken) (erule refuse_later)

lemma refuse_later_pair:
  "sat m (\<lambda>(x, cc). refuses w b cc \<and> P cc x) \<Longrightarrow> reaches a b \<Longrightarrow> sat m (\<lambda>(x, cc). refuses w a cc \<and> P cc x)"
  by (erule sat_weaken) (auto intro: refuse_later)

lemmas refuse_facts = pure_rules [THEN refuse_step] refuse_pair_Some

lemma refuse_foldM:
  assumes "x \<in> set xs" "\<And>cc. cc_ok cc \<Longrightarrow> sat (f cc x) (refuses w cc)"
    and others: "\<And>cc y. cc_ok cc \<Longrightarrow> sat (f cc y) (reaches cc)" and ok: "cc_ok cc"
  shows "sat (foldM f cc xs) (refuses w cc)"
  using assms(1) ok
proof (induction xs arbitrary: cc)
  case (Cons y ys)
  have rest: "sat (foldM f cc1 ys) (reaches cc1)" if "cc_ok cc1" for cc1
    by (rule sat_foldM [OF others that])
  have fold: "foldM f cc (y # ys) = Option.bind (f cc y) (\<lambda>cc. foldM f cc ys)"
    by (cases "f cc y") simp_all
  show ?case
  proof (cases "y = x")
    case True
    then have key: "sat (f cc y) (refuses w cc)" if "cc_ok cc" for cc
      using assms(2) that by simp
    show ?thesis
      unfolding fold
      by (rule sat_key [of "\<lambda>cc. f cc y"], erule key, rule Cons.prems(2), rule refuse_tail [OF rest])
         (auto intro: reaches_ok)
  next
    case False
    with Cons.prems have "x \<in> set ys" by simp
    show ?thesis
      unfolding fold
      by (rule sat_step [OF others [OF Cons.prems(2)]])
         (rule refuse_later_tail [OF Cons.IH [OF \<open>x \<in> set ys\<close>]], auto intro: reaches_ok)
  qed
qed simp

lemma refuse_segment:
  assumes body: "\<And>cc. cc_ok cc \<Longrightarrow> sat (body cc) (refuses w cc)" and opc: "takes 0 opc" and ok: "cc_ok cc"
  shows "sat (compile_segment body opc cc) (\<lambda>(off, cc'). refuses w cc cc' \<and> at_boundary cc' off)"
  unfolding compile_segment_def Let_def
  by (assumption | rule sat_key [OF body] opc ok code_shapes code_steps code_facts refuse_facts
      | (rule refuse_later, assumption)
      | (rule reaches_kept reaches_step refuse_step, assumption))+

subsection \<open>Errors in the parts of a command\<close>

lemma refuse_clauses:
  assumes prog: "prog_ok prog" and key: "\<And>cc. cc_ok cc \<Longrightarrow> sat (prog p cc) (refuses w cc)"
    and mem: "If_clause cond q \<in> set clauses" "cond = Some p \<or> q = p"
    and ok: "cc_ok cc" and ends: "list_all (at_slot cc) ends"
  shows "sat (compile_clauses prog clauses ends cc)
           (\<lambda>(ends, cc'). refuses w cc cc' \<and> list_all (at_slot cc') ends)"
  using mem(1) ok ends
proof (induction clauses arbitrary: ends cc)
  case (Cons clause ics)
  show ?case
  proof (cases "clause = If_clause cond q")
    case True
    consider "cond = Some p" | "q = p" "cond = None" | r where "q = p" "cond = Some r"
      using mem(2) by (cases cond) auto
    then show ?thesis
      by cases
        (simp only: True compile_clauses.simps option.case;
         (assumption | rule sat_key [OF key] Cons.prems(2,3) step_prog [OF prog] slots_more code_shapes code_steps
            code_facts refuse_facts
          | (rule refuse_pair_tail, rule step_clauses [OF prog]) | (rule refuse_later, assumption)
          | (rule reaches_kept reaches_step refuse_step, assumption))+)+
  next
    case False
    with Cons.prems(1) have "If_clause cond q \<in> set ics" by simp
    note IH = Cons.IH [OF this]
    show ?thesis
      unfolding compile_clauses.simps
      by (cases clause; simp only: compile_clauses.simps;
          (assumption | rule Cons.prems(2,3) step_prog [OF prog] slots_more code_shapes code_steps
              code_facts refuse_facts
            | (rule refuse_later_pair, rule IH)
            | (rule reaches_kept reaches_step refuse_step, assumption))+)
  qed
qed simp

lemma refuse_if:
  assumes prog: "prog_ok prog" and key: "\<And>cc. cc_ok cc \<Longrightarrow> sat (prog p cc) (refuses w cc)"
    and mem: "If_clause cond q \<in> set clauses" "cond = Some p \<or> q = p" and ok: "cc_ok cc"
  shows "sat (compile_if prog clauses cc) (refuses w cc)"
  unfolding compile_if_def Let_def
  by (assumption | rule sat_key_pair [OF refuse_clauses [OF prog key mem]] ok slots_more sat_Some_refl code_shapes
        code_steps code_facts refuse_facts
      | (rule refuse_later, assumption)
      | (rule reaches_kept reaches_step refuse_step, assumption))+


lemma refuse_items:
  assumes prog: "prog_ok prog" and key: "\<And>cc. cc_ok cc \<Longrightarrow> sat (prog p cc) (refuses w cc)"
    and mem: "Case_item pats p t \<in> set items" and ok: "cc_ok cc" and ends: "list_all (at_slot cc) ends"
  shows "sat (compile_items env prog lineno subject items ends cc)
           (\<lambda>(ends, cc'). refuses w cc cc' \<and> list_all (at_slot cc') ends)"
  using mem ok ends
proof (induction items arbitrary: ends cc)
  case (Cons item items)
  note facts = step_skip step_end skip_patched [THEN reaches_step] skip_patched [THEN reaches_kept(5)]
    skip_patched [THEN refuse_step]
  show ?case
  proof (cases "item = Case_item pats p t")
    case True
    show ?thesis
      unfolding True compile_items.simps
      by (assumption | rule sat_key [OF key] Cons.prems(2,3) facts prog slots_more code_shapes code_steps
            code_facts refuse_facts
          | (rule refuse_pair_tail, rule step_items [OF prog]) | (rule refuse_later, assumption)
          | (rule reaches_kept reaches_step refuse_step, assumption))+
  next
    case False
    with Cons.prems(1) have "Case_item pats p t \<in> set items" by simp
    note IH = Cons.IH [OF this]
    show ?thesis
      by (cases item; simp only: compile_items.simps;
          (assumption | rule Cons.prems(2,3) facts prog step_prog [OF prog] slots_more code_shapes code_steps
              code_facts refuse_facts
            | (rule refuse_later_pair, rule IH)
            | (rule reaches_kept reaches_step refuse_step, assumption))+)
  qed
qed simp

lemma refuse_case:
  assumes prog: "prog_ok prog" and key: "\<And>cc. cc_ok cc \<Longrightarrow> sat (prog p cc) (refuses w cc)"
    and mem: "Case_item pats p t \<in> set items" and ok: "cc_ok cc"
  shows "sat (compile_case env prog lineno subject items cc) (refuses w cc)"
  unfolding compile_case_def Let_def
  by (assumption | rule sat_key_pair [OF refuse_items [OF prog key mem]] ok slots_more code_shapes
        code_steps code_facts refuse_facts
      | (rule refuse_later, assumption)
      | (rule reaches_kept reaches_step refuse_step, assumption))+

lemma refuse_funcdef:
  assumes key: "\<And>cc. cc_ok cc \<Longrightarrow> sat (compile_body cc) (refuses w cc)" and ok: "cc_ok cc"
  shows "sat (compile_funcdef compile_body lineno name body cc) (refuses w cc)"
proof -
  have full: "refuses w cc (patch_jump skip (compiler_error lineno msg cc1))"
    if "reaches cc cc1" "at_slot cc1 skip" for cc1 skip msg
  proof -
    note ok1 = reaches_ok [OF that(1)]
    have "refuses w cc1 (compiler_error lineno msg cc1)"
      by (rule error_counted [OF ok1])
    moreover have "at_slot (compiler_error lineno msg cc1) skip"
      by (rule reaches_kept(3) [OF pure_reaches(2) [OF ok1] that(2)])
    ultimately show ?thesis
      using that(1) patch_jump_ok refuse_later refuse_step refuses_reaches reaches_ok by meson
  qed
  show ?thesis
    unfolding compile_funcdef_def Let_def
    by (assumption | rule full sat_key [OF key] ok not_le_imp_less code_shapes code_steps code_facts refuse_facts
        | (rule refuse_later, assumption)
        | (rule reaches_kept reaches_step refuse_step, assumption))+
qed

lemma refuse_condition:
  assumes prog: "prog_ok prog" and key: "\<And>cc. cc_ok cc \<Longrightarrow> sat (prog p cc) (refuses w cc)"
    and jump: "is_jump opc" and ok: "cc_ok cc"
  shows "sat (compile_condition prog p opc cc) (\<lambda>(pos, cc'). refuses w cc cc' \<and> at_slot cc' pos)"
  unfolding compile_condition_def
  by (assumption | rule sat_key [OF key] jump ok code_shapes code_steps code_facts refuse_facts
      | (rule refuse_pair_tail, rule code_steps) | (rule refuse_later, assumption)
      | (rule reaches_kept reaches_step refuse_step, assumption))+

lemma refuse_while_test:
  assumes prog: "prog_ok prog" and key: "\<And>cc. cc_ok cc \<Longrightarrow> sat (prog p cc) (refuses w cc)" and ok: "cc_ok cc"
  shows "sat (compile_while_until prog p body is_until cc) (refuses w cc)"
  unfolding compile_while_until_def Let_def
  by (assumption | rule sat_key_pair [OF refuse_condition [OF prog key]] prog ok while_loop [OF prog] code_shapes
        code_steps code_facts refuse_facts
      | (rule refuse_later, assumption)
      | (rule reaches_kept reaches_step refuse_step, assumption))+


lemma refuse_loop_closed:
  assumes "cc_ok cc" "at_boundary cc t" "refuses True (push_loop t iterator cc) cc'"
  shows "refuses w cc (pop_loop cc')"
proof -
  have "cc_errors cc \<le> cc_errors (push_loop t iterator cc)" "cc_errors (pop_loop cc') = cc_errors cc'"
    by (simp_all add: push_loop_def compiler_error_def cc_print_def pop_loop_def split: list.split)
  then show ?thesis
    using loop_closed [OF assms(1,2) refuses_reaches [OF assms(3)]] assms(3) by (simp add: refuses_def)
qed

lemma refuse_for_loop:
  assumes prog: "prog_ok prog" and key: "\<And>cc. cc_ok cc \<Longrightarrow> sat (prog p cc) (refuses True cc)"
    and ok: "cc_ok cc" "at_boundary cc t"
    and rest: "\<And>cc'. refuses w cc cc' \<Longrightarrow> reaches cc cc' \<Longrightarrow> sat (emit_jump OP_JMP cc' \<bind> k) Q"
  shows "sat (do { cc \<leftarrow> prog p (push_loop t iterator cc);
                   (pos, cc) \<leftarrow> emit_jump OP_JMP cc;
                   Option.bind (emit_jump OP_JMP (pop_loop (patch_jump_to pos t cc))) k }) Q"
proof (rule sat_key [OF key, where b = "push_loop t iterator cc"])
  show "cc_ok (push_loop t iterator cc)"
    by (rule push_loop_cc_ok [OF ok])
next
  fix cc1
  assume body: "refuses True (push_loop t iterator cc) cc1"
  show "sat (do { (pos, cc) \<leftarrow> emit_jump OP_JMP cc1;
                  Option.bind (emit_jump OP_JMP (pop_loop (patch_jump_to pos t cc))) k }) Q"
  proof (rule sat_pair [OF step_emit_jump [OF op_facts(34) reaches_ok [OF refuses_reaches [OF body]]]])
    fix pos cc2
    assume cc: "reaches cc1 cc2" "at_slot cc2 pos"
    have top: "at_boundary cc2 t"
      using ok push_loop_ok(1) [OF ok, of iterator] refuses_reaches [OF body] cc(1)
      by (blast intro: extends_kept reaches_extends)
    have "refuses True (push_loop t iterator cc) (patch_jump_to pos t cc2)"
      using body cc patch_jump_to_ok [OF reaches_ok [OF cc(1)] cc(2) top] by (blast intro: refuse_step)
    then have "refuses w cc (pop_loop (patch_jump_to pos t cc2))"
      by (rule refuse_loop_closed [OF ok])
    then show "sat (emit_jump OP_JMP (pop_loop (patch_jump_to pos t cc2)) \<bind> k) Q"
      by (intro rest refuses_reaches)
  qed
qed

lemma refuse_for:
  assumes prog: "prog_ok prog" and key: "\<And>cc. cc_ok cc \<Longrightarrow> sat (prog p cc) (refuses True cc)" and ok: "cc_ok cc"
  shows "sat (compile_for env prog lineno varname words p cc) (refuses w cc)"
  unfolding compile_for_def Let_def
  by (assumption | rule prog ok refuse_for_loop [where w = w, OF prog key] sat_foldM code_shapes code_steps code_facts refuse_facts
        | (rule sat_tail sat_pair_tail refuse_tail, rule sat_foldM code_steps) | (rule refuse_later, assumption)
        | (rule reaches_kept reaches_step refuse_step, assumption))+

lemma refuse_while_loop:
  assumes prog: "prog_ok prog" and key: "\<And>cc. cc_ok cc \<Longrightarrow> sat (prog p cc) (refuses True cc)"
    and jump: "is_jump opc" and ok: "cc_ok cc"
    and rest: "\<And>cc'. refuses w cc cc' \<Longrightarrow> reaches cc cc' \<Longrightarrow> sat (emit_jump OP_JMP cc' \<bind> k) Q"
  shows "sat (do { cc1 \<leftarrow> prog p (push_loop 0 False cc);
                   (loop_back, cc2) \<leftarrow> compile_condition prog condition opc cc1;
                   cc3 \<leftarrow> set_continue (code_pos cc1) (patch_jump_to loop_back (code_pos cc) cc2);
                   Option.bind (emit_jump OP_JMP (pop_loop cc3)) k }) Q"
proof (rule sat_key [OF key, where b = "push_loop 0 False cc"])
  note start = at_start [OF ok]
  show "cc_ok (push_loop 0 False cc)"
    by (rule push_loop_cc_ok [OF ok start])
  fix cc1
  assume body: "refuses True (push_loop 0 False cc) cc1" and cc1: "reaches (push_loop 0 False cc) cc1"
  show "sat (do { (loop_back, cc2) \<leftarrow> compile_condition prog condition opc cc1;
                  cc3 \<leftarrow> set_continue (code_pos cc1) (patch_jump_to loop_back (code_pos cc) cc2);
                  Option.bind (emit_jump OP_JMP (pop_loop cc3)) k }) Q"
  proof (rule sat_pair [OF step_condition [OF jump prog reaches_ok [OF cc1]]])
    fix loop_back cc2
    assume cc: "reaches cc1 cc2" "at_slot cc2 loop_back"
    have here: "at_boundary cc2 (code_pos cc)"
      using at_end [OF ok] push_loop_ok(1) [OF ok start, of False] cc1 cc(1)
      by (blast intro: extends_kept reaches_extends)
    have patched: "reaches cc2 (patch_jump_to loop_back (code_pos cc) cc2)"
      using patch_jump_to_ok [OF reaches_ok [OF cc(1)] cc(2) here] .
    have "at_boundary (patch_jump_to loop_back (code_pos cc) cc2) (code_pos cc1)"
      using at_end [OF reaches_ok [OF cc1]] cc(1) patched by (blast intro: reaches_kept(2))
    then have "sat (set_continue (code_pos cc1) (patch_jump_to loop_back (code_pos cc) cc2))
        (reaches (patch_jump_to loop_back (code_pos cc) cc2))"
      by (rule step_set_continue [OF reaches_ok [OF patched]])
    then show "sat (do { cc3 \<leftarrow> set_continue (code_pos cc1) (patch_jump_to loop_back (code_pos cc) cc2);
                         Option.bind (emit_jump OP_JMP (pop_loop cc3)) k }) Q"
    proof (rule sat_step)
      fix cc3
      assume "reaches (patch_jump_to loop_back (code_pos cc) cc2) cc3"
      then have "refuses True (push_loop 0 False cc) cc3"
        using body cc(1) patched by (blast intro: refuse_step)
      then have "refuses w cc (pop_loop cc3)"
        by (rule refuse_loop_closed [OF ok start])
      then show "sat (emit_jump OP_JMP (pop_loop cc3) \<bind> k) Q"
        by (intro rest refuses_reaches)
    qed
  qed
qed

lemma refuse_while_body:
  assumes prog: "prog_ok prog" and key: "\<And>cc. cc_ok cc \<Longrightarrow> sat (prog p cc) (refuses True cc)" and ok: "cc_ok cc"
  shows "sat (compile_while_until prog condition p is_until cc) (refuses w cc)"
  unfolding compile_while_until_def Let_def
  by (assumption | rule prog ok refuse_while_loop [where w = w, OF prog key] code_shapes code_steps code_facts refuse_facts
      | (rule refuse_later, assumption)
      | (rule reaches_kept reaches_step refuse_step, assumption))+


lemma refuse_command:
  assumes prog: "prog_ok prog" and key: "\<And>cc. cc_ok cc \<Longrightarrow> sat (core cc) (refuses w cc)" and ok: "cc_ok cc"
  shows "sat (do { cc \<leftarrow> (if h then compile_redirs_open env prog rs n cc else Some cc);
                   cc \<leftarrow> core cc;
                   if h then emit_op OP_REDIR_RESTORE cc else Some cc }) (refuses w cc)"
proof -
  have first: "sat (if h then compile_redirs_open env prog rs n cc else Some cc) (reaches cc)"
    using step_redirs_open [OF prog ok] ok by (simp add: sat_Some_refl)
  have last: "sat (if h then emit_op OP_REDIR_RESTORE cc1 else Some cc1) (reaches cc1)" if "cc_ok cc1" for cc1
    using that by (simp add: emit_steps op_facts sat_Some_refl)
  show ?thesis
    by (rule sat_step [OF first], rule sat_key [OF key])
       (assumption | rule refuse_tail [OF last] | rule reaches_ok | (rule refuse_later, assumption))+
qed

lemma refuse_members:
  assumes prog: "prog_ok prog" and mem: "cmd \<in> set cmds"
    and key: "\<And>cc. cc_ok cc \<Longrightarrow> sat (compile_command env prog cmd cc) (refuses w cc)" and ok: "cc_ok cc"
  shows "sat (compile_members env prog cmds cc) (\<lambda>(offs, cc'). refuses w cc cc' \<and> list_all (at_boundary cc') offs)"
  using mem ok
proof (induction cmds arbitrary: cc)
  case (Cons c cmds)
  have last: "list_all (at_boundary cc2) (off # offs)"
    if "reaches cc1 cc2" "at_boundary cc1 off" "list_all (at_boundary cc2) offs" for cc1 cc2 off offs
    using that reaches_kept(2) by simp
  show ?case
  proof (cases "c = cmd")
    case True
    show ?thesis
      unfolding True compile_members.simps
      by (assumption | rule sat_key_pair [OF refuse_segment [OF key]] Cons.prems(2) last prog code_shapes code_steps
            code_facts refuse_facts
          | (rule refuse_later, assumption) | (rule reaches_kept reaches_step refuse_step, assumption))+
  next
    case False
    with Cons.prems(1) have "cmd \<in> set cmds" by simp
    note IH = Cons.IH [OF this]
    show ?thesis
      unfolding compile_members.simps
      by (assumption | rule sat_key_pair [OF IH] Cons.prems(2) last prog code_shapes code_steps
            code_facts refuse_facts
          | (rule refuse_later, assumption) | (rule reaches_kept reaches_step refuse_step, assumption))+
  qed
qed simp

lemma refuse_and_or:
  assumes prog: "prog_ok prog" and mem: "cmd \<in> set (ao_commands pl)"
    and key: "\<And>cc. cc_ok cc \<Longrightarrow> sat (compile_command env prog cmd cc) (refuses w cc)" and ok: "cc_ok cc"
  shows "sat (compile_and_or env prog pl cc) (refuses w cc)"
proof -
  consider "ao_commands pl = [cmd]" | c1 c2 cs where "ao_commands pl = c1 # c2 # cs"
    using mem by (cases "ao_commands pl"; cases "tl (ao_commands pl)") auto
  then show ?thesis
  proof cases
    case 1
    show ?thesis
      unfolding compile_and_or_def 1 list.case
      by (assumption | rule sat_key [OF key] ok key code_shapes code_steps code_facts refuse_facts
          | (rule refuse_tail, rule code_steps) | (rule refuse_later, assumption)
          | (rule reaches_kept reaches_step refuse_step, assumption))+
  next
    case 2
    have members: "sat (compile_members env prog (c1 # c2 # cs) cc)
        (\<lambda>(offs, cc'). refuses w cc cc' \<and> list_all (at_boundary cc') offs)" if "cc_ok cc" for cc
      using refuse_members [OF prog mem key that] by (simp only: 2)
    show ?thesis
      unfolding compile_and_or_def 2 list.case
      by (assumption | rule sat_key_pair [OF members] ok step_offsets code_shapes code_steps code_facts refuse_facts
          | (rule refuse_tail, rule code_steps) | (rule refuse_later, assumption)
          | (rule reaches_kept reaches_step refuse_step, assumption))+
  qed
qed

lemma refuse_suppressed:
  assumes key: "\<And>cc. cc_ok cc \<Longrightarrow> sat (step cc) (refuses w cc)" and ok: "cc_ok cc"
  shows "sat (compile_suppressed c step cc) (refuses w cc)"
  unfolding compile_suppressed_def
  by (assumption | rule sat_key [OF key] key ok code_shapes code_steps code_facts refuse_facts
      | (rule refuse_tail, rule code_steps) | (rule refuse_later, assumption)
      | (rule reaches_kept reaches_step refuse_step, assumption))+

lemma refuse_connected:
  assumes prog: "prog_ok prog" and mem: "pl \<in> set pls"
    and key: "\<And>cc. cc_ok cc \<Longrightarrow> sat (compile_and_or env prog pl cc) (refuses w cc)" and ok: "cc_ok cc"
  shows "sat (compile_connected env prog connector pls cc) (refuses w cc)"
  using mem ok
proof (induction pls arbitrary: connector cc)
  case (Cons q pls)
  show ?case
  proof (cases "q = pl")
    case True
    show ?thesis
      unfolding True compile_connected.simps
      by (assumption | rule sat_key [OF refuse_suppressed [OF key]] Cons.prems(2) prog code_shapes code_steps
            code_facts refuse_facts
          | (rule refuse_tail, rule step_connected [OF prog]) | (rule refuse_later, assumption)
          | (rule reaches_kept reaches_step refuse_step, assumption))+
  next
    case False
    with Cons.prems(1) have "pl \<in> set pls" by simp
    note IH = Cons.IH [OF this]
    show ?thesis
      unfolding compile_connected.simps
      by (assumption | rule Cons.prems(2) prog code_shapes code_steps code_facts refuse_facts
          | (rule refuse_later_tail, rule IH)
          | (rule reaches_kept reaches_step refuse_step, assumption))+
  qed
qed simp

lemma refuse_sh_list:
  assumes prog: "prog_ok prog" and mem: "pl \<in> set (sl_pipelines sl)"
    and key: "\<And>cc. cc_ok cc \<Longrightarrow> sat (compile_and_or env prog pl cc) (refuses w cc)" and ok: "cc_ok cc"
  shows "sat (compile_sh_list env prog sl cc) (refuses w cc)"
proof (cases "sl_pipelines sl")
  case (Cons q pls)
  show ?thesis
  proof (cases "q = pl")
    case True
    have first: "sat (compile_suppressed (pls \<noteq> []) (compile_and_or env prog pl) cc) (refuses w cc)" if "cc_ok cc" for cc
      by (rule refuse_suppressed [OF key that])
    show ?thesis
      unfolding compile_sh_list_def Cons list.case True
      by (rule sat_key [OF first], assumption, rule ok, rule refuse_tail [OF step_connected [OF prog reaches_ok]])
  next
    case False
    with mem Cons have "pl \<in> set pls" by simp
    note rest = refuse_connected [OF prog this key]
    show ?thesis
      unfolding compile_sh_list_def Cons list.case
      by (assumption | rule ok prog code_shapes code_steps code_facts refuse_facts
          | (rule refuse_later_tail, rule rest)
          | (rule reaches_kept reaches_step refuse_step, assumption))+
  qed
qed (use mem in simp)

lemma refuse_program:
  assumes prog: "prog_ok prog" and mem: "sl \<in> set p" "pl \<in> set (sl_pipelines sl)" "cmd \<in> set (ao_commands pl)"
    and key: "\<And>cc. cc_ok cc \<Longrightarrow> sat (compile_command env prog cmd cc) (refuses w cc)" and ok: "cc_ok cc"
  shows "sat (compile_program env prog p cc) (refuses w cc)"
proof -
  note list = refuse_sh_list [OF prog mem(2) refuse_and_or [OF prog mem(3) key]]
  show ?thesis
    unfolding compile_program_def
  proof (rule refuse_foldM [OF mem(1) _ _ ok])
    fix cc
    assume ok: "cc_ok cc"
    show "sat (if sl_background sl
         then do { (off, cc) \<leftarrow> compile_segment (compile_sh_list env prog sl) OP_HALT cc;
                   emit_op_offset OP_BACKGROUND off cc }
         else compile_sh_list env prog sl cc) (refuses w cc)"
      by (assumption | rule sat_if list sat_key_pair [OF refuse_segment [OF list]] ok code_steps code_facts refuse_facts
          | (rule refuse_tail, rule code_steps)
          | (rule reaches_kept reaches_step refuse_step, assumption))+
    fix sl'
    show "sat (if sl_background sl'
         then do { (off, cc) \<leftarrow> compile_segment (compile_sh_list env prog sl') OP_HALT cc;
                   emit_op_offset OP_BACKGROUND off cc }
         else compile_sh_list env prog sl' cc) (reaches cc)"
      by (assumption | rule ok prog code_shapes code_steps code_facts
          | (rule sat_tail sat_pair_tail, rule code_steps)
          | (rule reaches_kept reaches_step, assumption))+
  qed
qed


subsection \<open>Errors anywhere in a program\<close>

abbreviation compile_to :: "program compile_env \<Rightarrow> nat \<Rightarrow> program prog" where
  "compile_to env n \<equiv> compile_nested no_deeper env n"

lemma nested_ok: "prog_ok (compile_to env n)"
  by (rule compile_nested_ok) (simp add: prog_ok_def)

text \<open>What the compiler refuses as a command it refuses wherever the command stands.\<close>

lemma stands_refused:
  assumes target: "\<And>n cc. cc_ok cc \<Longrightarrow> sat (compile_command env (compile_to env n) c cc) (refuses w cc)"
  shows "stands p l c' \<Longrightarrow> c' = c \<Longrightarrow> w \<or> \<not> l \<Longrightarrow> cc_ok cc \<Longrightarrow> sat (compile_to env n p cc) (refuses w cc)"
    and "stands_in cmd l c' \<Longrightarrow> c' = c \<Longrightarrow> w \<or> \<not> l \<Longrightarrow> cc_ok cc \<Longrightarrow>
           sat (compile_command env (compile_to env n) cmd cc) (refuses w cc)"
proof (induction arbitrary: n cc and n cc rule: stands_stands_in.inducts)
  case (listed sl p pl cmd l c')
  show ?case
  proof (cases n)
    case (Suc m)
    show ?thesis
      unfolding Suc compile_nested.simps
      by (rule refuse_program [OF nested_ok listed.hyps(1-3) listed.IH [OF listed.prems(1,2)] listed.prems(3)])
  qed simp
next
  case (itself c')
  then show ?case by (simp add: target)
next
  case (in_group p l c' k rs)
  show ?case
    unfolding compile_command.simps command_body.case Let_def
    by (rule refuse_command [OF nested_ok in_group.IH in_group.prems(3)]) (rule in_group.prems | assumption)+
next
  case (in_subshell p l c' k rs)
  show ?case
    unfolding compile_command.simps command_body.case Let_def
    by (rule refuse_command [OF nested_ok _ in_subshell.prems(3)])
       (assumption | rule sat_key_pair [OF refuse_segment [OF in_subshell.IH [OF in_subshell.prems(1,2)]]]
          code_shapes code_steps code_facts refuse_facts
        | (rule refuse_tail, rule code_steps) | (rule refuse_later, assumption))+
next
  case (in_condition p q ics l c' k rs)
  show ?case
    unfolding compile_command.simps command_body.case Let_def
    by (rule refuse_command [OF nested_ok refuse_if [OF nested_ok in_condition.IH [OF in_condition.prems(1,2)]
          in_condition.hyps(1)] in_condition.prems(3)]) simp_all
next
  case (in_clause cond p ics l c' k rs)
  show ?case
    unfolding compile_command.simps command_body.case Let_def
    by (rule refuse_command [OF nested_ok refuse_if [OF nested_ok in_clause.IH [OF in_clause.prems(1,2)]
          in_clause.hyps(1)] in_clause.prems(3)]) simp_all
next
  case (in_item pats p t items l c' k rs u)
  show ?case
    unfolding compile_command.simps command_body.case Let_def
    by (rule refuse_command [OF nested_ok refuse_case [OF nested_ok in_item.IH [OF in_item.prems(1,2)]
          in_item.hyps(1)] in_item.prems(3)])
next
  case (in_function cmd l c' k rs name)
  show ?case
    unfolding compile_command.simps command_body.case Let_def
    by (rule refuse_command [OF nested_ok refuse_funcdef [OF in_function.IH [OF in_function.prems(1,2)]]
          in_function.prems(3)])
next
  case (in_for p l c' k rs v ws)
  then have "w" by simp
  have key: "sat (compile_to env n p cc) (refuses True cc)" if "cc_ok cc" for cc
    using in_for.IH [OF in_for.prems(1) _ that] \<open>w\<close> by simp
  show ?case
    unfolding compile_command.simps command_body.case Let_def
    by (rule refuse_command [OF nested_ok refuse_for [OF nested_ok key] in_for.prems(3)])
next
  case (while_test p l c' k rs q)
  show ?case
    unfolding compile_command.simps command_body.case Let_def
    by (rule refuse_command [OF nested_ok refuse_while_test [OF nested_ok while_test.IH [OF while_test.prems(1,2)]]
          while_test.prems(3)])
next
  case (until_test p l c' k rs q)
  show ?case
    unfolding compile_command.simps command_body.case Let_def
    by (rule refuse_command [OF nested_ok refuse_while_test [OF nested_ok until_test.IH [OF until_test.prems(1,2)]]
          until_test.prems(3)])
next
  case (in_while q l c' k rs p)
  then have "w" by simp
  have key: "sat (compile_to env n q cc) (refuses True cc)" if "cc_ok cc" for cc
    using in_while.IH [OF in_while.prems(1) _ that] \<open>w\<close> by simp
  show ?case
    unfolding compile_command.simps command_body.case Let_def
    by (rule refuse_command [OF nested_ok refuse_while_body [OF nested_ok key] in_while.prems(3)])
next
  case (in_until q l c' k rs p)
  then have "w" by simp
  have key: "sat (compile_to env n q cc) (refuses True cc)" if "cc_ok cc" for cc
    using in_until.IH [OF in_until.prems(1) _ that] \<open>w\<close> by simp
  show ?case
    unfolding compile_command.simps command_body.case Let_def
    by (rule refuse_command [OF nested_ok refuse_while_body [OF nested_ok key] in_until.prems(3)])
qed

lemma refused:
  assumes "stands program l c" "w \<or> \<not> l"
    and target: "\<And>n cc. cc_ok cc \<Longrightarrow> sat (compile_command env (compile_to env n) c cc) (refuses w cc)"
    and run: "compile (compile_to env n) program filename = Some (result, printed)"
  shows "result = None"
proof -
  obtain cc1 cc2 where cc: "compile_to env n program (compiler_init filename) = Some cc1" "emit_op OP_HALT cc1 = Some cc2"
    "result = (if cc_errors cc2 > 0 then None else Some (compile_image cc2))"
    using run by (auto simp: compile_def bind_eq_Some_conv)
  have "sat (compile_to env n program (compiler_init filename)) (refuses w (compiler_init filename))"
    by (rule stands_refused(1) [OF target assms(1) refl assms(2) init_ok])
  with cc(1) have "refuses w (compiler_init filename) cc1"
    by (simp add: sat_def)
  moreover have "reaches cc1 cc2"
    using emit_steps(1) [OF op_facts(13), of cc1] cc(2) reaches_ok [OF refuses_reaches [OF calculation]]
    by (simp add: sat_def)
  ultimately have "refuses w (compiler_init filename) cc2"
    by (rule refuse_step [rotated])
  then show ?thesis
    using cc(3) by (simp add: refuses_def compiler_init_def)
qed

subsection \<open>Tests and loops\<close>

lemma test_refused:
  assumes "cc_ok cc" "test_op_from_string opr = None"
  shows "sat (compile_test opc opr lineno cc) (refuses w cc)"
  using assms by (simp add: compile_test_def sat_def error_counted)

text \<open>Two parts joined by a jump over the second.\<close>

lemma refuse_joined:
  assumes opc: "is_jump opc" and parts: "\<And>cc. cc_ok cc \<Longrightarrow> sat (l cc) (reaches cc)" "\<And>cc. cc_ok cc \<Longrightarrow> sat (r cc) (reaches cc)"
    and ok: "cc_ok cc"
  shows "(\<And>cc. cc_ok cc \<Longrightarrow> sat (l cc) (refuses w cc)) \<Longrightarrow>
      sat (do { cc \<leftarrow> l cc; (skip, cc) \<leftarrow> emit_jump opc cc; cc \<leftarrow> r cc; Some (patch_jump skip cc) }) (refuses w cc)"
    and "(\<And>cc. cc_ok cc \<Longrightarrow> sat (r cc) (refuses w cc)) \<Longrightarrow>
      sat (do { cc \<leftarrow> l cc; (skip, cc) \<leftarrow> emit_jump opc cc; cc \<leftarrow> r cc; Some (patch_jump skip cc) }) (refuses w cc)"
proof -
  assume key: "\<And>cc. cc_ok cc \<Longrightarrow> sat (l cc) (refuses w cc)"
  show "sat (do { cc \<leftarrow> l cc; (skip, cc) \<leftarrow> emit_jump opc cc; cc \<leftarrow> r cc; Some (patch_jump skip cc) }) (refuses w cc)"
    by (rule sat_key [of l, OF key], assumption, rule ok)
       (assumption | rule opc sat_step [OF parts(2)] code_shapes code_steps code_facts refuse_facts
        | (rule refuse_later, assumption) | (rule reaches_kept reaches_step refuse_step, assumption))+
next
  assume key: "\<And>cc. cc_ok cc \<Longrightarrow> sat (r cc) (refuses w cc)"
  show "sat (do { cc \<leftarrow> l cc; (skip, cc) \<leftarrow> emit_jump opc cc; cc \<leftarrow> r cc; Some (patch_jump skip cc) }) (refuses w cc)"
    by (rule sat_step [OF parts(1) [OF ok]], rule sat_pair [OF step_emit_jump [OF opc]], erule reaches_ok,
        rule sat_key [of r, OF key], assumption)
       (assumption | rule opc code_shapes code_facts refuse_facts
        | (rule refuse_later, assumption) | (rule reaches_kept reaches_step refuse_step, assumption))+
qed

lemma unknown_test_refuses:
  assumes prog: "prog_ok prog"
  shows "unknown_test expr \<Longrightarrow> cc_ok cc \<Longrightarrow> sat (compile_cond_expr env prog lineno expr cc) (refuses w cc)"
proof (induction expr arbitrary: cc)
  case (COND_AND lhs rhs)
  from COND_AND.prems(1) consider "unknown_test lhs" | "unknown_test rhs" by auto
  then show ?case
    unfolding compile_cond_expr.simps
  proof cases
    case 1
    show "sat (do { cc \<leftarrow> compile_cond_expr env prog lineno lhs cc; (skip, cc) \<leftarrow> emit_jump OP_JMP_FALSE cc;
                    cc \<leftarrow> compile_cond_expr env prog lineno rhs cc; Some (patch_jump skip cc) }) (refuses w cc)"
      by (rule refuse_joined(1) [OF op_facts(36) step_cond_expr [OF prog] step_cond_expr [OF prog] COND_AND.prems(2)
            COND_AND.IH(1) [OF 1]])
  next
    case 2
    show "sat (do { cc \<leftarrow> compile_cond_expr env prog lineno lhs cc; (skip, cc) \<leftarrow> emit_jump OP_JMP_FALSE cc;
                    cc \<leftarrow> compile_cond_expr env prog lineno rhs cc; Some (patch_jump skip cc) }) (refuses w cc)"
      by (rule refuse_joined(2) [OF op_facts(36) step_cond_expr [OF prog] step_cond_expr [OF prog] COND_AND.prems(2)
            COND_AND.IH(2) [OF 2]])
  qed
next
  case (COND_OR lhs rhs)
  from COND_OR.prems(1) consider "unknown_test lhs" | "unknown_test rhs" by auto
  then show ?case
    unfolding compile_cond_expr.simps
  proof cases
    case 1
    show "sat (do { cc \<leftarrow> compile_cond_expr env prog lineno lhs cc; (skip, cc) \<leftarrow> emit_jump OP_JMP_TRUE cc;
                    cc \<leftarrow> compile_cond_expr env prog lineno rhs cc; Some (patch_jump skip cc) }) (refuses w cc)"
      by (rule refuse_joined(1) [OF op_facts(35) step_cond_expr [OF prog] step_cond_expr [OF prog] COND_OR.prems(2)
            COND_OR.IH(1) [OF 1]])
  next
    case 2
    show "sat (do { cc \<leftarrow> compile_cond_expr env prog lineno lhs cc; (skip, cc) \<leftarrow> emit_jump OP_JMP_TRUE cc;
                    cc \<leftarrow> compile_cond_expr env prog lineno rhs cc; Some (patch_jump skip cc) }) (refuses w cc)"
      by (rule refuse_joined(2) [OF op_facts(35) step_cond_expr [OF prog] step_cond_expr [OF prog] COND_OR.prems(2)
            COND_OR.IH(2) [OF 2]])
  qed
next
  case (COND_NOT child)
  have key: "sat (compile_cond_expr env prog lineno child cc) (refuses w cc)" if "cc_ok cc" for cc
    using COND_NOT.IH COND_NOT.prems(1) that by simp
  show ?case
    unfolding compile_cond_expr.simps
    by (rule sat_key [of "compile_cond_expr env prog lineno child", OF key], assumption, rule COND_NOT.prems(2))
       (assumption | rule refuse_tail [OF emit_steps(1)] op_facts | erule reaches_ok)+
next
  case (COND_UNARY opr arg)
  then have "test_op_from_string opr = None" by simp
  then show ?case
    unfolding compile_cond_expr.simps
    by (intro sat_step [OF compile_word_ok(1) [OF prog COND_UNARY.prems(2)]] refuse_later_tail [OF test_refused])
       (auto intro: reaches_ok)
next
  case (COND_BINARY opr lhs rhs)
  then have opr: "test_op_from_string opr = None" "opr \<noteq> ''=~''" by simp_all
  show ?case
    unfolding compile_cond_expr.simps
  proof (rule sat_step [OF compile_word_ok(1) [OF prog COND_BINARY.prems(2)]],
      rule sat_step [OF compile_word_ok(1) [OF prog reaches_ok]], assumption)
    fix cc1 cc2
    assume "reaches cc cc1" "reaches cc1 cc2"
    then show "sat (if opr = ''=~'' then emit_op_u8 OP_TEST_BINARY TEST_REGEX cc2
                    else compile_test OP_TEST_BINARY opr lineno cc2) (refuses w cc)"
      using opr by (auto intro: refuse_later_tail [OF test_refused] reaches_ok reaches_trans)
  qed
qed simp

text \<open>
  C8. A \<^verbatim>\<open>[[ ]]\<close> with an operator the compiler has no number for, wherever it is in the expression and
  wherever the command stands in the script (behind other commands, in a pipeline, a loop, a condition,
  a function, with redirections), makes the compilation fail: the error is counted and no image is
  given. Commands of command substitutions are not spoken of. The parser accepts two such operators,
  less and greater than.
\<close>

theorem unknown_test_refused:
  assumes "stands program in_loop (Command lineno redirs (CT_BRACKET (Some expr)))" "unknown_test expr"
    "compile (compile_nested no_deeper env n) program filename = Some (result, printed)"
  shows "result = None"
proof (rule refused [OF assms(1) _ _ assms(3), of True])
  fix n cc
  assume ok: "cc_ok cc"
  show "sat (compile_command env (compile_to env n) (Command lineno redirs (CT_BRACKET (Some expr))) cc) (refuses True cc)"
    unfolding compile_command.simps command_body.case option.case Let_def
    by (rule refuse_command [OF nested_ok unknown_test_refuses [OF nested_ok assms(2)] ok])
qed simp

text \<open>\<^verbatim>\<open>f() { [[ a < b ]]; }\<close>, with the function never called.\<close>

definition less_function :: program where
  "less_function = command_list (CT_FUNCDEF ''f'' (Command 1 [] (CT_GROUP
     (command_list (CT_BRACKET (Some (COND_BINARY ''<'' [WP_LITERAL False ''a''] [WP_LITERAL False ''b''])))))))"

lemma less_compiled:
  "\<exists>result printed. compile (compile_nested no_deeper no_modules (Suc (Suc 0))) less_function ''x'' =
     Some (result, printed)"
  by (simp add: less_function_def command_list_def compile_eval compile_funcdef_def compile_test_def
      test_op_from_string_def test_op_table_def MAX_FUNC_COUNT_def)

theorem unknown_test_refused_witness:
  "\<exists>text. compile (compile_nested no_deeper no_modules (Suc (Suc 0))) less_function ''x'' = Some (None, text)"
proof -
  obtain result printed where run: "compile (compile_nested no_deeper no_modules (Suc (Suc 0))) less_function ''x'' =
      Some (result, printed)"
    using less_compiled by blast
  let ?expr = "COND_BINARY ''<'' [WP_LITERAL False ''a''] [WP_LITERAL False ''b''] :: program cond_expr"
  have "stands (command_list (CT_BRACKET (Some ?expr))) False (Command 1 [] (CT_BRACKET (Some ?expr)))"
    unfolding command_list_def by (rule listed [OF _ _ _ itself]) auto
  from in_function [OF in_group [OF this]] have "stands less_function False (Command 1 [] (CT_BRACKET (Some ?expr)))"
    unfolding less_function_def command_list_def [of "CT_FUNCDEF f c" for f c] by (rule listed [rotated 3]) auto
  moreover have "unknown_test ?expr"
    by (simp add: test_op_from_string_def test_op_table_def)
  ultimately have "result = None"
    using run by (rule unknown_test_refused)
  with run show ?thesis
    by blast
qed

text \<open>
  C9. A \<^verbatim>\<open>break\<close> or \<^verbatim>\<open>continue\<close> outside every loop, whatever its words, is refused wherever it stands: behind
  loops that have ended, in a group, a subshell, a pipeline, a clause or a function, and in the
  condition of a \<^verbatim>\<open>while\<close> that no other loop is around. Commands of command substitutions are not spoken
  of, and the body of a function that is defined in a loop counts as inside that loop.
\<close>

theorem misplaced_break_refused:
  assumes "words \<noteq> []" "is_literal_word (hd words)" "literal_value (hd words) \<in> {''break'', ''continue''}"
    "stands program False (Command lineno redirs (CT_SIMPLE assigns words arrays))"
    "compile (compile_nested no_deeper env n) program filename = Some (result, printed)"
  shows "result = None"
proof (rule refused [OF assms(4) _ _ assms(5), of False])
  fix n cc
  assume ok: "cc_ok cc"
  have "sat (compile_break is_break words lineno cc) (refuses False cc)" for is_break
  proof (cases "cc_loops cc = []")
    case True
    with ok show ?thesis
      by (auto simp: compile_break_def sat_def error_counted split: option.splits)
  next
    case False
    with step_break [OF ok, of is_break words lineno] show ?thesis
      by (auto simp: sat_def refuses_def)
  qed
  then show "sat (compile_command env (compile_to env n) (Command lineno redirs (CT_SIMPLE assigns words arrays)) cc)
      (refuses False cc)"
    using assms(1-3) by (auto simp: compile_simple_def is_simple_def Let_def)
qed simp

text \<open>A \<^verbatim>\<open>break\<close> behind a loop.\<close>

lemma break_compiled:
  "\<exists>result printed. compile (compile_nested no_deeper no_modules (Suc (Suc 0))) (spin @ simple_list [''break'']) ''x'' =
     Some (result, printed)"
  by (simp add: spin_def simple_list_def command_list_def compile_eval)

theorem misplaced_break_refused_witness:
  "\<exists>text. compile (compile_nested no_deeper no_modules (Suc (Suc 0))) (spin @ simple_list [''break'']) ''x'' =
     Some (None, text)"
proof -
  obtain result printed where run: "compile (compile_nested no_deeper no_modules (Suc (Suc 0)))
      (spin @ simple_list [''break'']) ''x'' = Some (result, printed)"
    using break_compiled by blast
  have "stands (spin @ simple_list [''break'']) False (Command 1 [] (CT_SIMPLE [] [[WP_LITERAL False ''break'']] []))"
    unfolding simple_list_def command_list_def by (rule listed [OF _ _ _ itself]) auto
  from misplaced_break_refused [OF _ _ _ this run] have "result = None"
    by simp
  with run show ?thesis
    by blast
qed


end
