(* ===== verification/Lexer.thy ===== *)
theory Lexer
  imports Ast Cstd
begin

text \<open>
  \<^verbatim>\<open>src/parser/lexer.c\<close>: the state of the lexer, the parts of words it recognises, and its tokens.
  \<open>lx_text\<close> is the source from \<^verbatim>\<open>pos\<close> on; a C string holds no NUL, so \<^verbatim>\<open>lexer_char\<close> gives NUL
  exactly at the end. Line numbers are not wrapped at \<open>2 ^ 32\<close>. What is printed is collected in
  \<open>lx_stderr\<close>. A word is the list of its parts, and \<^verbatim>\<open>NULL\<close> is the empty list.
\<close>

subsection \<open>State\<close>

datatype (plugins only: code size) token_type =
  TOK_EOF | TOK_NEWLINE | TOK_WORD | TOK_IO_NUMBER | TOK_ASSIGNMENT
  | TOK_PIPE | TOK_AND_IF | TOK_OR_IF | TOK_SEMI | TOK_DSEMI | TOK_SEMIAND | TOK_SEMIPIPE | TOK_AMP
  | TOK_LPAREN | TOK_RPAREN | TOK_LBRACE | TOK_RBRACE
  | TOK_LESS | TOK_GREAT | TOK_DLESS | TOK_DGREAT | TOK_LESSAND | TOK_GREATAND | TOK_LESSGREAT
  | TOK_CLOBBER | TOK_TLESS | TOK_DLESSDASH
  | TOK_IF | TOK_THEN | TOK_ELSE | TOK_ELIF | TOK_FI | TOK_DO | TOK_DONE | TOK_CASE | TOK_ESAC
  | TOK_WHILE | TOK_UNTIL | TOK_FOR | TOK_IN | TOK_FUNCTION | TOK_BANG
  | TOK_DBRACK_OPEN | TOK_DBRACK_CLOSE

record 'p token =
  tok_type :: token_type
  tok_value :: "string option"
  tok_word :: "'p wordu"
  tok_lineno :: nat

record 'p lexer =
  lx_text :: string
  lx_lineno :: nat
  lx_filename :: string
  lx_reserved :: bool
  lx_regex :: bool
  lx_lookahead :: "'p token option"
  lx_errors :: nat
  lx_comments :: "(string \<times> nat) list"
  lx_stderr :: string

definition lexer_init :: "string \<Rightarrow> string \<Rightarrow> 'p lexer" where
  "lexer_init source filename =
     \<lparr>lx_text = source, lx_lineno = 1, lx_filename = filename, lx_reserved = True, lx_regex = False,
      lx_lookahead = None, lx_errors = 0, lx_comments = [], lx_stderr = []\<rparr>"

definition message :: "string \<Rightarrow> nat \<Rightarrow> string \<Rightarrow> string" where
  "message filename lineno msg =
     ''opsh: '' @ filename @ '':'' @ show_nat lineno @ '': '' @ msg @ [CHR 0x0A]"

definition lexer_print :: "string \<Rightarrow> 'p lexer \<Rightarrow> 'p lexer" where
  "lexer_print s lx = lx\<lparr>lx_stderr := lx_stderr lx @ s\<rparr>"

definition lexer_error :: "string \<Rightarrow> 'p lexer \<Rightarrow> 'p lexer" where
  "lexer_error msg lx =
     (lexer_print (message (lx_filename lx) (lx_lineno lx) msg) lx)\<lparr>lx_errors := lx_errors lx + 1\<rparr>"

abbreviation lexer_char :: "'p lexer \<Rightarrow> char" where
  "lexer_char lx \<equiv> peek (lx_text lx) 0"

abbreviation lexer_peek_char :: "'p lexer \<Rightarrow> nat \<Rightarrow> char" where
  "lexer_peek_char lx n \<equiv> peek (lx_text lx) n"

abbreviation at_end :: "'p lexer \<Rightarrow> bool" where
  "at_end lx \<equiv> lx_text lx = []"

definition lexer_advance :: "'p lexer \<Rightarrow> 'p lexer" where
  "lexer_advance lx =
     (case lx_text lx of
        [] \<Rightarrow> lx
      | c # s \<Rightarrow> lx\<lparr>lx_text := s, lx_lineno := (if c = CHR 0x0A then lx_lineno lx + 1 else lx_lineno lx)\<rparr>)"

lemma advance_length [simp]: "length (lx_text (lexer_advance lx)) = length (lx_text lx) - 1"
  by (simp add: lexer_advance_def split: list.split)

lemma print_error_text [simp]:
  "lx_text (lexer_print s lx) = lx_text lx" "lx_text (lexer_error msg lx) = lx_text lx"
  by (simp_all add: lexer_print_def lexer_error_def)

text \<open>
  What every function on the lexer keeps: it consumes a prefix of the text and counts the newlines in
  it, errors are only added and output only appended. The modes and the token looked ahead belong to
  the parser.
\<close>

definition newlines :: "string \<Rightarrow> nat" where
  "newlines s = length (filter (\<lambda>c. c = CHR 0x0A) s)"

lemma newlines_simps [simp]:
  "newlines [] = 0" "newlines (c # s) = (if c = CHR 0x0A then newlines s + 1 else newlines s)"
  "newlines (s @ t) = newlines s + newlines t"
  by (simp_all add: newlines_def)

definition lexes :: "'p lexer \<Rightarrow> 'p lexer \<Rightarrow> bool" where
  "lexes lx lx' \<longleftrightarrow>
     (\<exists>s. lx_text lx = s @ lx_text lx' \<and> lx_lineno lx' = lx_lineno lx + newlines s) \<and>
     lx_errors lx \<le> lx_errors lx' \<and> (\<exists>out. lx_stderr lx' = lx_stderr lx @ out) \<and>
     (\<exists>cs. lx_comments lx' = lx_comments lx @ cs) \<and>
     lx_filename lx' = lx_filename lx \<and> lx_reserved lx' = lx_reserved lx \<and>
     lx_regex lx' = lx_regex lx \<and> lx_lookahead lx' = lx_lookahead lx"

named_theorems lexes_intros \<open>results that are written out as a call\<close>
named_theorems lexes_calls \<open>results that an equation gives: the equation is the first premise\<close>

lemma lexes_refl [simp]: "lexes lx lx"
  by (simp add: lexes_def)

lemma lexes_trans:
  assumes "lexes lx lx1" "lexes lx1 lx2"
  shows "lexes lx lx2"
proof -
  obtain s1 where "lx_text lx = s1 @ lx_text lx1" "lx_lineno lx1 = lx_lineno lx + newlines s1"
    using assms(1) by (auto simp: lexes_def)
  moreover obtain s2 where "lx_text lx1 = s2 @ lx_text lx2" "lx_lineno lx2 = lx_lineno lx1 + newlines s2"
    using assms(2) by (auto simp: lexes_def)
  ultimately have "\<exists>s. lx_text lx = s @ lx_text lx2 \<and> lx_lineno lx2 = lx_lineno lx + newlines s"
    by (intro exI [of _ "s1 @ s2"]) simp
  then show ?thesis
    using assms by (auto simp: lexes_def)
qed

lemma lexes_after: "lexes lx1 lx2 \<Longrightarrow> lexes lx lx1 \<Longrightarrow> lexes lx lx2"
  by (rule lexes_trans)

lemma lexes_advance: "lexes lx (lexer_advance lx)"
proof (cases "lx_text lx")
  case (Cons c s)
  then show ?thesis
    by (auto simp: lexes_def lexer_advance_def intro!: exI [of _ "[c]"])
qed (simp add: lexer_advance_def)

lemma lexes_print: "lexes lx (lexer_print s lx)"
  by (simp add: lexes_def lexer_print_def)

lemma lexes_error: "lexes lx (lexer_error msg lx)"
  by (simp add: lexes_def lexer_print_def lexer_error_def)

lemmas lexes_basic [lexes_intros] =
  lexes_refl lexes_advance [THEN lexes_after] lexes_print [THEN lexes_after] lexes_error [THEN lexes_after]

lemma lexes_length: "lexes lx lx' \<Longrightarrow> length (lx_text lx') \<le> length (lx_text lx)"
  by (auto simp: lexes_def)

lemma lexes_advance_trans: "lexes (lexer_advance lx) lx' \<Longrightarrow> lexes lx lx'"
  by (rule lexes_trans [OF lexes_advance])

text \<open>A call that consumes something, and induction over such calls.\<close>

definition eats :: "'p lexer \<Rightarrow> 'p lexer \<Rightarrow> bool" where
  "eats lx lx' \<longleftrightarrow> lexes lx lx' \<and> length (lx_text lx') < length (lx_text lx)"

lemma eats_lexes: "eats lx lx' \<Longrightarrow> lexes lx lx'"
  by (simp add: eats_def)

lemma eats_advance: "\<not> at_end lx \<Longrightarrow> lexes (lexer_advance lx) lx' \<Longrightarrow> eats lx lx'"
  using lexes_advance [of lx] lexes_length [of "lexer_advance lx" lx']
  by (cases "lx_text lx") (auto simp: eats_def intro: lexes_trans)

lemma eats_induct [case_names eats]:
  assumes "\<And>lx. (\<And>lx'. eats lx lx' \<Longrightarrow> P lx') \<Longrightarrow> P lx"
  shows "P lx"
  by (induction "length (lx_text lx)" arbitrary: lx rule: less_induct) (auto intro: assms simp: eats_def)

lemma lexes_if [lexes_intros]:
  "lexes lx lx1 \<Longrightarrow> lexes lx lx2 \<Longrightarrow> lexes lx (if b then lx1 else lx2)"
  by simp

subsection \<open>Characters\<close>

definition isdigit :: "char \<Rightarrow> bool" where
  "isdigit c = between CHR ''0'' CHR ''9'' c"

definition isalpha :: "char \<Rightarrow> bool" where
  "isalpha c \<longleftrightarrow> between CHR ''a'' CHR ''z'' c \<or> between CHR ''A'' CHR ''Z'' c"

definition isalnum :: "char \<Rightarrow> bool" where
  "isalnum c \<longleftrightarrow> isalpha c \<or> isdigit c"

definition name_char :: "char \<Rightarrow> bool" where
  "name_char c \<longleftrightarrow> isalnum c \<or> c = CHR ''_''"

definition is_operator_start :: "char \<Rightarrow> bool" where
  "is_operator_start c \<longleftrightarrow> c \<in> {CHR ''|'', CHR ''&'', CHR '';'', CHR ''<'', CHR ''>'', CHR ''('', CHR '')''}"

definition is_word_char :: "char \<Rightarrow> bool" where
  "is_word_char c \<longleftrightarrow> c \<noteq> NUL \<and> c \<noteq> CHR 0x0A \<and> c \<noteq> CHR '' '' \<and> c \<noteq> CHR 0x09 \<and> \<not> is_operator_start c"

definition dquote :: char where
  "dquote = CHR 0x22"

definition squote :: char where
  "squote = CHR 0x27"

definition backslash :: char where
  "backslash = CHR 0x5C"

definition backtick :: char where
  "backtick = CHR 0x60"

lemmas quote_defs = dquote_def squote_def backslash_def backtick_def

subsection \<open>Blanks and comments\<close>

text \<open>The characters of the text up to one that \<open>P\<close> excludes.\<close>

function (sequential) scan_while :: "(char \<Rightarrow> bool) \<Rightarrow> 'p lexer \<Rightarrow> string \<times> 'p lexer" where
  "scan_while P lx =
     (if at_end lx \<or> \<not> P (lexer_char lx) then ([], lx)
      else case scan_while P (lexer_advance lx) of (s, lx') \<Rightarrow> (lexer_char lx # s, lx'))"
  by pat_completeness auto
termination
  by (relation "measure (\<lambda>(P, lx). length (lx_text lx))") auto

declare scan_while.simps [simp del]

lemma scan_while_length: "scan_while P lx = (s, lx') \<Longrightarrow> length s + length (lx_text lx') = length (lx_text lx)"
proof (induction P lx arbitrary: s rule: scan_while.induct)
  case (1 P lx)
  show ?case
    using 1 by (cases "lx_text lx") (auto simp: scan_while.simps [of P lx] split: if_splits prod.splits)
qed

function (sequential) lexer_skip_whitespace :: "'p lexer \<Rightarrow> 'p lexer" where
  "lexer_skip_whitespace lx =
     (case lx_text lx of
        [] \<Rightarrow> lx
      | c # s \<Rightarrow>
          if c = CHR '' '' \<or> c = CHR 0x09 then lexer_skip_whitespace (lx\<lparr>lx_text := s\<rparr>)
          else if c = CHR ''#'' then
            lexer_skip_whitespace
              (lx\<lparr>lx_text := dropWhile (\<lambda>c. c \<noteq> CHR 0x0A) (c # s),
                   lx_comments := lx_comments lx @ [(takeWhile (\<lambda>c. c \<noteq> CHR 0x0A) (c # s), lx_lineno lx)]\<rparr>)
          else if c = backslash \<and> peek s 0 = CHR 0x0A then
            lexer_skip_whitespace (lx\<lparr>lx_text := tl s, lx_lineno := lx_lineno lx + 1\<rparr>)
          else lx)"
  by pat_completeness auto
termination
  by (relation "measure (\<lambda>lx. length (lx_text lx))")
    (auto simp: le_imp_less_Suc length_dropWhile_le)

declare lexer_skip_whitespace.simps [simp del]

lemma lexes_scan_while: "lexes lx (snd (scan_while P lx))"
proof (induction P lx rule: scan_while.induct)
  case (1 P lx)
  then show ?case
    by (auto simp: scan_while.simps [of P lx] split: prod.splits dest!: lexes_advance_trans)
qed

lemma newlines_takeWhile: "newlines (takeWhile (\<lambda>c. c \<noteq> CHR 0x0A) s) = 0"
  by (induction s) auto

lemma lexes_skip_whitespace: "lexes lx (lexer_skip_whitespace lx)"
proof (induction lx rule: lexer_skip_whitespace.induct)
  case (1 lx)
  show ?case
  proof (cases "lx_text lx")
    case (Cons c s)
    have blank: "c = CHR '' '' \<or> c = CHR 0x09 \<Longrightarrow> lexes lx (lx\<lparr>lx_text := s\<rparr>)"
      using Cons by (auto simp: lexes_def intro: exI [of _ "[c]"])
    have comment: "lexes lx (lx\<lparr>lx_text := dropWhile (\<lambda>c. c \<noteq> CHR 0x0A) (c # s), lx_comments := lx_comments lx @ cs\<rparr>)"
      if "c = CHR ''#''" for cs
    proof -
      let ?s = "takeWhile (\<lambda>c. c \<noteq> CHR 0x0A) (c # s)"
      have "lx_text lx = ?s @ dropWhile (\<lambda>c. c \<noteq> CHR 0x0A) (c # s)" "newlines ?s = 0"
        by (simp_all only: Cons takeWhile_dropWhile_id newlines_takeWhile)
      then have "\<exists>s'. lx_text lx = s' @ dropWhile (\<lambda>c. c \<noteq> CHR 0x0A) (c # s) \<and> newlines s' = 0"
        by blast
      then show ?thesis
        by (auto simp: lexes_def simp del: dropWhile.simps)
    qed
    have continued: "lexes lx (lx\<lparr>lx_text := tl s, lx_lineno := lx_lineno lx + 1\<rparr>)"
      if "c = backslash" "peek s 0 = CHR 0x0A"
      using Cons that unfolding lexes_def
      by (cases s) (auto simp: quote_defs NUL_def intro!: exI [of _ "[c, hd s]"])
    note IH = 1 [OF Cons]
    show ?thesis
      unfolding lexer_skip_whitespace.simps [of lx] Cons list.case
      using lexes_trans [OF blank IH(1)] lexes_trans [OF comment IH(2)]
        lexes_trans [OF continued IH(3)] by (auto simp del: takeWhile.simps dropWhile.simps)
  qed (simp add: lexer_skip_whitespace.simps [of lx])
qed

subsection \<open>Quoted text inside expansions\<close>

function (sequential) scan_dquoted :: "'p lexer \<Rightarrow> string \<times> 'p lexer" where
  "scan_dquoted lx =
     (if at_end lx \<or> lexer_char lx = dquote then ([], lx)
      else if lexer_char lx = backslash \<and> length (lx_text lx) > 1
      then (case scan_dquoted (lexer_advance (lexer_advance lx)) of
              (s, lx') \<Rightarrow> (backslash # lexer_peek_char lx 1 # s, lx'))
      else (case scan_dquoted (lexer_advance lx) of (s, lx') \<Rightarrow> (lexer_char lx # s, lx')))"
  by pat_completeness auto
termination
  by (relation "measure (\<lambda>lx. length (lx_text lx))") auto

declare scan_dquoted.simps [simp del]

lemma scan_dquoted_length:
  "scan_dquoted lx = (s, lx') \<Longrightarrow> length s + length (lx_text lx') = length (lx_text lx)"
proof (induction lx arbitrary: s rule: scan_dquoted.induct)
  case (1 lx)
  show ?case
    using 1 by (cases "lx_text lx") (auto simp: scan_dquoted.simps [of lx] split: if_splits prod.splits)
qed

text \<open>The quoted string at an opening quote \<open>q\<close>, with its quotes; the closing one may be missing.\<close>

definition copy_quoted :: "char \<Rightarrow> 'p lexer \<Rightarrow> string \<times> 'p lexer" where
  "copy_quoted q lx =
     (case (if q = dquote then scan_dquoted (lexer_advance lx)
            else scan_while (\<lambda>c. c \<noteq> q) (lexer_advance lx)) of
        (s, lx) \<Rightarrow> if at_end lx then (q # s, lx) else (q # s @ [q], lexer_advance lx))"

lemma copy_quoted_length:
  "copy_quoted q lx = (s, lx') \<Longrightarrow> \<not> at_end lx \<Longrightarrow> length s + length (lx_text lx') = length (lx_text lx)"
  unfolding copy_quoted_def
  by (cases "lx_text lx")
    (auto simp: neq_Nil_conv split: if_splits prod.splits dest!: scan_dquoted_length scan_while_length)

lemma copy_quoted_shorter:
  assumes "(s, lx') = copy_quoted q lx" "\<not> at_end lx"
  shows "length (lx_text lx') < length (lx_text lx)"
proof -
  have "s \<noteq> []"
    using assms(1) by (auto simp: copy_quoted_def split: if_splits prod.splits)
  then show ?thesis
    using copy_quoted_length [OF assms(1) [symmetric] assms(2)] by (cases s) auto
qed

text \<open>The text of \<^verbatim>\<open>$(...)\<close> after the parenthesis, up to the one that closes it.\<close>

function (sequential) cmdsub_text :: "nat \<Rightarrow> 'p lexer \<Rightarrow> string \<times> 'p lexer" where
  "cmdsub_text depth lx =
     (if at_end lx then ([], lx)
      else
        (let c = lexer_char lx in
         if c = squote \<or> c = dquote
         then (case copy_quoted c lx of (q, lx1) \<Rightarrow>
                 (case cmdsub_text depth lx1 of (s, lx') \<Rightarrow> (q @ s, lx')))
         else if c = backslash \<and> length (lx_text lx) > 1
         then (case cmdsub_text depth (lexer_advance (lexer_advance lx)) of
                 (s, lx') \<Rightarrow> (c # lexer_peek_char lx 1 # s, lx'))
         else if c = CHR '')'' \<and> depth \<le> 1 then ([], lexer_advance lx)
         else
           (let depth' = (if c = CHR ''('' then depth + 1 else if c = CHR '')'' then depth - 1 else depth) in
            case cmdsub_text depth' (lexer_advance lx) of (s, lx') \<Rightarrow> (c # s, lx'))))"
  by pat_completeness auto
termination
  by (relation "measure (\<lambda>(depth, lx). length (lx_text lx))")
    (auto dest: copy_quoted_shorter)

declare cmdsub_text.simps [simp del]

text \<open>
  The expression of \<^verbatim>\<open>$((...))\<close>: two parentheses are open, and the first one that closes is kept.
\<close>

function (sequential) arith_text :: "nat \<Rightarrow> 'p lexer \<Rightarrow> string \<times> 'p lexer" where
  "arith_text depth lx =
     (if at_end lx then ([], lx)
      else
        (let c = lexer_char lx in
         if c = squote \<or> c = dquote
         then (case copy_quoted c lx of (q, lx1) \<Rightarrow>
                 (case arith_text depth lx1 of (s, lx') \<Rightarrow> (q @ s, lx')))
         else if c = CHR '')'' \<and> depth \<le> 1 then ([], lexer_advance lx)
         else
           (let depth' = (if c = CHR ''('' then depth + 1 else if c = CHR '')'' then depth - 1 else depth) in
            case arith_text depth' (lexer_advance lx) of (s, lx') \<Rightarrow> (c # s, lx'))))"
  by pat_completeness auto
termination
  by (relation "measure (\<lambda>(depth, lx). length (lx_text lx))") (auto dest: copy_quoted_shorter)

declare arith_text.simps [simp del]

text \<open>The parentheses of a command substitution inside \<^verbatim>\<open>${...}\<close>, the closing one included.\<close>

function (sequential) paren_text :: "nat \<Rightarrow> 'p lexer \<Rightarrow> string \<times> 'p lexer" where
  "paren_text depth lx =
     (if at_end lx then ([], lx)
      else
        (let c = lexer_char lx in
         if c = squote \<or> c = dquote
         then (case copy_quoted c lx of (q, lx1) \<Rightarrow>
                 (case paren_text depth lx1 of (s, lx') \<Rightarrow> (q @ s, lx')))
         else if c = CHR '')'' \<and> depth \<le> 1 then ([c], lexer_advance lx)
         else
           (let depth' = (if c = CHR ''('' then depth + 1 else if c = CHR '')'' then depth - 1 else depth) in
            case paren_text depth' (lexer_advance lx) of (s, lx') \<Rightarrow> (c # s, lx'))))"
  by pat_completeness auto
termination
  by (relation "measure (\<lambda>(depth, lx). length (lx_text lx))") (auto dest: copy_quoted_shorter)

declare paren_text.simps [simp del]

text \<open>The text between backticks, in which a backslash quotes itself, a dollar sign and a backtick.\<close>

function (sequential) backtick_text :: "'p lexer \<Rightarrow> string \<times> bool \<times> 'p lexer" where
  "backtick_text lx =
     (if at_end lx then ([], False, lx)
      else
        (let c = lexer_char lx in
         if c = backtick then ([], True, lexer_advance lx)
         else if c = backslash
         then
           (let lx = lexer_advance lx; c = lexer_char lx in
            if c = CHR ''$'' \<or> c = backtick \<or> c = backslash
            then (case backtick_text (lexer_advance lx) of (s, r) \<Rightarrow> (c # s, r))
            else if c \<noteq> NUL
            then (case backtick_text (lexer_advance lx) of (s, r) \<Rightarrow> (backslash # c # s, r))
            else (case backtick_text lx of (s, r) \<Rightarrow> (backslash # s, r)))
         else (case backtick_text (lexer_advance lx) of (s, r) \<Rightarrow> (c # s, r))))"
  by pat_completeness auto
termination
  by (relation "measure (\<lambda>lx. length (lx_text lx))") (auto simp: neq_Nil_conv)

declare backtick_text.simps [simp del]

subsection \<open>Parameter expansions\<close>

text \<open>
  A text inside an expansion is read again by a lexer of its own. \<open>sub in_dquote in_heredoc raw\<close> gives
  the parts of such a text and what that lexer printed; its error count is not used by the code.
\<close>

type_synonym 'p sub_lexer = "bool \<Rightarrow> bool \<Rightarrow> string \<Rightarrow> 'p wordu \<times> string"

primrec set_quoted :: "bool \<Rightarrow> 'p word_part \<Rightarrow> 'p word_part" where
  "set_quoted quoted (WP_LITERAL _ s) = WP_LITERAL quoted s"
| "set_quoted quoted (WP_PARAM _ pe) = WP_PARAM quoted pe"
| "set_quoted quoted (WP_CMDSUB _ cs) = WP_CMDSUB quoted cs"
| "set_quoted quoted (WP_ARITH _ w) = WP_ARITH quoted w"

definition special_param :: "char \<Rightarrow> bool" where
  "special_param c \<longleftrightarrow>
     c \<in> {CHR ''?'', CHR ''$'', CHR ''!'', CHR ''#'', CHR ''@'', CHR ''*'', CHR ''-'', CHR ''_''} \<or> isdigit c"

definition braced_name :: "'p lexer \<Rightarrow> string \<times> 'p lexer" where
  "braced_name lx =
     (let c = lexer_char lx in
      if c \<in> {CHR ''?'', CHR ''$'', CHR ''!'', CHR ''@'', CHR ''*'', CHR ''-''} \<or>
         c = CHR ''#'' \<and> lexer_peek_char lx 1 = CHR ''}''
      then ([c], lexer_advance lx)
      else if isdigit c then scan_while isdigit lx
      else scan_while name_char lx)"

function (sequential) index_text :: "nat \<Rightarrow> 'p lexer \<Rightarrow> string \<times> 'p lexer" where
  "index_text depth lx =
     (if at_end lx then ([], lx)
      else
        (let c = lexer_char lx in
         if c = CHR '']'' \<and> depth \<le> 1 then ([], lx)
         else
           (let depth' = (if c = CHR ''['' then depth + 1 else if c = CHR '']'' then depth - 1 else depth) in
            case index_text depth' (lexer_advance lx) of (s, lx') \<Rightarrow> (c # s, lx'))))"
  by pat_completeness auto
termination
  by (relation "measure (\<lambda>(depth, lx). length (lx_text lx))") auto

declare index_text.simps [simp del]

definition param_index :: "'p sub_lexer \<Rightarrow> 'p lexer \<Rightarrow> 'p wordu \<times> bool \<times> 'p lexer" where
  "param_index sub lx =
     (let lx = lexer_advance lx; c = lexer_char lx in
      case (if c = CHR ''@'' \<or> c = CHR ''*'' then ([], True, lexer_advance lx)
            else
              (case index_text 1 lx of (raw, lx) \<Rightarrow>
                 if raw \<noteq> []
                 then (case sub True True raw of (w, out) \<Rightarrow> (map (set_quoted False) w, False, lexer_print out lx))
                 else ([], False, lx))) of
        (index, index_all, lx) \<Rightarrow>
          (index, index_all, if lexer_char lx = CHR '']'' then lexer_advance lx else lx))"

text \<open>The operator after the name, and the lexer behind it; \<open>None\<close> for an unexpected character.\<close>

definition param_op :: "'p lexer \<Rightarrow> (param_exp_type \<times> u32) option \<times> u32 \<times> 'p lexer" where
  "param_op lx =
     (let colon = (lexer_char lx = CHR '':'');
          flags = (if colon then PE_COLON else 0);
          lx = (if colon then lexer_advance lx else lx);
          c = lexer_char lx;
          lx1 = lexer_advance lx;
          c1 = lexer_char lx1 in
      if c = CHR ''-'' then (Some (PE_DEFAULT, flags), flags, lx1)
      else if c = CHR ''+'' then (Some (PE_ALTERNATE, flags), flags, lx1)
      else if c = CHR ''='' then (Some (PE_ASSIGN, flags), flags, lx1)
      else if c = CHR ''?'' then (Some (PE_ERROR, flags), flags, lx1)
      else if c = CHR ''#'' then
        (if c1 = CHR ''#'' then (Some (PE_TRIM, flags OR PE_PREFIX OR PE_LONGEST), flags, lexer_advance lx1)
         else (Some (PE_TRIM, flags OR PE_PREFIX), flags, lx1))
      else if c = CHR ''%'' then
        (if c1 = CHR ''%'' then (Some (PE_TRIM, flags OR PE_SUFFIX OR PE_LONGEST), flags, lexer_advance lx1)
         else (Some (PE_TRIM, flags OR PE_SUFFIX), flags, lx1))
      else if c = CHR ''/'' then
        (if c1 = CHR ''/'' then (Some (PE_REPLACE, flags OR PE_GLOBAL), flags, lexer_advance lx1)
         else if c1 = CHR ''#'' then (Some (PE_REPLACE, flags OR PE_PREFIX), flags, lexer_advance lx1)
         else if c1 = CHR ''%'' then (Some (PE_REPLACE, flags OR PE_SUFFIX), flags, lexer_advance lx1)
         else (Some (PE_REPLACE, flags), flags, lx1))
      else (None, flags, lx))"

text \<open>
  The word argument: the raw text up to the closing brace, \<open>word\<close> what was collected so far. The first
  slash of a replacement ends its pattern, unless that is empty.
\<close>

lemma paren_text_length:
  "paren_text depth lx = (s, lx') \<Longrightarrow> length s + length (lx_text lx') = length (lx_text lx)"
proof (induction "length (lx_text lx)" arbitrary: depth lx s rule: less_induct)
  case less
  note step = less.prems [unfolded paren_text.simps [of depth lx] Let_def]
  consider "at_end lx" | "\<not> at_end lx" "lexer_char lx = squote \<or> lexer_char lx = dquote"
    | "\<not> at_end lx" "\<not> (lexer_char lx = squote \<or> lexer_char lx = dquote)"
    by blast
  then show ?case
  proof cases
    case 2
    then obtain q lx1 s1 where parts: "copy_quoted (lexer_char lx) lx = (q, lx1)"
      "paren_text depth lx1 = (s1, lx')" "s = q @ s1"
      using step by (auto split: prod.splits)
    then show ?thesis
      using less.hyps [OF copy_quoted_shorter [OF parts(1) [symmetric] 2(1)] parts(2)]
        copy_quoted_length [OF parts(1) 2(1)] by simp
  next
    case 3
    then show ?thesis
      using step less.hyps [of "lexer_advance lx"]
      by (cases "lx_text lx") (auto split: if_splits prod.splits)
  qed (use step in auto)
qed

lemma paren_text_shorter:
  assumes "(s, lx') = paren_text depth (lexer_advance (lexer_advance lx))" "\<not> at_end lx"
  shows "length (lx_text lx') < length (lx_text lx)"
  using paren_text_length [OF assms(1) [symmetric]] assms(2) by (cases "lx_text lx") auto

function (sequential) param_word ::
  "'p sub_lexer \<Rightarrow> param_exp_type \<Rightarrow> 'p wordu \<Rightarrow> string \<Rightarrow> nat \<Rightarrow> 'p lexer \<Rightarrow> 'p wordu \<times> string \<times> 'p lexer"
where
  "param_word sub typ pat word depth lx =
     (if at_end lx then (pat, word, lx)
      else
        (let c = lexer_char lx; c1 = lexer_peek_char lx 1 in
         if c = CHR ''}'' \<and> depth \<le> 1 then (pat, word, lx)
         else if c = CHR ''}'' then param_word sub typ pat (word @ [c]) (depth - 1) (lexer_advance lx)
         else if c = CHR ''$'' \<and> c1 = CHR ''{''
         then param_word sub typ pat (word @ [c]) (depth + 1) (lexer_advance lx)
         else if c = CHR ''$'' \<and> c1 = CHR ''(''
         then (case paren_text 1 (lexer_advance (lexer_advance lx)) of
                 (s, lx') \<Rightarrow> param_word sub typ pat (word @ [c, c1] @ s) depth lx')
         else if c = squote \<or> c = dquote
         then (case copy_quoted c lx of (s, lx') \<Rightarrow> param_word sub typ pat (word @ s) depth lx')
         else if c = CHR ''/'' \<and> typ = PE_REPLACE \<and> pat = [] \<and> depth = 1
         then
           (if word \<noteq> []
            then (case sub False False word of
                    (w, out) \<Rightarrow> param_word sub typ w [] depth (lexer_print out (lexer_advance lx)))
            else param_word sub typ pat [] depth (lexer_advance lx))
         else param_word sub typ pat (word @ [c]) depth (lexer_advance lx)))"
  by pat_completeness auto
termination
  by (relation "measure (\<lambda>(sub, typ, pat, word, depth, lx). length (lx_text lx))")
    (auto dest: copy_quoted_shorter paren_text_shorter)

declare param_word.simps [simp del]

text \<open>The word argument with its closing brace, as the pattern and the replacement of the expansion.\<close>

definition param_argument ::
  "'p sub_lexer \<Rightarrow> param_exp_type \<Rightarrow> 'p lexer \<Rightarrow> 'p wordu \<times> 'p wordu \<times> 'p lexer"
where
  "param_argument sub typ lx =
     (let (pat, word, lx) = param_word sub typ [] [] 1 lx;
          (pat, replacement, lx) =
            (if word = [] then (pat, [], lx)
             else
               (case sub False False word of
                  (w, out) \<Rightarrow>
                    if typ = PE_REPLACE \<and> pat \<noteq> [] then (pat, w, lexer_print out lx)
                    else (w, [], lexer_print out lx))) in
      (pat, replacement,
       if lexer_char lx = CHR ''}'' then lexer_advance lx
       else lexer_error ''missing closing } in parameter expansion'' lx))"

definition skip_param :: "'p lexer \<Rightarrow> 'p lexer" where
  "skip_param lx =
     (let lx = snd (scan_while (\<lambda>c. c \<noteq> CHR ''}'')
                 (lexer_error ''unexpected character in parameter expansion'' lx)) in
      if lexer_char lx = CHR ''}'' then lexer_advance lx else lx)"

text \<open>\<^verbatim>\<open>${...}\<close> after the brace.\<close>

definition braced_param :: "'p sub_lexer \<Rightarrow> 'p lexer \<Rightarrow> 'p param_exp \<times> 'p lexer" where
  "braced_param sub lx =
     (let strlen = (lexer_char lx = CHR ''#'' \<and> lexer_peek_char lx 1 \<noteq> CHR ''}'');
          flags = (if strlen then PE_STRLEN else 0);
          (name, lx) = braced_name (if strlen then lexer_advance lx else lx);
          (index, index_all, lx) =
            (if lexer_char lx = CHR ''['' then param_index sub lx else ([], False, lx)) in
      if lexer_char lx = CHR ''}''
      then (Param_exp name PE_NONE flags [] [] index index_all, lexer_advance lx)
      else
        (case param_op lx of
           (None, colon, lx) \<Rightarrow>
             (Param_exp name PE_NONE (flags OR colon) [] [] index index_all, skip_param lx)
         | (Some (typ, op_flags), colon, lx) \<Rightarrow>
             (case param_argument sub typ lx of
                (pat, replacement, lx) \<Rightarrow>
                  (Param_exp name typ (flags OR op_flags) pat replacement index index_all, lx))))"

definition parse_param_expansion :: "'p sub_lexer \<Rightarrow> 'p lexer \<Rightarrow> 'p word_part \<times> 'p lexer" where
  "parse_param_expansion sub lx =
     (if special_param (lexer_char lx)
      then (WP_PARAM False (Param_exp [lexer_char lx] PE_NONE 0 [] [] [] False), lexer_advance lx)
      else if lexer_char lx \<noteq> CHR ''{''
      then
        (case scan_while name_char lx of
           (name, lx) \<Rightarrow>
             if name = [] then (WP_LITERAL False ''$'', lx)
             else (WP_PARAM False (Param_exp name PE_NONE 0 [] [] [] False), lx))
      else (case braced_param sub (lexer_advance lx) of (pe, lx) \<Rightarrow> (WP_PARAM False pe, lx)))"

definition parse_cmdsub :: "'p lexer \<Rightarrow> 'p word_part \<times> 'p lexer" where
  "parse_cmdsub lx =
     (case cmdsub_text 1 lx of (s, lx) \<Rightarrow> (WP_CMDSUB False (Unparsed False s), lx))"

definition parse_arith :: "'p lexer \<Rightarrow> 'p word_part \<times> 'p lexer" where
  "parse_arith lx =
     (case arith_text 2 lx of (s, lx) \<Rightarrow> (WP_ARITH False [WP_LITERAL False s], lx))"

definition parse_dollar :: "'p sub_lexer \<Rightarrow> 'p lexer \<Rightarrow> 'p word_part \<times> 'p lexer" where
  "parse_dollar sub lx =
     (if lexer_char lx = CHR ''(''
      then
        (let lx = lexer_advance lx in
         if lexer_char lx = CHR ''('' then parse_arith (lexer_advance lx) else parse_cmdsub lx)
      else parse_param_expansion sub lx)"

definition parse_backtick :: "'p lexer \<Rightarrow> 'p word_part \<times> 'p lexer" where
  "parse_backtick lx =
     (case backtick_text lx of
        (s, closed, lx) \<Rightarrow>
          (WP_CMDSUB False (Unparsed True s),
           if closed then lx else lexer_error ''missing closing backtick'' lx))"

subsection \<open>The parts of a word\<close>

lemma lexes_scan_dquoted: "lexes lx (snd (scan_dquoted lx))"
proof (induction lx rule: scan_dquoted.induct)
  case (1 lx)
  then show ?case
    by (auto simp: scan_dquoted.simps [of lx] split: prod.splits dest!: lexes_advance_trans)
qed

lemma lexes_copy_quoted: "lexes lx (snd (copy_quoted q lx))"
proof -
  have "lexes lx (snd (if q = dquote then scan_dquoted (lexer_advance lx)
                       else scan_while (\<lambda>c. c \<noteq> q) (lexer_advance lx)))"
    by (auto intro: lexes_advance_trans lexes_scan_dquoted lexes_scan_while)
  then show ?thesis
    by (auto simp: copy_quoted_def split: prod.splits intro: lexes_trans lexes_advance)
qed

lemma eats_copy_quoted: "copy_quoted q lx = (s, lx') \<Longrightarrow> \<not> at_end lx \<Longrightarrow> eats lx lx'"
  using lexes_copy_quoted [of lx q] copy_quoted_shorter [of s lx' q lx] by (simp add: eats_def)

lemmas eats_steps =
  eats_advance [OF _ lexes_refl] eats_advance [OF _ lexes_advance] eats_copy_quoted

lemma lexes_cmdsub_text: "cmdsub_text depth lx = (s, lx') \<Longrightarrow> lexes lx lx'"
proof (induction lx arbitrary: depth s rule: eats_induct)
  case (eats lx)
  have rest: "lexes lx lx'" if "eats lx lx1" "cmdsub_text d lx1 = (s1, lx')" for d s1 lx1
    using eats.IH [OF that] that(1) by (auto intro: lexes_trans eats_lexes)
  show ?case
    using eats.prems
    by (auto simp: cmdsub_text.simps [of depth lx] Let_def split: if_splits prod.splits
      intro: rest eats_steps lexes_advance)
qed

lemma lexes_arith_text: "arith_text depth lx = (s, lx') \<Longrightarrow> lexes lx lx'"
proof (induction lx arbitrary: depth s rule: eats_induct)
  case (eats lx)
  have rest: "lexes lx lx'" if "eats lx lx1" "arith_text d lx1 = (s1, lx')" for d s1 lx1
    using eats.IH [OF that] that(1) by (auto intro: lexes_trans eats_lexes)
  show ?case
    using eats.prems
    by (auto simp: arith_text.simps [of depth lx] Let_def split: if_splits prod.splits
      intro: rest eats_steps lexes_advance)
qed

lemma lexes_paren_text: "paren_text depth lx = (s, lx') \<Longrightarrow> lexes lx lx'"
proof (induction lx arbitrary: depth s rule: eats_induct)
  case (eats lx)
  have rest: "lexes lx lx'" if "eats lx lx1" "paren_text d lx1 = (s1, lx')" for d s1 lx1
    using eats.IH [OF that] that(1) by (auto intro: lexes_trans eats_lexes)
  show ?case
    using eats.prems
    by (auto simp: paren_text.simps [of depth lx] Let_def split: if_splits prod.splits
      intro: rest eats_steps lexes_advance)
qed

lemma lexes_index_text: "index_text depth lx = (s, lx') \<Longrightarrow> lexes lx lx'"
proof (induction lx arbitrary: depth s rule: eats_induct)
  case (eats lx)
  have rest: "lexes lx lx'" if "eats lx lx1" "index_text d lx1 = (s1, lx')" for d s1 lx1
    using eats.IH [OF that] that(1) by (auto intro: lexes_trans eats_lexes)
  show ?case
    using eats.prems
    by (auto simp: index_text.simps [of depth lx] Let_def split: if_splits prod.splits
      intro: rest eats_steps lexes_advance)
qed

lemma lexes_backtick_text: "backtick_text lx = (s, closed, lx') \<Longrightarrow> lexes lx lx'"
proof (induction lx arbitrary: s rule: eats_induct)
  case (eats lx)
  have rest: "lexes lx lx'" if "eats lx lx1" "backtick_text lx1 = (s1, closed, lx')" for s1 lx1
    using eats.IH [OF that] that(1) by (auto intro: lexes_trans eats_lexes)
  show ?case
    using eats.prems
    by (auto simp: backtick_text.simps [of lx] Let_def split: if_splits prod.splits
      intro: rest eats_steps lexes_advance)
qed

lemma lexes_param_word: "param_word sub typ pat word depth lx = (pat', word', lx') \<Longrightarrow> lexes lx lx'"
proof (induction lx arbitrary: pat word depth rule: eats_induct)
  case (eats lx)
  have rest: "lexes lx lx'" if "eats lx lx1" "param_word sub typ p w d lx1 = (pat', word', lx')" for p w d lx1
    using eats.IH [OF that] that(1) by (auto intro: lexes_trans eats_lexes)
  have printed: "eats lx (lexer_print out (lexer_advance lx))" if "\<not> at_end lx" for out
    using eats_advance [OF that lexes_print] .
  have parens: "eats lx lx1" if "paren_text d (lexer_advance (lexer_advance lx)) = (s, lx1)" "\<not> at_end lx" for d s lx1
    using eats_advance [OF that(2) lexes_trans [OF lexes_advance lexes_paren_text [OF that(1)]]] .
  show ?case
    using eats.prems
    by (auto simp: param_word.simps [of sub "typ" pat word depth lx] Let_def split: if_splits prod.splits
      intro: rest eats_steps printed parens lexes_advance)
qed

lemmas lexes_texts [lexes_calls] =
  lexes_cmdsub_text [THEN lexes_after] lexes_arith_text [THEN lexes_after]
  lexes_index_text [THEN lexes_after] lexes_backtick_text [THEN lexes_after]
  lexes_param_word [THEN lexes_after]

lemma lexes_scanned [lexes_calls]: "scan_while P lx1 = (s, lx2) \<Longrightarrow> lexes lx lx1 \<Longrightarrow> lexes lx lx2"
  using lexes_scan_while [of lx1 P] by (auto intro: lexes_trans)

lemma lexes_scan_snd [lexes_intros]: "lexes lx lx1 \<Longrightarrow> lexes lx (snd (scan_while P lx1))"
  by (rule lexes_trans [OF _ lexes_scan_while])

lemma lexes_param_index: "param_index sub lx = (index, index_all, lx') \<Longrightarrow> lexes lx lx'"
  by (auto simp: param_index_def Let_def split: if_splits prod.splits)
    (rule lexes_intros | erule lexes_calls)+

lemma lexes_braced_name: "braced_name lx = (name, lx') \<Longrightarrow> lexes lx lx'"
  by (auto simp: braced_name_def Let_def split: if_splits)
    (rule lexes_intros | erule lexes_calls)+

lemma lexes_param_op: "param_op lx = (oper, flags, lx') \<Longrightarrow> lexes lx lx'"
  unfolding param_op_def Let_def
  by (auto split: if_splits intro!: lexes_intros)

lemmas lexes_params [lexes_calls] =
  lexes_param_index [THEN lexes_after] lexes_braced_name [THEN lexes_after]
  lexes_param_op [THEN lexes_after]

lemma lexes_argument: "param_argument sub typ lx = (pat, replacement, lx') \<Longrightarrow> lexes lx lx'"
  by (auto simp: param_argument_def Let_def split: if_splits prod.splits)
    (rule lexes_intros | erule lexes_calls)+

lemma lexes_skip_param [lexes_intros]: "lexes lx lx1 \<Longrightarrow> lexes lx (skip_param lx1)"
  unfolding skip_param_def Let_def by (auto intro!: lexes_intros)

lemmas lexes_argument_call [lexes_calls] = lexes_argument [THEN lexes_after]

lemma lexes_braced_param: "braced_param sub lx = (pe, lx') \<Longrightarrow> lexes lx lx'"
  by (auto simp: braced_param_def Let_def split: if_splits prod.splits option.splits)
    (rule lexes_intros | erule lexes_calls)+

lemmas lexes_braced_call [lexes_calls] = lexes_braced_param [THEN lexes_after]

lemma lexes_param_expansion: "parse_param_expansion sub lx = (part, lx') \<Longrightarrow> lexes lx lx'"
  by (auto simp: parse_param_expansion_def split: if_splits prod.splits)
    (rule lexes_intros | erule lexes_calls)+

lemma lexes_dollar: "parse_dollar sub lx = (part, lx') \<Longrightarrow> lexes lx lx'"
  by (auto simp: parse_dollar_def parse_arith_def parse_cmdsub_def Let_def
      dest!: lexes_param_expansion split: if_splits prod.splits)
    (assumption | rule lexes_intros | erule lexes_calls)+

lemma lexes_backtick: "parse_backtick lx = (part, lx') \<Longrightarrow> lexes lx lx'"
  by (auto simp: parse_backtick_def split: if_splits prod.splits)
    (rule lexes_intros | erule lexes_calls)+

lemmas lexes_parts [lexes_calls] = lexes_dollar [THEN lexes_after] lexes_backtick [THEN lexes_after]

subsection \<open>Words\<close>

text \<open>
  \<^verbatim>\<open>parse_word_units\<close>, its loop inside double quotes (or in the body of a here-document) and its loop
  outside. \<open>ws\<close> are the parts found so far, \<open>literal\<close> the text of the one being collected and
  \<open>raw\<close> the text the caller wants, which lacks what stands behind a dollar sign or a backtick.
\<close>

definition flush_literal :: "bool \<Rightarrow> string \<Rightarrow> 'p wordu" where
  "flush_literal quoted literal = (if literal = [] then [] else [WP_LITERAL quoted literal])"

lemma eats_dollar:
  assumes "parse_dollar sub (lexer_advance lx) = (part, lx')" "\<not> at_end lx"
  shows "eats lx lx'"
  by (rule eats_advance [OF assms(2) lexes_dollar [OF assms(1)]])

lemma eats_backtick:
  assumes "parse_backtick (lexer_advance lx) = (part, lx')" "\<not> at_end lx"
  shows "eats lx lx'"
  by (rule eats_advance [OF assms(2) lexes_backtick [OF assms(1)]])

lemmas eats_parts = eats_dollar [OF sym] eats_backtick [OF sym]

lemma eats_shorter: "eats lx lx' \<Longrightarrow> length (lx_text lx') < length (lx_text lx)"
  by (simp add: eats_def)

function (sequential) dquote_units ::
  "'p sub_lexer \<Rightarrow> bool \<Rightarrow> 'p wordu \<Rightarrow> string \<Rightarrow> string \<Rightarrow> 'p lexer \<Rightarrow> 'p wordu \<times> string \<times> 'p lexer"
where
  "dquote_units sub in_heredoc ws literal raw lx =
     (if at_end lx \<or> lexer_char lx = dquote \<and> \<not> in_heredoc
      then (ws @ flush_literal True literal, raw, lx)
      else if lexer_char lx = backslash
      then
        (let lx1 = lexer_advance lx; raw = raw @ [backslash]; c = lexer_char lx1 in
         if c = CHR ''$'' \<or> c = backtick \<or> \<not> in_heredoc \<and> c = dquote \<or> c = backslash
         then dquote_units sub in_heredoc ws (literal @ [c]) (raw @ [c]) (lexer_advance lx1)
         else if c = CHR 0x0A
         then dquote_units sub in_heredoc ws literal raw (lexer_advance lx1)
         else if c \<noteq> NUL
         then dquote_units sub in_heredoc ws (literal @ [backslash, c]) (raw @ [c]) (lexer_advance lx1)
         else dquote_units sub in_heredoc ws (literal @ [backslash]) raw lx1)
      else if lexer_char lx = CHR ''$''
      then
        (case parse_dollar sub (lexer_advance lx) of
           (part, lx1) \<Rightarrow>
             dquote_units sub in_heredoc (ws @ flush_literal True literal @ [set_quoted True part]) []
               (raw @ ''$'') lx1)
      else if lexer_char lx = backtick
      then
        (case parse_backtick (lexer_advance lx) of
           (part, lx1) \<Rightarrow>
             dquote_units sub in_heredoc (ws @ flush_literal True literal @ [set_quoted True part]) []
               (raw @ [backtick]) lx1)
      else
        dquote_units sub in_heredoc ws (literal @ [lexer_char lx]) (raw @ [lexer_char lx])
          (lexer_advance lx))"
  by pat_completeness auto
termination
  by (relation "measure (\<lambda>(sub, in_heredoc, ws, literal, raw, lx). length (lx_text lx))")
    (auto intro: eats_shorter eats_parts eats_steps)

declare dquote_units.simps [simp del]

lemma lexes_dquote_units:
  "dquote_units sub in_heredoc ws literal raw lx = (ws', raw', lx') \<Longrightarrow> lexes lx lx'"
proof (induction lx arbitrary: ws literal raw rule: eats_induct)
  case (eats lx)
  have rest: "lexes lx lx'" if "eats lx lx1" "dquote_units sub in_heredoc w l r lx1 = (ws', raw', lx')" for w l r lx1
    using eats.IH [OF that] that(1) by (auto intro: lexes_trans eats_lexes)
  show ?case
    using eats.prems
    by (auto simp: dquote_units.simps [of sub in_heredoc ws literal raw lx] Let_def
      split: if_splits prod.splits intro: rest eats_steps eats_dollar eats_backtick)
qed

lemmas lexes_dquote [lexes_calls] = lexes_dquote_units [THEN lexes_after]

text \<open>The quoted part of a word outside double quotes, at its opening quote.\<close>

definition single_quoted :: "'p lexer \<Rightarrow> 'p wordu \<times> string \<times> 'p lexer" where
  "single_quoted lx =
     (case scan_while (\<lambda>c. c \<noteq> squote) (lexer_advance lx) of
        (s, lx) \<Rightarrow>
          if at_end lx
          then (flush_literal True s, squote # s, lexer_error ''missing closing single quote'' lx)
          else (flush_literal True s, squote # s @ [squote], lexer_advance lx))"

definition double_quoted :: "'p sub_lexer \<Rightarrow> 'p lexer \<Rightarrow> 'p wordu \<times> string \<times> 'p lexer" where
  "double_quoted sub lx =
     (case dquote_units sub False [] [] [] (lexer_advance lx) of
        (dq, raw, lx) \<Rightarrow>
          let ws = (if dq = [] then [WP_LITERAL True []] else dq) in
          if lexer_char lx = dquote
          then (ws, dquote # raw @ [dquote], lexer_advance lx)
          else (ws, dquote # raw, lexer_error ''missing closing double quote'' lx))"

lemma eats_single_quoted:
  assumes "single_quoted lx = (ws, raw, lx')" "\<not> at_end lx"
  shows "eats lx lx'"
proof -
  have "lexes (lexer_advance lx) lx'"
    using assms by (auto simp: single_quoted_def split: if_splits prod.splits)
      (rule lexes_intros | erule lexes_calls)+
  then show ?thesis
    by (rule eats_advance [OF assms(2)])
qed

lemma eats_double_quoted:
  assumes "double_quoted sub lx = (ws, raw, lx')" "\<not> at_end lx"
  shows "eats lx lx'"
proof -
  have "lexes (lexer_advance lx) lx'"
    using assms by (auto simp: double_quoted_def Let_def split: if_splits prod.splits)
      (rule lexes_intros | erule lexes_calls)+
  then show ?thesis
    by (rule eats_advance [OF assms(2)])
qed

lemmas eats_quoted = eats_single_quoted eats_double_quoted

function (sequential) plain_units ::
  "'p sub_lexer \<Rightarrow> 'p wordu \<Rightarrow> string \<Rightarrow> string \<Rightarrow> 'p lexer \<Rightarrow> 'p wordu \<times> string \<times> 'p lexer"
where
  "plain_units sub ws literal raw lx =
     (if at_end lx \<or>
         \<not> is_word_char (lexer_char lx) \<and>
         \<not> (lx_regex lx \<and> lexer_char lx \<in> {CHR ''('', CHR '')'', CHR ''|''})
      then (ws @ flush_literal False literal, raw, lx)
      else if lexer_char lx = squote
      then
        (case single_quoted lx of
           (part, r, lx1) \<Rightarrow> plain_units sub (ws @ flush_literal False literal @ part) [] (raw @ r) lx1)
      else if lexer_char lx = dquote
      then
        (case double_quoted sub lx of
           (part, r, lx1) \<Rightarrow> plain_units sub (ws @ flush_literal False literal @ part) [] (raw @ r) lx1)
      else if lexer_char lx = backslash
      then
        (let lx1 = lexer_advance lx; raw = raw @ [backslash]; c = lexer_char lx1 in
         if c = CHR 0x0A then plain_units sub ws literal raw (lexer_advance lx1)
         else if c \<noteq> NUL then plain_units sub ws (literal @ [c]) (raw @ [c]) (lexer_advance lx1)
         else plain_units sub ws literal raw lx1)
      else if lexer_char lx = CHR ''$''
      then
        (case parse_dollar sub (lexer_advance lx) of
           (part, lx1) \<Rightarrow>
             plain_units sub (ws @ flush_literal False literal @ [part]) [] (raw @ ''$'') lx1)
      else if lexer_char lx = backtick
      then
        (case parse_backtick (lexer_advance lx) of
           (part, lx1) \<Rightarrow>
             plain_units sub (ws @ flush_literal False literal @ [part]) [] (raw @ [backtick]) lx1)
      else plain_units sub ws (literal @ [lexer_char lx]) (raw @ [lexer_char lx]) (lexer_advance lx))"
  by pat_completeness auto
termination
  by (relation "measure (\<lambda>(sub, ws, literal, raw, lx). length (lx_text lx))")
    (auto intro: eats_shorter eats_parts eats_steps eats_quoted [OF sym])

declare plain_units.simps [simp del]

lemma lexes_plain_units: "plain_units sub ws literal raw lx = (ws', raw', lx') \<Longrightarrow> lexes lx lx'"
proof (induction lx arbitrary: ws literal raw rule: eats_induct)
  case (eats lx)
  have rest: "lexes lx lx'" if "eats lx lx1" "plain_units sub w l r lx1 = (ws', raw', lx')" for w l r lx1
    using eats.IH [OF that] that(1) by (auto intro: lexes_trans eats_lexes)
  show ?case
    using eats.prems
    by (auto simp: plain_units.simps [of sub ws literal raw lx] Let_def
      split: if_splits prod.splits intro: rest eats_steps eats_dollar eats_backtick eats_quoted)
qed

definition parse_word_units ::
  "'p sub_lexer \<Rightarrow> bool \<Rightarrow> bool \<Rightarrow> 'p lexer \<Rightarrow> 'p wordu \<times> string \<times> 'p lexer"
where
  "parse_word_units sub in_dquote in_heredoc lx =
     (if in_dquote then dquote_units sub in_heredoc [] [] [] lx else plain_units sub [] [] [] lx)"

lemma lexes_word_units: "parse_word_units sub in_dquote in_heredoc lx = (ws, raw, lx') \<Longrightarrow> lexes lx lx'"
  by (auto simp: parse_word_units_def split: if_splits intro: lexes_dquote_units lexes_plain_units)

lemmas lexes_words [lexes_calls] = lexes_word_units [THEN lexes_after]

subsection \<open>Texts inside expansions\<close>

text \<open>
  A text read by a lexer of its own is shorter than the text around it, so the words of a source are
  defined by recursion on its length.
\<close>

definition agree_upto :: "nat \<Rightarrow> 'p sub_lexer \<Rightarrow> 'p sub_lexer \<Rightarrow> bool" where
  "agree_upto n sub sub' \<longleftrightarrow> (\<forall>dq doc s. length s \<le> n \<longrightarrow> sub dq doc s = sub' dq doc s)"

lemma agree_upto_less: "agree_upto n sub sub' \<Longrightarrow> m \<le> n \<Longrightarrow> agree_upto m sub sub'"
  by (auto simp: agree_upto_def)

lemma agree_uptoD: "agree_upto n sub sub' \<Longrightarrow> length s \<le> n \<Longrightarrow> sub dq doc s = sub' dq doc s"
  by (simp add: agree_upto_def)

lemma param_word_length:
  "param_word sub ty pat word depth lx = (pat', word', lx') \<Longrightarrow>
     length word + length (lx_text lx) \<le> n \<Longrightarrow> length word' + length (lx_text lx') \<le> n"
proof (induction lx arbitrary: pat word depth rule: eats_induct)
  case (eats lx)
  show ?case
  proof (cases "at_end lx")
    case False
    have rest: "length word' + length (lx_text lx') \<le> n"
      if "param_word sub ty p w d lx1 = (pat', word', lx')" "eats lx lx1"
        "length w + length (lx_text lx1) \<le> n" for p w d lx1
      using eats.IH [OF that(2,1,3)] .
    have lengths: "1 \<le> length (lx_text lx)" "lexer_peek_char lx 1 = CHR ''('' \<Longrightarrow> 2 \<le> length (lx_text lx)"
      using False by (auto simp: peek_def NUL_def Suc_le_eq split: if_splits)
    note size = eats.prems(2)
    have next_char: ?thesis if "param_word sub ty p (word @ [c]) d (lexer_advance lx) = (pat', word', lx')" for p c d
      using size lengths by (intro rest [OF that eats_steps(1) [OF False]]) auto
    have slash: ?thesis if "param_word sub ty p [] d (lexer_advance lx) = (pat', word', lx')" for p d
      using size lengths by (intro rest [OF that eats_steps(1) [OF False]]) auto
    have printed: ?thesis
      if "param_word sub ty p [] d (lexer_print out (lexer_advance lx)) = (pat', word', lx')" for p d out
      using size lengths by (intro rest [OF that eats_advance [OF False lexes_print]]) auto
    have copied: ?thesis
      if "copy_quoted q lx = (s, lx1)" "param_word sub ty p (word @ s) d lx1 = (pat', word', lx')" for q s lx1 p d
      using size copy_quoted_length [OF that(1) False]
      by (intro rest [OF that(2) eats_copy_quoted [OF that(1) False]]) auto
    have parens: ?thesis
      if "paren_text m (lexer_advance (lexer_advance lx)) = (s, lx1)" "lexer_peek_char lx 1 = CHR ''(''"
        "param_word sub ty p (word @ c # c1 # s) d lx1 = (pat', word', lx')" for m s lx1 c c1 p d
      using size paren_text_length [OF that(1)] lengths(2) [OF that(2)]
      by (intro rest [OF that(3) eats_advance [OF False lexes_trans [OF lexes_advance lexes_paren_text [OF that(1)]]]]) auto
    show ?thesis
      using eats.prems
      by (auto simp: param_word.simps [of sub ty pat word depth lx] Let_def split: if_splits prod.splits
        intro: next_char slash printed copied parens)
  qed (use eats.prems in \<open>simp add: param_word.simps [of sub ty pat word depth lx]\<close>)
qed

lemma index_text_length: "index_text depth lx = (s, lx') \<Longrightarrow> length s + length (lx_text lx') = length (lx_text lx)"
proof (induction lx arbitrary: depth s rule: eats_induct)
  case (eats lx)
  show ?case
    using eats.prems eats.IH [OF eats_steps(1)]
    by (cases "lx_text lx")
      (auto simp: index_text.simps [of depth lx] Let_def split: if_splits prod.splits)
qed

lemma param_word_cong:
  "agree_upto n sub sub' \<Longrightarrow> length word + length (lx_text lx) \<le> n \<Longrightarrow>
     param_word sub ty pat word depth lx = param_word sub' ty pat word depth lx"
proof (induction lx arbitrary: ty pat word depth rule: eats_induct)
  case (eats lx)
  note agree = eats.prems(1)
  show ?case
  proof (cases "at_end lx")
    case False
    have rest: "param_word sub ty p w d lx1 = param_word sub' ty p w d lx1"
      if "eats lx lx1" "length w + length (lx_text lx1) \<le> n" for ty p w d lx1
      by (rule eats.IH [OF that(1) agree that(2)])
    have lengths: "1 \<le> length (lx_text lx)" "lexer_peek_char lx 1 = CHR ''('' \<Longrightarrow> 2 \<le> length (lx_text lx)"
      using False by (auto simp: peek_def NUL_def Suc_le_eq split: if_splits)
    have next_char: "param_word sub ty p (word @ [c]) d (lexer_advance lx) = param_word sub' ty p (word @ [c]) d (lexer_advance lx)"
      "param_word sub ty p [] d (lexer_advance lx) = param_word sub' ty p [] d (lexer_advance lx)" for ty p c d
      using eats.prems(2) lengths(1) by (auto intro!: rest eats_steps(1) [OF False])
    have printed: "param_word sub ty p [] d (lexer_print out (lexer_advance lx)) = param_word sub' ty p [] d (lexer_print out (lexer_advance lx))" for ty p d out
      using eats.prems(2) lengths(1) by (intro rest eats_advance [OF False lexes_print]) auto
    have copied: "param_word sub ty p w d lx1 = param_word sub' ty p w d lx1"
      if "copy_quoted q lx = (s, lx1)" "w = word @ s" for ty q s lx1 p d w
      using copy_quoted_length [OF that(1) False] that(2) eats.prems(2)
      by (intro rest eats_copy_quoted [OF that(1) False]) auto
    have parens: "param_word sub ty p w d lx1 = param_word sub' ty p w d lx1"
      if "paren_text m (lexer_advance (lexer_advance lx)) = (s, lx1)" "lexer_peek_char lx 1 = CHR ''(''"
        "w = word @ [c, c1] @ s" for ty m s lx1 c c1 p d w
      using paren_text_length [OF that(1)] lengths(2) [OF that(2)] that(3) eats.prems(2)
      by (intro rest eats_advance [OF False lexes_trans [OF lexes_advance lexes_paren_text [OF that(1)]]]) auto
    have word: "sub False False word = sub' False False word"
      using eats.prems(2) by (intro agree_uptoD [OF agree]) simp
    show ?thesis
      unfolding param_word.simps [of _ ty pat word depth lx] Let_def word
      by (intro if_cong prod.case_cong refl)
        (simp_all add: next_char printed copied parens split: prod.split)
  qed (simp add: param_word.simps [of _ ty pat word depth lx])
qed

lemma param_argument_cong:
  assumes "agree_upto (length (lx_text lx)) sub sub'"
  shows "param_argument sub ty lx = param_argument sub' ty lx"
proof -
  have "sub False False word = sub' False False word"
    if "param_word sub' ty [] [] 1 lx = (pat, word, lx')" for pat word lx'
    by (rule agree_uptoD [OF assms])
      (use param_word_length [OF that, of "length (lx_text lx)"] in simp)
  then show ?thesis
    unfolding param_argument_def Let_def
    by (subst param_word_cong [OF assms]) (auto split: prod.split)
qed

lemma param_index_cong:
  assumes "agree_upto (length (lx_text lx)) sub sub'"
  shows "param_index sub lx = param_index sub' lx"
proof -
  have "sub True True raw = sub' True True raw"
    if "index_text 1 (lexer_advance lx) = (raw, lx')" for raw lx'
    using index_text_length [OF that] by (intro agree_uptoD [OF assms]) simp
  then show ?thesis
    by (auto simp: param_index_def Let_def split: prod.split)
qed

lemma braced_param_cong:
  assumes "agree_upto (length (lx_text lx)) sub sub'"
  shows "braced_param sub lx = braced_param sub' lx"
proof -
  have index: "param_index sub lx1 = param_index sub' lx1" if "lexes lx lx1" for lx1
    using lexes_length [OF that] by (intro param_index_cong agree_upto_less [OF assms]) simp
  have argument: "param_argument sub ty lx1 = param_argument sub' ty lx1" if "lexes lx lx1" for ty lx1
    using lexes_length [OF that] by (intro param_argument_cong agree_upto_less [OF assms]) simp
  show ?thesis
    unfolding braced_param_def Let_def
    by (intro prod.case_cong option.case_cong if_cong refl index argument)
      (auto split: if_splits, (rule lexes_intros | erule lexes_calls)+)
qed

lemma parse_dollar_cong:
  assumes "agree_upto (length (lx_text lx)) sub sub'"
  shows "parse_dollar sub lx = parse_dollar sub' lx"
proof -
  have "braced_param sub (lexer_advance lx) = braced_param sub' (lexer_advance lx)"
    by (intro braced_param_cong agree_upto_less [OF assms]) simp
  then show ?thesis
    by (simp add: parse_dollar_def parse_param_expansion_def)
qed

lemma dquote_units_cong:
  "agree_upto n sub sub' \<Longrightarrow> length (lx_text lx) \<le> Suc n \<Longrightarrow>
     dquote_units sub in_heredoc ws literal raw lx = dquote_units sub' in_heredoc ws literal raw lx"
proof (induction lx arbitrary: ws literal raw rule: eats_induct)
  case (eats lx)
  show ?case
  proof (cases "at_end lx")
    case False
    have rest: "dquote_units sub in_heredoc w l r lx1 = dquote_units sub' in_heredoc w l r lx1"
      if "eats lx lx1" for w l r lx1
      using eats.prems eats_shorter [OF that] by (intro eats.IH [OF that]) auto
    have dollar: "parse_dollar sub (lexer_advance lx) = parse_dollar sub' (lexer_advance lx)"
      using eats.prems by (intro parse_dollar_cong agree_upto_less [OF eats.prems(1)]) auto
    show ?thesis
      unfolding dquote_units.simps [of _ in_heredoc ws literal raw lx] Let_def dollar
      by (intro if_cong prod.case_cong refl rest)
        (auto intro: eats_steps eats_dollar eats_backtick)
  qed (simp add: dquote_units.simps [of _ in_heredoc ws literal raw lx])
qed

lemma plain_units_cong:
  "agree_upto n sub sub' \<Longrightarrow> length (lx_text lx) \<le> Suc n \<Longrightarrow>
     plain_units sub ws literal raw lx = plain_units sub' ws literal raw lx"
proof (induction lx arbitrary: ws literal raw rule: eats_induct)
  case (eats lx)
  show ?case
  proof (cases "at_end lx")
    case False
    have rest: "plain_units sub w l r lx1 = plain_units sub' w l r lx1"
      if "eats lx lx1" for w l r lx1
      using eats.prems eats_shorter [OF that] by (intro eats.IH [OF that]) auto
    have dollar: "parse_dollar sub (lexer_advance lx) = parse_dollar sub' (lexer_advance lx)"
      using eats.prems by (intro parse_dollar_cong agree_upto_less [OF eats.prems(1)]) auto
    have quoted: "double_quoted sub lx = double_quoted sub' lx"
      using eats.prems unfolding double_quoted_def
      by (subst dquote_units_cong [OF eats.prems(1)]) auto
    show ?thesis
      unfolding plain_units.simps [of _ ws literal raw lx] Let_def dollar quoted
      by (intro if_cong prod.case_cong refl rest)
        (auto intro: eats_steps eats_dollar eats_backtick eats_quoted)
  qed (simp add: plain_units.simps [of _ ws literal raw lx])
qed

lemma parse_word_units_cong [fundef_cong]:
  assumes "lx = lx'" "in_dquote = in_dquote'" "in_heredoc = in_heredoc'"
    and "\<And>dq doc s. length s < length (lx_text lx') \<Longrightarrow> sub dq doc s = sub' dq doc s"
  shows "parse_word_units sub in_dquote in_heredoc lx = parse_word_units sub' in_dquote' in_heredoc' lx'"
proof (cases "at_end lx'")
  case True
  then show ?thesis
    using assms(1-3)
    by (simp add: parse_word_units_def dquote_units.simps [of _ in_heredoc' "[]" "[]" "[]" lx']
      plain_units.simps [of _ "[]" "[]" "[]" lx'])
next
  case False
  then have "agree_upto (length (lx_text lx') - 1) sub sub'"
    using assms(4) by (cases "lx_text lx'") (auto simp: agree_upto_def)
  from dquote_units_cong [OF this] plain_units_cong [OF this] show ?thesis
    using assms(1-3) by (simp add: parse_word_units_def)
qed

text \<open>
  A lexer for a text of its own: \<^verbatim>\<open>lexer_init\<close>, \<^verbatim>\<open>parse_word_units\<close> and \<^verbatim>\<open>lexer_destroy\<close>, with the
  name of the source for its messages.
\<close>

function (sequential) sub_lexer :: "string \<Rightarrow> 'p sub_lexer" where
  "sub_lexer filename in_dquote in_heredoc source =
     (case parse_word_units (\<lambda>dq doc s. sub_lexer filename dq doc s) in_dquote in_heredoc
             (lexer_init source filename) of
        (ws, raw, lx) \<Rightarrow> (ws, lx_stderr lx))"
  by pat_completeness auto
termination
  by (relation "measure (\<lambda>(filename, in_dquote, in_heredoc, source). length source)")
    (auto simp: lexer_init_def)

declare sub_lexer.simps [simp del]

abbreviation word_units :: "bool \<Rightarrow> bool \<Rightarrow> 'p lexer \<Rightarrow> 'p wordu \<times> string \<times> 'p lexer" where
  "word_units in_dquote in_heredoc lx \<equiv>
     parse_word_units (sub_lexer (lx_filename lx)) in_dquote in_heredoc lx"

definition lexer_parse_heredoc_body :: "string \<Rightarrow> string \<Rightarrow> 'p wordu \<times> string" where
  "lexer_parse_heredoc_body body filename =
     (case sub_lexer filename True True body of (ws, out) \<Rightarrow> (map (set_quoted False) ws, out))"

subsection \<open>Tokens\<close>

definition reserved_words :: "(string \<times> token_type) list" where
  "reserved_words =
     [(''if'', TOK_IF), (''then'', TOK_THEN), (''else'', TOK_ELSE), (''elif'', TOK_ELIF),
      (''fi'', TOK_FI), (''do'', TOK_DO), (''done'', TOK_DONE), (''case'', TOK_CASE),
      (''esac'', TOK_ESAC), (''while'', TOK_WHILE), (''until'', TOK_UNTIL), (''for'', TOK_FOR),
      (''in'', TOK_IN), (''function'', TOK_FUNCTION), (''!'', TOK_BANG), (''[['', TOK_DBRACK_OPEN),
      ('']]'', TOK_DBRACK_CLOSE), (''{'', TOK_LBRACE), (''}'', TOK_RBRACE)]"

definition check_reserved_word :: "string \<Rightarrow> token_type" where
  "check_reserved_word word =
     (case map_of reserved_words word of Some typ \<Rightarrow> typ | None \<Rightarrow> TOK_WORD)"

definition make_token :: "token_type \<Rightarrow> nat \<Rightarrow> 'p token" where
  "make_token typ lineno = \<lparr>tok_type = typ, tok_value = None, tok_word = [], tok_lineno = lineno\<rparr>"

text \<open>The characters of a name between its first one and the equals sign; an index is skipped.\<close>

function (sequential) assignable_name :: "string \<Rightarrow> bool" where
  "assignable_name [] = True"
| "assignable_name (c # s) =
     (if c = CHR ''['' then assignable_name (tl (dropWhile (\<lambda>c. c \<noteq> CHR '']'') s))
      else name_char c \<and> assignable_name s)"
  by pat_completeness auto
termination
  by (relation "measure length")
    (auto simp: less_Suc_eq_le intro: le_trans [OF diff_le_self length_dropWhile_le])

definition is_assignment_word :: "string \<Rightarrow> bool" where
  "is_assignment_word raw =
     (case raw of
        [] \<Rightarrow> False
      | c # s \<Rightarrow>
          CHR ''='' \<in> set s \<and> (isalpha c \<or> c = CHR ''_'') \<and>
          assignable_name (takeWhile (\<lambda>c. c \<noteq> CHR ''='') s))"

text \<open>The operator at the start of the text, with its length.\<close>

definition read_operator :: "bool \<Rightarrow> char \<Rightarrow> char \<Rightarrow> char \<Rightarrow> (token_type \<times> nat) option" where
  "read_operator regex c c2 c3 =
     (if c = CHR ''|'' \<and> \<not> regex then Some (if c2 = CHR ''|'' then (TOK_OR_IF, 2) else (TOK_PIPE, 1))
      else if c = CHR ''&'' then Some (if c2 = CHR ''&'' then (TOK_AND_IF, 2) else (TOK_AMP, 1))
      else if c = CHR '';''
      then Some (if c2 = CHR '';'' then (TOK_DSEMI, 2)
                 else if c2 = CHR ''&'' then (TOK_SEMIAND, 2)
                 else if c2 = CHR ''|'' then (TOK_SEMIPIPE, 2) else (TOK_SEMI, 1))
      else if c = CHR ''('' \<and> \<not> regex then Some (TOK_LPAREN, 1)
      else if c = CHR '')'' \<and> \<not> regex then Some (TOK_RPAREN, 1)
      else if c = CHR ''<''
      then Some (if c2 = CHR ''<''
                 then (if c3 = CHR ''-'' then (TOK_DLESSDASH, 3)
                       else if c3 = CHR ''<'' then (TOK_TLESS, 3) else (TOK_DLESS, 2))
                 else if c2 = CHR ''&'' then (TOK_LESSAND, 2)
                 else if c2 = CHR ''>'' then (TOK_LESSGREAT, 2) else (TOK_LESS, 1))
      else if c = CHR ''>''
      then Some (if c2 = CHR ''>'' then (TOK_DGREAT, 2)
                 else if c2 = CHR ''&'' then (TOK_GREATAND, 2)
                 else if c2 = CHR ''|'' then (TOK_CLOBBER, 2) else (TOK_GREAT, 1))
      else None)"

definition read_word :: "nat \<Rightarrow> 'p lexer \<Rightarrow> 'p token \<times> 'p lexer" where
  "read_word lineno lx =
     (case word_units False False lx of
        (word, raw, lx') \<Rightarrow>
          if word = [] then (make_token TOK_EOF lineno, lexer_error ''unexpected character'' lx')
          else
            (let typ = (if lx_reserved lx' then check_reserved_word raw else TOK_WORD);
                 typ = (if typ = TOK_WORD \<and> is_assignment_word raw then TOK_ASSIGNMENT else typ) in
             (\<lparr>tok_type = typ, tok_value = Some raw, tok_word = word, tok_lineno = lineno\<rparr>, lx')))"

definition lexer_read_token :: "'p lexer \<Rightarrow> 'p token \<times> 'p lexer" where
  "lexer_read_token lx =
     (let lx = lexer_skip_whitespace lx;
          lineno = lx_lineno lx;
          c = lexer_char lx in
      if at_end lx then (make_token TOK_EOF lineno, lx)
      else if c = CHR 0x0A then (make_token TOK_NEWLINE lineno, lexer_advance lx)
      else
        (case read_operator (lx_regex lx) c (lexer_peek_char lx 1) (lexer_peek_char lx 2) of
           Some (typ, n) \<Rightarrow> (make_token typ lineno, (lexer_advance ^^ n) lx)
         | None \<Rightarrow>
             (case scan_while isdigit lx of
                (digits, lx1) \<Rightarrow>
                  if digits \<noteq> [] \<and> (lexer_char lx1 = CHR ''<'' \<or> lexer_char lx1 = CHR ''>'')
                  then (make_token TOK_IO_NUMBER lineno \<lparr>tok_value := Some digits\<rparr>, lx1)
                  else read_word lineno lx)))"

definition lexer_next :: "'p lexer \<Rightarrow> 'p token \<times> 'p lexer" where
  "lexer_next lx =
     (case lx_lookahead lx of
        Some tok \<Rightarrow> (tok, lx\<lparr>lx_lookahead := None\<rparr>)
      | None \<Rightarrow> lexer_read_token lx)"

definition lexer_peek :: "'p lexer \<Rightarrow> 'p token \<times> 'p lexer" where
  "lexer_peek lx =
     (case lx_lookahead lx of
        Some tok \<Rightarrow> (tok, lx)
      | None \<Rightarrow> (case lexer_read_token lx of (tok, lx) \<Rightarrow> (tok, lx\<lparr>lx_lookahead := Some tok\<rparr>)))"

definition token_is_word :: "'p token \<Rightarrow> bool" where
  "token_is_word tok \<longleftrightarrow> tok_type tok = TOK_WORD \<or> tok_type tok = TOK_ASSIGNMENT"

definition quote_name :: "string \<Rightarrow> string" where
  "quote_name s = squote # s @ [squote]"

fun token_type_name :: "token_type \<Rightarrow> string" where
  "token_type_name TOK_EOF = ''end of input''"
| "token_type_name TOK_NEWLINE = ''newline''"
| "token_type_name TOK_WORD = ''word''"
| "token_type_name TOK_IO_NUMBER = ''IO number''"
| "token_type_name TOK_ASSIGNMENT = ''assignment''"
| "token_type_name TOK_PIPE = quote_name ''|''"
| "token_type_name TOK_AND_IF = quote_name ''&&''"
| "token_type_name TOK_OR_IF = quote_name ''||''"
| "token_type_name TOK_SEMI = quote_name '';''"
| "token_type_name TOK_DSEMI = quote_name '';;''"
| "token_type_name TOK_SEMIAND = quote_name '';&''"
| "token_type_name TOK_SEMIPIPE = quote_name '';|''"
| "token_type_name TOK_AMP = quote_name ''&''"
| "token_type_name TOK_LPAREN = quote_name ''(''"
| "token_type_name TOK_RPAREN = quote_name '')''"
| "token_type_name TOK_LBRACE = quote_name ''{''"
| "token_type_name TOK_RBRACE = quote_name ''}''"
| "token_type_name TOK_LESS = quote_name ''<''"
| "token_type_name TOK_GREAT = quote_name ''>''"
| "token_type_name TOK_DLESS = quote_name ''<<''"
| "token_type_name TOK_DGREAT = quote_name ''>>''"
| "token_type_name TOK_LESSAND = quote_name ''<&''"
| "token_type_name TOK_GREATAND = quote_name ''>&''"
| "token_type_name TOK_LESSGREAT = quote_name ''<>''"
| "token_type_name TOK_CLOBBER = quote_name ''>|''"
| "token_type_name TOK_TLESS = quote_name ''<<<''"
| "token_type_name TOK_DLESSDASH = quote_name ''<<-''"
| "token_type_name TOK_IF = quote_name ''if''"
| "token_type_name TOK_THEN = quote_name ''then''"
| "token_type_name TOK_ELSE = quote_name ''else''"
| "token_type_name TOK_ELIF = quote_name ''elif''"
| "token_type_name TOK_FI = quote_name ''fi''"
| "token_type_name TOK_DO = quote_name ''do''"
| "token_type_name TOK_DONE = quote_name ''done''"
| "token_type_name TOK_CASE = quote_name ''case''"
| "token_type_name TOK_ESAC = quote_name ''esac''"
| "token_type_name TOK_WHILE = quote_name ''while''"
| "token_type_name TOK_UNTIL = quote_name ''until''"
| "token_type_name TOK_FOR = quote_name ''for''"
| "token_type_name TOK_IN = quote_name ''in''"
| "token_type_name TOK_FUNCTION = quote_name ''function''"
| "token_type_name TOK_BANG = quote_name ''!''"
| "token_type_name TOK_DBRACK_OPEN = quote_name ''[[''"
| "token_type_name TOK_DBRACK_CLOSE = quote_name '']]''"

subsection \<open>A token consumes text\<close>

text \<open>
  Reading a token consumes a prefix of the text. It consumes something unless it is the end of the
  input; an end of the input before the end of the text comes with an error.
\<close>

lemma lexes_advances: "lexes lx ((lexer_advance ^^ n) lx)"
  by (induction n) (auto intro: lexes_trans lexes_advance)

lemma eats_advances: "\<not> at_end lx \<Longrightarrow> 0 < n \<Longrightarrow> eats lx ((lexer_advance ^^ n) lx)"
  by (cases n) (simp_all add: funpow_swap1 eats_advance [OF _ lexes_advances])

lemma operator_length: "read_operator regex c c2 c3 = Some (typ, n) \<Longrightarrow> 0 < n \<and> typ \<noteq> TOK_EOF"
  by (auto simp: read_operator_def split: if_splits)

lemma reserved_not_eof: "check_reserved_word word \<noteq> TOK_EOF"
  by (auto simp: check_reserved_word_def reserved_words_def split: option.split if_splits)

lemma plain_units_eats:
  assumes "plain_units sub ws literal raw lx = (ws', raw', lx')" "is_word_char (lexer_char lx)" "\<not> at_end lx"
  shows "eats lx lx'"
proof -
  have rest: "eats lx lx'" if "eats lx lx1" "plain_units sub w l r lx1 = (ws', raw', lx')" for w l r lx1
    using lexes_plain_units [OF that(2)] that(1)
    by (auto simp: eats_def dest: lexes_length intro: lexes_trans)
  show ?thesis
    using assms
    by (auto simp: plain_units.simps [of sub ws literal raw lx] Let_def
      split: if_splits prod.splits intro: rest eats_steps eats_dollar eats_backtick eats_quoted)
qed

lemma plain_units_eats_regex:
  assumes "plain_units sub ws literal raw lx = (ws', raw', lx')" "lx_regex lx"
    "lexer_char lx \<in> {CHR ''('', CHR '')'', CHR ''|''}" "\<not> at_end lx"
  shows "eats lx lx'"
proof -
  have rest: "eats lx lx'" if "eats lx lx1" "plain_units sub w l r lx1 = (ws', raw', lx')" for w l r lx1
    using lexes_plain_units [OF that(2)] that(1)
    by (auto simp: eats_def dest: lexes_length intro: lexes_trans)
  show ?thesis
    using assms
    by (auto simp: plain_units.simps [of sub ws literal raw lx] Let_def
      split: if_splits prod.splits intro: rest eats_steps eats_dollar eats_backtick eats_quoted)
qed

lemma skipped_char:
  "\<not> at_end (lexer_skip_whitespace lx) \<Longrightarrow>
     lexer_char (lexer_skip_whitespace lx) \<noteq> CHR '' '' \<and> lexer_char (lexer_skip_whitespace lx) \<noteq> CHR 0x09"
proof (induction lx rule: lexer_skip_whitespace.induct)
  case (1 lx)
  show ?case
  proof (cases "lx_text lx")
    case (Cons c s)
    note IH = 1(1-3) [OF Cons]
    show ?thesis
      using IH 1(4) unfolding lexer_skip_whitespace.simps [of lx] Cons list.case
      by (auto simp: Cons quote_defs simp del: takeWhile.simps dropWhile.simps split: if_splits)
  qed (use 1(4) in \<open>simp add: lexer_skip_whitespace.simps [of lx]\<close>)
qed

lemma read_word_eats:
  assumes "read_word lineno lx = (tok, lx')" "\<not> at_end lx"
    "is_word_char (lexer_char lx) \<or> lx_regex lx \<and> lexer_char lx \<in> {CHR ''('', CHR '')'', CHR ''|''}"
  shows "eats lx lx' \<and> (tok_type tok = TOK_EOF \<longrightarrow> lx_errors lx < lx_errors lx')"
proof -
  obtain word raw lx1 where units: "word_units False False lx = (word, raw, lx1)"
    by (cases "word_units False False lx" rule: prod_cases3)
  have eaten: "eats lx lx1"
    using units assms(2,3) by (auto simp: parse_word_units_def intro: plain_units_eats plain_units_eats_regex)
  show ?thesis
  proof (cases "word = []")
    case True
    moreover have "eats lx (lexer_error msg lx1)" for msg
      using eaten lexes_trans [OF _ lexes_error] by (auto simp: eats_def)
    moreover have "lx_errors lx \<le> lx_errors lx1"
      using eaten by (simp add: eats_def lexes_def)
    ultimately show ?thesis
      using assms(1) units by (auto simp: read_word_def lexer_error_def)
  next
    case False
    then show ?thesis
      using assms(1) units eaten by (auto simp: read_word_def Let_def reserved_not_eof split: if_splits)
  qed
qed

lemma read_operator_None:
  assumes "read_operator regex c c2 c3 = None" "c \<noteq> NUL" "c \<noteq> CHR 0x0A" "c \<noteq> CHR '' ''" "c \<noteq> CHR 0x09"
  shows "is_word_char c \<or> regex \<and> c \<in> {CHR ''('', CHR '')'', CHR ''|''}"
  using assms by (auto simp: read_operator_def is_word_char_def is_operator_start_def split: if_splits)

lemma read_word_NUL:
  assumes "read_word lineno lx = (tok, lx')" "lexer_char lx = NUL"
  shows "lexes lx lx' \<and> tok_type tok = TOK_EOF \<and> lx_errors lx < lx_errors lx'"
proof -
  have "word_units False False lx = ([], [], lx)"
    using assms(2)
    by (auto simp: parse_word_units_def plain_units.simps [of _ _ _ _ lx] is_word_char_def NUL_def flush_literal_def)
  then show ?thesis
    using assms(1) lexes_error [of lx] by (auto simp: read_word_def make_token_def lexer_error_def)
qed

lemma read_token_cases:
  assumes "lexer_read_token lx = (tok, lx')"
  shows "lexes lx lx' \<and> (tok_type tok \<noteq> TOK_EOF \<longrightarrow> eats lx lx') \<and>
    (tok_type tok = TOK_EOF \<longrightarrow> at_end lx' \<or> lx_errors lx < lx_errors lx')"
proof -
  define lx1 where "lx1 = lexer_skip_whitespace lx"
  have skipped: "lexes lx lx1"
    by (simp add: lx1_def lexes_skip_whitespace)
  have lift: "eats lx lx'" if "eats lx1 lx'"
    using that skipped lexes_length [OF skipped] by (auto simp: eats_def intro: lexes_trans)
  have errors: "lx_errors lx \<le> lx_errors lx1"
    using skipped by (simp add: lexes_def)
  note step = assms [unfolded lexer_read_token_def Let_def, folded lx1_def]
  consider (ended) "at_end lx1" | (newline) "\<not> at_end lx1" "lexer_char lx1 = CHR 0x0A"
    | (more) "\<not> at_end lx1" "lexer_char lx1 \<noteq> CHR 0x0A"
    by blast
  then show ?thesis
  proof cases
    case ended
    then show ?thesis
      using step skipped by (auto simp: make_token_def)
  next
    case newline
    then show ?thesis
      using step lift eats_steps(1) [OF newline(1)] by (auto simp: make_token_def dest: eats_lexes)
  next
    case more
    show ?thesis
    proof (cases "read_operator (lx_regex lx1) (lexer_char lx1) (lexer_peek_char lx1 1) (lexer_peek_char lx1 2)")
      case (Some oper)
      then show ?thesis
        using step more lift eats_advances [OF more(1)] operator_length
        by (cases oper) (auto simp: make_token_def dest: eats_lexes)
    next
      case None
      obtain digits lx2 where scanned: "scan_while isdigit lx1 = (digits, lx2)"
        by force
      show ?thesis
      proof (cases "digits \<noteq> [] \<and> (lexer_char lx2 = CHR ''<'' \<or> lexer_char lx2 = CHR ''>'')")
        case True
        then have "eats lx1 lx2"
          using scan_while_length [OF scanned] lexes_scanned [OF scanned lexes_refl]
          by (cases digits) (auto simp: eats_def)
        then show ?thesis
          using step more None scanned True lift by (auto simp: make_token_def dest: eats_lexes)
      next
        case False
        have "read_word (lx_lineno lx1) lx1 = (tok, lx')"
          using step more None scanned False by auto
        note word = this
        have "lexes lx1 lx' \<and> (tok_type tok \<noteq> TOK_EOF \<longrightarrow> eats lx1 lx') \<and>
            (tok_type tok = TOK_EOF \<longrightarrow> lx_errors lx1 < lx_errors lx')"
        proof (cases "lexer_char lx1 = NUL")
          case True
          then show ?thesis
            using read_word_NUL [OF word] by simp
        next
          case False
          then show ?thesis
            using read_word_eats [OF word more(1)] skipped_char [of lx] more
              read_operator_None [OF None False more(2)] by (simp add: lx1_def eats_lexes)
        qed
        then show ?thesis
          using lift errors skipped by (auto intro: lexes_trans)
      qed
    qed
  qed
qed

end
