(* ===== verification/Parser.thy ===== *)
theory Parser
  imports Lexer "HOL-Library.Sublist"
begin

text \<open>
  \<^verbatim>\<open>src/parser/parser.c\<close>: the recursive-descent parser. A parse function gives its result, \<open>None\<close> for
  \<^verbatim>\<open>NULL\<close>, and the parser after it. The functions that parse nested commands take the one for a command
  as a parameter, and \<open>parse_command_n\<close> closes the recursion with fuel for the depth of nesting; there
  the outer option is the fuel. What is printed is collected with what the lexer prints.

  The body of a here-document is read after the command that has it, and the code stores it through
  a pointer to the redirection. Here a redirection has an address, \<open>ps_bodies\<close> holds what was stored
  at each address, and \<open>parser_parse\<close> puts it into the tree at the end.
\<close>

subsection \<open>State\<close>

definition MAX_PARSE_ERRORS :: nat where "MAX_PARSE_ERRORS = 64"
definition MAX_PENDING_HEREDOCS :: nat where "MAX_PENDING_HEREDOCS = 8"

record pending_heredoc =
  ph_delimiter :: string
  ph_strip_tabs :: bool
  ph_expand :: bool
  ph_target :: nat

record parser =
  ps_lexer :: "program lexer"
  ps_filename :: string
  ps_error_count :: nat
  ps_errors :: "(nat \<times> string) list"
  ps_pending :: "pending_heredoc list"
  ps_next_addr :: nat
  ps_bodies :: "(nat \<times> program wordu \<times> string) list"

type_synonym ptoken = "program token"
type_synonym 'a parse = "parser \<Rightarrow> ('a \<times> parser) option"

definition parser_init :: "string \<Rightarrow> string \<Rightarrow> parser" where
  "parser_init source filename =
     \<lparr>ps_lexer = lexer_init source filename, ps_filename = filename, ps_error_count = 0, ps_errors = [],
      ps_pending = [], ps_next_addr = 0, ps_bodies = []\<rparr>"

definition parser_error_count :: "parser \<Rightarrow> nat" where
  "parser_error_count p = ps_error_count p + lx_errors (ps_lexer p)"

definition parser_error :: "string \<Rightarrow> parser \<Rightarrow> parser" where
  "parser_error msg p =
     (let lineno = lx_lineno (ps_lexer p) in
      p\<lparr>ps_lexer := lexer_print (message (ps_filename p) lineno msg) (ps_lexer p),
        ps_errors := (if ps_error_count p < MAX_PARSE_ERRORS then ps_errors p @ [(lineno, msg)]
                      else ps_errors p),
        ps_error_count := ps_error_count p + 1\<rparr>)"

text \<open>\<^verbatim>\<open>snprintf\<close> into a buffer of 256 bytes.\<close>

definition in_buffer :: "string \<Rightarrow> string" where
  "in_buffer s = take 255 s"

definition parser_error_unexpected :: "ptoken \<Rightarrow> parser \<Rightarrow> parser" where
  "parser_error_unexpected tok p =
     (if tok_type tok = TOK_EOF then parser_error ''unexpected end of input'' p
      else
        (case tok_value tok of
           Some v \<Rightarrow> parser_error (in_buffer (''unexpected token '' @ quote_name v)) p
         | None \<Rightarrow> parser_error (in_buffer (''unexpected '' @ token_type_name (tok_type tok))) p))"

definition next_token :: "parser \<Rightarrow> ptoken \<times> parser" where
  "next_token p = (case lexer_next (ps_lexer p) of (tok, lx) \<Rightarrow> (tok, p\<lparr>ps_lexer := lx\<rparr>))"

definition peek_token :: "parser \<Rightarrow> ptoken \<times> parser" where
  "peek_token p = (case lexer_peek (ps_lexer p) of (tok, lx) \<Rightarrow> (tok, p\<lparr>ps_lexer := lx\<rparr>))"

definition peek_type :: "parser \<Rightarrow> token_type \<times> parser" where
  "peek_type p = (case peek_token p of (tok, p) \<Rightarrow> (tok_type tok, p))"

definition consume :: "parser \<Rightarrow> parser" where
  "consume p = snd (next_token p)"

definition expect :: "token_type \<Rightarrow> parser \<Rightarrow> bool \<times> parser" where
  "expect typ p =
     (case next_token p of
        (tok, p) \<Rightarrow>
          if tok_type tok \<noteq> typ
          then (False, parser_error (in_buffer
                 (''expected '' @ token_type_name typ @ '', got '' @ token_type_name (tok_type tok))) p)
          else (True, p))"

definition set_reserved :: "bool \<Rightarrow> parser \<Rightarrow> parser" where
  "set_reserved b p = p\<lparr>ps_lexer := (ps_lexer p)\<lparr>lx_reserved := b\<rparr>\<rparr>"

definition set_regex :: "bool \<Rightarrow> parser \<Rightarrow> parser" where
  "set_regex b p = p\<lparr>ps_lexer := (ps_lexer p)\<lparr>lx_regex := b\<rparr>\<rparr>"

definition drop_lookahead :: "parser \<Rightarrow> parser" where
  "drop_lookahead p = p\<lparr>ps_lexer := (ps_lexer p)\<lparr>lx_lookahead := None\<rparr>\<rparr>"

subsection \<open>Kinds of tokens\<close>

definition is_command_start :: "token_type \<Rightarrow> bool" where
  "is_command_start typ \<longleftrightarrow>
     typ \<in> {TOK_WORD, TOK_ASSIGNMENT, TOK_IO_NUMBER, TOK_BANG, TOK_LPAREN, TOK_LBRACE, TOK_IF, TOK_FOR,
       TOK_WHILE, TOK_UNTIL, TOK_CASE, TOK_FUNCTION, TOK_DBRACK_OPEN}"

definition is_word_token :: "token_type \<Rightarrow> bool" where
  "is_word_token typ \<longleftrightarrow>
     typ \<in> {TOK_IF, TOK_THEN, TOK_ELSE, TOK_ELIF, TOK_FI, TOK_DO, TOK_DONE, TOK_CASE, TOK_ESAC, TOK_WHILE,
       TOK_UNTIL, TOK_FOR, TOK_IN, TOK_FUNCTION, TOK_BANG, TOK_DBRACK_OPEN, TOK_DBRACK_CLOSE, TOK_LBRACE,
       TOK_RBRACE}"

definition is_redir_op :: "token_type \<Rightarrow> bool" where
  "is_redir_op typ \<longleftrightarrow>
     typ \<in> {TOK_LESS, TOK_GREAT, TOK_DLESS, TOK_DGREAT, TOK_LESSAND, TOK_GREATAND, TOK_LESSGREAT,
       TOK_CLOBBER, TOK_TLESS, TOK_DLESSDASH}"

definition token_to_redir_type :: "token_type \<Rightarrow> io_redir_type" where
  "token_to_redir_type typ =
     (case typ of
        TOK_GREAT \<Rightarrow> REDIR_OUT
      | TOK_DGREAT \<Rightarrow> REDIR_APPEND
      | TOK_CLOBBER \<Rightarrow> REDIR_CLOBBER
      | TOK_LESSGREAT \<Rightarrow> REDIR_RDWR
      | TOK_LESSAND \<Rightarrow> REDIR_DUPIN
      | TOK_GREATAND \<Rightarrow> REDIR_DUPOUT
      | TOK_DLESS \<Rightarrow> REDIR_HEREDOC
      | TOK_DLESSDASH \<Rightarrow> REDIR_HEREDOC_STRIP
      | TOK_TLESS \<Rightarrow> REDIR_HERESTR
      | _ \<Rightarrow> REDIR_IN)"

subsection \<open>Here-documents\<close>

text \<open>The lines up to the delimiter, whether it was found, and the lexer behind it.\<close>

function (sequential) read_body :: "string \<Rightarrow> bool \<Rightarrow> program lexer \<Rightarrow> string \<times> bool \<times> program lexer" where
  "read_body delim strip lx =
     (if at_end lx then ([], False, lx)
      else
        (let line = takeWhile (\<lambda>c. c \<noteq> CHR 0x0A) (lx_text lx);
             rest = dropWhile (\<lambda>c. c \<noteq> CHR 0x0A) (lx_text lx);
             lx1 = lx\<lparr>lx_text := tl rest, lx_lineno := (if rest = [] then lx_lineno lx else lx_lineno lx + 1)\<rparr>;
             shown = (if strip then dropWhile (\<lambda>c. c = CHR 0x09) line else line) in
         if shown = delim then ([], True, lx1)
         else (case read_body delim strip lx1 of (s, r) \<Rightarrow> (shown @ CHR 0x0A # s, r))))"
  by pat_completeness auto
termination
proof (relation "measure (\<lambda>(delim, strip, lx). length (lx_text lx))", goal_cases)
  case (2 delim strip lx)
  then show ?case
    using length_dropWhile_le [of "\<lambda>c. c \<noteq> CHR 0x0A" "lx_text lx"]
    by (cases "lx_text lx") (auto simp: le_imp_less_Suc diff_le_self intro: le_less_trans)
qed simp

declare read_body.simps [simp del]

definition drain_heredoc :: "parser \<Rightarrow> pending_heredoc \<Rightarrow> parser" where
  "drain_heredoc p ph =
     (case read_body (ph_delimiter ph) (ph_strip_tabs ph) (ps_lexer p) of
        (body, found, lx) \<Rightarrow>
          let p = p\<lparr>ps_lexer := lx\<rparr>;
              p = (if found then p else parser_error ''here-document delimited by end of file'' p);
              (parsed, out) =
                (if ph_expand ph \<and> body \<noteq> []
                 then (case lexer_parse_heredoc_body body (ps_filename p) of
                         (w, out) \<Rightarrow> (if w \<noteq> [] then w else [WP_LITERAL False []], out))
                 else ([WP_LITERAL False body], [])) in
          p\<lparr>ps_lexer := lexer_print out (ps_lexer p),
            ps_bodies := (ph_target ph, parsed, ph_delimiter ph) # ps_bodies p\<rparr>)"

definition drain_heredocs :: "parser \<Rightarrow> parser" where
  "drain_heredocs p = (foldl drain_heredoc p (ps_pending p))\<lparr>ps_pending := []\<rparr>"

definition drain_if_pending :: "parser \<Rightarrow> parser" where
  "drain_if_pending p =
     (if ps_pending p \<noteq> [] \<and> ps_error_count p = 0 \<and> lx_errors (ps_lexer p) = 0 then drain_heredocs p else p)"

subsection \<open>What every parse function keeps\<close>

text \<open>
  The text is consumed from the front with its newlines counted, errors and output only grow, the
  bounds of the arrays hold, and a token of the end of the input means the end or an error. \<open>remaining\<close> is what remains: the text and a token looked ahead.
\<close>

abbreviation ps_text :: "parser \<Rightarrow> string" where
  "ps_text p \<equiv> lx_text (ps_lexer p)"

definition remaining :: "parser \<Rightarrow> nat" where
  "remaining p = length (ps_text p) +
     (case lx_lookahead (ps_lexer p) of None \<Rightarrow> 0 | Some tok \<Rightarrow> if tok_type tok = TOK_EOF then 0 else 1)"

definition parser_ok :: "parser \<Rightarrow> bool" where
  "parser_ok p \<longleftrightarrow>
     length (ps_pending p) \<le> MAX_PENDING_HEREDOCS \<and>
     length (ps_errors p) = min MAX_PARSE_ERRORS (ps_error_count p) \<and>
     (\<forall>tok. lx_lookahead (ps_lexer p) = Some tok \<and> tok_type tok = TOK_EOF \<longrightarrow>
        ps_text p = [] \<or> 0 < lx_errors (ps_lexer p))"

definition text_consumed :: "parser \<Rightarrow> parser \<Rightarrow> bool" where
  "text_consumed p p' \<longleftrightarrow>
     (\<exists>s. ps_text p = s @ ps_text p' \<and> lx_lineno (ps_lexer p') = lx_lineno (ps_lexer p) + newlines s)"

definition parses :: "parser \<Rightarrow> parser \<Rightarrow> bool" where
  "parses p p' \<longleftrightarrow>
     text_consumed p p' \<and> remaining p' \<le> remaining p \<and>
     ps_error_count p \<le> ps_error_count p' \<and> lx_errors (ps_lexer p) \<le> lx_errors (ps_lexer p') \<and>
     prefix (lx_stderr (ps_lexer p)) (lx_stderr (ps_lexer p')) \<and>
     ps_filename p' = ps_filename p \<and> lx_filename (ps_lexer p') = lx_filename (ps_lexer p) \<and>
     lx_regex (ps_lexer p') = lx_regex (ps_lexer p) \<and> (parser_ok p \<longrightarrow> parser_ok p')"

definition ate :: "parser \<Rightarrow> parser \<Rightarrow> bool" where
  "ate p p' \<longleftrightarrow> parses p p' \<and> remaining p' < remaining p"

named_theorems parses_intros \<open>results that are written out as a call\<close>
named_theorems parses_calls \<open>results that an equation gives: the equation is the first premise\<close>

lemma text_consumed_refl [simp]: "text_consumed p p"
  by (simp add: text_consumed_def)

lemma text_consumed_trans:
  assumes "text_consumed p p1" "text_consumed p1 p2"
  shows "text_consumed p p2"
proof -
  obtain s1 where "ps_text p = s1 @ ps_text p1" "lx_lineno (ps_lexer p1) = lx_lineno (ps_lexer p) + newlines s1"
    using assms(1) by (auto simp: text_consumed_def)
  moreover obtain s2 where "ps_text p1 = s2 @ ps_text p2" "lx_lineno (ps_lexer p2) = lx_lineno (ps_lexer p1) + newlines s2"
    using assms(2) by (auto simp: text_consumed_def)
  ultimately show ?thesis
    unfolding text_consumed_def by (intro exI [of _ "s1 @ s2"]) simp
qed

lemma parses_refl [simp]: "parses p p"
  by (simp add: parses_def)

lemma parses_trans: "parses p p1 \<Longrightarrow> parses p1 p2 \<Longrightarrow> parses p p2"
  by (auto simp: parses_def intro: text_consumed_trans prefix_order.trans)

lemma parses_after: "parses p1 p2 \<Longrightarrow> parses p p1 \<Longrightarrow> parses p p2"
  by (rule parses_trans)

lemma ate_parses: "ate p p' \<Longrightarrow> parses p p'"
  by (simp add: ate_def)

lemma ate_trans: "ate p p1 \<Longrightarrow> parses p1 p2 \<Longrightarrow> ate p p2" "parses p p1 \<Longrightarrow> ate p1 p2 \<Longrightarrow> ate p p2"
  by (auto simp: ate_def parses_def intro: text_consumed_trans prefix_order.trans)

lemma ate_less: "ate p p' \<Longrightarrow> remaining p' < remaining p"
  by (simp add: ate_def)

lemma ate_induct [case_names ate]:
  assumes "\<And>p. (\<And>p'. ate p p' \<Longrightarrow> P p') \<Longrightarrow> P p"
  shows "P p"
  by (induction "remaining p" arbitrary: p rule: less_induct) (auto intro: assms simp: ate_def)

text \<open>A lexer after some calls, with no token looked ahead before, or with the one that was there.\<close>

lemma parses_lexer:
  assumes "lexes (ps_lexer p) lx"
    "remaining (p\<lparr>ps_lexer := lx\<lparr>lx_lookahead := la\<rparr>\<rparr>) \<le> remaining p"
    "\<And>tok. parser_ok p \<Longrightarrow> la = Some tok \<Longrightarrow> tok_type tok = TOK_EOF \<Longrightarrow> lx_text lx = [] \<or> 0 < lx_errors lx"
  shows "parses p (p\<lparr>ps_lexer := lx\<lparr>lx_lookahead := la\<rparr>\<rparr>)"
  using assms by (auto simp: parses_def text_consumed_def lexes_def parser_ok_def prefix_def)

lemma lookahead_same: "lexes lx lx' \<Longrightarrow> lx_lookahead lx' = lx_lookahead lx"
  by (simp add: lexes_def)

lemma next_token_cases:
  assumes "next_token p = (tok, p')"
  shows "parses p p' \<and> (tok_type tok \<noteq> TOK_EOF \<longrightarrow> ate p p')"
proof (cases "lx_lookahead (ps_lexer p)")
  case None
  then obtain lx where read: "lexer_read_token (ps_lexer p) = (tok, lx)" "p' = p\<lparr>ps_lexer := lx\<rparr>"
    using assms by (auto simp: next_token_def lexer_next_def split: prod.splits)
  note step = read_token_cases [OF read(1)]
  have la: "p' = p\<lparr>ps_lexer := lx\<lparr>lx_lookahead := None\<rparr>\<rparr>"
    using read(2) step None lookahead_same [of "ps_lexer p" lx] by simp
  have "remaining p' \<le> remaining p"
    using step None lexes_length [of "ps_lexer p" lx] lookahead_same [of "ps_lexer p" lx]
    by (simp add: read(2) remaining_def)
  moreover have "tok_type tok \<noteq> TOK_EOF \<Longrightarrow> remaining p' < remaining p"
    using step None lookahead_same [of "ps_lexer p" lx] by (simp add: read(2) remaining_def eats_def)
  ultimately show ?thesis
    using parses_lexer [where p = p and lx = lx and la = None] step by (simp add: la ate_def)
next
  case (Some la)
  then have "tok = la" "p' = p\<lparr>ps_lexer := (ps_lexer p)\<lparr>lx_lookahead := None\<rparr>\<rparr>"
    using assms by (auto simp: next_token_def lexer_next_def)
  then show ?thesis
    using parses_lexer [OF lexes_refl, where p = p and la = None] Some by (auto simp: ate_def remaining_def)
qed

lemma peek_token_cases:
  assumes "peek_token p = (tok, p')"
  shows "parses p p' \<and> next_token p' = (tok, p'\<lparr>ps_lexer := (ps_lexer p')\<lparr>lx_lookahead := None\<rparr>\<rparr>)"
proof (cases "lx_lookahead (ps_lexer p)")
  case None
  then obtain lx where read: "lexer_read_token (ps_lexer p) = (tok, lx)"
      "p' = p\<lparr>ps_lexer := lx\<lparr>lx_lookahead := Some tok\<rparr>\<rparr>"
    using assms by (auto simp: peek_token_def lexer_peek_def split: prod.splits)
  note step = read_token_cases [OF read(1)]
  have "remaining p' \<le> remaining p"
    using step None lexes_length [of "ps_lexer p" lx] by (auto simp: read(2) remaining_def eats_def Suc_le_eq)
  then show ?thesis
    using step parses_lexer [where p = p and lx = lx and la = "Some tok"]
    by (fastforce simp: read(2) next_token_def lexer_next_def)
next
  case (Some la)
  then show ?thesis
    using assms by (auto simp: peek_token_def lexer_peek_def next_token_def lexer_next_def)
qed

lemma parses_next [parses_calls]: "next_token p1 = (tok, p2) \<Longrightarrow> parses p p1 \<Longrightarrow> parses p p2"
  using next_token_cases by (blast intro: parses_trans)

lemma parses_peek [parses_calls]: "peek_token p1 = (tok, p2) \<Longrightarrow> parses p p1 \<Longrightarrow> parses p p2"
  using peek_token_cases by (blast intro: parses_trans)

lemma parses_peek_type [parses_calls]: "peek_type p1 = (ty, p2) \<Longrightarrow> parses p p1 \<Longrightarrow> parses p p2"
  by (auto simp: peek_type_def split: prod.splits intro: parses_peek)

lemma parses_consume [parses_intros]: "parses p p1 \<Longrightarrow> parses p (consume p1)"
  unfolding consume_def by (metis parses_next prod.collapse)

lemma ate_consume: "peek_type p = (ty, p1) \<Longrightarrow> ty \<noteq> TOK_EOF \<Longrightarrow> ate p (consume p1)"
  using peek_token_cases next_token_cases
  by (fastforce simp: peek_type_def consume_def split: prod.splits intro: ate_trans(2))

lemma ate_next: "peek_type p = (ty, p1) \<Longrightarrow> ty \<noteq> TOK_EOF \<Longrightarrow> next_token p1 = (tok, p2) \<Longrightarrow> ate p p2"
  using ate_consume [of p ty p1] by (simp add: consume_def)

lemma peeked_next: "peek_type p = (ty, p1) \<Longrightarrow> next_token p1 = (tok, p2) \<Longrightarrow> tok_type tok = ty"
  using peek_token_cases by (fastforce simp: peek_type_def split: prod.splits)

lemma parses_same_lexer:
  assumes "ps_lexer p' = ps_lexer p" "ps_error_count p \<le> ps_error_count p'" "ps_filename p' = ps_filename p"
    "parser_ok p \<longrightarrow> parser_ok p'"
  shows "parses p p'"
  using assms by (simp add: parses_def text_consumed_def remaining_def)

lemma parses_error [parses_intros]: "parses p p1 \<Longrightarrow> parses p (parser_error msg p1)"
  by (erule parses_trans)
    (simp add: parses_def parser_error_def text_consumed_def remaining_def lexer_print_def parser_ok_def Let_def)

lemma parses_reserved [parses_intros]: "parses p p1 \<Longrightarrow> parses p (set_reserved b p1)"
  by (erule parses_trans)
    (simp add: parses_def set_reserved_def text_consumed_def remaining_def parser_ok_def)

lemma parses_drop_lookahead [parses_intros]: "parses p p1 \<Longrightarrow> parses p (drop_lookahead p1)"
  by (erule parses_trans)
    (simp add: parses_def drop_lookahead_def text_consumed_def remaining_def parser_ok_def)

lemma parses_expect [parses_calls]: "expect ty p1 = (b, p2) \<Longrightarrow> parses p p1 \<Longrightarrow> parses p p2"
  by (auto simp: expect_def split: prod.splits if_splits intro: parses_error parses_next)

lemma parses_if [parses_intros]: "parses p p1 \<Longrightarrow> parses p p2 \<Longrightarrow> parses p (if b then p1 else p2)"
  by simp

lemma lexes_read_body: "read_body delim strip lx = (body, found, lx') \<Longrightarrow> lexes lx lx'"
proof (induction delim strip lx arbitrary: body rule: read_body.induct)
  case (1 delim strip lx)
  let ?line = "takeWhile (\<lambda>c. c \<noteq> CHR 0x0A) (lx_text lx)"
  let ?rest = "dropWhile (\<lambda>c. c \<noteq> CHR 0x0A) (lx_text lx)"
  let ?lx1 = "lx\<lparr>lx_text := tl ?rest, lx_lineno := (if ?rest = [] then lx_lineno lx else lx_lineno lx + 1)\<rparr>"
  have "lexes lx ?lx1"
  proof (cases ?rest)
    case Nil
    then have "lx_text lx = ?line"
      by (metis append_Nil2 takeWhile_dropWhile_id)
    then show ?thesis
      using newlines_takeWhile [of "lx_text lx"] Nil
      by (auto simp: lexes_def simp del: dropWhile_eq_Nil_conv)
  next
    case (Cons c r)
    then have "c = CHR 0x0A"
      by (simp add: dropWhile_eq_Cons_conv)
    moreover have "lx_text lx = ?line @ c # r"
      by (metis Cons takeWhile_dropWhile_id)
    ultimately have "\<exists>s. lx_text lx = s @ r \<and> newlines s = 1"
      using newlines_takeWhile [of "lx_text lx"]
      by (intro exI [of _ "?line @ [c]"]) simp
    then show ?thesis
      using Cons by (auto simp: lexes_def)
  qed
  then show ?case
    using 1 unfolding read_body.simps [of delim strip lx] Let_def
    by (auto split: if_splits prod.splits intro: lexes_trans simp del: takeWhile.simps dropWhile.simps)
qed

lemma parses_keep_lookahead:
  assumes "lexes (ps_lexer p) lx"
  shows "parses p (p\<lparr>ps_lexer := lx\<rparr>)"
proof -
  have "lx_lookahead lx = lx_lookahead (ps_lexer p)"
    using assms by (simp add: lookahead_same)
  then have "parses p (p\<lparr>ps_lexer := lx\<lparr>lx_lookahead := lx_lookahead lx\<rparr>\<rparr>)"
    using assms lexes_length [OF assms]
    by (intro parses_lexer [OF assms]) (auto simp: remaining_def parser_ok_def lexes_def)
  then show ?thesis
    by simp
qed

lemma parses_drain_heredoc [parses_intros]: "parses p p1 \<Longrightarrow> parses p (drain_heredoc p1 ph)"
proof (erule parses_trans)
  obtain body found lx where read: "read_body (ph_delimiter ph) (ph_strip_tabs ph) (ps_lexer p1) = (body, found, lx)"
    by (rule prod_cases3)
  define p2 where "p2 = p1\<lparr>ps_lexer := lx\<rparr>"
  define p3 where "p3 = (if found then p2 else parser_error ''here-document delimited by end of file'' p2)"
  have p3: "parses p1 p3"
    unfolding p3_def p2_def using lexes_read_body [OF read]
    by (intro parses_intros parses_keep_lookahead)
  have "parses p3 (p3\<lparr>ps_lexer := lexer_print out (ps_lexer p3), ps_bodies := bodies\<rparr>)" for out bodies
    by (rule parses_trans [OF parses_keep_lookahead [OF lexes_print [of _ out]] parses_same_lexer])
      (simp_all add: parser_ok_def)
  with p3 show "parses p1 (drain_heredoc p1 ph)"
    unfolding drain_heredoc_def read Let_def prod.case p2_def [symmetric] p3_def [symmetric]
    by (auto split: prod.split intro: parses_trans)
qed

lemma parses_drain_if_pending [parses_intros]: "parses p p1 \<Longrightarrow> parses p (drain_if_pending p1)"
proof (erule parses_trans)
  have "parses p1 (foldl drain_heredoc p1 phs)" for phs
    by (induction phs rule: rev_induct) (simp_all add: parses_drain_heredoc)
  then have "parses p1 (drain_heredocs p1)"
    unfolding drain_heredocs_def
    by (rule parses_trans) (rule parses_same_lexer, auto simp: parser_ok_def)
  then show "parses p1 (drain_if_pending p1)"
    by (simp add: drain_if_pending_def)
qed

subsection \<open>Newlines and redirections\<close>

function skip_newlines :: "parser \<Rightarrow> parser" where
  "skip_newlines p =
     (case peek_type p of
        (ty, p1) \<Rightarrow> if ty = TOK_NEWLINE then skip_newlines (drain_if_pending (consume p1)) else p1)"
  by pat_completeness auto
termination
  by (relation "measure remaining")
    (auto intro!: ate_less ate_trans(1) [OF ate_consume [OF sym] parses_drain_if_pending [OF parses_refl]])

declare skip_newlines.simps [simp del]

lemma skip_newlines_parses: "parses p (skip_newlines p)"
proof (induction p rule: ate_induct)
  case (ate p)
  obtain ty p1 where peeked: "peek_type p = (ty, p1)"
    by force
  have eaten: "ate p (drain_if_pending (consume p1))" if "ty = TOK_NEWLINE"
    using that by (intro ate_trans(1) [OF ate_consume [OF peeked]] parses_intros parses_refl) auto
  show ?case
    using parses_trans [OF ate_parses [OF eaten] ate.IH [OF eaten]]
    by (auto simp: skip_newlines.simps [of p] peeked intro: parses_peek_type [OF peeked parses_refl])
qed

lemmas parses_skip_newlines [parses_intros] = skip_newlines_parses [THEN parses_after]

text \<open>The delimiter of a here-document without its quotes.\<close>

fun dquoted_delim :: "string \<Rightarrow> string \<times> string" where
  "dquoted_delim [] = ([], [])"
| "dquoted_delim (c # s) =
     (if c = dquote then ([], s)
      else if c = backslash
      then (case s of
              [] \<Rightarrow> ([c], [])
            | c1 # s1 \<Rightarrow> (case dquoted_delim s1 of (d, r) \<Rightarrow> (c1 # d, r)))
      else (case dquoted_delim s of (d, r) \<Rightarrow> (c # d, r)))"

lemma dquoted_delim_length: "dquoted_delim s = (d, r) \<Longrightarrow> length r \<le> length s"
  by (induction s arbitrary: d rule: dquoted_delim.induct)
    (fastforce split: if_splits prod.splits list.splits)+

function (sequential) strip_delim :: "string \<Rightarrow> string" where
  "strip_delim [] = []"
| "strip_delim (c # s) =
     (if c = squote
      then takeWhile (\<lambda>c. c \<noteq> squote) s @ strip_delim (tl (dropWhile (\<lambda>c. c \<noteq> squote) s))
      else if c = dquote then (case dquoted_delim s of (d, r) \<Rightarrow> d @ strip_delim r)
      else if c = backslash \<and> s \<noteq> [] then hd s # strip_delim (tl s)
      else c # strip_delim s)"
  by pat_completeness auto
termination
  by (relation "measure length")
    (auto simp: less_Suc_eq_le dest!: sym [of _ "dquoted_delim _"] dquoted_delim_length
      intro: le_trans [OF diff_le_self length_dropWhile_le])

definition redir_default_fd :: "io_redir_type \<Rightarrow> int" where
  "redir_default_fd ty =
     (if ty \<in> {REDIR_IN, REDIR_DUPIN, REDIR_HEREDOC, REDIR_HEREDOC_STRIP, REDIR_HERESTR, REDIR_RDWR}
      then 0 else 1)"

definition parse_heredoc_redir :: "io_redir_type \<Rightarrow> parser \<Rightarrow> program io_redir option \<times> parser" where
  "parse_heredoc_redir ty p =
     (case next_token p of
        (tok, p) \<Rightarrow>
          if \<not> token_is_word tok then (None, parser_error ''expected here-document delimiter'' p)
          else
            (let raw = (case tok_value tok of None \<Rightarrow> [] | Some v \<Rightarrow> v);
                 quoted = list_ex (\<lambda>c. c = squote \<or> c = dquote \<or> c = backslash) raw;
                 addr = ps_next_addr p;
                 ph = \<lparr>ph_delimiter = (if quoted then strip_delim raw else raw),
                       ph_strip_tabs = (ty = REDIR_HEREDOC_STRIP), ph_expand = \<not> quoted, ph_target = addr\<rparr>;
                 rd = Io_redir addr ty (redir_default_fd ty) (tok_word tok) [] None (\<not> quoted);
                 p = p\<lparr>ps_next_addr := addr + 1\<rparr> in
             (Some rd,
              if length (ps_pending p) < MAX_PENDING_HEREDOCS then p\<lparr>ps_pending := ps_pending p @ [ph]\<rparr>
              else parser_error ''too many here-documents'' p)))"

definition parse_redirection :: "parser \<Rightarrow> program io_redir option \<times> parser" where
  "parse_redirection p =
     (case next_token p of
        (tok, p) \<Rightarrow>
          (let ty = token_to_redir_type (tok_type tok) in
           if ty = REDIR_HEREDOC \<or> ty = REDIR_HEREDOC_STRIP then parse_heredoc_redir ty p
           else
             (case next_token p of
                (tok, p) \<Rightarrow>
                  if \<not> token_is_word tok then (None, parser_error ''expected filename after redirection'' p)
                  else
                    (let closes = ((ty = REDIR_DUPIN \<or> ty = REDIR_DUPOUT) \<and> tok_value tok = Some ''-'') in
                     (Some (Io_redir (ps_next_addr p) (if closes then REDIR_CLOSE else ty)
                        (redir_default_fd ty) (tok_word tok) [] None False),
                      p\<lparr>ps_next_addr := ps_next_addr p + 1\<rparr>)))))"

lemma parses_addr [parses_intros]: "parses p p1 \<Longrightarrow> parses p (p1\<lparr>ps_next_addr := n\<rparr>)"
  by (erule parses_trans) (rule parses_same_lexer, simp_all add: parser_ok_def)

lemma parses_pending:
  "length (ps_pending p1) < MAX_PENDING_HEREDOCS \<Longrightarrow> parses p p1 \<Longrightarrow>
     parses p (p1\<lparr>ps_next_addr := n, ps_pending := ps_pending p1 @ [ph]\<rparr>)"
  by (erule parses_trans) (rule parses_same_lexer, simp_all add: parser_ok_def)

lemma parses_heredoc_redir [parses_calls]:
  "parse_heredoc_redir ty p1 = (rd, p2) \<Longrightarrow> parses p p1 \<Longrightarrow> parses p p2"
  by (auto simp: parse_heredoc_redir_def Let_def split: prod.splits if_splits)
    (assumption | rule parses_intros parses_pending | erule parses_calls)+

lemma parses_redirection [parses_calls]: "parse_redirection p1 = (rd, p2) \<Longrightarrow> parses p p1 \<Longrightarrow> parses p p2"
  by (auto simp: parse_redirection_def Let_def split: prod.splits if_splits)
    (assumption | rule parses_intros | erule parses_calls)+

lemma ate_redirection:
  assumes "peek_type p = (ty, p1)" "ty \<noteq> TOK_EOF" "parse_redirection p1 = (rd, p2)"
  shows "ate p p2"
proof -
  obtain tok p3 where tok: "next_token p1 = (tok, p3)"
    by force
  have "parses p3 p2"
    using assms(3) by (auto simp: parse_redirection_def Let_def tok split: prod.splits if_splits)
      (assumption | rule parses_refl parses_intros | erule parses_calls)+
  then show ?thesis
    by (rule ate_trans(1) [OF ate_next [OF assms(1,2) tok]])
qed

fun set_fd :: "int \<Rightarrow> 'p io_redir \<Rightarrow> 'p io_redir" where
  "set_fd fd (Io_redir addr ty _ target body delim expand) = Io_redir addr ty fd target body delim expand"

definition io_number :: "token_type \<Rightarrow> parser \<Rightarrow> int \<times> parser" where
  "io_number ty p =
     (if ty = TOK_IO_NUMBER
      then (case next_token p of (tok, p) \<Rightarrow> (atoi (case tok_value tok of None \<Rightarrow> [] | Some v \<Rightarrow> v), p))
      else (-1, p))"

lemma parses_io_number [parses_calls]: "io_number ty p1 = (fd, p2) \<Longrightarrow> parses p p1 \<Longrightarrow> parses p p2"
  by (auto simp: io_number_def split: if_splits prod.splits intro: parses_next)

lemma redirections_ate:
  assumes "peek_type p = (ty, p1)" "io_number ty p1 = (fd, p2)" "peek_type p2 = (ty', p3)" "is_redir_op ty'"
    "parse_redirection p3 = (rd, p4)"
  shows "ate p p4"
proof -
  have "parses p p2"
    by (rule parses_io_number [OF assms(2) parses_peek_type [OF assms(1) parses_refl]])
  moreover have "ate p2 p4"
    using assms(4) by (intro ate_redirection [OF assms(3) _ assms(5)]) (auto simp: is_redir_op_def)
  ultimately show ?thesis
    by (rule ate_trans(2))
qed

function parse_redirections :: "parser \<Rightarrow> program io_redir list \<times> parser" where
  "parse_redirections p =
     (case peek_type p of
        (ty, p) \<Rightarrow>
          if is_redir_op ty \<or> ty = TOK_IO_NUMBER
          then
            (case io_number ty p of
               (fd, p) \<Rightarrow>
                 (case peek_type p of
                    (ty, p1) \<Rightarrow>
                      if \<not> is_redir_op ty then ([], parser_error ''expected redirection operator'' p1)
                      else
                        (case parse_redirection p1 of
                           (None, p2) \<Rightarrow> ([], p2)
                         | (Some rd, p2) \<Rightarrow>
                             (case parse_redirections p2 of
                                (rds, p) \<Rightarrow> ((if fd \<ge> 0 then set_fd fd rd else rd) # rds, p)))))
          else ([], p))"
  by pat_completeness auto

termination
  by (relation "measure remaining") (auto intro!: ate_less redirections_ate [OF sym sym sym _ sym])

declare parse_redirections.simps [simp del]

lemma redirections_parses: "parse_redirections p = (rds, p') \<Longrightarrow> parses p p'"
proof (induction p arbitrary: rds rule: ate_induct)
  case (ate p)
  have rest: "parses p p'" if "ate p p1" "parse_redirections p1 = (rds1, p')" for p1 rds1
    using ate.IH [OF that] that(1) by (auto intro: parses_trans ate_parses)
  show ?case
    using ate.prems
    by (auto simp: parse_redirections.simps [of p] split: prod.splits if_splits option.splits
      intro: rest redirections_ate)
      (assumption | rule parses_refl parses_intros | erule parses_calls)+
qed

lemmas parses_redirections [parses_calls] = redirections_parses [THEN parses_after]

subsection \<open>Lists of words\<close>

function array_elements :: "parser \<Rightarrow> program wordu list \<times> parser" where
  "array_elements p =
     (case peek_type p of
        (ty, p1) \<Rightarrow>
          if ty = TOK_RPAREN \<or> ty = TOK_EOF then ([], p1)
          else if ty = TOK_NEWLINE then array_elements (consume p1)
          else
            (case next_token p1 of
               (tok, p2) \<Rightarrow>
                 (case array_elements p2 of
                    (ws, p) \<Rightarrow> (if tok_word tok \<noteq> [] then tok_word tok # ws else ws, p))))"
  by pat_completeness auto
termination
  by (relation "measure remaining") (auto intro!: ate_less intro: ate_consume [OF sym] ate_next [OF sym _ sym])

declare array_elements.simps [simp del]

lemma array_elements_parses: "array_elements p = (ws, p') \<Longrightarrow> parses p p'"
proof (induction p arbitrary: ws rule: ate_induct)
  case (ate p)
  have rest: "parses p p'" if "ate p p1" "array_elements p1 = (ws1, p')" for p1 ws1
    using ate.IH [OF that] that(1) by (auto intro: parses_trans ate_parses)
  show ?case
    using ate.prems
    by (auto simp: array_elements.simps [of p] split: prod.splits if_splits
      intro: rest ate_consume ate_next parses_peek_type [OF _ parses_refl])
qed

text \<open>The words after \<^verbatim>\<open>in\<close>.\<close>

function for_words :: "parser \<Rightarrow> program wordu list \<times> parser" where
  "for_words p =
     (case peek_type p of
        (ty, p1) \<Rightarrow>
          if ty = TOK_WORD \<or> ty = TOK_ASSIGNMENT
          then (case next_token p1 of
                  (tok, p2) \<Rightarrow> (case for_words p2 of (ws, p) \<Rightarrow> (tok_word tok # ws, p)))
          else ([], p1))"
  by pat_completeness auto
termination
  by (relation "measure remaining") (auto intro!: ate_less intro: ate_next [OF sym _ sym])

declare for_words.simps [simp del]

lemma for_words_parses: "for_words p = (ws, p') \<Longrightarrow> parses p p'"
proof (induction p arbitrary: ws rule: ate_induct)
  case (ate p)
  have rest: "parses p p'" if "ate p p1" "for_words p1 = (ws1, p')" for p1 ws1
    using ate.IH [OF that] that(1) by (auto intro: parses_trans ate_parses)
  show ?case
    using ate.prems
    by (auto simp: for_words.simps [of p] split: prod.splits if_splits
      intro: rest ate_next parses_peek_type [OF _ parses_refl])
qed

lemma patterns_ate:
  assumes "next_token p = (tok, p1)" "peek_type p1 = (TOK_PIPE, p2)"
  shows "ate p (consume p2)"
  by (rule ate_trans(2) [OF parses_next [OF assms(1) parses_refl] ate_consume [OF assms(2)]]) simp

text \<open>The patterns of a case item; \<open>None\<close> is the error of a token without a text.\<close>

function case_patterns :: "parser \<Rightarrow> program wordu list option \<times> parser" where
  "case_patterns p =
     (case next_token p of
        (tok, p1) \<Rightarrow>
          if tok_word tok = [] \<and> tok_value tok = None
          then (None, parser_error ''expected pattern in case item'' p1)
          else
            (let pat = (if tok_word tok \<noteq> [] then tok_word tok else [WP_LITERAL False (the (tok_value tok))]) in
             case peek_type p1 of
               (ty, p2) \<Rightarrow>
                 if ty = TOK_PIPE
                 then (case case_patterns (consume p2) of (pats, p) \<Rightarrow> (map_option ((#) pat) pats, p))
                 else (Some [pat], p2)))"
  by pat_completeness auto

termination
  by (relation "measure remaining") (auto intro!: ate_less patterns_ate [OF sym sym])

declare case_patterns.simps [simp del]

lemma case_patterns_parses: "case_patterns p = (pats, p') \<Longrightarrow> parses p p'"
proof (induction p arbitrary: pats rule: ate_induct)
  case (ate p)
  have rest: "parses p p'" if "ate p p1" "case_patterns p1 = (pats1, p')" for p1 pats1
    using ate.IH [OF that] that(1) by (auto intro: parses_trans ate_parses)
  show ?case
    using ate.prems
    by (auto simp: case_patterns.simps [of p] Let_def split: prod.splits if_splits
      intro: rest patterns_ate)
      (assumption | rule parses_refl parses_intros | erule parses_calls)+
qed

lemmas parses_words [parses_calls] =
  array_elements_parses [THEN parses_after] for_words_parses [THEN parses_after]
  case_patterns_parses [THEN parses_after]

subsection \<open>Conditions in double brackets\<close>

definition is_unary_test_op :: "string \<Rightarrow> bool" where
  "is_unary_test_op s =
     (case s of [d, c] \<Rightarrow> d = CHR ''-'' \<and> c \<in> set ''fderwxsLnzbcphSgukOGNt'' | _ \<Rightarrow> False)"

definition is_binary_test_op :: "string \<Rightarrow> bool" where
  "is_binary_test_op s \<longleftrightarrow>
     s \<in> set [''=='', ''!='', ''<'', ''>'', ''-eq'', ''-ne'', ''-lt'', ''-gt'', ''-le'', ''-ge'', ''=~'',
       ''='', ''-nt'', ''-ot'', ''-ef'']"

definition has_value :: "ptoken \<Rightarrow> (string \<Rightarrow> bool) \<Rightarrow> bool" where
  "has_value tok P = (case tok_value tok of None \<Rightarrow> False | Some v \<Rightarrow> P v)"

definition cond_binary :: "ptoken \<Rightarrow> parser \<Rightarrow> program cond_expr option \<times> parser" where
  "cond_binary left p =
     (let (op_tok, p) = next_token p;
          was_regex = lx_regex (ps_lexer p);
          p = (if has_value op_tok (\<lambda>v. v = ''=~'') then drop_lookahead (set_regex True p) else p);
          (right, p) = next_token p in
      (Some (COND_BINARY (the (tok_value op_tok)) (tok_word left) (tok_word right)), set_regex was_regex p))"

definition cond_operand :: "ptoken \<Rightarrow> parser \<Rightarrow> program cond_expr option \<times> parser" where
  "cond_operand left p =
     (let (maybe_op, p) = peek_token p in
      if has_value maybe_op is_binary_test_op then cond_binary left p
      else if tok_type maybe_op = TOK_BANG
      then
        (let (eq_tok, p) = peek_token (consume p) in
         if has_value eq_tok (\<lambda>v. v = ''='')
         then (case next_token (consume p) of
                 (right, p) \<Rightarrow> (Some (COND_BINARY ''!='' (tok_word left) (tok_word right)), p))
         else (None, parser_error (''unexpected '' @ quote_name ''!'' @ '' in [[ ]] expression'') p))
      else (Some (COND_STRING (tok_word left)), p))"

definition parse_cond_expr_primary ::
  "program cond_expr option parse \<Rightarrow> program cond_expr option parse"
where
  "parse_cond_expr_primary cond p =
     (case peek_token p of
        (peeked, p) \<Rightarrow>
          if has_value peeked (\<lambda>v. v = '']]'') \<or> tok_type peeked = TOK_EOF then Some (None, p)
          else if has_value peeked (\<lambda>v. v = ''('')
          then
            do { (inner, p) \<leftarrow> cond (consume p);
                 let (tok, p) = next_token p;
                 Some (if has_value tok (\<lambda>v. v = '')'') then (inner, p)
                       else (None, parser_error
                         (''expected '' @ quote_name '')'' @ '' in [[ ]] expression'') p)) }
          else if has_value peeked is_unary_test_op
          then
            (let (op_tok, p) = next_token p; (arg_tok, p) = next_token p in
             Some (Some (COND_UNARY (the (tok_value op_tok)) (tok_word arg_tok)), p))
          else (case next_token p of (left, p) \<Rightarrow> Some (cond_operand left p)))"

partial_function (option) parse_cond_expr_not ::
  "program cond_expr option parse \<Rightarrow> program cond_expr option parse"
where
  "parse_cond_expr_not cond p =
     (case peek_token p of
        (tok, p) \<Rightarrow>
          if tok_type tok = TOK_BANG \<or> tok_type tok = TOK_WORD \<and> has_value tok (\<lambda>v. v = ''!'')
          then
            do { (child, p) \<leftarrow> parse_cond_expr_not cond (consume p);
                 Some (case child of
                         None \<Rightarrow> (None, parser_error ''expected expression after !'' p)
                       | Some c \<Rightarrow> (Some (COND_NOT c), p)) }
          else parse_cond_expr_primary cond p)"

partial_function (option) cond_and_loop ::
  "program cond_expr option parse \<Rightarrow> program cond_expr \<Rightarrow> program cond_expr option parse"
where
  "cond_and_loop cond left p =
     (case peek_type p of
        (ty, p) \<Rightarrow>
          if ty = TOK_AND_IF
          then
            do { (right, p) \<leftarrow> parse_cond_expr_not cond (consume p);
                 case right of
                   None \<Rightarrow> Some (None, parser_error ''expected expression after &&'' p)
                 | Some r \<Rightarrow> cond_and_loop cond (COND_AND left r) p }
          else Some (Some left, p))"

definition parse_cond_expr_and ::
  "program cond_expr option parse \<Rightarrow> program cond_expr option parse"
where
  "parse_cond_expr_and cond p =
     do { (left, p) \<leftarrow> parse_cond_expr_not cond p;
          case left of None \<Rightarrow> Some (None, p) | Some l \<Rightarrow> cond_and_loop cond l p }"

partial_function (option) cond_or_loop ::
  "program cond_expr option parse \<Rightarrow> program cond_expr \<Rightarrow> program cond_expr option parse"
where
  "cond_or_loop cond left p =
     (case peek_type p of
        (ty, p) \<Rightarrow>
          if ty = TOK_OR_IF
          then
            do { (right, p) \<leftarrow> parse_cond_expr_and cond (consume p);
                 case right of
                   None \<Rightarrow> Some (None, parser_error ''expected expression after ||'' p)
                 | Some r \<Rightarrow> cond_or_loop cond (COND_OR left r) p }
          else Some (Some left, p))"

definition parse_cond_expr_or ::
  "program cond_expr option parse \<Rightarrow> program cond_expr option parse"
where
  "parse_cond_expr_or cond p =
     do { (left, p) \<leftarrow> parse_cond_expr_and cond p;
          case left of None \<Rightarrow> Some (None, p) | Some l \<Rightarrow> cond_or_loop cond l p }"

text \<open>\<^verbatim>\<open>parse_cond_expr\<close>, with fuel for the nesting of parentheses.\<close>

primrec parse_cond_expr_n :: "nat \<Rightarrow> program cond_expr option parse" where
  "parse_cond_expr_n 0 = (\<lambda>p. None)"
| "parse_cond_expr_n (Suc n) = parse_cond_expr_or (parse_cond_expr_n n)"

definition parse_bracket ::
  "program cond_expr option parse \<Rightarrow> program command option parse"
where
  "parse_bracket cond p =
     (case peek_token p of
        (start, p) \<Rightarrow>
          let p = consume p; saved = lx_reserved (ps_lexer p) in
          do { (expr, p) \<leftarrow> cond (set_reserved False p);
               let (tok, p) = next_token (set_reserved saved p);
               if \<not> has_value tok (\<lambda>v. v = '']]'')
               then Some (None, parser_error (''expected '' @ quote_name '']]'') p)
               else
                 (case parse_redirections p of
                    (redirs, p) \<Rightarrow> Some (Some (Command (tok_lineno start) redirs (CT_BRACKET expr)), p)) })"

subsection \<open>Pipelines and lists\<close>

type_synonym parse_cmd = "program command option parse"

partial_function (option) pipeline_rest :: "parse_cmd \<Rightarrow> program command list parse" where
  "pipeline_rest cmd p =
     (case peek_type p of
        (ty, p) \<Rightarrow>
          if ty = TOK_PIPE
          then
            do { (c, p) \<leftarrow> cmd (skip_newlines (consume p));
                 case c of
                   None \<Rightarrow> Some ([], parser_error ''expected command after |'' p)
                 | Some c \<Rightarrow> do { (cs, p) \<leftarrow> pipeline_rest cmd p; Some (c # cs, p) } }
          else Some ([], p))"

definition parse_and_or :: "parse_cmd \<Rightarrow> program and_or option parse" where
  "parse_and_or cmd p =
     (case peek_type p of
        (ty, p) \<Rightarrow>
          do { (c, p) \<leftarrow> cmd (if ty = TOK_BANG then consume p else p);
               case c of
                 None \<Rightarrow> Some (None, p)
               | Some c \<Rightarrow>
                   do { (cs, p) \<leftarrow> pipeline_rest cmd p;
                        Some (Some (And_or (c # cs) (ty = TOK_BANG) False), p) } })"

fun set_connector :: "bool \<Rightarrow> 'p and_or \<Rightarrow> 'p and_or" where
  "set_connector b (And_or cmds negated _) = And_or cmds negated b"

text \<open>The pipelines after \<open>pl\<close>, which is given its connector when there is one.\<close>

partial_function (option) sh_list_rest :: "parse_cmd \<Rightarrow> program and_or \<Rightarrow> program and_or list parse" where
  "sh_list_rest cmd pl p =
     (case peek_type p of
        (ty, p) \<Rightarrow>
          if ty = TOK_AND_IF \<or> ty = TOK_OR_IF
          then
            do { (next_pl, p) \<leftarrow> parse_and_or cmd (skip_newlines (consume p));
                 case next_pl of
                   None \<Rightarrow>
                     Some ([set_connector (ty = TOK_AND_IF) pl],
                           parser_error ''expected command after && or ||'' p)
                 | Some pl' \<Rightarrow>
                     do { (pls, p) \<leftarrow> sh_list_rest cmd pl' p;
                          Some (set_connector (ty = TOK_AND_IF) pl # pls, p) } }
          else Some ([pl], p))"

definition parse_sh_list :: "parse_cmd \<Rightarrow> sh_list option parse" where
  "parse_sh_list cmd p =
     do { (first, p) \<leftarrow> parse_and_or cmd p;
          case first of
            None \<Rightarrow> Some (None, p)
          | Some pl \<Rightarrow> do { (pls, p) \<leftarrow> sh_list_rest cmd pl p; Some (Some (Sh_list pls False), p) } }"

fun set_background :: "bool \<Rightarrow> sh_list \<Rightarrow> sh_list" where
  "set_background b (Sh_list pls _) = Sh_list pls b"

partial_function (option) list_rest :: "parse_cmd \<Rightarrow> program parse" where
  "list_rest cmd p =
     (case peek_type p of
        (ty, p) \<Rightarrow>
          if is_command_start ty
          then
            do { (ao, p) \<leftarrow> parse_sh_list cmd p;
                 case ao of
                   None \<Rightarrow> Some ([], p)
                 | Some ao \<Rightarrow>
                     (case peek_type p of
                        (sep, p) \<Rightarrow>
                          if sep = TOK_SEMI \<or> sep = TOK_AMP \<or> sep = TOK_NEWLINE
                          then
                            (let p = consume p;
                                 p = (if sep = TOK_NEWLINE then drain_if_pending p else p) in
                             do { (aos, p) \<leftarrow> list_rest cmd (skip_newlines p);
                                  Some (set_background (sep = TOK_AMP) ao # aos, p) })
                          else Some ([ao], p)) }
          else Some ([], p))"

definition parse_list :: "parse_cmd \<Rightarrow> program parse" where
  "parse_list cmd p = list_rest cmd (skip_newlines p)"

subsection \<open>Simple commands\<close>

definition array_name :: "string \<Rightarrow> string" where
  "array_name raw = takeWhile (\<lambda>c. c \<noteq> CHR ''='') raw"

definition parse_func_parens :: "parse_cmd \<Rightarrow> program command option parse" where
  "parse_func_parens cmd p =
     (case expect TOK_RPAREN (consume p) of
        (closed, p) \<Rightarrow>
          if \<not> closed then Some (None, p)
          else
            do { (body, p) \<leftarrow> cmd (skip_newlines p);
                 Some (body, if body = None then parser_error ''expected function body'' p else p) })"

definition simple_continues :: "bool \<Rightarrow> token_type \<Rightarrow> bool" where
  "simple_continues has_words ty \<longleftrightarrow>
     ty = TOK_ASSIGNMENT \<or> ty = TOK_WORD \<or> ty = TOK_IO_NUMBER \<or> is_redir_op ty \<or>
     has_words \<and> is_word_token ty"

text \<open>The assignment \<open>tok\<close> before the first word: of an array when a parenthesis follows.\<close>

definition parse_assignment ::
  "ptoken \<Rightarrow> parser \<Rightarrow> program wordu list \<times> (string \<times> program wordu list) list \<times> parser"
where
  "parse_assignment tok p =
     (case peek_type p of
        (ty, p) \<Rightarrow>
          if ty = TOK_LPAREN
          then
            (case array_elements (consume p) of
               (elements, p) \<Rightarrow>
                 (case peek_type p of
                    (ty, p) \<Rightarrow>
                      ([], [(array_name (the (tok_value tok)), elements)],
                       if ty = TOK_RPAREN then consume p else p)))
          else ([tok_word tok], [], p))"

text \<open>
  The loop of \<^verbatim>\<open>parse_simple_command\<close>: the redirections, assignments, words and array assignments
  found so far, and the name and body of a function when it turned out to be the definition of one.
\<close>

record simple_parts =
  sp_redirs :: "program io_redir list"
  sp_assigns :: "program wordu list"
  sp_words :: "program wordu list"
  sp_arrays :: "(string \<times> program wordu list) list"

datatype simple_result =
    Simple simple_parts
  | Function "program io_redir list" string "program command option"

partial_function (option) simple_loop :: "parse_cmd \<Rightarrow> simple_parts \<Rightarrow> simple_result parse" where
  "simple_loop cmd sp p =
     (case peek_type p of
        (ty, p) \<Rightarrow>
          if \<not> simple_continues (sp_words sp \<noteq> []) ty then Some (Simple sp, p)
          else if is_redir_op ty \<or> ty = TOK_IO_NUMBER
          then (case parse_redirections p of
                  (rds, p) \<Rightarrow> simple_loop cmd (sp\<lparr>sp_redirs := sp_redirs sp @ rds\<rparr>) p)
          else
            (case next_token p of
               (tok, p) \<Rightarrow>
                 if tok_type tok = TOK_ASSIGNMENT \<and> sp_words sp = []
                 then
                   (case parse_assignment tok p of
                      (assigns, arrays, p) \<Rightarrow>
                        simple_loop cmd
                          (sp\<lparr>sp_assigns := sp_assigns sp @ assigns, sp_arrays := sp_arrays sp @ arrays\<rparr>) p)
                 else
                   (let named = (tok_type tok = TOK_WORD \<and> sp_words sp = [] \<and> sp_assigns sp = []);
                        (ty2, p) = (if named then peek_type p else (TOK_EOF, p)) in
                    if named \<and> ty2 = TOK_LPAREN
                    then do { (body, p) \<leftarrow> parse_func_parens cmd p;
                              Some (Function (sp_redirs sp) (the (tok_value tok)) body, p) }
                    else simple_loop cmd (sp\<lparr>sp_words := sp_words sp @ [tok_word tok]\<rparr>)
                           (set_reserved False p))))"

definition parse_simple_command :: "parse_cmd \<Rightarrow> program command option parse" where
  "parse_simple_command cmd p =
     (case peek_token p of
        (start, p) \<Rightarrow>
          (case parse_redirections p of
             (redirs, p) \<Rightarrow>
               do { (r, p) \<leftarrow> simple_loop cmd
                      \<lparr>sp_redirs = redirs, sp_assigns = [], sp_words = [], sp_arrays = []\<rparr> p;
                    Some
                      (case r of
                         Function redirs name body \<Rightarrow>
                           (map_option (\<lambda>b. Command (tok_lineno start) redirs (CT_FUNCDEF name b)) body, p)
                       | Simple sp \<Rightarrow>
                           (if sp_words sp = [] \<and> sp_assigns sp = [] \<and> sp_arrays sp = [] \<and> sp_redirs sp = []
                            then None
                            else Some (Command (tok_lineno start) (sp_redirs sp)
                                   (CT_SIMPLE (sp_assigns sp) (sp_words sp) (sp_arrays sp))),
                            set_reserved True p)) }))"

subsection \<open>Compound commands\<close>

text \<open>The redirections behind a compound command.\<close>

definition finish_command :: "ptoken \<Rightarrow> program command_body \<Rightarrow> parser \<Rightarrow> program command option \<times> parser" where
  "finish_command start body p =
     (case parse_redirections p of
        (redirs, p) \<Rightarrow> (Some (Command (tok_lineno start) redirs body), p))"

text \<open>A keyword and the list after it; \<open>None\<close> when the keyword is not there.\<close>

definition keyword_list :: "parse_cmd \<Rightarrow> token_type \<Rightarrow> program option parse" where
  "keyword_list cmd ty p =
     (case expect ty p of
        (found, p) \<Rightarrow>
          if found then do { (prog, p) \<leftarrow> parse_list cmd p; Some (Some prog, p) } else Some (None, p))"

text \<open>
  A list without a command is \<^verbatim>\<open>NULL\<close>, and a clause without a condition is an \<^verbatim>\<open>else\<close>: the
  constructor of the clause has no condition in both cases.
\<close>

definition condition_of :: "program \<Rightarrow> program option" where
  "condition_of prog = (if prog = [] then None else Some prog)"

partial_function (option) elif_clauses :: "parse_cmd \<Rightarrow> program if_clause list option parse" where
  "elif_clauses cmd p =
     (case peek_type p of
        (ty, p) \<Rightarrow>
          if ty = TOK_ELIF
          then
            do { (condition, p) \<leftarrow> parse_list cmd (consume p);
                 (body, p) \<leftarrow> keyword_list cmd TOK_THEN p;
                 case body of
                   None \<Rightarrow> Some (None, p)
                 | Some body \<Rightarrow>
                     do { (clauses, p) \<leftarrow> elif_clauses cmd p;
                          Some (map_option ((#) (If_clause (condition_of condition) body)) clauses, p) } }
          else if ty = TOK_ELSE
          then do { (body, p) \<leftarrow> parse_list cmd (consume p); Some (Some [If_clause None body], p) }
          else Some (Some [], p))"

definition parse_if :: "parse_cmd \<Rightarrow> program command option parse" where
  "parse_if cmd p =
     (case peek_token p of
        (start, p) \<Rightarrow>
          do { (condition, p) \<leftarrow> parse_list cmd (consume p);
               (body, p) \<leftarrow> keyword_list cmd TOK_THEN p;
               case body of
                 None \<Rightarrow> Some (None, p)
               | Some body \<Rightarrow>
                   do { (clauses, p) \<leftarrow> elif_clauses cmd p;
                        case clauses of
                          None \<Rightarrow> Some (None, p)
                        | Some clauses \<Rightarrow>
                            (case expect TOK_FI p of
                               (found, p) \<Rightarrow>
                                 Some (if found
                                       then finish_command start
                                              (CT_IF (If_clause (condition_of condition) body # clauses)) p
                                       else (None, p))) } })"

definition for_list :: "parser \<Rightarrow> program wordu list \<times> parser" where
  "for_list p =
     (case peek_type (skip_newlines p) of
        (ty, p) \<Rightarrow>
          if ty = TOK_IN
          then
            (case for_words (consume p) of
               (ws, p) \<Rightarrow>
                 (case peek_type p of
                    (ty, p) \<Rightarrow> (ws, if ty = TOK_SEMI \<or> ty = TOK_NEWLINE then consume p else p)))
          else ([], if ty = TOK_SEMI then consume p else p))"

definition parse_for :: "parse_cmd \<Rightarrow> program command option parse" where
  "parse_for cmd p =
     (let (start, p) = peek_token p;
          (name_tok, p) = next_token (consume p) in
      if tok_type name_tok \<noteq> TOK_WORD
      then Some (None, parser_error (''expected variable name after '' @ quote_name ''for'') p)
      else
        (case for_list p of
           (ws, p) \<Rightarrow>
             do { (body, p) \<leftarrow> keyword_list cmd TOK_DO (skip_newlines p);
                  case body of
                    None \<Rightarrow> Some (None, p)
                  | Some body \<Rightarrow>
                      (case expect TOK_DONE p of
                         (found, p) \<Rightarrow>
                           Some (if found
                                 then finish_command start (CT_FOR (the (tok_value name_tok)) ws body) p
                                 else (None, p))) }))"

definition parse_while_until :: "parse_cmd \<Rightarrow> bool \<Rightarrow> program command option parse" where
  "parse_while_until cmd is_until p =
     (case peek_token p of
        (start, p) \<Rightarrow>
          do { (condition, p) \<leftarrow> parse_list cmd (consume p);
               (body, p) \<leftarrow> keyword_list cmd TOK_DO p;
               case body of
                 None \<Rightarrow> Some (None, p)
               | Some body \<Rightarrow>
                   (case expect TOK_DONE p of
                      (found, p) \<Rightarrow>
                        Some (if found
                              then finish_command start
                                     (if is_until then CT_UNTIL condition body else CT_WHILE condition body) p
                              else (None, p))) })"

definition case_terminator :: "parser \<Rightarrow> caseend \<times> parser" where
  "case_terminator p =
     (case peek_type p of
        (ty, p) \<Rightarrow>
          if ty = TOK_DSEMI then (CASE_BREAK, consume p)
          else if ty = TOK_SEMIAND then (CASE_FALLTHROUGH, consume p)
          else if ty = TOK_SEMIPIPE then (CASE_CONTINUE, consume p)
          else (CASE_BREAK, p))"

partial_function (option) case_items :: "parse_cmd \<Rightarrow> program case_item list option parse" where
  "case_items cmd p =
     (case peek_type p of
        (ty, p) \<Rightarrow>
          if ty = TOK_ESAC \<or> ty = TOK_EOF then Some (Some [], p)
          else
            (case case_patterns (if ty = TOK_LPAREN then consume p else p) of
               (None, p) \<Rightarrow> Some (None, p)
             | (Some pats, p) \<Rightarrow>
                 do { (body, p) \<leftarrow> keyword_list cmd TOK_RPAREN p;
                      case body of
                        None \<Rightarrow> Some (None, p)
                      | Some body \<Rightarrow>
                          (case case_terminator p of
                             (term, p) \<Rightarrow>
                               do { (items, p) \<leftarrow> case_items cmd (skip_newlines p);
                                    Some (map_option ((#) (Case_item pats body term)) items, p) }) }))"

definition parse_case :: "parse_cmd \<Rightarrow> program command option parse" where
  "parse_case cmd p =
     (let (start, p) = peek_token p;
          (subject, p) = next_token (consume p) in
      if \<not> token_is_word subject
      then Some (None, parser_error (''expected word after '' @ quote_name ''case'') p)
      else
        (case expect TOK_IN (skip_newlines p) of
           (found, p) \<Rightarrow>
             if \<not> found then Some (None, p)
             else
               do { (items, p) \<leftarrow> case_items cmd (skip_newlines p);
                    case items of
                      None \<Rightarrow> Some (None, p)
                    | Some items \<Rightarrow>
                        (case expect TOK_ESAC p of
                           (found, p) \<Rightarrow>
                             Some (if found then finish_command start (CT_CASE (tok_word subject) items) p
                                   else (None, p))) }))"

text \<open>\<^verbatim>\<open>{ list }\<close> and \<^verbatim>\<open>( list )\<close>.\<close>

definition parse_group ::
  "(program \<Rightarrow> program command_body) \<Rightarrow> token_type \<Rightarrow> parse_cmd \<Rightarrow> program command option parse"
where
  "parse_group mk close cmd p =
     (case peek_token p of
        (start, p) \<Rightarrow>
          do { (body, p) \<leftarrow> parse_list cmd (consume p);
               case expect close p of
                 (found, p) \<Rightarrow> Some (if found then finish_command start (mk body) p else (None, p)) })"

definition parse_brace_group :: "parse_cmd \<Rightarrow> program command option parse" where
  "parse_brace_group = parse_group CT_GROUP TOK_RBRACE"

definition parse_subshell :: "parse_cmd \<Rightarrow> program command option parse" where
  "parse_subshell = parse_group CT_SUBSHELL TOK_RPAREN"

definition parse_funcdef :: "parse_cmd \<Rightarrow> program command option parse" where
  "parse_funcdef cmd p =
     (let (start, p) = peek_token p;
          (tok, p) = next_token (consume p) in
      if tok_type tok \<noteq> TOK_WORD then Some (None, parser_error ''expected function name'' p)
      else
        (case peek_type p of
           (ty, p) \<Rightarrow>
             do { (body, p) \<leftarrow> cmd (skip_newlines
                    (if ty = TOK_LPAREN then snd (expect TOK_RPAREN (consume p)) else p));
                  Some (case body of
                          None \<Rightarrow> (None, parser_error ''expected function body'' p)
                        | Some b \<Rightarrow>
                            (Some (Command (tok_lineno start) [] (CT_FUNCDEF (the (tok_value tok)) b)), p)) }))"

definition parse_command ::
  "program cond_expr option parse \<Rightarrow> parse_cmd \<Rightarrow> program command option parse"
where
  "parse_command cond cmd p =
     (case peek_type p of
        (ty, p) \<Rightarrow>
          (case ty of
             TOK_IF \<Rightarrow> parse_if cmd p
           | TOK_FOR \<Rightarrow> parse_for cmd p
           | TOK_WHILE \<Rightarrow> parse_while_until cmd False p
           | TOK_UNTIL \<Rightarrow> parse_while_until cmd True p
           | TOK_CASE \<Rightarrow> parse_case cmd p
           | TOK_LBRACE \<Rightarrow> parse_brace_group cmd p
           | TOK_LPAREN \<Rightarrow> parse_subshell cmd p
           | TOK_FUNCTION \<Rightarrow> parse_funcdef cmd p
           | TOK_DBRACK_OPEN \<Rightarrow> parse_bracket cond p
           | _ \<Rightarrow> parse_simple_command cmd p))"

text \<open>A command, with fuel for the nesting of commands and of parentheses in conditions.\<close>

primrec parse_command_n :: "nat \<Rightarrow> program command option parse" where
  "parse_command_n 0 = (\<lambda>p. None)"
| "parse_command_n (Suc n) = parse_command (parse_cond_expr_n (Suc n)) (parse_command_n n)"

text \<open>The loops are run by their defining equations.\<close>

lemmas loop_equations [code] =
  parse_cond_expr_not.simps cond_and_loop.simps cond_or_loop.simps pipeline_rest.simps
  sh_list_rest.simps list_rest.simps simple_loop.simps elif_clauses.simps case_items.simps

subsection \<open>Programs\<close>

text \<open>The tree with the bodies of the here-documents that were read.\<close>

definition fill_redir :: "(nat \<times> program wordu \<times> string) list \<Rightarrow> program io_redir \<Rightarrow> program io_redir" where
  "fill_redir bodies rd =
     (case map_of bodies (rd_addr rd) of
        None \<Rightarrow> rd
      | Some (body, delim) \<Rightarrow>
          Io_redir (rd_addr rd) (rd_type rd) (rd_fd rd) (rd_target rd) body (Some delim) (rd_heredoc_expand rd))"

function (sequential) fill_program :: "(nat \<times> program wordu \<times> string) list \<Rightarrow> program \<Rightarrow> program"
and fill_command :: "(nat \<times> program wordu \<times> string) list \<Rightarrow> program command \<Rightarrow> program command"
where
  "fill_program bodies prog =
     map (\<lambda>sl. Sh_list
       (map (\<lambda>ao. And_or (map (\<lambda>cmd. fill_command bodies cmd) (ao_commands ao)) (ao_negated ao) (ao_connector ao))
         (sl_pipelines sl))
       (sl_background sl)) prog"
| "fill_command bodies (Command lineno redirs body) =
     Command lineno (map (fill_redir bodies) redirs)
       (case body of
          CT_SIMPLE assigns words arrays \<Rightarrow> CT_SIMPLE assigns words arrays
        | CT_IF clauses \<Rightarrow>
            CT_IF (map (\<lambda>ic. If_clause
              (case ic_condition ic of None \<Rightarrow> None | Some c \<Rightarrow> Some (fill_program bodies c))
              (fill_program bodies (ic_body ic))) clauses)
        | CT_FOR varname words body \<Rightarrow> CT_FOR varname words (fill_program bodies body)
        | CT_WHILE condition body \<Rightarrow> CT_WHILE (fill_program bodies condition) (fill_program bodies body)
        | CT_UNTIL condition body \<Rightarrow> CT_UNTIL (fill_program bodies condition) (fill_program bodies body)
        | CT_CASE subject items \<Rightarrow>
            CT_CASE subject (map (\<lambda>ci. Case_item (ci_patterns ci) (fill_program bodies (ci_body ci))
              (ci_terminator ci)) items)
        | CT_GROUP body \<Rightarrow> CT_GROUP (fill_program bodies body)
        | CT_SUBSHELL body \<Rightarrow> CT_SUBSHELL (fill_program bodies body)
        | CT_FUNCDEF name body \<Rightarrow> CT_FUNCDEF name (fill_command bodies body)
        | CT_BRACKET expr \<Rightarrow> CT_BRACKET expr)"
  by pat_completeness auto
termination
proof (relation "measure (\<lambda>x. case x of Inl (bodies, prog) \<Rightarrow> program_size prog
                                  | Inr (bodies, cmd) \<Rightarrow> size_command program_size cmd)",
       goal_cases)
  case 2
  then show ?case using program_size_command by simp
qed (auto dest: clause_size item_size)

definition parser_parse_n :: "nat \<Rightarrow> program parse" where
  "parser_parse_n n p =
     do { (prog, p) \<leftarrow> parse_list (parse_command_n n) p;
          let (tok, p) = peek_token (drain_if_pending p);
          let p = (if tok_type tok \<noteq> TOK_EOF then parser_error_unexpected tok p else p);
          Some (fill_program (ps_bodies p) prog, p) }"

text \<open>
  Each level of nesting takes a character, so the length of the text is enough fuel; that it is, is
  proved below.
\<close>

definition parser_parse :: "program parse" where
  "parser_parse p = parser_parse_n (length (ps_text p) + 2) p"

text \<open>
  \<^verbatim>\<open>parser_init\<close>, \<^verbatim>\<open>parser_parse\<close> and \<^verbatim>\<open>parser_error_count\<close>, as the compiler uses them: the program,
  the number of errors and what was printed.
\<close>

definition parse_source :: "string \<Rightarrow> string \<Rightarrow> program \<times> nat \<times> string" where
  "parse_source source filename =
     (case parser_parse (parser_init source filename) of
        None \<Rightarrow> ([], 0, [])
      | Some (prog, p) \<Rightarrow> (prog, parser_error_count p, lx_stderr (ps_lexer p)))"

end
