(* ===== verification/ParserTotal.thy ===== *)
theory ParserTotal
  imports Parser
begin

text \<open>
  The parser returns on every text, and what every parse function keeps, its fuel included: every level
  of nesting consumes a token, so a text of \<open>n\<close> characters needs fuel above \<open>n\<close>.
\<close>

definition gives :: "parser \<Rightarrow> ('a \<times> parser) option \<Rightarrow> bool" where
  "gives p m \<longleftrightarrow> (\<exists>x p'. m = Some (x, p') \<and> parses p p')"

definition handles :: "nat \<Rightarrow> 'a parse \<Rightarrow> bool" where
  "handles n f \<longleftrightarrow> (\<forall>p. remaining p < n \<longrightarrow> gives p (f p))"

named_theorems gives_intros \<open>rules for the shapes of parse functions\<close>

lemma gives_pair [gives_intros]: "parses p q \<Longrightarrow> gives p (Some (x, q))"
  by (simp add: gives_def)

lemma gives_bind [gives_intros]:
  "gives p m \<Longrightarrow> (\<And>x q. parses p q \<Longrightarrow> gives p (f x q)) \<Longrightarrow> gives p (m \<bind> (\<lambda>(x, q). f x q))"
  by (auto simp: gives_def)

lemma gives_if [gives_intros]: "(b \<Longrightarrow> gives p m1) \<Longrightarrow> (\<not> b \<Longrightarrow> gives p m2) \<Longrightarrow> gives p (if b then m1 else m2)"
  by simp

lemma gives_if_pair [gives_intros]:
  "gives p (Some x) \<Longrightarrow> gives p (Some y) \<Longrightarrow> gives p (Some (if b then x else y))"
  by simp

lemma gives_option [gives_intros]:
  "gives p m1 \<Longrightarrow> (\<And>y. gives p (m2 y)) \<Longrightarrow> gives p (case x of None \<Rightarrow> m1 | Some y \<Rightarrow> m2 y)"
  by (simp split: option.split)

lemma gives_option_pair [gives_intros]:
  "gives p (Some m1) \<Longrightarrow> (\<And>y. gives p (Some (m2 y))) \<Longrightarrow>
     gives p (Some (case x of None \<Rightarrow> m1 | Some y \<Rightarrow> m2 y))"
  by (simp split: option.split)

lemma gives_prod [gives_intros]:
  "(\<And>a b. x = (a, b) \<Longrightarrow> gives p (f a b)) \<Longrightarrow> gives p (case x of (a, b) \<Rightarrow> f a b)"
  by (simp split: prod.split)

lemma gives_prod_pair [gives_intros]:
  "(\<And>a b. x = (a, b) \<Longrightarrow> gives p (Some (f a b))) \<Longrightarrow> gives p (Some (case x of (a, b) \<Rightarrow> f a b))"
  by (simp split: prod.split)

lemma gives_after: "gives q m \<Longrightarrow> parses p q \<Longrightarrow> gives p m"
  by (auto simp: gives_def intro: parses_trans)

lemma parse_call:
  assumes "handles n f" "parses p q" "remaining p < n"
  shows "gives p (f q)"
proof -
  have "remaining q < n"
    using assms(2,3) by (simp add: parses_def)
  then show ?thesis
    using assms(1,2) by (auto simp: handles_def intro: gives_after)
qed

lemma handles_less: "handles n f \<Longrightarrow> m \<le> n \<Longrightarrow> handles m f"
  by (auto simp: handles_def)

lemma parses_remaining: "parses p q \<Longrightarrow> remaining p < n \<Longrightarrow> remaining q < n"
  by (simp add: parses_def)

lemma parses_snd_expect [parses_intros]: "parses p q \<Longrightarrow> parses p (snd (expect ty q))"
  by (metis parses_expect prod.collapse)

subsection \<open>Conditions\<close>

lemma parses_set_regex:
  assumes "next_token q' = (tok, r)" "q' = q \<or> q' = drop_lookahead (set_regex True q)" "parses p q"
  shows "parses p (set_regex (lx_regex (ps_lexer q)) r)"
proof -
  have step: "parses q' r"
    using assms(1) parses_next by auto
  have same: "ps_text q' = ps_text q" "lx_lineno (ps_lexer q') = lx_lineno (ps_lexer q)"
    "remaining q' \<le> remaining q" "ps_error_count q' = ps_error_count q"
    "lx_errors (ps_lexer q') = lx_errors (ps_lexer q)" "lx_stderr (ps_lexer q') = lx_stderr (ps_lexer q)"
    "ps_filename q' = ps_filename q" "lx_filename (ps_lexer q') = lx_filename (ps_lexer q)"
    "parser_ok q \<longrightarrow> parser_ok q'"
    using assms(2) by (auto simp: drop_lookahead_def set_regex_def remaining_def parser_ok_def)
  define r' where "r' = set_regex (lx_regex (ps_lexer q)) r"
  have restored: "ps_text r' = ps_text r" "lx_lineno (ps_lexer r') = lx_lineno (ps_lexer r)"
    "remaining r' = remaining r" "ps_error_count r' = ps_error_count r"
    "lx_errors (ps_lexer r') = lx_errors (ps_lexer r)" "lx_stderr (ps_lexer r') = lx_stderr (ps_lexer r)"
    "ps_filename r' = ps_filename r" "lx_filename (ps_lexer r') = lx_filename (ps_lexer r)"
    "parser_ok r' = parser_ok r" "lx_regex (ps_lexer r') = lx_regex (ps_lexer q)"
    by (simp_all add: r'_def set_regex_def remaining_def parser_ok_def)
  have "parses q r'"
    using step same(3) same(9) unfolding parses_def text_consumed_def restored
    by (simp add: same(1,2,4-8))
  then have "parses q (set_regex (lx_regex (ps_lexer q)) r)"
    by (simp add: r'_def)
  then show ?thesis
    by (rule parses_trans [OF assms(3)])
qed

lemma parses_cond_binary [parses_calls]: "cond_binary left p1 = (e, p2) \<Longrightarrow> parses p p1 \<Longrightarrow> parses p p2"
  by (auto simp: cond_binary_def Let_def split: prod.splits if_splits
      intro: parses_set_regex parses_next)

lemma parses_cond_operand: "cond_operand left p1 = (e, p2) \<Longrightarrow> parses p p1 \<Longrightarrow> parses p p2"
  by (auto simp: cond_operand_def Let_def split: prod.splits if_splits)
    (assumption | rule parses_intros | erule parses_calls)+

lemma gives_cond_operand [gives_intros]:
  "parses p q \<Longrightarrow> gives p (Some (cond_operand left q))"
  by (cases "cond_operand left q") (auto simp: gives_def intro: parses_cond_operand)

lemma peek_type_eq: "peek_token p = (tok, p1) \<Longrightarrow> peek_type p = (tok_type tok, p1)"
  by (simp add: peek_type_def)

text \<open>Behind a token that was looked at and consumed, less remains.\<close>

lemma consumed:
  assumes "peek_type p = (ty, p1)" "ty \<noteq> TOK_EOF" "remaining p \<le> n"
  shows "remaining (consume p1) < n" "parses p (consume p1)" "ate p (consume p1)"
  using ate_consume [OF assms(1,2)] assms(3) by (auto simp: ate_def)

lemma handles_primary:
  assumes "handles n cond"
  shows "handles (Suc n) (parse_cond_expr_primary cond)"
  unfolding handles_def
proof (intro allI impI)
  fix p
  assume "remaining p < Suc n"
  then have bound: "remaining p \<le> n"
    by simp
  obtain tok p1 where peeked: "peek_token p = (tok, p1)"
    by force
  have p1: "parses p p1"
    by (rule parses_peek [OF peeked parses_refl])
  have nested: "gives p (cond (consume p1))" if "\<not> (has_value tok P \<or> tok_type tok = TOK_EOF)" for P
    using that consumed [OF peek_type_eq [OF peeked] _ bound] assms
    by (auto simp: handles_def intro: gives_after)
  show "gives p (parse_cond_expr_primary cond p)"
    unfolding parse_cond_expr_primary_def peeked prod.case Let_def
    by (insert p1, (assumption | rule gives_intros parses_intros nested | erule parses_calls)+)
qed

lemma handlesI: "(\<And>p. remaining p \<le> n \<Longrightarrow> gives p (f p)) \<Longrightarrow> handles (Suc n) f"
  by (simp add: handles_def less_Suc_eq_le)

lemma handles_not:
  assumes "handles n cond"
  shows "handles (Suc n) (parse_cond_expr_not cond)"
proof (rule handlesI)
  fix p
  show "remaining p \<le> n \<Longrightarrow> gives p (parse_cond_expr_not cond p)"
  proof (induction p rule: ate_induct)
    case (ate p)
    obtain tok p1 where peeked: "peek_token p = (tok, p1)"
      by force
    have p1: "parses p p1"
      by (rule parses_peek [OF peeked parses_refl])
    have nested: "gives p (parse_cond_expr_not cond (consume p1))"
      if "tok_type tok = TOK_BANG \<or> tok_type tok = TOK_WORD \<and> P" for P
      using consumed [OF peek_type_eq [OF peeked] _ ate.prems] that ate.IH [of "consume p1"]
      by (auto intro: gives_after)
    have primary: "gives p (parse_cond_expr_primary cond p1)"
      using parse_call [OF handles_primary [OF assms] p1] ate.prems by simp
    show ?case
      unfolding parse_cond_expr_not.simps [of cond p] peeked prod.case
      by (insert p1, (assumption | rule gives_intros parses_intros nested primary | erule parses_calls)+)
  qed
qed

lemma loop_handles:
  assumes "\<And>s p. remaining p \<le> n \<Longrightarrow> (\<And>s' q. ate p q \<Longrightarrow> gives q (f s' q)) \<Longrightarrow> gives p (f s p)"
  shows "handles (Suc n) (f s)"
proof (rule handlesI)
  fix p
  show "remaining p \<le> n \<Longrightarrow> gives p (f s p)"
  proof (induction p arbitrary: s rule: ate_induct)
    case (ate p)
    show ?case
      by (rule assms [OF ate.prems]) (use ate.IH ate.prems in \<open>auto simp: ate_def\<close>)
  qed
qed

lemma loop_again:
  assumes "\<And>s' q. ate p q \<Longrightarrow> gives q (f s' q)" "ate p p2" "parses p2 q"
  shows "gives p2 (f s q)"
  by (rule gives_after [OF assms(1) [OF ate_trans(1) [OF assms(2,3)]] assms(3)])

lemma handles_and_loop:
  assumes "handles n cond"
  shows "handles (Suc n) (cond_and_loop cond left)"
proof (rule loop_handles [where f = "cond_and_loop cond"], goal_cases)
  case (1 left p)
  obtain ty p1 where peeked: "peek_type p = (ty, p1)"
    by force
  have p1: "parses p p1"
    by (rule parses_peek_type [OF peeked parses_refl])
  have operand: "handles n (parse_cond_expr_not cond)"
    by (rule handles_less [OF handles_not [OF assms]]) simp
  show ?case
    unfolding cond_and_loop.simps [of cond left p] peeked prod.case
  proof (rule gives_if, goal_cases)
    case and_if: 1
    have c: "remaining (consume p1) < n" "parses p (consume p1)" "ate p (consume p1)"
      using consumed [OF peeked _ 1(1)] and_if by auto
    show ?case
      by (rule gives_after [OF _ c(2)], insert c(1),
        (assumption | rule gives_intros parses_intros parses_refl parse_call [OF operand]
          loop_again [OF 1(2) c(3)] | erule parses_calls)+)
  qed (rule gives_pair [OF p1])
qed

lemma handles_cond_and:
  assumes "handles n cond"
  shows "handles (Suc n) (parse_cond_expr_and cond)"
  unfolding handles_def parse_cond_expr_and_def
  by (intro allI impI, (assumption | rule gives_intros parses_refl parse_call [OF handles_not [OF assms]]
    parse_call [OF handles_and_loop [OF assms]])+)

lemma handles_or_loop:
  assumes "handles n cond"
  shows "handles (Suc n) (cond_or_loop cond left)"
proof (rule loop_handles [where f = "cond_or_loop cond"], goal_cases)
  case (1 left p)
  obtain ty p1 where peeked: "peek_type p = (ty, p1)"
    by force
  have p1: "parses p p1"
    by (rule parses_peek_type [OF peeked parses_refl])
  have operand: "handles n (parse_cond_expr_and cond)"
    by (rule handles_less [OF handles_cond_and [OF assms]]) simp
  show ?case
    unfolding cond_or_loop.simps [of cond left p] peeked prod.case
  proof (rule gives_if, goal_cases)
    case or_if: 1
    have c: "remaining (consume p1) < n" "parses p (consume p1)" "ate p (consume p1)"
      using consumed [OF peeked _ 1(1)] or_if by auto
    show ?case
      by (rule gives_after [OF _ c(2)], insert c(1),
        (assumption | rule gives_intros parses_intros parses_refl parse_call [OF operand]
          loop_again [OF 1(2) c(3)] | erule parses_calls)+)
  qed (rule gives_pair [OF p1])
qed

lemma handles_cond_or:
  assumes "handles n cond"
  shows "handles (Suc n) (parse_cond_expr_or cond)"
  unfolding handles_def parse_cond_expr_or_def
  by (intro allI impI, (assumption | rule gives_intros parses_refl parse_call [OF handles_cond_and [OF assms]]
    parse_call [OF handles_or_loop [OF assms]])+)

lemma handles_cond_n: "handles n (parse_cond_expr_n n)"
  by (induction n) (auto simp: handles_def [of 0] handles_cond_or)

subsection \<open>Lists\<close>

lemma handles_pipeline_rest:
  assumes "handles n cmd"
  shows "handles (Suc n) (pipeline_rest cmd)"
proof (rule loop_handles [where f = "\<lambda>u :: unit. pipeline_rest cmd"], goal_cases)
  case (1 u p)
  obtain ty p1 where peeked: "peek_type p = (ty, p1)"
    by force
  have p1: "parses p p1"
    by (rule parses_peek_type [OF peeked parses_refl])
  show ?case
    unfolding pipeline_rest.simps [of cmd p] peeked prod.case
  proof (rule gives_if, goal_cases)
    case pipe: 1
    have c: "remaining (consume p1) < n" "parses p (consume p1)" "ate p (consume p1)"
      using consumed [OF peeked _ 1(1)] pipe by auto
    show ?case
      by (rule gives_after [OF _ c(2)], insert c(1),
        (assumption | rule gives_intros parses_intros parses_refl parse_call [OF assms]
          loop_again [OF 1(2) c(3)] | erule parses_calls)+)
  qed (rule gives_pair [OF p1])
qed

lemma handles_and_or:
  assumes "handles n cmd"
  shows "handles n (parse_and_or cmd)"
  unfolding handles_def parse_and_or_def
  by (intro allI impI, (assumption | rule gives_intros parses_intros parses_refl parse_call [OF assms]
    parse_call [OF handles_less [OF handles_pipeline_rest [OF assms]]] le_SucI order_refl | erule parses_calls)+)

lemma handles_sh_list_rest:
  assumes "handles n cmd"
  shows "handles (Suc n) (sh_list_rest cmd pl)"
proof (rule loop_handles [where f = "sh_list_rest cmd"], goal_cases)
  case (1 pl p)
  obtain ty p1 where peeked: "peek_type p = (ty, p1)"
    by force
  have p1: "parses p p1"
    by (rule parses_peek_type [OF peeked parses_refl])
  show ?case
    unfolding sh_list_rest.simps [of cmd pl p] peeked prod.case
  proof (rule gives_if, goal_cases)
    case connected: 1
    have c: "remaining (consume p1) < n" "parses p (consume p1)" "ate p (consume p1)"
      using consumed [OF peeked _ 1(1)] connected by auto
    show ?case
      by (rule gives_after [OF _ c(2)], insert c(1),
        (assumption | rule gives_intros parses_intros parses_refl parse_call [OF handles_and_or [OF assms]]
          loop_again [OF 1(2) c(3)] | erule parses_calls)+)
  qed (rule gives_pair [OF p1])
qed

lemma handles_sh_list:
  assumes "handles n cmd"
  shows "handles n (parse_sh_list cmd)"
  unfolding handles_def parse_sh_list_def
  by (intro allI impI, (assumption | rule gives_intros parses_intros parses_refl
    parse_call [OF handles_and_or [OF assms]]
    parse_call [OF handles_less [OF handles_sh_list_rest [OF assms]]] le_SucI order_refl | erule parses_calls)+)

lemma separator_ate:
  assumes "parses p q" "peek_type q = (sep, q1)" "sep = TOK_SEMI \<or> sep = TOK_AMP \<or> sep = TOK_NEWLINE"
  shows "ate p (consume q1)"
  using assms(3) by (intro ate_trans(2) [OF assms(1) ate_consume [OF assms(2)]]) auto

lemma handles_list_rest:
  assumes "handles n cmd"
  shows "handles n (list_rest cmd)"
proof (cases n)
  case (Suc m)
  have "handles (Suc m) (list_rest cmd)"
  proof (rule loop_handles [where f = "\<lambda>u :: unit. list_rest cmd"], goal_cases)
    case (1 u p)
    have bound: "remaining p < n"
      using 1(1) Suc by simp
    have again: "gives p (list_rest cmd r)"
      if "parses p q" "peek_type q = (sep, q1)" "sep = TOK_SEMI \<or> sep = TOK_AMP \<or> sep = TOK_NEWLINE"
        "parses (consume q1) r" for q sep q1 r
      using ate_trans(1) [OF separator_ate [OF that(1-3)] that(4)] 1(2) gives_after ate_parses by blast
    show ?case
      unfolding list_rest.simps [of cmd p] Let_def
      by (insert bound, (assumption | erule (2) again | rule gives_intros parses_intros parses_refl
        parse_call [OF handles_sh_list [OF assms]] | erule parses_calls)+)
  qed
  then show ?thesis
    by (simp add: Suc)
qed (simp add: handles_def)

lemma handles_list:
  assumes "handles n cmd"
  shows "handles n (parse_list cmd)"
  unfolding handles_def parse_list_def
  by (intro allI impI parse_call [OF handles_list_rest [OF assms]] parses_intros parses_refl) assumption

subsection \<open>Simple commands\<close>

lemma peek_again: "peek_token p = (tok, p1) \<Longrightarrow> peek_token p1 = (tok, p1)"
  by (auto simp: peek_token_def lexer_peek_def split: option.splits prod.splits)

lemma peek_type_again: "peek_type p = (ty, p1) \<Longrightarrow> peek_type p1 = (ty, p1)"
  by (auto simp: peek_type_def peek_again split: prod.splits)

lemma redirections_consume:
  assumes "peek_type p = (ty, p1)" "is_redir_op ty \<or> ty = TOK_IO_NUMBER" "parse_redirections p1 = (rds, p2)"
  shows "ate p p2"
proof -
  obtain fd q where number: "io_number ty p1 = (fd, q)"
    by force
  obtain ty' q1 where peeked: "peek_type q = (ty', q1)"
    by force
  note step = assms(3) [unfolded parse_redirections.simps [of p1] peek_type_again [OF assms(1)] prod.case number peeked]
  have number_ate: "ate p q" if "ty = TOK_IO_NUMBER"
    using that number ate_next [OF assms(1)] by (auto simp: io_number_def split: prod.splits)
  have q: "parses p q"
    by (rule parses_io_number [OF number parses_peek_type [OF assms(1) parses_refl]])
  have same: "ty' = ty" if "ty \<noteq> TOK_IO_NUMBER"
    using that number peeked peek_type_again [OF assms(1)] by (auto simp: io_number_def)
  show ?thesis
  proof (cases "is_redir_op ty'")
    case True
    then show ?thesis
      using step assms(2) redirections_ate [OF assms(1) number peeked]
      by (auto split: if_splits prod.splits option.splits intro: ate_trans(1) redirections_parses)
  next
    case False
    then have "ate p q"
      using same assms(2) number_ate by blast
    then show ?thesis
      using step assms(2) False parses_peek_type [OF peeked parses_refl]
      by (auto intro: ate_trans(1) parses_error)
  qed
qed

lemma parses_assignment [parses_calls]:
  "parse_assignment tok p1 = (assigns, arrays, p2) \<Longrightarrow> parses p p1 \<Longrightarrow> parses p p2"
  by (auto simp: parse_assignment_def split: prod.splits if_splits)
    (assumption | rule parses_intros | erule parses_calls)+

lemma handles_func_parens:
  assumes "handles n cmd"
  shows "handles n (parse_func_parens cmd)"
  unfolding handles_def parse_func_parens_def
  by (intro allI impI, (assumption | rule gives_intros parses_intros parses_refl parse_call [OF assms]
    | erule parses_calls)+)

lemma simple_continues_more: "simple_continues b ty \<Longrightarrow> ty \<noteq> TOK_EOF"
  by (auto simp: simple_continues_def is_redir_op_def is_word_token_def)

lemma handles_simple_loop:
  assumes "handles n cmd"
  shows "handles (Suc n) (simple_loop cmd sp)"
proof (rule loop_handles [where f = "simple_loop cmd"], goal_cases)
  case (1 sp p)
  note again = 1(2)
  obtain ty p1 where peeked: "peek_type p = (ty, p1)"
    by force
  have p1: "parses p p1"
    by (rule parses_peek_type [OF peeked parses_refl])
  have redirs: "gives p (simple_loop cmd s p2)"
    if "is_redir_op ty \<or> ty = TOK_IO_NUMBER" "parse_redirections p1 = (rds, p2)" for rds p2 s
    using redirections_consume [OF peeked that] again by (blast intro: gives_after ate_parses)
  show ?case
  proof (cases "simple_continues (sp_words sp \<noteq> []) ty")
    case True
    obtain tok p2 where tok: "next_token p1 = (tok, p2)"
      by force
    have eaten: "ate p p2"
      by (rule ate_next [OF peeked simple_continues_more [OF True] tok])
    then have c: "remaining p2 < n" "parses p p2"
      using 1(1) by (auto simp: ate_def)
    have rest: "gives p (simple_loop cmd s q)" if "parses p2 q" for s q
      using again [OF ate_trans(1) [OF eaten that]] parses_trans [OF c(2) that] by (blast intro: gives_after)
    have body: "gives p (parse_func_parens cmd q)" if "parses p2 q" for q
      by (rule gives_after [OF parse_call [OF handles_func_parens [OF assms] that c(1)] c(2)])
    have p2: "parses p2 p2"
      by simp
    have lifted: "parses p q" if "parses p2 q" for q
      by (rule parses_trans [OF c(2) that])
    show ?thesis
      unfolding simple_loop.simps [of cmd sp p] peeked prod.case tok Let_def
    proof (intro gives_if, goal_cases)
      case 1
      then show ?case
        using True by simp
    next
      case 2
      then show ?case
        by (auto intro: redirs split: prod.split)
    next
      case 3
      show ?case
        by (auto split: prod.split intro!: rest intro: parses_assignment)
    next
      case 4
      show ?case
        by (rule gives_prod, rule gives_if, rule gives_bind, rule body)
          (auto split: if_splits intro: p2 rest lifted parses_reserved parses_peek_type gives_pair)
    qed
  next
    case False
    then show ?thesis
      unfolding simple_loop.simps [of cmd sp p] peeked prod.case using p1 by (simp add: gives_def)
  qed
qed

lemma handles_simple_command:
  assumes "handles n cmd"
  shows "handles (Suc n) (parse_simple_command cmd)"
proof (rule handlesI)
  fix p
  assume bound: "remaining p \<le> n"
  have finished: "gives p (Some (case r of
      Function redirs name body \<Rightarrow> (f1 redirs name body, q)
    | Simple sp \<Rightarrow> (f2 sp, set_reserved True q)))" if "parses p q"
    for r q and f1 :: "program io_redir list \<Rightarrow> string \<Rightarrow> program command option \<Rightarrow> program command option" and f2
    using that by (cases r) (auto intro: gives_pair parses_reserved)
  have loop: "gives p (simple_loop cmd sp q)" if "parses p q" for sp q
    using parse_call [OF handles_simple_loop [OF assms] that] bound by simp
  show "gives p (parse_simple_command cmd p)"
    unfolding parse_simple_command_def
    by (assumption | rule finished loop gives_prod gives_bind parses_intros parses_refl | erule parses_calls)+
qed

subsection \<open>Compound commands\<close>

lemma gives_finish [gives_intros]: "parses p q \<Longrightarrow> gives p (Some (finish_command start body q))"
  by (cases "finish_command start body q")
    (auto simp: finish_command_def gives_def split: prod.splits intro: parses_redirections)

lemma handles_keyword_list:
  assumes "handles n cmd"
  shows "handles n (keyword_list cmd ty)"
  unfolding handles_def keyword_list_def
  by (intro allI impI, (assumption | rule gives_intros parses_intros parses_refl
    parse_call [OF handles_list [OF assms]] | erule parses_calls)+)

lemma handles_elif_clauses:
  assumes "handles n cmd"
  shows "handles (Suc n) (elif_clauses cmd)"
proof (rule loop_handles [where f = "\<lambda>u :: unit. elif_clauses cmd"], goal_cases)
  case (1 u p)
  obtain ty p1 where peeked: "peek_type p = (ty, p1)"
    by force
  have p1: "parses p p1"
    by (rule parses_peek_type [OF peeked parses_refl])
  note lists = parse_call [OF handles_list [OF assms]] parse_call [OF handles_keyword_list [OF assms]]
  show ?case
    unfolding elif_clauses.simps [of cmd p] peeked prod.case
  proof (intro gives_if, goal_cases)
    case ty: 1
    have c: "remaining (consume p1) < n" "parses p (consume p1)" "ate p (consume p1)"
      using consumed [OF peeked _ 1(1)] ty by auto
    show ?case
      by (rule gives_after [OF _ c(2)], insert c(1),
        (assumption | rule gives_intros parses_intros parses_refl lists loop_again [OF 1(2) c(3)]
          | erule parses_calls)+)
  next
    case ty: 2
    have c: "remaining (consume p1) < n" "parses p (consume p1)"
      using consumed [OF peeked _ 1(1)] ty by auto
    show ?case
      by (rule gives_after [OF _ c(2)], insert c(1),
        (assumption | rule gives_intros parses_intros parses_refl lists | erule parses_calls)+)
  qed (rule gives_pair [OF p1])
qed

lemma parses_for_list [parses_calls]: "for_list p1 = (ws, p2) \<Longrightarrow> parses p p1 \<Longrightarrow> parses p p2"
  by (auto simp: for_list_def split: prod.splits if_splits)
    (assumption | rule parses_intros | erule parses_calls)+

lemma parses_terminator [parses_calls]: "case_terminator p1 = (term, p2) \<Longrightarrow> parses p p1 \<Longrightarrow> parses p p2"
  by (auto simp: case_terminator_def split: prod.splits if_splits)
    (assumption | rule parses_intros | erule parses_calls)+

lemma patterns_consume:
  assumes "peek_type p = (ty, p1)" "ty \<noteq> TOK_EOF"
    "case_patterns (if ty = TOK_LPAREN then consume p1 else p1) = (pats, p2)"
  shows "ate p p2"
proof (cases "ty = TOK_LPAREN")
  case True
  then show ?thesis
    using assms(3) by (auto intro: ate_trans(1) [OF ate_consume [OF assms(1,2)]] case_patterns_parses)
next
  case False
  obtain tok q where tok: "next_token p1 = (tok, q)"
    by force
  have eaten: "ate p q"
    by (rule ate_next [OF assms(1,2) tok])
  have "parses q p2"
    using assms(3) False
    by (auto simp: case_patterns.simps [of p1] tok Let_def split: if_splits prod.splits)
      (assumption | rule parses_intros parses_refl | erule parses_calls)+
  then show ?thesis
    by (rule ate_trans(1) [OF eaten])
qed

lemma handles_case_items:
  assumes "handles n cmd"
  shows "handles (Suc n) (case_items cmd)"
proof (rule loop_handles [where f = "\<lambda>u :: unit. case_items cmd"], goal_cases)
  case (1 u p)
  obtain ty p1 where peeked: "peek_type p = (ty, p1)"
    by force
  have p1: "parses p p1"
    by (rule parses_peek_type [OF peeked parses_refl])
  obtain pats p2 where pats: "case_patterns (if ty = TOK_LPAREN then consume p1 else p1) = (pats, p2)"
    by force
  show ?case
    unfolding case_items.simps [of cmd p] peeked prod.case pats
  proof (rule gives_if, goal_cases)
    case ended: 2
    then have eaten: "ate p p2"
      by (intro patterns_consume [OF peeked _ pats]) auto
    then have c: "remaining p2 < n" "parses p p2"
      using 1(1) by (auto simp: ate_def)
    show ?case
      by (rule gives_after [OF _ c(2)], insert c(1), cases pats; simp only: option.case prod.case;
        (assumption | rule gives_intros parses_intros parses_refl parse_call [OF handles_keyword_list [OF assms]]
          loop_again [OF 1(2) eaten] | erule parses_calls)+)
  qed (rule gives_pair [OF p1])
qed

text \<open>A command that starts with a keyword.\<close>

lemma keyword_commands:
  assumes "handles n cmd" "peek_token p = (start, p1)" "tok_type start \<noteq> TOK_EOF" "remaining p \<le> n"
  shows "gives p (parse_if cmd p)" "gives p (parse_for cmd p)" "gives p (parse_while_until cmd b p)"
    "gives p (parse_case cmd p)" "gives p (parse_group mk close cmd p)" "gives p (parse_funcdef cmd p)"
proof -
  have c: "remaining (consume p1) < n" "parses p (consume p1)"
    using consumed [OF peek_type_eq [OF assms(2)] assms(3,4)] by auto
  note calls = parse_call [OF assms(1)] parse_call [OF handles_list [OF assms(1)]]
    parse_call [OF handles_keyword_list [OF assms(1)]] 
    parse_call [OF handles_less [OF handles_elif_clauses [OF assms(1)]]]
    parse_call [OF handles_less [OF handles_case_items [OF assms(1)]]]
  show "gives p (parse_if cmd p)"
    unfolding parse_if_def assms(2) prod.case
    by (rule gives_after [OF _ c(2)], insert c(1),
      (assumption | rule gives_intros parses_intros parses_refl calls le_SucI order_refl | erule parses_calls)+)
  show "gives p (parse_for cmd p)"
    unfolding parse_for_def assms(2) prod.case Let_def
    by (rule gives_after [OF _ c(2)], insert c(1),
      (assumption | rule gives_intros parses_intros parses_refl calls le_SucI order_refl | erule parses_calls)+)
  show "gives p (parse_while_until cmd b p)"
    unfolding parse_while_until_def assms(2) prod.case
    by (rule gives_after [OF _ c(2)], insert c(1),
      (assumption | rule gives_intros parses_intros parses_refl calls le_SucI order_refl | erule parses_calls)+)
  show "gives p (parse_case cmd p)"
    unfolding parse_case_def assms(2) prod.case Let_def
    by (rule gives_after [OF _ c(2)], insert c(1),
      (assumption | rule gives_intros parses_intros parses_refl calls le_SucI order_refl | erule parses_calls)+)
  show "gives p (parse_group mk close cmd p)"
    unfolding parse_group_def assms(2) prod.case
    by (rule gives_after [OF _ c(2)], insert c(1),
      (assumption | rule gives_intros parses_intros parses_refl calls le_SucI order_refl | erule parses_calls)+)
  show "gives p (parse_funcdef cmd p)"
    unfolding parse_funcdef_def assms(2) prod.case Let_def
    by (rule gives_after [OF _ c(2)], insert c(1),
      (assumption | rule gives_intros parses_intros parses_refl calls le_SucI order_refl | erule parses_calls)+)
qed

lemma bracket_command:
  assumes "handles n cond" "peek_token p = (start, p1)" "tok_type start \<noteq> TOK_EOF" "remaining p \<le> n"
  shows "gives p (parse_bracket cond p)"
proof -
  have c: "remaining (consume p1) < n" "parses p (consume p1)"
    using consumed [OF peek_type_eq [OF assms(2)] assms(3,4)] by auto
  show ?thesis
    unfolding parse_bracket_def assms(2) prod.case Let_def
    by (rule gives_after [OF _ c(2)], insert c(1),
      (assumption | rule gives_intros parses_intros parses_refl parse_call [OF assms(1)] | erule parses_calls)+)
qed

lemma handles_command:
  assumes "handles n cmd" "handles n cond"
  shows "handles (Suc n) (parse_command cond cmd)"
proof (rule handlesI)
  fix p
  assume bound: "remaining p \<le> n"
  obtain tok p1 where peeked: "peek_token p = (tok, p1)"
    by force
  have p1: "parses p p1"
    by (rule parses_peek [OF peeked parses_refl])
  then have bound1: "remaining p1 \<le> n"
    using bound by (simp add: parses_def)
  note again = peek_again [OF peeked]
  have simple: "gives p1 (parse_simple_command cmd p1)"
    using parse_call [OF handles_simple_command [OF assms(1)] parses_refl] bound1 by simp
  have "gives p1 (case tok_type tok of
             TOK_IF \<Rightarrow> parse_if cmd p1
           | TOK_FOR \<Rightarrow> parse_for cmd p1
           | TOK_WHILE \<Rightarrow> parse_while_until cmd False p1
           | TOK_UNTIL \<Rightarrow> parse_while_until cmd True p1
           | TOK_CASE \<Rightarrow> parse_case cmd p1
           | TOK_LBRACE \<Rightarrow> parse_brace_group cmd p1
           | TOK_LPAREN \<Rightarrow> parse_subshell cmd p1
           | TOK_FUNCTION \<Rightarrow> parse_funcdef cmd p1
           | TOK_DBRACK_OPEN \<Rightarrow> parse_bracket cond p1
           | _ \<Rightarrow> parse_simple_command cmd p1)"
    using keyword_commands [OF assms(1) again _ bound1] bracket_command [OF assms(2) again _ bound1] simple
    by (cases "tok_type tok") (simp_all add: parse_brace_group_def parse_subshell_def)
  then show "gives p (parse_command cond cmd p)"
    unfolding parse_command_def peek_type_eq [OF peeked] prod.case by (rule gives_after [OF _ p1])
qed

lemma handles_command_n: "handles n (parse_command_n n)"
proof (induction n)
  case (Suc n)
  then show ?case
    using handles_command [OF Suc handles_less [OF handles_cond_n [of "Suc n"]]]
    by (simp del: parse_cond_expr_n.simps)
qed (simp add: handles_def)

subsection \<open>Whole programs\<close>

lemma parser_init_ok: "parser_ok (parser_init source filename)"
  by (simp add: parser_ok_def parser_init_def lexer_init_def)

lemma parses_unexpected [parses_intros]: "parses p q \<Longrightarrow> parses p (parser_error_unexpected tok q)"
  by (auto simp: parser_error_unexpected_def split: option.split intro: parses_error)

lemma parser_error_counts [simp]:
  "ps_error_count (parser_error msg p) = ps_error_count p + 1"
  "ps_error_count (parser_error_unexpected tok p) = ps_error_count p + 1"
  by (auto simp: parser_error_unexpected_def parser_error_def Let_def split: option.split)

text \<open>\<open>parser_parse\<close> returns, and without an error it stopped at a token of the end of the input.\<close>

lemma parser_parse_handles:
  assumes "remaining p < n"
  obtains prog p' where "parser_parse_n n p = Some (prog, p')" "parses p p'"
    "parser_ok p \<Longrightarrow> parser_error_count p' = 0 \<Longrightarrow> ps_text p' = []"
proof -
  obtain prog p1 where list: "parse_list (parse_command_n n) p = Some (prog, p1)" "parses p p1"
    using parse_call [OF handles_list [OF handles_command_n] parses_refl assms] by (auto simp: gives_def)
  define p2 where "p2 = drain_if_pending p1"
  obtain tok p3 where tok: "peek_token p2 = (tok, p3)"
    by force
  have p2: "parses p p2"
    unfolding p2_def using list(2) by (rule parses_drain_if_pending)
  have p3: "parses p p3"
    by (rule parses_peek [OF tok p2])
  define p4 where "p4 = (if tok_type tok \<noteq> TOK_EOF then parser_error_unexpected tok p3 else p3)"
  have p4: "parses p p4"
    unfolding p4_def using p3 by (auto intro: parses_unexpected)
  have ended: "ps_text p4 = []" if "parser_ok p" "parser_error_count p4 = 0"
  proof -
    have eof: "tok_type tok = TOK_EOF" "p4 = p3" "lx_errors (ps_lexer p3) = 0"
      using that(2) by (auto simp: p4_def parser_error_count_def split: if_splits)
    moreover have "lx_lookahead (ps_lexer p3) = Some tok"
      using tok by (auto simp: peek_token_def lexer_peek_def split: option.splits prod.splits)
    moreover have "parser_ok p3"
      using p3 that(1) by (simp add: parses_def)
    ultimately show ?thesis
      by (simp add: parser_ok_def)
  qed
  have "parser_parse_n n p = Some (fill_program (ps_bodies p4) prog, p4)"
    by (simp add: parser_parse_n_def list(1) tok p4_def Let_def flip: p2_def del: fill_program.simps)
  from that [OF this p4 ended] show ?thesis .
qed

text \<open>
  C10. The parser returns on every text. It counts the lines it consumed, remembers at most
  \<^verbatim>\<open>MAX_PARSE_ERRORS\<close> messages and \<^verbatim>\<open>MAX_PENDING_HEREDOCS\<close> here-documents whatever the text is, and when
  it reports no error it has read the text to its end.
\<close>

theorem parser_parse_reads_all:
  "\<exists>prog p'. parser_parse (parser_init source filename) = Some (prog, p') \<and>
     lx_lineno (ps_lexer p') + newlines (ps_text p') = 1 + newlines source \<and>
     length (ps_errors p') = min MAX_PARSE_ERRORS (ps_error_count p') \<and>
     length (ps_pending p') \<le> MAX_PENDING_HEREDOCS \<and>
     (0 < parser_error_count p' \<or> ps_text p' = [])"
proof -
  let ?p = "parser_init source filename"
  have "remaining ?p < length (ps_text ?p) + 2"
    by (simp add: remaining_def parser_init_def lexer_init_def)
  then obtain prog p' where done': "parser_parse_n (length (ps_text ?p) + 2) ?p = Some (prog, p')"
    and p': "parses ?p p'" and ended: "parser_error_count p' = 0 \<Longrightarrow> ps_text p' = []"
    by (rule parser_parse_handles) (auto simp: parser_init_ok)
  have "text_consumed ?p p'"
    using p' by (simp add: parses_def)
  then have "lx_lineno (ps_lexer p') + newlines (ps_text p') = 1 + newlines source"
    by (auto simp: text_consumed_def parser_init_def lexer_init_def)
  moreover have "parser_ok p'"
    using p' parser_init_ok by (simp add: parses_def)
  ultimately show ?thesis
    using done' ended by (auto simp: parser_parse_def parser_ok_def)
qed

end
