(* ===== verification/Script.thy ===== *)
theory Script
  imports ParserTotal CompilerProps ImageIO
begin

text \<open>
  \<^verbatim>\<open>src/main.c\<close>: from the command line and the text of a script to the image and the machine that runs
  it, and the executables \<^verbatim>\<open>opsh build\<close> writes. The compiler's fuel \<open>n\<close> bounds how deep programs are
  nested in one another; \<open>None\<close> is its end, or an \<^verbatim>\<open>abort()\<close>. The texts a function prints to the error
  output are part of its result.
\<close>

subsection \<open>Compiling a script\<close>

text \<open>What the compiler asks of others, with the parser of this development.\<close>

definition source_env :: "(string \<Rightarrow> bool) \<Rightarrow> string option \<Rightarrow> (string \<Rightarrow> string option) \<Rightarrow> program compile_env" where
  "source_env regular loadpath read_file =
     \<lparr>ce_regular = regular, ce_loadpath = loadpath, ce_read_file = read_file, ce_parse = parse_source\<rparr>"

definition nl :: string where
  "nl = [CHR 0x0A]"

text \<open>Parsing and compiling a text; \<open>complaint\<close> is printed after the messages of a parse that failed.\<close>

definition compile_text ::
  "nat \<Rightarrow> program compile_env \<Rightarrow> string \<Rightarrow> string \<Rightarrow> string \<Rightarrow> (image option \<times> string) option"
where
  "compile_text n env source label complaint =
     (case ce_parse env source label of
        (ast, errors, out) \<Rightarrow>
          if errors > 0 then Some (None, out @ complaint)
          else
            do { (img, msgs) \<leftarrow> compile (compile_nested no_deeper env n) ast label;
                 Some (img, out @ msgs) })"

definition compile_script :: "nat \<Rightarrow> program compile_env \<Rightarrow> string \<Rightarrow> (image option \<times> string) option" where
  "compile_script n env path =
     (case ce_read_file env path of
        None \<Rightarrow> Some (None, ''opsh: cannot read '' @ path @ nl)
      | Some source \<Rightarrow>
          compile_text n env source path (''opsh: parse errors in '' @ path @ nl))"

text \<open>\<^verbatim>\<open>-c\<close>.\<close>

definition compile_c_string :: "nat \<Rightarrow> program compile_env \<Rightarrow> string \<Rightarrow> (image option \<times> string) option" where
  "compile_c_string n env source =
     compile_text n env source ''-c'' (''opsh: parse errors in -c string'' @ nl)"

subsection \<open>Running an image\<close>

definition run_start ::
  "('w, 'w vm) host \<Rightarrow> image \<Rightarrow> string \<Rightarrow> string list \<Rightarrow> sigstate \<Rightarrow> cenv \<Rightarrow> 'w \<Rightarrow> 'w vm"
where
  "run_start h img filename args sigs cenv w =
     (let vm = (vm_init [img] 0 sigs cenv w)\<lparr>vm_script_name := Some filename\<rparr> in
      if args \<noteq> [] then vm_set_args h args vm else vm)"

definition run_image ::
  "nat \<Rightarrow> 'w shell \<Rightarrow> image \<Rightarrow> string \<Rightarrow> string list \<Rightarrow> sigstate \<Rightarrow> cenv \<Rightarrow> 'w \<Rightarrow> 'w vm option"
where
  "run_image n sh img filename args sigs cenv w =
     vm_run n builtin_call sh (run_start (sh_host sh) img filename args sigs cenv w)"

text \<open>
  The shell of a running script: the texts of \<^verbatim>\<open>eval\<close>, \<^verbatim>\<open>source\<close> and the traps are parsed and compiled the
  same way, from the files of the world, and what their compilation prints goes to the error output.
\<close>

definition host_env :: "('w, 'm) host \<Rightarrow> string option \<Rightarrow> 'w \<Rightarrow> program compile_env" where
  "host_env h loadpath w =
     source_env (\<lambda>path. case h_stat h w True path of Some st \<Rightarrow> st_kind st = S_REG | None \<Rightarrow> False)
       loadpath (h_read_file h w)"

definition print_err :: "('w, 'm) host \<Rightarrow> string \<Rightarrow> 'w \<Rightarrow> 'w" where
  "print_err h s w = (if s = [] then w else h_puts h w 2 s)"

definition shell_compile ::
  "nat \<Rightarrow> ('w, 'm) host \<Rightarrow> string option \<Rightarrow> 'w \<Rightarrow> string \<Rightarrow> string \<Rightarrow> image option \<times> 'w"
where
  "shell_compile n h loadpath w source label =
     (case compile_text n (host_env h loadpath w) source label [] of
        None \<Rightarrow> (None, w)
      | Some (img, out) \<Rightarrow> (img, print_err h out w))"

definition script_shell :: "nat \<Rightarrow> ('w, 'w vm) host \<Rightarrow> string option \<Rightarrow> 'w shell" where
  "script_shell n h loadpath =
     \<lparr>sh_host = h, sh_compile = shell_compile n h loadpath, sh_run = (\<lambda>_. None)\<rparr>"

text \<open>A whole script: its status, and 2 when there is no image.\<close>

definition run_script ::
  "nat \<Rightarrow> nat \<Rightarrow> ('w, 'w vm) host \<Rightarrow> string option \<Rightarrow> string \<Rightarrow> string list \<Rightarrow> sigstate \<Rightarrow> cenv \<Rightarrow> 'w \<Rightarrow>
   (int \<times> 'w) option"
where
  "run_script n steps h loadpath path args sigs cenv w =
     do { (img, out) \<leftarrow> compile_script n (host_env h loadpath w) path;
          let w = print_err h out w;
          case img of
            None \<Rightarrow> Some (2, w)
          | Some img \<Rightarrow>
              do { vm \<leftarrow> run_image steps (script_shell n h loadpath) img path args sigs cenv w;
                   Some (vm_laststatus vm, vm_world vm) } }"

subsection \<open>The command line\<close>

record main_options =
  mo_build :: bool
  mo_script :: "string option"
  mo_output :: "string option"
  mo_c_string :: "string option"
  mo_args :: "string list"

datatype main_action =
    Run_lsp | Run_format "string list" | Run_lint "string list" | Run_serve | Run_mcp | Run_child_loop
  | Leave int string
  | Usage int string
  | Go main_options

text \<open>
  The loop over the arguments: \<open>first\<close> tells \<^verbatim>\<open>i == 1\<close>. The arguments of the script are those from
  \<^verbatim>\<open>script_arg_start\<close> on, none when that stayed 0. \<open>Usage\<close> prints the text and then the usage.
\<close>

fun parse_args :: "bool \<Rightarrow> main_options \<Rightarrow> string list \<Rightarrow> main_action" where
  "parse_args first mo [] = Go mo"
| "parse_args first mo (arg # rest) =
     (if arg = ''lsp'' \<and> first
      then (case rest of
              [] \<Rightarrow> Run_lsp
            | a # _ \<Rightarrow> Leave 1 (''opsh lsp: unexpected argument: '' @ a @ nl))
      else if arg = ''format'' \<and> first then Run_format rest
      else if arg = ''lint'' \<and> first then Run_lint rest
      else if arg = ''build'' \<and> first then parse_args False (mo\<lparr>mo_build := True\<rparr>) rest
      else if arg = ''-c''
      then (case rest of
              [] \<Rightarrow> Usage 1 (''opsh: option -c requires an argument'' @ nl)
            | c # args \<Rightarrow> Go (mo\<lparr>mo_c_string := Some c, mo_args := args\<rparr>))
      else if arg = ''--''
      then (case rest of
              [] \<Rightarrow> Go mo
            | script # args \<Rightarrow>
                if mo_script mo = None then Go (mo\<lparr>mo_script := Some script, mo_args := args\<rparr>) else Go mo)
      else if arg = ''serve'' \<and> first
      then (case rest of
              [] \<Rightarrow> Run_serve
            | a # _ \<Rightarrow> Leave 1 (''opsh serve: unexpected argument: '' @ a @ nl))
      else if arg = ''mcp'' \<and> first
      then (case rest of
              [] \<Rightarrow> Run_mcp
            | a # _ \<Rightarrow> Leave 1 (''opsh mcp: unexpected argument: '' @ a @ nl))
      else if arg = ''-o''
      then (case rest of
              [] \<Rightarrow> Usage 1 (''opsh: option -o requires an argument'' @ nl)
            | file # rest \<Rightarrow> parse_args False (mo\<lparr>mo_output := Some file\<rparr>) rest)
      else if arg = ''--help'' \<or> arg = ''-h'' then Usage 0 []
      else if peek arg 0 = CHR ''-'' then Usage 1 (''opsh: unknown option: '' @ arg @ nl)
      else if mo_script mo = None
      then
        (if \<not> mo_build mo \<and> rest \<noteq> [] then Go (mo\<lparr>mo_script := Some arg, mo_args := rest\<rparr>)
         else parse_args False (mo\<lparr>mo_script := Some arg\<rparr>) rest)
      else parse_args False mo rest)"

definition no_options :: main_options where
  "no_options = \<lparr>mo_build = False, mo_script = None, mo_output = None, mo_c_string = None, mo_args = []\<rparr>"

text \<open>What \<^verbatim>\<open>main\<close> does with its arguments, without an appended image, up to the checks after the loop.\<close>

definition parse_command_line :: "string list \<Rightarrow> main_action" where
  "parse_command_line argv =
     (if argv \<noteq> [] \<and> hd argv = ''--child-loop'' then Run_child_loop
      else
        (case parse_args True no_options argv of
           Go mo \<Rightarrow>
             if mo_output mo \<noteq> None \<and> \<not> mo_build mo
             then Usage 1 (''opsh: -o is only valid with the build command'' @ nl)
             else if mo_c_string mo = None \<and> mo_script mo = None
             then Usage 1 (''opsh: no script specified'' @ nl)
             else Go mo
         | action \<Rightarrow> action))"

text \<open>The name and the parameters \<^verbatim>\<open>-c\<close> gives its text: the first argument is the name.\<close>

definition c_string_args :: "string list \<Rightarrow> string \<times> string list" where
  "c_string_args args = (case args of [] \<Rightarrow> (''opsh'', []) | name # params \<Rightarrow> (name, params))"

subsection \<open>Executables\<close>

definition strrchr :: "string \<Rightarrow> char \<Rightarrow> nat option" where
  "strrchr s c = map_option (\<lambda>i. length s - 1 - i) (strchr (rev s) c)"

text \<open>The name \<^verbatim>\<open>opsh build\<close> writes to: the script's without its extension.\<close>

definition default_output :: "string \<Rightarrow> string" where
  "default_output path =
     (case strrchr path CHR ''.'' of
        Some dot \<Rightarrow>
          (case strrchr path CHR ''/'' of
             Some slash \<Rightarrow> if dot > slash then take dot path else path @ ''.out''
           | None \<Rightarrow> take dot path)
      | None \<Rightarrow> path @ ''.out'')"

definition ends_opsb :: "string \<Rightarrow> bool" where
  "ends_opsb path \<longleftrightarrow> length path > 5 \<and> drop (length path - 5) path = ''.opsb''"

definition TRAILER_MAGIC :: "byte list" where
  "TRAILER_MAGIC = bytes_of ''OPSB''"

text \<open>The file \<^verbatim>\<open>opsh build\<close> writes: an image, or the executable, the image and where it starts.\<close>

definition build_output :: "byte list \<Rightarrow> image \<Rightarrow> string \<Rightarrow> byte list option" where
  "build_output exe img output =
     (if ends_opsb output then image_write_opsb img
      else map_option (\<lambda>f. exe @ f @ le32 (of_nat (length exe)) @ TRAILER_MAGIC) (image_write_opsb img))"

text \<open>The image behind an executable; the outer \<open>None\<close> is an \<^verbatim>\<open>abort()\<close> while it is read.\<close>

definition load_appended_image :: "byte list \<Rightarrow> image option option" where
  "load_appended_image exe =
     (if length exe < 8 then Some None
      else
        (let trailer = drop (length exe - 8) exe in
         if drop 4 trailer \<noteq> TRAILER_MAGIC then Some None
         else
           (let offset = of_le32 (trailer ! 0) (trailer ! 1) (trailer ! 2) (trailer ! 3) in
            image_read_opsb (drop (unat offset) exe))))"

subsection \<open>From the text to the running machine\<close>

text \<open>What is asked of the compiler and of the first state where the machine's bounds are shown holds of
  every script.\<close>

lemma compiled_plain: "compile prog ast label = Some (Some img, out) \<Longrightarrow> image_plain img"
  by (auto simp: compile_def bind_eq_Some_conv compile_image_def image_plain_def split: if_splits)

lemma compile_text_plain: "compile_text n env source label complaint = Some (Some img, out) \<Longrightarrow> image_plain img"
  by (auto simp: compile_text_def bind_eq_Some_conv intro: compiled_plain split: prod.splits if_splits)

lemma compile_script_plain: "compile_script n env path = Some (Some img, out) \<Longrightarrow> image_plain img"
  by (auto simp: compile_script_def intro: compile_text_plain split: option.splits)

lemma script_shell_plain: "compile_plain (sh_compile (script_shell n h loadpath))"
  by (auto simp: compile_plain_def script_shell_def shell_compile_def intro: compile_text_plain
      split: option.splits)

lemma run_start_ok: "image_plain img \<Longrightarrow> vm_ok (run_start h img filename args sigs cenv w)"
proof -
  let ?vm = "vm_init [img] 0 sigs cenv w"
  assume "image_plain img"
  then have "vm_ok ?vm"
    by (intro vm_init_ok) simp_all
  then have "vm_le ?vm (?vm\<lparr>vm_script_name := Some filename\<rparr>)"
    by (simp add: vm_le_def vm_ok_def)
  with vm_set_args_le [OF this, of h args] show ?thesis
    by (simp add: run_start_def vm_le_def Let_def)
qed

subsection \<open>The command line\<close>

text \<open>
  C28. The arguments of a script are its own: behind a script's name, a \<^verbatim>\<open>--\<close> and a name, or a \<^verbatim>\<open>-c\<close>
  and a text, every argument reaches the script as it is, options and commands of the shell included.
\<close>

theorem script_arguments_kept:
  assumes "script \<notin> {''lsp'', ''format'', ''lint'', ''build'', ''serve'', ''mcp'', ''--child-loop''}" "\<not> prefix ''-'' script"
  shows "parse_command_line (script # args) = Go (no_options\<lparr>mo_script := Some script, mo_args := args\<rparr>) \<and>
    parse_command_line (''--'' # any # args) = Go (no_options\<lparr>mo_script := Some any, mo_args := args\<rparr>) \<and>
    parse_command_line (''-c'' # any # args) = Go (no_options\<lparr>mo_c_string := Some any, mo_args := args\<rparr>)"
proof -
  have "peek script 0 \<noteq> CHR ''-''" "script \<noteq> ''-c''" "script \<noteq> ''-o''" "script \<noteq> ''--''" "script \<noteq> ''-h''"
    "script \<noteq> ''--help''"
    using assms(2) by (cases script; auto simp: peek_def NUL_def)+
  with assms(1) show ?thesis
    by (cases args) (simp_all add: parse_command_line_def no_options_def)
qed

theorem script_arguments_kept_witness:
  "parse_command_line [''x'', ''-c'', ''lint''] =
     Go (no_options\<lparr>mo_script := Some ''x'', mo_args := [''-c'', ''lint'']\<rparr>)"
  using script_arguments_kept [of "''x''"] by simp

subsection \<open>Executables\<close>

text \<open>
  C14. An executable that \<^verbatim>\<open>opsh build\<close> writes finds its image again, whatever bytes the shell's own
  executable consists of: the image loaded has the constants, the code, the functions and the modules of
  the one written.
\<close>

theorem executable_finds_image:
  assumes "opsb_ok img" "\<not> ends_opsb output" "length exe < 2 ^ 32"
  shows "\<exists>f img'. build_output exe img output = Some f \<and> load_appended_image f = Some (Some img') \<and>
     im_consts img' = im_consts img \<and> im_code img' = im_code img \<and>
     im_funcs img' = im_funcs img \<and> im_modules img' = im_modules img"
proof -
  let ?trailer = "le32 (of_nat (length exe)) @ TRAILER_MAGIC"
  obtain f img' where img': "image_write_opsb img = Some f" "image_read_opsb (f @ ?trailer) = Some (Some img')"
    "im_consts img' = im_consts img" "im_code img' = im_code img" "im_funcs img' = im_funcs img"
    "im_modules img' = im_modules img"
    using image_read_back [OF assms(1)] by blast
  have "length ?trailer = 8"
    by (simp add: le32_def TRAILER_MAGIC_def)
  then have trailer: "drop (length (exe @ f @ ?trailer) - 8) (exe @ f @ ?trailer) = ?trailer"
    "\<not> length (exe @ f @ ?trailer) < 8"
    by simp_all
  have "unat (of_nat (length exe) :: u32) = length exe"
    by (rule unat_of_nat32 [OF assms(3)])
  then have "load_appended_image (exe @ f @ ?trailer) = Some (Some img')"
    using img'(2) unfolding load_appended_image_def trailer
    by (simp add: trailer(2) [simplified]) (simp add: le32_def)
  with img' assms(2) show ?thesis
    by (simp add: build_output_def)
qed

theorem executable_finds_image_witness:
  "\<exists>f img'. build_output [0x7F, 0x45] (image_new\<lparr>im_consts := [''echo''], im_const_cap := 16, im_code := [0x34],
       im_code_cap := 64\<rparr>) ''tool'' = Some f \<and>
     load_appended_image f = Some (Some img') \<and> im_code img' = [0x34]"
proof -
  let ?img = "image_new\<lparr>im_consts := [''echo''], im_const_cap := 16, im_code := [0x34], im_code_cap := 64\<rparr>"
  have "opsb_ok ?img"
    by (simp add: opsb_ok_def image_inv_def image_new_def const_ok_def cstr_def NUL_def entries_ok_def
        func_entry_def VM_CONST_POOL_MAX_def SIZE_MAX_def OPSB_MAX_SECTION_SIZE_def OPSB_MAX_STRING_SIZE_def)
  moreover have "\<not> ends_opsb ''tool''"
    by (simp add: ends_opsb_def)
  ultimately have "\<exists>f img'. build_output [0x7F, 0x45] ?img ''tool'' = Some f \<and>
      load_appended_image f = Some (Some img') \<and> im_code img' = im_code ?img"
    using executable_finds_image [of ?img "''tool''" "[0x7F, 0x45]"] by fastforce
  then show ?thesis
    by simp
qed

end
