(* ===== verification/Lint.thy ===== *)
theory Lint
  imports Parser Json Hashtable
begin

text \<open>
  \<^verbatim>\<open>src/lint/checks.c\<close> and \<^verbatim>\<open>src/lint/lint.c\<close>: the checks, the walk over a program that calls them, the
  variable tracking on the hash tables, the output formats and the command. The diagnostics are the
  list from head to tail. A function on the context takes it last. The functions that read
  \<^verbatim>\<open>cmd->next\<close>, \<^verbatim>\<open>pl->commands\<close> and \<^verbatim>\<open>pl->next\<close> take what they find there.
\<close>

subsection \<open>Diagnostics\<close>

datatype lint_format = LINT_FMT_GCC | LINT_FMT_TTY | LINT_FMT_JSON1 | LINT_FMT_QUIET

datatype lint_severity = LINT_ERROR | LINT_WARNING | LINT_INFO | LINT_STYLE

primrec severity_rank :: "lint_severity \<Rightarrow> nat" where
  "severity_rank LINT_ERROR = 0"
| "severity_rank LINT_WARNING = 1"
| "severity_rank LINT_INFO = 2"
| "severity_rank LINT_STYLE = 3"

record lint_diag =
  ld_code :: nat
  ld_severity :: lint_severity
  ld_filename :: string
  ld_lineno :: nat
  ld_column :: nat
  ld_message :: string

record lint_ctx =
  lc_filename :: string
  lc_diags :: "lint_diag list"
  lc_count :: nat
  lc_in_function :: bool
  lc_loop_depth :: nat

definition lint_ctx_init :: "string \<Rightarrow> lint_ctx" where
  "lint_ctx_init filename =
     \<lparr>lc_filename = filename, lc_diags = [], lc_count = 0, lc_in_function = False, lc_loop_depth = 0\<rparr>"

text \<open>The message is cut to what a buffer of 512 bytes holds.\<close>

definition lint_emit :: "nat \<Rightarrow> lint_severity \<Rightarrow> nat \<Rightarrow> string \<Rightarrow> lint_ctx \<Rightarrow> lint_ctx" where
  "lint_emit code sev lineno msg ctx =
     ctx\<lparr>lc_diags := lc_diags ctx @
            [\<lparr>ld_code = code, ld_severity = sev, ld_filename = lc_filename ctx, ld_lineno = lineno,
              ld_column = 0, ld_message = take 511 msg\<rparr>],
         lc_count := lc_count ctx + 1\<rparr>"

text \<open>A diagnostic that is only given under a condition.\<close>

definition emit_when :: "bool \<Rightarrow> nat \<Rightarrow> lint_severity \<Rightarrow> nat \<Rightarrow> string \<Rightarrow> lint_ctx \<Rightarrow> lint_ctx" where
  "emit_when b code sev lineno msg ctx = (if b then lint_emit code sev lineno msg ctx else ctx)"

subsection \<open>Words\<close>

fun lint_word_literal :: "'p wordu \<Rightarrow> string option" where
  "lint_word_literal [WP_LITERAL q s] = Some s"
| "lint_word_literal _ = None"

fun is_cmdsub :: "'p word_part \<Rightarrow> bool" where
  "is_cmdsub (WP_CMDSUB q cs) = True"
| "is_cmdsub _ = False"

definition lint_word_has_cmdsub :: "'p wordu \<Rightarrow> bool" where
  "lint_word_has_cmdsub w = list_ex is_cmdsub w"

fun word_is_single_cmdsub :: "'p wordu \<Rightarrow> bool" where
  "word_is_single_cmdsub [WP_CMDSUB q cs] = True"
| "word_is_single_cmdsub _ = False"

fun word_is_single_param :: "'p wordu \<Rightarrow> bool" where
  "word_is_single_param [WP_PARAM q pe] = True"
| "word_is_single_param _ = False"

text \<open>A single expansion without an operator.\<close>

fun word_is_bare_param :: "'p wordu \<Rightarrow> bool" where
  "word_is_bare_param [WP_PARAM q pe] = (pe_type pe = PE_NONE)"
| "word_is_bare_param _ = False"

fun starts_with_param :: "'p wordu \<Rightarrow> bool" where
  "starts_with_param (WP_PARAM q pe # w) = (\<not> q)"
| "starts_with_param _ = False"

definition words_cmd_name :: "'p wordu list \<Rightarrow> string option" where
  "words_cmd_name words = (case words of [] \<Rightarrow> None | w # _ \<Rightarrow> lint_word_literal w)"

definition simple_cmd_name :: "'p command_body \<Rightarrow> string option" where
  "simple_cmd_name body =
     (case body of CT_SIMPLE assigns words arrays \<Rightarrow> words_cmd_name words | _ \<Rightarrow> None)"

text \<open>SC2006.\<close>

fun is_backtick :: "'p word_part \<Rightarrow> bool" where
  "is_backtick (WP_CMDSUB q (Preparsed b p)) = b"
| "is_backtick (WP_CMDSUB q (Unparsed b s)) = b"
| "is_backtick _ = False"

fun checks_on_word_unit :: "nat \<Rightarrow> 'p wordu \<Rightarrow> lint_ctx \<Rightarrow> lint_ctx" where
  "checks_on_word_unit lineno [] ctx = ctx"
| "checks_on_word_unit lineno (w # ws) ctx =
     checks_on_word_unit lineno ws
       (emit_when (is_backtick w) 2006 LINT_STYLE lineno
          ''Use $(...) notation instead of legacy backticked `...`'' ctx)"

text \<open>SC2048, SC2086 and SC2046, for one part of a word.\<close>

fun check_word_part :: "nat \<Rightarrow> 'p word_part \<Rightarrow> lint_ctx \<Rightarrow> lint_ctx" where
  "check_word_part lineno (WP_PARAM False pe) ctx =
     (case pe_name pe of
        [ch] \<Rightarrow>
          if ch \<in> set ''?!#$-'' then ctx
          else if ch \<in> set ''@*''
          then lint_emit 2048 LINT_WARNING lineno
                 (''Use '' @ [CHR 0x22, CHR ''$'', ch, CHR 0x22] @ '' (with quotes) to prevent whitespace problems'') ctx
          else lint_emit 2086 LINT_INFO lineno ''Double quote to prevent globbing and word splitting'' ctx
      | _ \<Rightarrow> lint_emit 2086 LINT_INFO lineno ''Double quote to prevent globbing and word splitting'' ctx)"
| "check_word_part lineno (WP_CMDSUB False cs) ctx =
     lint_emit 2046 LINT_WARNING lineno ''Quote this to prevent word splitting'' ctx"
| "check_word_part lineno _ ctx = ctx"

fun checks_on_word :: "nat \<Rightarrow> 'p wordu \<Rightarrow> lint_ctx \<Rightarrow> lint_ctx" where
  "checks_on_word lineno [] ctx = ctx"
| "checks_on_word lineno (w # ws) ctx = checks_on_word lineno ws (check_word_part lineno w ctx)"

subsection \<open>Simple commands\<close>

definition has_flag_r :: "'p wordu \<Rightarrow> bool" where
  "has_flag_r w =
     (case lint_word_literal w of Some (c # cs) \<Rightarrow> c = CHR ''-'' \<and> CHR ''r'' \<in> set cs | _ \<Rightarrow> False)"

definition assigns_path :: "'p wordu \<Rightarrow> bool" where
  "assigns_path w =
     (case lint_word_literal w of Some s \<Rightarrow> take 5 s = ''PATH='' | None \<Rightarrow> False)"

definition starts_with_digit :: "'p wordu \<Rightarrow> bool" where
  "starts_with_digit w =
     (case lint_word_literal w of Some (c # cs) \<Rightarrow> c \<in> set ''0123456789'' | _ \<Rightarrow> False)"

text \<open>The text in front of the first \<open>=\<close>.\<close>

definition name_before_eq :: "string \<Rightarrow> string option" where
  "name_before_eq s =
     (if CHR ''='' \<in> set s then Some (takeWhile (\<lambda>c. c \<noteq> CHR ''='') s) else None)"

fun self_assignment :: "'p wordu \<Rightarrow> bool" where
  "self_assignment [WP_LITERAL q s, WP_PARAM q' pe] =
     (pe_type pe = PE_NONE \<and> name_before_eq s = Some (pe_name pe))"
| "self_assignment _ = False"

text \<open>
  \<open>guarded\<close>: the pipeline has a successor behind \<^verbatim>\<open>||\<close>; \<open>lst\<close>: the command is the last of its pipeline;
  \<open>piped\<close>: it is not the pipeline's first.
\<close>

definition checks_on_simple_command ::
  "nat \<Rightarrow> bool \<Rightarrow> bool \<Rightarrow> bool \<Rightarrow> 'p wordu list \<Rightarrow> 'p wordu list \<Rightarrow> lint_ctx \<Rightarrow> lint_ctx"
where
  "checks_on_simple_command lineno piped lst guarded assigns words ctx =
     (let name = words_cmd_name words;
          argc = length words;
          args = tl words;
          ctx = emit_when (name = Some ''cd'' \<and> lst \<and> \<not> guarded) 2164 LINT_WARNING lineno
                  ''Use 'cd ... || exit' in case cd fails'' ctx;
          ctx = emit_when (name = Some ''read'' \<and> \<not> list_ex has_flag_r args) 2162 LINT_WARNING lineno
                  ''read without -r will mangle backslashes'' ctx;
          ctx = emit_when (name = Some ''which'') 2230 LINT_INFO lineno
                  '''which' is non-standard. Use builtin 'command -v' instead'' ctx;
          ctx = emit_when (name = Some ''cat'' \<and> argc = 2 \<and> \<not> lst) 2002 LINT_STYLE lineno
                  ''Useless cat. Consider 'cmd < file' instead'' ctx;
          ctx = emit_when (name = Some ''echo'' \<and> lst \<and> piped) 2008 LINT_STYLE lineno
                  ''echo doesn't read from stdin. Are you sure you should be piping to it?'' ctx;
          ctx = emit_when (name = Some ''rm'' \<and> lst \<and> piped) 2216 LINT_WARNING lineno
                  ''Piping to 'rm', a command that doesn't read stdin'' ctx;
          ctx = foldl (\<lambda>ctx w. emit_when (assigns_path w \<and> argc > 0) 2123 LINT_WARNING lineno
                  ''PATH is the shell search path. Use another name'' ctx) ctx assigns;
          ctx = emit_when (name \<in> {Some ''local'', Some ''export''} \<and> list_ex lint_word_has_cmdsub args)
                  2155 LINT_WARNING lineno
                  ''Declare and assign separately to avoid masking return values'' ctx;
          ctx = emit_when (name = Some ''echo'' \<and> argc = 2 \<and> lst \<and> word_is_single_cmdsub (words ! 1))
                  2005 LINT_STYLE lineno
                  (''Useless echo? Instead of 'echo $(cmd)', just use 'cmd'' @ [CHR 0x27]) ctx;
          ctx = emit_when (argc > 0 \<and> word_is_single_cmdsub (words ! 0) \<and> lst) 2091 LINT_WARNING lineno
                  ''Remove surrounding $() to avoid executing output'' ctx;
          ctx = emit_when (name = Some ''printf'' \<and> argc \<ge> 2 \<and> word_is_single_param (words ! 1))
                  2059 LINT_INFO lineno
                  (''Don't use variables in the printf format string. Use printf '..%s..' '' @
                   [CHR 0x22] @ ''$foo'' @ [CHR 0x22]) ctx;
          ctx = emit_when (name \<in> {Some ''export'', Some ''readonly''} \<and> list_ex word_is_bare_param args)
                  2163 LINT_WARNING lineno
                  (''This does not '' @ the name @ '' the variable. Remove $/${} for that'') ctx;
          ctx = emit_when (name = Some ''unset'' \<and> list_ex starts_with_param args) 2184 LINT_WARNING lineno
                  ''Quote arguments to unset so they're not glob expanded'' ctx;
          ctx = emit_when (argc = 0 \<and> length assigns = 1 \<and> self_assignment (assigns ! 0))
                  2269 LINT_WARNING lineno
                  ''This variable is assigned to itself, so the assignment does nothing'' ctx
      in emit_when (name = Some ''trap'' \<and> argc \<ge> 3 \<and> list_ex starts_with_digit (tl args))
           2172 LINT_WARNING lineno
           ''Trapping signals by number is not well defined. Prefer signal names'' ctx)"

subsection \<open>Compound commands and lists\<close>

definition is_default_item :: "'p case_item \<Rightarrow> bool" where
  "is_default_item ci = list_ex (\<lambda>w. lint_word_literal w = Some ''*'') (ci_patterns ci)"

definition check_for_words :: "nat \<Rightarrow> 'p wordu list \<Rightarrow> lint_ctx \<Rightarrow> lint_ctx" where
  "check_for_words lineno words ctx =
     (case words of
        [w] \<Rightarrow>
          if lint_word_literal w \<noteq> None
          then lint_emit 2043 LINT_WARNING lineno ''This loop will only ever run once for a constant value'' ctx
          else emit_when (w \<noteq> [] \<and> wp_quoted (hd w)) 2066 LINT_WARNING lineno
                 (''Since you double quoted this, it will not word split, and the loop will '' @ ''only run once'') ctx
      | _ \<Rightarrow> ctx)"

definition checks_on_compound_command :: "nat \<Rightarrow> 'p command_body \<Rightarrow> lint_ctx \<Rightarrow> lint_ctx" where
  "checks_on_compound_command lineno body ctx =
     (let ctx = (case body of
                   CT_FOR varname words b \<Rightarrow> check_for_words lineno words ctx
                 | CT_CASE subject items \<Rightarrow>
                     emit_when (\<not> list_ex is_default_item items \<and> items \<noteq> []) 2249 LINT_INFO lineno
                       ''Consider adding a default *) case, even if it just exits with error'' ctx
                 | _ \<Rightarrow> ctx);
          name = simple_cmd_name body;
          ctx = emit_when (\<not> lc_in_function ctx \<and> name = Some ''local'') 2168 LINT_ERROR lineno
                  '''local' is only valid in functions'' ctx;
          ctx = emit_when (lc_in_function ctx \<and> lc_loop_depth ctx = 0 \<and> name = Some ''break'')
                  2104 LINT_ERROR lineno ''In functions, use return instead of break'' ctx;
          ctx = emit_when (\<not> lc_in_function ctx \<and> lc_loop_depth ctx = 0 \<and> name = Some ''break'')
                  2105 LINT_ERROR lineno ''break is only valid in loops'' ctx
      in emit_when (\<not> lc_in_function ctx \<and> lc_loop_depth ctx = 0 \<and> name = Some ''continue'')
           2105 LINT_ERROR lineno ''continue is only valid in loops'' ctx)"

definition first_lineno :: "'p and_or \<Rightarrow> nat" where
  "first_lineno pl = (case ao_commands pl of [] \<Rightarrow> 0 | cmd # _ \<Rightarrow> cmd_lineno cmd)"

text \<open>SC2015, on the pipelines from one on.\<close>

fun checks_on_sh_list :: "'p and_or list \<Rightarrow> lint_ctx \<Rightarrow> lint_ctx" where
  "checks_on_sh_list (a # b # rest) ctx =
     (let ctx = (if ao_connector a \<and> rest \<noteq> [] \<and> \<not> ao_connector b
                 then lint_emit 2015 LINT_INFO
                        (if first_lineno (hd rest) \<noteq> 0 then first_lineno (hd rest) else first_lineno a)
                        ''Note that A && B || C is not if-then-else. C may run when A is true'' ctx
                 else ctx)
      in checks_on_sh_list (b # rest) ctx)"
| "checks_on_sh_list _ ctx = ctx"

subsection \<open>Walking\<close>

fun walk_io_redirs :: "nat \<Rightarrow> 'p io_redir list \<Rightarrow> lint_ctx \<Rightarrow> lint_ctx" where
  "walk_io_redirs lineno [] ctx = ctx"
| "walk_io_redirs lineno (r # rs) ctx =
     walk_io_redirs lineno rs
       (checks_on_word lineno (rd_target r) (checks_on_word_unit lineno (rd_target r) ctx))"

definition walk_words :: "nat \<Rightarrow> 'p wordu list \<Rightarrow> lint_ctx \<Rightarrow> lint_ctx" where
  "walk_words lineno words ctx =
     foldl (\<lambda>ctx w. checks_on_word lineno w (checks_on_word_unit lineno w ctx)) ctx words"

definition walk_simple :: "nat \<Rightarrow> 'p wordu list \<Rightarrow> lint_ctx \<Rightarrow> lint_ctx" where
  "walk_simple lineno words ctx =
     foldl (\<lambda>ctx w. checks_on_word lineno w ctx)
       (foldl (\<lambda>ctx w. checks_on_word_unit lineno w ctx) ctx words) (tl words)"

text \<open>A body inside a loop.\<close>

definition in_loop :: "(lint_ctx \<Rightarrow> lint_ctx) \<Rightarrow> lint_ctx \<Rightarrow> lint_ctx" where
  "in_loop walk ctx =
     (let ctx = walk (ctx\<lparr>lc_loop_depth := lc_loop_depth ctx + 1\<rparr>)
      in ctx\<lparr>lc_loop_depth := lc_loop_depth ctx - 1\<rparr>)"

text \<open>
  \<open>walk_pipeline\<close> and \<open>walk_members\<close> are the inner loops of \<^verbatim>\<open>walk_sh_list\<close>. A function's body has no
  \<^verbatim>\<open>next\<close> and is not the first command of the pipeline that is passed on with it.
\<close>

function (sequential) walk_sh_list :: "program \<Rightarrow> lint_ctx \<Rightarrow> lint_ctx"
and walk_pipeline :: "program and_or list \<Rightarrow> lint_ctx \<Rightarrow> lint_ctx"
and walk_members :: "bool \<Rightarrow> bool \<Rightarrow> program command list \<Rightarrow> lint_ctx \<Rightarrow> lint_ctx"
and walk_command :: "bool \<Rightarrow> bool \<Rightarrow> bool \<Rightarrow> program command \<Rightarrow> lint_ctx \<Rightarrow> lint_ctx"
where
  "walk_sh_list [] ctx = ctx"
| "walk_sh_list (sl # rest) ctx =
     walk_sh_list rest (walk_pipeline (sl_pipelines sl) (checks_on_sh_list (sl_pipelines sl) ctx))"
| "walk_pipeline [] ctx = ctx"
| "walk_pipeline (pl # rest) ctx =
     walk_pipeline rest (walk_members False (rest \<noteq> [] \<and> \<not> ao_connector pl) (ao_commands pl) ctx)"
| "walk_members piped guarded [] ctx = ctx"
| "walk_members piped guarded (cmd # rest) ctx =
     walk_members True guarded rest (walk_command piped (rest = []) guarded cmd ctx)"
| "walk_command piped lst guarded (Command lineno redirs body) ctx =
     (let ctx = walk_io_redirs lineno redirs (checks_on_compound_command lineno body ctx) in
      case body of
        CT_SIMPLE assigns words arrays \<Rightarrow>
          checks_on_simple_command lineno piped lst guarded assigns words (walk_simple lineno words ctx)
      | CT_IF clauses \<Rightarrow>
          foldl (\<lambda>ctx ic. walk_sh_list (ic_body ic)
                   (case ic_condition ic of None \<Rightarrow> ctx | Some c \<Rightarrow> walk_sh_list c ctx)) ctx clauses
      | CT_FOR varname words b \<Rightarrow> in_loop (\<lambda>ctx. walk_sh_list b ctx) (walk_words lineno words ctx)
      | CT_WHILE condition b \<Rightarrow> in_loop (\<lambda>ctx. walk_sh_list b ctx) (walk_sh_list condition ctx)
      | CT_UNTIL condition b \<Rightarrow> in_loop (\<lambda>ctx. walk_sh_list b ctx) (walk_sh_list condition ctx)
      | CT_CASE subject items \<Rightarrow> foldl (\<lambda>ctx ci. walk_sh_list (ci_body ci) ctx) ctx items
      | CT_GROUP b \<Rightarrow> walk_sh_list b ctx
      | CT_SUBSHELL b \<Rightarrow> walk_sh_list b ctx
      | CT_FUNCDEF name b \<Rightarrow>
          (let out = walk_command True True guarded b (ctx\<lparr>lc_in_function := True, lc_loop_depth := 0\<rparr>)
           in out\<lparr>lc_in_function := lc_in_function ctx, lc_loop_depth := lc_loop_depth ctx\<rparr>)
      | CT_BRACKET expr \<Rightarrow> ctx)"
  by pat_completeness auto
termination
proof (relation "measure (\<lambda>x. case x of
    Inl (Inl (prog, ctx)) \<Rightarrow> program_size prog
  | Inl (Inr (pls, ctx)) \<Rightarrow> size_list (size_and_or program_size) pls
  | Inr (Inl (piped, guarded, cmds, ctx)) \<Rightarrow> size_list (size_command program_size) cmds
  | Inr (Inr (piped, lst, guarded, cmd, ctx)) \<Rightarrow> size_command program_size cmd)", goal_cases)
qed (auto dest: clause_size item_size simp: less_Suc_eq_le trans_le_add1 node_size less_imp_le)

subsection \<open>Variable tracking\<close>

text \<open>The hash tables of the tracking pass; a table is used as the set of its keys.\<close>

record tracked =
  tr_assigns :: "unit hashtable"
  tr_refs :: "unit hashtable"
  tr_funcs :: "unit hashtable"

definition ht_note :: "string \<Rightarrow> unit hashtable \<Rightarrow> unit hashtable" where
  "ht_note name ht = (if ht_get ht name = None then fst (ht_set ht name ()) else ht)"

definition is_special_param :: "string \<Rightarrow> bool" where
  "is_special_param name = (case name of [ch] \<Rightarrow> ch \<in> set ''?!#$-@*0123456789'' | _ \<Rightarrow> False)"

fun track_vars_word :: "'p wordu \<Rightarrow> unit hashtable \<Rightarrow> unit hashtable" where
  "track_vars_word [] refs = refs"
| "track_vars_word (WP_PARAM q pe # w) refs =
     track_vars_word w
       (if pe_name pe = [] \<or> is_special_param (pe_name pe) then refs else ht_note (pe_name pe) refs)"
| "track_vars_word (WP_ARITH q a # w) refs = track_vars_word w (track_vars_word a refs)"
| "track_vars_word (_ # w) refs = track_vars_word w refs"

definition track_vars_io_redirs :: "'p io_redir list \<Rightarrow> unit hashtable \<Rightarrow> unit hashtable" where
  "track_vars_io_redirs redirs refs = foldl (\<lambda>refs r. track_vars_word (rd_target r) refs) refs redirs"

text \<open>The name in front of \<open>=\<close> in a word that starts with a literal.\<close>

definition assigned_name :: "'p wordu \<Rightarrow> string option" where
  "assigned_name w =
     (case w of
        WP_LITERAL q s # _ \<Rightarrow> (case name_before_eq s of Some (c # cs) \<Rightarrow> Some (c # cs) | _ \<Rightarrow> None)
      | _ \<Rightarrow> None)"

definition note_assigned :: "unit hashtable \<Rightarrow> 'p wordu \<Rightarrow> unit hashtable" where
  "note_assigned assigns w = (case assigned_name w of Some name \<Rightarrow> ht_note name assigns | None \<Rightarrow> assigns)"

definition assigned_value :: "'p wordu \<Rightarrow> 'p wordu" where
  "assigned_value w = (case w of WP_LITERAL q s # rest \<Rightarrow> rest | _ \<Rightarrow> w)"

definition track_read_arg :: "unit hashtable \<Rightarrow> 'p wordu \<Rightarrow> unit hashtable" where
  "track_read_arg assigns w =
     (case lint_word_literal w of
        None \<Rightarrow> assigns
      | Some arg \<Rightarrow> if peek arg 0 = CHR ''-'' then assigns else ht_note arg assigns)"

definition track_read_assigns :: "'p wordu list \<Rightarrow> unit hashtable \<Rightarrow> unit hashtable" where
  "track_read_assigns words assigns =
     (if words_cmd_name words = Some ''read'' then foldl track_read_arg assigns (tl words) else assigns)"

definition track_assign :: "tracked \<Rightarrow> 'p wordu \<Rightarrow> tracked" where
  "track_assign tr w =
     tr\<lparr>tr_assigns := note_assigned (tr_assigns tr) w,
        tr_refs := track_vars_word (assigned_value w) (tr_refs tr)\<rparr>"

definition track_simple :: "'p wordu list \<Rightarrow> 'p wordu list \<Rightarrow> tracked \<Rightarrow> tracked" where
  "track_simple assigns words tr =
     (let tr = foldl track_assign tr assigns;
          tr = tr\<lparr>tr_refs := foldl (\<lambda>refs w. track_vars_word w refs) (tr_refs tr) words\<rparr>;
          tr = (if words_cmd_name words \<in> {Some ''local'', Some ''export'', Some ''readonly''}
                then tr\<lparr>tr_assigns := foldl note_assigned (tr_assigns tr) (tl words)\<rparr>
                else tr)
      in tr\<lparr>tr_assigns := track_read_assigns words (tr_assigns tr)\<rparr>)"

function (sequential) track_vars_sh_list :: "program \<Rightarrow> tracked \<Rightarrow> tracked"
and track_vars_command :: "program command \<Rightarrow> tracked \<Rightarrow> tracked"
where
  "track_vars_sh_list prog tr =
     foldl (\<lambda>tr sl.
       foldl (\<lambda>tr pl. foldl (\<lambda>tr cmd. track_vars_command cmd tr) tr (ao_commands pl)) tr (sl_pipelines sl))
       tr prog"
| "track_vars_command (Command lineno redirs body) tr =
     (let tr = tr\<lparr>tr_refs := track_vars_io_redirs redirs (tr_refs tr)\<rparr> in
      case body of
        CT_SIMPLE assigns words arrays \<Rightarrow> track_simple assigns words tr
      | CT_IF clauses \<Rightarrow>
          foldl (\<lambda>tr ic. track_vars_sh_list (ic_body ic)
                   (case ic_condition ic of None \<Rightarrow> tr | Some c \<Rightarrow> track_vars_sh_list c tr)) tr clauses
      | CT_FOR varname words b \<Rightarrow>
          track_vars_sh_list b
            (tr\<lparr>tr_assigns := ht_note varname (tr_assigns tr),
                tr_refs := foldl (\<lambda>refs w. track_vars_word w refs) (tr_refs tr) words\<rparr>)
      | CT_WHILE condition b \<Rightarrow> track_vars_sh_list b (track_vars_sh_list condition tr)
      | CT_UNTIL condition b \<Rightarrow> track_vars_sh_list b (track_vars_sh_list condition tr)
      | CT_CASE subject items \<Rightarrow>
          foldl (\<lambda>tr ci. track_vars_sh_list (ci_body ci) tr)
            (tr\<lparr>tr_refs := track_vars_word subject (tr_refs tr)\<rparr>) items
      | CT_GROUP b \<Rightarrow> track_vars_sh_list b tr
      | CT_SUBSHELL b \<Rightarrow> track_vars_sh_list b tr
      | CT_FUNCDEF name b \<Rightarrow> track_vars_command b (tr\<lparr>tr_funcs := ht_note name (tr_funcs tr)\<rparr>)
      | CT_BRACKET expr \<Rightarrow> tr)"
  by pat_completeness auto
termination
proof (relation "measure (\<lambda>x. case x of Inl (prog, tr) \<Rightarrow> program_size prog
                                  | Inr (cmd, tr) \<Rightarrow> size_command program_size cmd)", goal_cases)
  case 2
  then show ?case using program_size_command by simp
qed (auto dest: clause_size item_size)

text \<open>The defined functions that are the name of a simple command somewhere.\<close>

function (sequential) collect_func_calls :: "unit hashtable \<Rightarrow> program \<Rightarrow> unit hashtable \<Rightarrow> unit hashtable"
and collect_func_calls_cmd :: "unit hashtable \<Rightarrow> program command \<Rightarrow> unit hashtable \<Rightarrow> unit hashtable"
where
  "collect_func_calls defined prog called =
     foldl (\<lambda>called sl.
       foldl (\<lambda>called pl. foldl (\<lambda>called cmd. collect_func_calls_cmd defined cmd called) called (ao_commands pl))
         called (sl_pipelines sl))
       called prog"
| "collect_func_calls_cmd defined (Command lineno redirs body) called =
     (case body of
        CT_SIMPLE assigns words arrays \<Rightarrow>
          (case words_cmd_name words of
             None \<Rightarrow> called
           | Some name \<Rightarrow> if ht_get defined name \<noteq> None then ht_note name called else called)
      | CT_IF clauses \<Rightarrow>
          foldl (\<lambda>called ic. collect_func_calls defined (ic_body ic)
                   (case ic_condition ic of None \<Rightarrow> called | Some c \<Rightarrow> collect_func_calls defined c called))
            called clauses
      | CT_FOR varname words b \<Rightarrow> collect_func_calls defined b called
      | CT_WHILE condition b \<Rightarrow> collect_func_calls defined b (collect_func_calls defined condition called)
      | CT_UNTIL condition b \<Rightarrow> collect_func_calls defined b (collect_func_calls defined condition called)
      | CT_CASE subject items \<Rightarrow> foldl (\<lambda>called ci. collect_func_calls defined (ci_body ci) called) called items
      | CT_GROUP b \<Rightarrow> collect_func_calls defined b called
      | CT_SUBSHELL b \<Rightarrow> collect_func_calls defined b called
      | CT_FUNCDEF name b \<Rightarrow> collect_func_calls_cmd defined b called
      | CT_BRACKET expr \<Rightarrow> called)"
  by pat_completeness auto
termination
proof (relation "measure (\<lambda>x. case x of Inl (defined, prog, called) \<Rightarrow> program_size prog
                                  | Inr (defined, cmd, called) \<Rightarrow> size_command program_size cmd)", goal_cases)
  case 2
  then show ?case using program_size_command by simp
qed (auto dest: clause_size item_size)

definition known_variables :: "string list" where
  "known_variables =
     [''IFS'', ''PATH'', ''HOME'', ''PWD'', ''OLDPWD'', ''USER'', ''SHELL'', ''TERM'', ''EDITOR'', ''VISUAL'',
      ''LANG'', ''LC_ALL'', ''DISPLAY'', ''HOSTNAME'', ''LOGNAME'', ''TMPDIR'', ''COLUMNS'', ''LINES'',
      ''REPLY'', ''OPTARG'', ''OPTIND'', ''RANDOM'', ''LINENO'', ''SECONDS'', ''PPID'']"

text \<open>The callbacks of \<^verbatim>\<open>ht_foreach\<close>; they never stop it.\<close>

definition check_unused_var ::
  "unit hashtable \<Rightarrow> nat \<Rightarrow> string \<Rightarrow> string \<Rightarrow> unit \<Rightarrow> lint_ctx \<Rightarrow> bool \<times> lint_ctx"
where
  "check_unused_var other code msg_suffix key val ctx =
     (False, emit_when (ht_get other key = None \<and> key \<notin> set known_variables) code LINT_WARNING 0
               (key @ '' '' @ msg_suffix) ctx)"

definition check_unused_func :: "unit hashtable \<Rightarrow> string \<Rightarrow> unit \<Rightarrow> lint_ctx \<Rightarrow> bool \<times> lint_ctx" where
  "check_unused_func other key val ctx =
     (False, emit_when (ht_get other key = None) 2329 LINT_INFO 0
               (''Function '' @ [CHR 0x27] @ key @ [CHR 0x27] @ '' is never invoked'') ctx)"

definition checks_variable_tracking :: "program \<Rightarrow> lint_ctx \<Rightarrow> lint_ctx" where
  "checks_variable_tracking ast ctx =
     (let tr = track_vars_sh_list ast \<lparr>tr_assigns = ht_init, tr_refs = ht_init, tr_funcs = ht_init\<rparr>;
          called = collect_func_calls (tr_funcs tr) ast ht_init;
          ctx = ht_foreach (tr_assigns tr)
                  (check_unused_var (tr_refs tr) 2034 ''appears unused. Verify it or export it'') ctx;
          ctx = ht_foreach (tr_refs tr)
                  (check_unused_var (tr_assigns tr) 2154 ''is referenced but not assigned'') ctx
      in ht_foreach (tr_funcs tr) (check_unused_func called) ctx)"

definition lint_check :: "program \<Rightarrow> string \<Rightarrow> lint_diag list" where
  "lint_check ast filename =
     lc_diags (checks_variable_tracking ast (walk_sh_list ast (lint_ctx_init filename)))"

subsection \<open>Output\<close>

primrec severity_str :: "lint_severity \<Rightarrow> string" where
  "severity_str LINT_ERROR = ''error''"
| "severity_str LINT_WARNING = ''warning''"
| "severity_str LINT_INFO = ''note''"
| "severity_str LINT_STYLE = ''note''"

primrec severity_str_json :: "lint_severity \<Rightarrow> string" where
  "severity_str_json LINT_ERROR = ''error''"
| "severity_str_json LINT_WARNING = ''warning''"
| "severity_str_json LINT_INFO = ''info''"
| "severity_str_json LINT_STYLE = ''style''"

text \<open>\<^verbatim>\<open>%04d\<close>.\<close>

definition show_04d :: "nat \<Rightarrow> string" where
  "show_04d n = replicate (4 - length (show_nat n)) CHR ''0'' @ show_nat n"

definition diag_place :: "lint_diag \<Rightarrow> string" where
  "diag_place d = ld_filename d @ '':'' @ show_nat (ld_lineno d) @ '':'' @ show_nat (ld_column d) @ '':''"

definition diag_gcc :: "lint_diag \<Rightarrow> string" where
  "diag_gcc d =
     diag_place d @ '' '' @ severity_str (ld_severity d) @ '': '' @ ld_message d @ '' [SC'' @
     show_04d (ld_code d) @ '']'' @ [CHR 0x0A]"

definition format_gcc :: "string \<Rightarrow> lint_diag list \<Rightarrow> string" where
  "format_gcc out diags = foldl (\<lambda>out d. out @ diag_gcc d) out diags"

definition esc :: "string \<Rightarrow> string" where
  "esc s = CHR 0x1B # ''['' @ s @ ''m''"

primrec severity_tty :: "lint_severity \<Rightarrow> string" where
  "severity_tty LINT_ERROR = esc ''1;31'' @ ''error:''"
| "severity_tty LINT_WARNING = esc ''1;35'' @ ''warning:''"
| "severity_tty LINT_INFO = esc ''1;36'' @ ''note:''"
| "severity_tty LINT_STYLE = esc ''1;36'' @ ''note:''"

definition diag_tty :: "lint_diag \<Rightarrow> string" where
  "diag_tty d =
     esc ''1'' @ diag_place d @ esc ''0'' @ '' '' @ severity_tty (ld_severity d) @ esc ''0'' @ '' '' @
     ld_message d @ '' '' @ esc ''2'' @ ''[SC'' @ show_04d (ld_code d) @ '']'' @ esc ''0'' @ [CHR 0x0A]"

definition format_tty :: "bool \<Rightarrow> string \<Rightarrow> lint_diag list \<Rightarrow> string" where
  "format_tty color out diags = foldl (\<lambda>out d. out @ (if color then diag_tty d else diag_gcc d)) out diags"

definition diag_json :: "string \<Rightarrow> lint_diag \<Rightarrow> string" where
  "diag_json out d =
     (let out = json_begin_object out;
          out = json_key_string out ''file'' (ld_filename d);
          out = json_key_int out ''line'' (of_nat (ld_lineno d));
          out = json_key_int out ''column'' (of_nat (ld_column d));
          out = json_key_string out ''level'' (severity_str_json (ld_severity d));
          out = json_key_int out ''code'' (of_nat (ld_code d));
          out = json_key_string out ''message'' (ld_message d)
      in json_end_object out)"

definition format_json1 :: "string \<Rightarrow> lint_diag list \<Rightarrow> string" where
  "format_json1 out diags =
     (let out = json_begin_object out;
          out = out @ [CHR 0x22] @ ''comments'' @ [CHR 0x22] @ '':'';
          out = json_begin_array out;
          out = foldl diag_json out diags
      in json_end_object (json_end_array out) @ [CHR 0x0A])"

definition lint_format_diags :: "bool \<Rightarrow> string \<Rightarrow> lint_diag list \<Rightarrow> lint_format \<Rightarrow> string" where
  "lint_format_diags tty out diags fmt =
     (case fmt of
        LINT_FMT_GCC \<Rightarrow> format_gcc out diags
      | LINT_FMT_TTY \<Rightarrow> format_tty tty out diags
      | LINT_FMT_JSON1 \<Rightarrow> format_json1 out diags
      | LINT_FMT_QUIET \<Rightarrow> out)"

subsection \<open>The command\<close>

text \<open>
  The status, what is printed to the output, and what to the error output. \<open>tty\<close>: the output is a
  terminal.
\<close>

definition process_lint_file ::
  "bool \<Rightarrow> string \<Rightarrow> string \<Rightarrow> lint_format \<Rightarrow> lint_severity \<Rightarrow> nat \<times> string \<times> string"
where
  "process_lint_file tty path source fmt min_sev =
     (case parse_source source path of
        (ast, errors, err) \<Rightarrow>
          if errors > 0 then (2, [], err @ ''opsh lint: parse errors in '' @ path @ [CHR 0x0A])
          else
            (let diags = filter (\<lambda>d. severity_rank (ld_severity d) \<le> severity_rank min_sev) (lint_check ast path)
             in (if diags \<noteq> [] then 1 else 0, lint_format_diags tty [] diags fmt, err)))"

record lint_options =
  lo_format :: lint_format
  lo_severity :: lint_severity

datatype lint_args =
    Lint_files lint_options "string list"
  | Lint_usage nat string

definition lint_format_of :: "string \<Rightarrow> lint_format option" where
  "lint_format_of s =
     map_of [(''gcc'', LINT_FMT_GCC), (''tty'', LINT_FMT_TTY), (''json1'', LINT_FMT_JSON1),
             (''quiet'', LINT_FMT_QUIET)] s"

definition lint_severity_of :: "string \<Rightarrow> lint_severity option" where
  "lint_severity_of s =
     map_of [(''error'', LINT_ERROR), (''warning'', LINT_WARNING), (''info'', LINT_INFO),
             (''style'', LINT_STYLE)] s"

fun parse_lint_args :: "lint_options \<Rightarrow> string list \<Rightarrow> lint_args" where
  "parse_lint_args lo [] = Lint_files lo []"
| "parse_lint_args lo (arg # rest) =
     (if arg = ''-f'' \<and> rest \<noteq> []
      then (case rest of
              f # args \<Rightarrow>
                (case lint_format_of f of
                   Some fmt \<Rightarrow> parse_lint_args (lo\<lparr>lo_format := fmt\<rparr>) args
                 | None \<Rightarrow> Lint_usage 2 (''opsh lint: unknown format: '' @ f @ [CHR 0x0A]))
            | [] \<Rightarrow> Lint_usage 2 [])
      else if arg = ''-S'' \<and> rest \<noteq> []
      then (case rest of
              l # args \<Rightarrow>
                (case lint_severity_of l of
                   Some sev \<Rightarrow> parse_lint_args (lo\<lparr>lo_severity := sev\<rparr>) args
                 | None \<Rightarrow> Lint_usage 2 (''opsh lint: unknown severity: '' @ l @ [CHR 0x0A]))
            | [] \<Rightarrow> Lint_usage 2 [])
      else if arg = ''--help'' \<or> arg = ''-h'' then Lint_usage 0 []
      else if peek arg 0 = CHR ''-'' then Lint_usage 2 (''opsh lint: unknown option: '' @ arg @ [CHR 0x0A])
      else Lint_files lo (arg # rest))"

definition worse_status :: "nat \<Rightarrow> nat \<Rightarrow> nat" where
  "worse_status exit_code rc = (if rc = 2 then 2 else if rc = 1 \<and> exit_code = 0 then 1 else exit_code)"

text \<open>The files in order; a file that cannot be read counts as an error.\<close>

fun lint_files ::
  "bool \<Rightarrow> (string \<Rightarrow> string option) \<Rightarrow> lint_options \<Rightarrow> string list \<Rightarrow> nat \<times> string \<times> string \<Rightarrow>
   nat \<times> string \<times> string"
where
  "lint_files tty read_file lo [] res = res"
| "lint_files tty read_file lo (path # paths) (code, out, err) =
     (case read_file path of
        None \<Rightarrow> lint_files tty read_file lo paths (2, out, err @ ''opsh lint: cannot read '' @ path @ [CHR 0x0A])
      | Some source \<Rightarrow>
          (case process_lint_file tty path source (lo_format lo) (lo_severity lo) of
             (rc, out', err') \<Rightarrow>
               lint_files tty read_file lo paths (worse_status code rc, out @ out', err @ err')))"

definition lint_main ::
  "bool \<Rightarrow> (string \<Rightarrow> string option) \<Rightarrow> string \<Rightarrow> string list \<Rightarrow> nat \<times> string \<times> string"
where
  "lint_main tty read_file stdin args =
     (case parse_lint_args \<lparr>lo_format = LINT_FMT_GCC, lo_severity = LINT_STYLE\<rparr> args of
        Lint_usage code msg \<Rightarrow> (code, [], msg)
      | Lint_files lo [] \<Rightarrow> process_lint_file tty ''<stdin>'' stdin (lo_format lo) (lo_severity lo)
      | Lint_files lo (path # paths) \<Rightarrow> lint_files tty read_file lo (path # paths) (0, [], []))"

end
