(* ===== verification/LintProps.thy ===== *)
theory LintProps
  imports Lint "HOL-Library.Multiset"
begin

text \<open>
  What the linter reports: the diagnostics of the walk are added to the list with the severities of
  \<^verbatim>\<open>docs/lint-checks.md\<close>, and those of the variable tracking are the names that the tables of what the
  commands assign, use, define and call give, each once.
\<close>

subsection \<open>What a check adds\<close>

type_synonym diag_kinds = "(nat \<times> lint_severity) set"

definition diag_ok :: "diag_kinds \<Rightarrow> string \<Rightarrow> lint_diag \<Rightarrow> bool" where
  "diag_ok kinds filename d \<longleftrightarrow>
     (ld_code d, ld_severity d) \<in> kinds \<and> ld_filename d = filename \<and> ld_column d = 0 \<and>
     length (ld_message d) < 512"

definition said :: "diag_kinds \<Rightarrow> lint_ctx \<Rightarrow> lint_ctx \<Rightarrow> bool" where
  "said kinds ctx ctx' \<longleftrightarrow>
     (\<exists>ds. ctx' = ctx\<lparr>lc_diags := lc_diags ctx @ ds, lc_count := lc_count ctx + length ds\<rparr> \<and>
           list_all (diag_ok kinds (lc_filename ctx)) ds)"

named_theorems said_intros

lemma said_refl [said_intros]: "said kinds ctx ctx"
  unfolding said_def by (rule exI [of _ "[]"]) simp

lemma said_trans: "said kinds a b \<Longrightarrow> said kinds b c \<Longrightarrow> said kinds a c"
  unfolding said_def
proof clarify
  fix ds es
  assume "list_all (diag_ok kinds (lc_filename a)) ds"
    "list_all (diag_ok kinds (lc_filename (a\<lparr>lc_diags := lc_diags a @ ds, lc_count := lc_count a + length ds\<rparr>))) es"
  then show "\<exists>fs. a\<lparr>lc_diags := lc_diags a @ ds, lc_count := lc_count a + length ds,
      lc_diags := lc_diags (a\<lparr>lc_diags := lc_diags a @ ds, lc_count := lc_count a + length ds\<rparr>) @ es,
      lc_count := lc_count (a\<lparr>lc_diags := lc_diags a @ ds, lc_count := lc_count a + length ds\<rparr>) + length es\<rparr> =
      a\<lparr>lc_diags := lc_diags a @ fs, lc_count := lc_count a + length fs\<rparr> \<and>
      list_all (diag_ok kinds (lc_filename a)) fs"
    by (intro exI [of _ "ds @ es"]) simp
qed

lemma said_emit [said_intros]:
  "(code, sev) \<in> kinds \<Longrightarrow> said kinds a b \<Longrightarrow> said kinds a (lint_emit code sev lineno msg b)"
proof (erule said_trans)
  assume "(code, sev) \<in> kinds"
  then show "said kinds b (lint_emit code sev lineno msg b)"
    unfolding said_def lint_emit_def
    by (intro exI [of _ "[\<lparr>ld_code = code, ld_severity = sev, ld_filename = lc_filename b, ld_lineno = lineno,
          ld_column = 0, ld_message = take 511 msg\<rparr>]"]) (simp add: diag_ok_def)
qed

lemma said_when [said_intros]:
  "(code, sev) \<in> kinds \<Longrightarrow> said kinds a b \<Longrightarrow> said kinds a (emit_when c code sev lineno msg b)"
  by (simp add: emit_when_def said_emit)

lemma said_foldl:
  "said kinds a b \<Longrightarrow> (\<And>x ctx. x \<in> set xs \<Longrightarrow> said kinds a ctx \<Longrightarrow> said kinds a (f ctx x)) \<Longrightarrow>
   said kinds a (foldl f b xs)"
  by (induction xs arbitrary: b) auto

lemma said_if [said_intros]: "(c \<Longrightarrow> said kinds a x) \<Longrightarrow> (\<not> c \<Longrightarrow> said kinds a y) \<Longrightarrow> said kinds a (if c then x else y)"
  by simp

lemma said_flags:
  "said kinds a b \<Longrightarrow> lc_in_function b = lc_in_function a \<and> lc_loop_depth b = lc_loop_depth a \<and>
   lc_filename b = lc_filename a"
  by (auto simp: said_def)

lemma said_in_loop:
  assumes "\<And>ctx. said kinds ctx (f ctx)"
  shows "said kinds ctx (in_loop f ctx)"
proof -
  have "said kinds (ctx\<lparr>lc_loop_depth := lc_loop_depth ctx + 1\<rparr>) (f (ctx\<lparr>lc_loop_depth := lc_loop_depth ctx + 1\<rparr>))"
    by (rule assms)
  then show ?thesis
    by (auto simp: in_loop_def said_def)
qed

lemma said_function:
  assumes "said kinds (ctx\<lparr>lc_in_function := True, lc_loop_depth := 0\<rparr>) out"
  shows "said kinds ctx (out\<lparr>lc_in_function := lc_in_function ctx, lc_loop_depth := lc_loop_depth ctx\<rparr>)"
  using assms by (auto simp: said_def)

subsection \<open>The severities of the documentation\<close>

definition documented :: "(nat \<times> lint_severity) list" where
  "documented =
     [(2002, LINT_STYLE), (2005, LINT_STYLE), (2006, LINT_STYLE), (2008, LINT_STYLE), (2015, LINT_INFO),
      (2043, LINT_WARNING), (2046, LINT_WARNING), (2048, LINT_WARNING), (2059, LINT_INFO),
      (2066, LINT_WARNING), (2086, LINT_INFO), (2091, LINT_WARNING), (2104, LINT_ERROR), (2105, LINT_ERROR),
      (2123, LINT_WARNING), (2155, LINT_WARNING), (2162, LINT_WARNING), (2163, LINT_WARNING),
      (2164, LINT_WARNING), (2168, LINT_ERROR), (2172, LINT_WARNING), (2184, LINT_WARNING),
      (2216, LINT_WARNING), (2230, LINT_INFO), (2249, LINT_INFO), (2269, LINT_WARNING)]"

abbreviation walk_kinds :: diag_kinds where
  "walk_kinds \<equiv> set documented"

definition tracking_kinds :: diag_kinds where
  "tracking_kinds = {(2034, LINT_WARNING), (2154, LINT_WARNING), (2329, LINT_INFO)}"

lemma walk_kinds_mem [said_intros]:
  "(2002, LINT_STYLE) \<in> walk_kinds" "(2005, LINT_STYLE) \<in> walk_kinds" "(2006, LINT_STYLE) \<in> walk_kinds"
  "(2008, LINT_STYLE) \<in> walk_kinds" "(2015, LINT_INFO) \<in> walk_kinds" "(2043, LINT_WARNING) \<in> walk_kinds"
  "(2046, LINT_WARNING) \<in> walk_kinds" "(2048, LINT_WARNING) \<in> walk_kinds" "(2059, LINT_INFO) \<in> walk_kinds"
  "(2066, LINT_WARNING) \<in> walk_kinds" "(2086, LINT_INFO) \<in> walk_kinds" "(2091, LINT_WARNING) \<in> walk_kinds"
  "(2104, LINT_ERROR) \<in> walk_kinds" "(2105, LINT_ERROR) \<in> walk_kinds" "(2123, LINT_WARNING) \<in> walk_kinds"
  "(2155, LINT_WARNING) \<in> walk_kinds" "(2162, LINT_WARNING) \<in> walk_kinds" "(2163, LINT_WARNING) \<in> walk_kinds"
  "(2164, LINT_WARNING) \<in> walk_kinds" "(2168, LINT_ERROR) \<in> walk_kinds" "(2172, LINT_WARNING) \<in> walk_kinds"
  "(2184, LINT_WARNING) \<in> walk_kinds" "(2216, LINT_WARNING) \<in> walk_kinds" "(2230, LINT_INFO) \<in> walk_kinds"
  "(2249, LINT_INFO) \<in> walk_kinds" "(2269, LINT_WARNING) \<in> walk_kinds"
  by (simp_all add: documented_def)

lemma said_word_unit [said_intros]:
  "said walk_kinds a b \<Longrightarrow> said walk_kinds a (checks_on_word_unit lineno w b)"
  by (induction w arbitrary: b) (simp_all add: said_intros)

lemma said_word_part: "said walk_kinds a b \<Longrightarrow> said walk_kinds a (check_word_part lineno w b)"
  by (cases "(lineno, w, b)" rule: check_word_part.cases)
     (auto intro!: said_intros split: list.splits simp del: set_simps)

lemma said_word [said_intros]: "said walk_kinds a b \<Longrightarrow> said walk_kinds a (checks_on_word lineno w b)"
  by (induction w arbitrary: b) (simp_all add: said_word_part)

lemma said_redirs [said_intros]: "said walk_kinds a b \<Longrightarrow> said walk_kinds a (walk_io_redirs lineno rs b)"
  by (induction rs arbitrary: b) (simp_all add: said_intros)

lemma said_words [said_intros]:
  "said walk_kinds a b \<Longrightarrow> said walk_kinds a (walk_words lineno words b)"
  "said walk_kinds a b \<Longrightarrow> said walk_kinds a (walk_simple lineno words b)"
  unfolding walk_words_def walk_simple_def by (intro said_foldl said_intros; assumption)+

lemma said_simple [said_intros]:
  "said walk_kinds a b \<Longrightarrow>
   said walk_kinds a (checks_on_simple_command lineno piped lst guarded assigns words b)"
  unfolding checks_on_simple_command_def Let_def by (intro said_intros said_foldl | assumption)+

lemma said_compound [said_intros]:
  "said walk_kinds a b \<Longrightarrow> said walk_kinds a (checks_on_compound_command lineno body b)"
  unfolding checks_on_compound_command_def Let_def check_for_words_def
  by (intro said_intros; (assumption | (cases body; simp add: said_intros split: list.splits)))

lemma said_sh_list [said_intros]: "said walk_kinds a b \<Longrightarrow> said walk_kinds a (checks_on_sh_list pls b)"
  by (induction pls b rule: checks_on_sh_list.induct) (simp_all add: said_intros Let_def)

lemma said_walk:
  "said walk_kinds ctx (walk_sh_list prog ctx)"
  "said walk_kinds ctx' (walk_pipeline pls ctx')"
  "said walk_kinds ctx2 (walk_members piped guarded cmds ctx2)"
  "said walk_kinds ctx3 (walk_command piped' lst guarded' cmd ctx3)"
proof (induction prog ctx and pls ctx' and piped guarded cmds ctx2 and piped' lst guarded' cmd ctx3
    rule: walk_sh_list_walk_pipeline_walk_members_walk_command.induct)
  case (2 sl rest ctx)
  then show ?case
    by (auto intro: said_trans [OF said_trans [OF said_sh_list [OF said_refl]]])
next
  case (7 piped lst guarded lineno redirs body ctx)
  have start: "said walk_kinds ctx (walk_io_redirs lineno redirs (checks_on_compound_command lineno body ctx))"
    by (intro said_intros)
  note IH = 7 [OF refl]
  show ?case
  proof (cases body)
    case (CT_SIMPLE assigns words arrays)
    with start show ?thesis by (simp add: said_intros Let_def)
  next
    case (CT_GROUP b)
    with said_trans [OF start IH(1)] show ?thesis by simp
  next
    case (CT_SUBSHELL b)
    with said_trans [OF start IH(2)] show ?thesis by simp
  next
    case (CT_IF clauses)
    have "said walk_kinds ctx (walk_sh_list (ic_body ic)
        (case ic_condition ic of None \<Rightarrow> c | Some cond \<Rightarrow> walk_sh_list cond c))"
      if "ic \<in> set clauses" "said walk_kinds ctx c" for ic c
      by (rule said_trans [OF _ IH(4) [OF CT_IF that(1)]])
         (use that IH(3) [OF CT_IF that(1)] in \<open>auto intro: said_trans split: option.splits\<close>)
    with start CT_IF show ?thesis by (simp add: said_foldl Let_def)
  next
    case (CT_FOR varname words b)
    with said_trans [OF said_words(1) [OF start] said_in_loop, OF IH(5) [OF CT_FOR]] show ?thesis
      by simp
  next
    case (CT_WHILE condition b)
    with said_trans [OF said_trans [OF start IH(7) [OF CT_WHILE]] said_in_loop, OF IH(6) [OF CT_WHILE]]
    show ?thesis by simp
  next
    case (CT_UNTIL condition b)
    with said_trans [OF said_trans [OF start IH(9) [OF CT_UNTIL]] said_in_loop, OF IH(8) [OF CT_UNTIL]]
    show ?thesis by simp
  next
    case (CT_CASE subject items)
    with start IH(10) [OF CT_CASE] show ?thesis
      by (auto simp: Let_def intro!: said_foldl intro: said_trans)
  next
    case (CT_FUNCDEF name b)
    with said_trans [OF start said_function, OF IH(11) [OF CT_FUNCDEF]] show ?thesis
      by (simp add: Let_def)
  next
    case (CT_BRACKET expr)
    with start show ?thesis by (simp add: Let_def)
  qed
qed (auto intro: said_trans said_intros)

subsection \<open>The commands of a program\<close>

text \<open>Every command, those inside others included, in the order of the text.\<close>

function (sequential) all_commands :: "program \<Rightarrow> program command list"
and with_inner :: "program command \<Rightarrow> program command list"
where
  "all_commands prog =
     concat (map (\<lambda>sl. concat (map (\<lambda>pl. concat (map with_inner (ao_commands pl))) (sl_pipelines sl))) prog)"
| "with_inner (Command lineno redirs body) =
     Command lineno redirs body #
     (case body of
        CT_IF clauses \<Rightarrow>
          concat (map (\<lambda>ic. (case ic_condition ic of None \<Rightarrow> [] | Some c \<Rightarrow> all_commands c) @
                            all_commands (ic_body ic)) clauses)
      | CT_FOR varname words b \<Rightarrow> all_commands b
      | CT_WHILE condition b \<Rightarrow> all_commands condition @ all_commands b
      | CT_UNTIL condition b \<Rightarrow> all_commands condition @ all_commands b
      | CT_CASE subject items \<Rightarrow> concat (map (\<lambda>ci. all_commands (ci_body ci)) items)
      | CT_GROUP b \<Rightarrow> all_commands b
      | CT_SUBSHELL b \<Rightarrow> all_commands b
      | CT_FUNCDEF name b \<Rightarrow> with_inner b
      | _ \<Rightarrow> [])"
  by pat_completeness auto
termination
proof (relation "measure (\<lambda>x. case x of Inl prog \<Rightarrow> program_size prog | Inr cmd \<Rightarrow> size_command program_size cmd)",
       goal_cases)
  case 2
  then show ?case using program_size_command by simp
qed (auto dest: clause_size item_size)

lemmas program_eqs [simp del] = all_commands.simps track_vars_sh_list.simps collect_func_calls.simps

lemma foldl_concat_map: "foldl f a (concat (map g xs)) = foldl (\<lambda>a x. foldl f a (g x)) a xs"
  by (induction xs arbitrary: a) simp_all

text \<open>What one command adds to the tables.\<close>

definition track_own :: "tracked \<Rightarrow> program command \<Rightarrow> tracked" where
  "track_own tr cmd =
     (let tr = tr\<lparr>tr_refs := track_vars_io_redirs (cmd_redirs cmd) (tr_refs tr)\<rparr> in
      case cmd_body cmd of
        CT_SIMPLE assigns words arrays \<Rightarrow> track_simple assigns words tr
      | CT_FOR varname words b \<Rightarrow>
          tr\<lparr>tr_assigns := ht_note varname (tr_assigns tr),
             tr_refs := foldl (\<lambda>refs w. track_vars_word w refs) (tr_refs tr) words\<rparr>
      | CT_CASE subject items \<Rightarrow> tr\<lparr>tr_refs := track_vars_word subject (tr_refs tr)\<rparr>
      | CT_FUNCDEF name b \<Rightarrow> tr\<lparr>tr_funcs := ht_note name (tr_funcs tr)\<rparr>
      | _ \<Rightarrow> tr)"

lemma track_own_Command:
  "track_own tr (Command lineno redirs body) =
      (let tr = tr\<lparr>tr_refs := track_vars_io_redirs redirs (tr_refs tr)\<rparr> in
       case body of
         CT_SIMPLE assigns words arrays \<Rightarrow> track_simple assigns words tr
       | CT_FOR varname words b \<Rightarrow>
           tr\<lparr>tr_assigns := ht_note varname (tr_assigns tr),
              tr_refs := foldl (\<lambda>refs w. track_vars_word w refs) (tr_refs tr) words\<rparr>
       | CT_CASE subject items \<Rightarrow> tr\<lparr>tr_refs := track_vars_word subject (tr_refs tr)\<rparr>
       | CT_FUNCDEF name b \<Rightarrow> tr\<lparr>tr_funcs := ht_note name (tr_funcs tr)\<rparr>
       | _ \<Rightarrow> tr)"
  by (simp add: track_own_def)

lemma track_flat:
  "track_vars_sh_list prog tr = foldl track_own tr (all_commands prog)"
  "track_vars_command cmd tr' = foldl track_own tr' (with_inner cmd)"
proof (induction prog tr and cmd tr' rule: track_vars_sh_list_track_vars_command.induct)
  case (1 prog tr)
  then show ?case
    unfolding all_commands.simps track_vars_sh_list.simps foldl_concat_map
    by (intro foldl_cong refl) (simp add: foldl_concat_map)
next
  case (2 lineno redirs body tr)
  note IH = 2 [OF refl]
  show ?case
  proof (cases body)
    case (CT_WHILE condition b)
    then show ?thesis
      using IH(6,7) [OF CT_WHILE] by (simp add: track_own_Command)
  next
    case (CT_UNTIL condition b)
    then show ?thesis
      using IH(8,9) [OF CT_UNTIL] by (simp add: track_own_Command)
  next
    case (CT_FUNCDEF name b)
    then show ?thesis
      using IH(11) [OF CT_FUNCDEF] by (simp add: track_own_Command)
  next
    case (CT_FOR varname words b)
    then show ?thesis
      using IH(5) [OF CT_FOR] by (simp add: track_own_Command)
  qed (auto simp: IH track_own_Command foldl_concat_map intro!: foldl_cong split: option.splits)
qed

definition call_own :: "unit hashtable \<Rightarrow> unit hashtable \<Rightarrow> program command \<Rightarrow> unit hashtable" where
  "call_own defined called cmd =
     (case simple_cmd_name (cmd_body cmd) of
        None \<Rightarrow> called
      | Some name \<Rightarrow> if ht_get defined name \<noteq> None then ht_note name called else called)"

lemma calls_flat:
  "collect_func_calls defined prog called = foldl (call_own defined) called (all_commands prog)"
  "collect_func_calls_cmd defined' cmd called' = foldl (call_own defined') called' (with_inner cmd)"
proof (induction defined prog called and defined' cmd called'
    rule: collect_func_calls_collect_func_calls_cmd.induct)
  case (1 defined prog called)
  then show ?case
    unfolding all_commands.simps collect_func_calls.simps foldl_concat_map
    by (intro foldl_cong refl) (simp add: foldl_concat_map)
next
  case (2 defined lineno redirs body called)
  have own: "call_own defined called (Command lineno redirs body) = called" if "simple_cmd_name body = None"
    using that by (simp add: call_own_def)
  show ?case
  proof (cases body)
    case (CT_WHILE condition b)
    show ?thesis
      using 2(7) [OF CT_WHILE] 2(6) [OF CT_WHILE] own
      by (simp add: CT_WHILE simple_cmd_name_def)
  next
    case (CT_UNTIL condition b)
    show ?thesis
      using 2(9) [OF CT_UNTIL] 2(8) [OF CT_UNTIL] own
      by (simp add: CT_UNTIL simple_cmd_name_def)
  qed (auto simp: 2 own call_own_def simple_cmd_name_def foldl_concat_map
         intro!: foldl_cong split: option.splits)
qed

subsection \<open>Names\<close>

text \<open>The names a word uses, and those a command assigns, uses, defines and calls.\<close>

fun word_names :: "'p wordu \<Rightarrow> string set" where
  "word_names [] = {}"
| "word_names (WP_PARAM q pe # w) =
     (if pe_name pe = [] \<or> is_special_param (pe_name pe) then {} else {pe_name pe}) \<union> word_names w"
| "word_names (WP_ARITH q a # w) = word_names a \<union> word_names w"
| "word_names (_ # w) = word_names w"

abbreviation assigned_by :: "'p wordu list \<Rightarrow> string set" where
  "assigned_by ws \<equiv> {name. \<exists>w \<in> set ws. assigned_name w = Some name}"

definition read_by :: "'p wordu list \<Rightarrow> string set" where
  "read_by words = {name. \<exists>w \<in> set (tl words). lint_word_literal w = Some name \<and> peek name 0 \<noteq> CHR ''-''}"

definition names_assigned :: "program command \<Rightarrow> string set" where
  "names_assigned cmd =
     (case cmd_body cmd of
        CT_SIMPLE assigns words arrays \<Rightarrow>
          assigned_by assigns \<union>
          (if words_cmd_name words \<in> {Some ''local'', Some ''export'', Some ''readonly''}
           then assigned_by (tl words) else {}) \<union>
          (if words_cmd_name words = Some ''read'' then read_by words else {})
      | CT_FOR varname words b \<Rightarrow> {varname}
      | _ \<Rightarrow> {})"

definition names_used :: "program command \<Rightarrow> string set" where
  "names_used cmd =
     (\<Union>r \<in> set (cmd_redirs cmd). word_names (rd_target r)) \<union>
     (case cmd_body cmd of
        CT_SIMPLE assigns words arrays \<Rightarrow>
          (\<Union>w \<in> set assigns. word_names (assigned_value w)) \<union> (\<Union>w \<in> set words. word_names w)
      | CT_FOR varname words b \<Rightarrow> \<Union>w \<in> set words. word_names w
      | CT_CASE subject items \<Rightarrow> word_names subject
      | _ \<Rightarrow> {})"

definition names_defined :: "program command \<Rightarrow> string set" where
  "names_defined cmd = (case cmd_body cmd of CT_FUNCDEF name b \<Rightarrow> {name} | _ \<Rightarrow> {})"

definition names_called :: "program command \<Rightarrow> string set" where
  "names_called cmd = {name. simple_cmd_name (cmd_body cmd) = Some name}"

abbreviation in_program :: "(program command \<Rightarrow> string set) \<Rightarrow> program \<Rightarrow> string set" where
  "in_program names prog \<equiv> \<Union>cmd \<in> set (all_commands prog). names cmd"

subsection \<open>The tables hold the names\<close>

definition holds :: "unit hashtable \<Rightarrow> string set \<Rightarrow> bool" where
  "holds t S \<longleftrightarrow> ht_inv t \<and> dom (ht_map t) = S"

named_theorems holds_intros

lemma holds_init: "holds ht_init {}"
  by (simp add: holds_def ht_init_correct)

lemma holds_get: "holds t S \<Longrightarrow> ht_get t name = None \<longleftrightarrow> name \<notin> S"
  by (auto simp: holds_def ht.get_map)

lemma holds_note [holds_intros]: "holds t S \<Longrightarrow> holds (ht_note name t) ({name} \<union> S)"
proof -
  assume t: "holds t S"
  show ?thesis
  proof (cases "name \<in> S")
    case True
    with t show ?thesis
      using holds_get [OF t, of name] by (simp add: ht_note_def insert_absorb)
  next
    case False
    with t show ?thesis
      by (auto simp: ht_note_def holds_def ht.get_map ht.put_inv ht.put_map)
  qed
qed

lemma holds_cong: "holds t S \<Longrightarrow> S = S' \<Longrightarrow> holds t S'"
  by simp

lemma holds_foldl:
  assumes "holds t S" "\<And>t S x. x \<in> set xs \<Longrightarrow> holds t S \<Longrightarrow> holds (f t x) (N x \<union> S)"
  shows "holds (foldl f t xs) (\<Union> (N ` set xs) \<union> S)"
  using assms
proof (induction xs arbitrary: t S)
  case (Cons x xs)
  from Cons.IH [OF Cons.prems(2)] Cons.prems show ?case
    by (auto intro!: holds_cong [OF Cons.IH] simp: Un_ac)
qed simp

lemma holds_word [holds_intros]: "holds t S \<Longrightarrow> holds (track_vars_word w t) (word_names w \<union> S)"
proof (induction w t arbitrary: S rule: track_vars_word.induct)
  case (2 q pe w refs)
  show ?case
  proof (cases "pe_name pe = [] \<or> is_special_param (pe_name pe)")
    case True
    with 2 show ?thesis by auto
  next
    case False
    from 2(1) [of "{pe_name pe} \<union> S"] holds_note [OF 2(2)] False show ?thesis
      by (simp add: Un_ac)
  qed
next
  case (3 q a w refs)
  from 3(2) [OF 3(1) [OF 3(3)]] show ?case
    by (simp add: Un_ac)
qed simp_all

lemma holds_assigned: "holds t S \<Longrightarrow> holds (note_assigned t w) ({n. assigned_name w = Some n} \<union> S)"
  using holds_note [of t S] by (auto simp: note_assigned_def split: option.splits)

lemma holds_read: "holds t S \<Longrightarrow>
    holds (track_read_assigns words t) ((if words_cmd_name words = Some ''read'' then read_by words else {}) \<union> S)"
  unfolding track_read_assigns_def
proof (simp, intro impI)
  assume t: "holds t S"
  have "holds (track_read_arg t w) ({n. lint_word_literal w = Some n \<and> peek n 0 \<noteq> CHR ''-''} \<union> S)"
    if "holds t S" for t S and w :: "'a wordu"
    by (cases "lint_word_literal w")
       (auto simp: track_read_arg_def intro: holds_cong [OF that] holds_cong [OF holds_note [OF that]])
  from holds_foldl [OF t this]
  show "holds (foldl track_read_arg t (tl words)) (read_by words \<union> S)"
    by (rule holds_cong) (auto simp: read_by_def)
qed

definition tracks :: "tracked \<Rightarrow> program command set \<Rightarrow> bool" where
  "tracks tr cmds \<longleftrightarrow>
     holds (tr_assigns tr) (\<Union> (names_assigned ` cmds)) \<and> holds (tr_refs tr) (\<Union> (names_used ` cmds)) \<and>
     holds (tr_funcs tr) (\<Union> (names_defined ` cmds))"

lemma track_assigns_fold:
  "foldl track_assign tr assigns =
     tr\<lparr>tr_assigns := foldl note_assigned (tr_assigns tr) assigns,
        tr_refs := foldl (\<lambda>refs w. track_vars_word (assigned_value w) refs) (tr_refs tr) assigns\<rparr>"
  by (induction assigns arbitrary: tr) (simp_all add: track_assign_def)

lemma track_own_tracks: "tracks tr cmds \<Longrightarrow> tracks (track_own tr cmd) (insert cmd cmds)"
proof (cases cmd)
  case (Command lineno redirs body)
  assume "tracks tr cmds"
  then have a: "holds (tr_assigns tr) (\<Union> (names_assigned ` cmds))"
    and u: "holds (tr_refs tr) (\<Union> (names_used ` cmds))" and d: "holds (tr_funcs tr) (\<Union> (names_defined ` cmds))"
    by (simp_all add: tracks_def)
  have words: "holds (foldl (\<lambda>refs w. track_vars_word (g w) refs) t ws) ((\<Union>w \<in> set ws. word_names (g w)) \<union> S)"
    if "holds t S" for t S ws and g :: "program wordu \<Rightarrow> program wordu"
    using that by (rule holds_foldl) (rule holds_word)
  have r: "holds (track_vars_io_redirs redirs (tr_refs tr))
      ((\<Union>r \<in> set redirs. word_names (rd_target r)) \<union> \<Union> (names_used ` cmds))"
    unfolding track_vars_io_redirs_def using u by (rule holds_foldl) (rule holds_word)
  have assigned: "holds (foldl note_assigned t ws) (assigned_by ws \<union> S)" if "holds t S" for t S and ws :: "program wordu list"
    using holds_foldl [OF that holds_assigned, of ws] by (rule holds_cong) auto
  show ?thesis
  proof (cases body)
    case (CT_SIMPLE assigns words' arrays)
    let ?decl = "words_cmd_name words' \<in> {Some ''local'', Some ''export'', Some ''readonly''}"
    have "holds (if ?decl then foldl note_assigned (foldl note_assigned (tr_assigns tr) assigns) (tl words')
        else foldl note_assigned (tr_assigns tr) assigns)
      ((if ?decl then assigned_by (tl words') else {}) \<union> (assigned_by assigns \<union> \<Union> (names_assigned ` cmds)))"
      using assigned [OF assigned [OF a]] assigned [OF a] by simp
    from holds_read [OF this, of words']
    have "holds (tr_assigns (track_own tr cmd)) (\<Union> (names_assigned ` insert cmd cmds))"
      by (auto simp: Command CT_SIMPLE track_own_Command track_simple_def track_assigns_fold names_assigned_def
          Let_def elim!: holds_cong split: if_splits)
    moreover from words [OF words [OF r, where g = assigned_value and ws = assigns], where g = "\<lambda>w. w" and ws = words']
    have "holds (tr_refs (track_own tr cmd)) (\<Union> (names_used ` insert cmd cmds))"
      by (auto simp: Command CT_SIMPLE track_own_Command track_simple_def track_assigns_fold names_used_def
          Let_def elim!: holds_cong split: if_splits)
    moreover from d have "holds (tr_funcs (track_own tr cmd)) (\<Union> (names_defined ` insert cmd cmds))"
      by (auto simp: Command CT_SIMPLE track_own_Command track_simple_def track_assigns_fold names_defined_def
          Let_def elim!: holds_cong split: if_splits)
    ultimately show ?thesis
      by (simp add: tracks_def)
  next
    case (CT_FOR varname words' b)
    have "holds (ht_note varname (tr_assigns tr)) (\<Union> (names_assigned ` insert cmd cmds))"
      by (rule holds_cong [OF holds_note [OF a]]) (simp add: Command CT_FOR names_assigned_def)
    moreover from words [OF r, where g = "\<lambda>w. w" and ws = words']
    have "holds (foldl (\<lambda>refs w. track_vars_word w refs) (track_vars_io_redirs redirs (tr_refs tr)) words')
        (\<Union> (names_used ` insert cmd cmds))"
      by (rule holds_cong) (auto simp: Command CT_FOR names_used_def)
    ultimately show ?thesis
      using d by (simp add: tracks_def track_own_Command Command CT_FOR names_defined_def)
  next
    case (CT_CASE subject items)
    have "holds (track_vars_word subject (track_vars_io_redirs redirs (tr_refs tr)))
        (\<Union> (names_used ` insert cmd cmds))"
      by (rule holds_cong [OF holds_word [OF r]]) (auto simp: Command CT_CASE names_used_def)
    then show ?thesis
      using a d
      by (simp add: tracks_def track_own_Command Command CT_CASE names_assigned_def names_defined_def)
  next
    case (CT_FUNCDEF name b)
    with a d r holds_note [OF d, of name] show ?thesis
      by (simp add: tracks_def track_own_Command Command names_assigned_def names_used_def names_defined_def)
  qed (use a d r in \<open>simp_all add: tracks_def Command track_own_Command names_assigned_def names_used_def
        names_defined_def\<close>)
qed

lemma program_tracks:
  "tracks (track_vars_sh_list prog \<lparr>tr_assigns = ht_init, tr_refs = ht_init, tr_funcs = ht_init\<rparr>)
     (set (all_commands prog))"
proof -
  have "tracks (foldl track_own tr cmds) (set cmds \<union> seen)" if "tracks tr seen" for tr cmds seen
    using that
  proof (induction cmds arbitrary: tr seen)
    case (Cons cmd cmds)
    from Cons.IH [OF track_own_tracks [OF Cons.prems]] show ?case by simp
  qed simp
  from this [of _ "{}"] show ?thesis
    unfolding track_flat by (simp add: tracks_def holds_init)
qed

lemma program_calls:
  assumes "holds defined D"
  shows "holds (collect_func_calls defined prog ht_init) (in_program names_called prog \<inter> D)"
proof -
  have "holds (call_own defined t cmd) ((names_called cmd \<inter> D) \<union> S)" if "holds t S" for t S cmd
    using holds_note [OF that] that holds_get [OF assms]
    by (auto simp: call_own_def names_called_def split: option.splits intro: holds_cong)
  from holds_foldl [OF holds_init this] show ?thesis
    unfolding calls_flat by (rule holds_cong) auto
qed

subsection \<open>What the tracking reports\<close>

text \<open>The walk over a table sees each of its names once.\<close>

lemma foreach_keys:
  assumes "holds t S" "\<And>k v ctx. fst (fn k v ctx) = False"
  obtains ks where "distinct ks" "set ks = S" "ht_foreach t fn ctx = foldl (\<lambda>ctx k. snd (fn k () ctx)) ctx ks"
proof -
  let ?es = "List.map_filter (\<lambda>x. x) (ht_entries t)"
  have "distinct (map ht_key ?es)"
    using assms(1) by (intro slots_keys_distinct) (simp add: holds_def ht_inv_def slots_ok_def)
  moreover have "set (map ht_key ?es) = S"
    using assms(1) by (simp add: holds_def ht_map_def slots_map_def dom_map_of_conv_image_fst image_image)
  moreover have "ht_foreach t fn ctx = foldl (\<lambda>ctx k. snd (fn k () ctx)) ctx (map ht_key ?es)"
    by (simp add: ht_foreach_def ht_foreach_slots_fold [of fn, OF assms(2)] foldl_map)
  ultimately show ?thesis
    by (rule that)
qed

definition reported :: "nat \<Rightarrow> lint_diag list \<Rightarrow> string multiset" where
  "reported code diags = mset (map ld_message (filter (\<lambda>d. ld_code d = code) diags))"

definition diag_for :: "nat \<Rightarrow> lint_severity \<Rightarrow> string \<Rightarrow> (string \<Rightarrow> string) \<Rightarrow> string \<Rightarrow> lint_diag" where
  "diag_for code sev filename msg name =
     \<lparr>ld_code = code, ld_severity = sev, ld_filename = filename, ld_lineno = 0, ld_column = 0,
      ld_message = take 511 (msg name)\<rparr>"

lemma emit_all:
  "lc_diags (foldl (\<lambda>ctx k. emit_when (P k) code sev 0 (msg k) ctx) ctx ks) =
     lc_diags ctx @ map (diag_for code sev (lc_filename ctx) msg) (filter P ks) \<and>
   lc_filename (foldl (\<lambda>ctx k. emit_when (P k) code sev 0 (msg k) ctx) ctx ks) = lc_filename ctx"
  by (induction ks arbitrary: ctx) (simp_all add: emit_when_def lint_emit_def diag_for_def)

lemma foreach_reports:
  assumes "holds t S" "\<And>k v ctx. fn k v ctx = (False, emit_when (P k) code sev 0 (msg k) ctx)"
  shows "\<exists>ks. distinct ks \<and> set ks = {k \<in> S. P k} \<and>
    lc_diags (ht_foreach t fn ctx) = lc_diags ctx @ map (diag_for code sev (lc_filename ctx) msg) ks \<and>
    lc_filename (ht_foreach t fn ctx) = lc_filename ctx"
proof -
  obtain ks where ks: "distinct ks" "set ks = S"
    "ht_foreach t fn ctx = foldl (\<lambda>ctx k. snd (fn k () ctx)) ctx ks"
    using foreach_keys [OF assms(1), of fn ctx] assms(2) by auto
  show ?thesis
    by (rule exI [of _ "filter P ks"]) (use ks emit_all [of P code sev msg ctx ks] in \<open>auto simp: assms(2)\<close>)
qed

text \<open>The diagnostics for the names of one table that another one lacks.\<close>

lemma unused_var_reports:
  assumes "holds t S" "holds other R"
  shows "\<exists>ks. distinct ks \<and> set ks = S - R - set known_variables \<and>
    lc_diags (ht_foreach t (check_unused_var other code suff) ctx) =
      lc_diags ctx @ map (diag_for code LINT_WARNING (lc_filename ctx) (\<lambda>v. v @ '' '' @ suff)) ks \<and>
    lc_filename (ht_foreach t (check_unused_var other code suff) ctx) = lc_filename ctx"
proof -
  have "{k \<in> S. ht_get other k = None \<and> k \<notin> set known_variables} = S - R - set known_variables"
    using holds_get [OF assms(2)] by auto
  with foreach_reports [OF assms(1), of "check_unused_var other code suff"
      "\<lambda>k. ht_get other k = None \<and> k \<notin> set known_variables" code LINT_WARNING "\<lambda>v. v @ '' '' @ suff" ctx]
  show ?thesis
    by (simp add: check_unused_var_def)
qed

abbreviation "unused_msg v \<equiv> v @ '' '' @ ''appears unused. Verify it or export it''"
abbreviation "unassigned_msg v \<equiv> v @ '' '' @ ''is referenced but not assigned''"
abbreviation "uncalled_msg f \<equiv> ''Function '' @ [CHR 0x27] @ f @ [CHR 0x27] @ '' is never invoked''"

lemma unused_func_reports:
  assumes "holds t S" "holds other R"
  shows "\<exists>ks. distinct ks \<and> set ks = S - R \<and>
    lc_diags (ht_foreach t (check_unused_func other) ctx) =
      lc_diags ctx @ map (diag_for 2329 LINT_INFO (lc_filename ctx) (\<lambda>f. uncalled_msg f)) ks"
proof -
  have "{k \<in> S. ht_get other k = None} = S - R"
    using holds_get [OF assms(2)] by auto
  with foreach_reports [OF assms(1), of "check_unused_func other" "\<lambda>k. ht_get other k = None" 2329 LINT_INFO
      "\<lambda>f. uncalled_msg f" ctx]
  show ?thesis
    by (auto simp: check_unused_func_def)
qed

lemma lint_check_parts:
  obtains ds us ns fs where
    "lint_check prog filename = ds @ map (diag_for 2034 LINT_WARNING filename (\<lambda>v. unused_msg v)) us @
       map (diag_for 2154 LINT_WARNING filename (\<lambda>v. unassigned_msg v)) ns @
       map (diag_for 2329 LINT_INFO filename (\<lambda>f. uncalled_msg f)) fs"
    "list_all (diag_ok walk_kinds filename) ds" "distinct us" "distinct ns" "distinct fs"
    "set us = in_program names_assigned prog - in_program names_used prog - set known_variables"
    "set ns = in_program names_used prog - in_program names_assigned prog - set known_variables"
    "set fs = in_program names_defined prog - in_program names_called prog"
proof -
  let ?tr = "track_vars_sh_list prog \<lparr>tr_assigns = ht_init, tr_refs = ht_init, tr_funcs = ht_init\<rparr>"
  let ?called = "collect_func_calls (tr_funcs ?tr) prog ht_init"
  have a: "holds (tr_assigns ?tr) (in_program names_assigned prog)"
    and u: "holds (tr_refs ?tr) (in_program names_used prog)"
    and d: "holds (tr_funcs ?tr) (in_program names_defined prog)"
    using program_tracks [of prog] by (simp_all add: tracks_def)
  note c = program_calls [OF d, of prog]
  obtain ds where ds: "lc_diags (walk_sh_list prog (lint_ctx_init filename)) = ds"
    "lc_filename (walk_sh_list prog (lint_ctx_init filename)) = filename" "list_all (diag_ok walk_kinds filename) ds"
    using said_walk(1) [of "lint_ctx_init filename" prog] by (auto simp: said_def lint_ctx_init_def)
  let ?c0 = "walk_sh_list prog (lint_ctx_init filename)"
  let ?c1 = "ht_foreach (tr_assigns ?tr) (check_unused_var (tr_refs ?tr) 2034
       ''appears unused. Verify it or export it'') ?c0"
  let ?c2 = "ht_foreach (tr_refs ?tr) (check_unused_var (tr_assigns ?tr) 2154
       ''is referenced but not assigned'') ?c1"
  from unused_var_reports [OF a u, of 2034 "''appears unused. Verify it or export it''" ?c0]
  obtain us where us: "distinct us" "set us = in_program names_assigned prog - in_program names_used prog - set known_variables"
      "lc_diags ?c1 = lc_diags ?c0 @ map (diag_for 2034 LINT_WARNING (lc_filename ?c0) (\<lambda>v. unused_msg v)) us"
      "lc_filename ?c1 = lc_filename ?c0"
    by (elim exE conjE) (rule that, assumption+)
  from unused_var_reports [OF u a, of 2154 "''is referenced but not assigned''" ?c1]
  obtain ns where ns: "distinct ns" "set ns = in_program names_used prog - in_program names_assigned prog - set known_variables"
      "lc_diags ?c2 = lc_diags ?c1 @ map (diag_for 2154 LINT_WARNING (lc_filename ?c1) (\<lambda>v. unassigned_msg v)) ns"
      "lc_filename ?c2 = lc_filename ?c1"
    by (elim exE conjE) (rule that, assumption+)
  from unused_func_reports [OF d c, of ?c2]
  obtain fs where fs: "distinct fs"
      "set fs = in_program names_defined prog - in_program names_called prog \<inter> in_program names_defined prog"
      "lc_diags (ht_foreach (tr_funcs ?tr) (check_unused_func ?called) ?c2) =
       lc_diags ?c2 @ map (diag_for 2329 LINT_INFO (lc_filename ?c2) (\<lambda>f. uncalled_msg f)) fs"
    by (elim exE conjE) (rule that, assumption+)
  show ?thesis
  proof (rule that [OF _ ds(3) us(1) ns(1) fs(1) us(2) ns(2)])
    show "lint_check prog filename = ds @ map (diag_for 2034 LINT_WARNING filename (\<lambda>v. unused_msg v)) us @
       map (diag_for 2154 LINT_WARNING filename (\<lambda>v. unassigned_msg v)) ns @
       map (diag_for 2329 LINT_INFO filename (\<lambda>f. uncalled_msg f)) fs"
      unfolding lint_check_def checks_variable_tracking_def Let_def fs(3) ns(3,4) us(3,4) ds(1,2)
      by (simp only: append_assoc)
    show "set fs = in_program names_defined prog - in_program names_called prog"
      unfolding fs(2) by blast
  qed
qed

text \<open>
  C29. Every diagnostic carries the file's name, a message that fits its buffer and one of the codes of
  \<^verbatim>\<open>docs/lint-checks.md\<close> with the severity given there.
\<close>

theorem severities_documented:
  "list_all (diag_ok (walk_kinds \<union> tracking_kinds) filename) (lint_check prog filename)"
proof -
  obtain ds us ns fs where
    "lint_check prog filename = ds @ map (diag_for 2034 LINT_WARNING filename (\<lambda>v. unused_msg v)) us @
       map (diag_for 2154 LINT_WARNING filename (\<lambda>v. unassigned_msg v)) ns @
       map (diag_for 2329 LINT_INFO filename (\<lambda>f. uncalled_msg f)) fs"
    "list_all (diag_ok walk_kinds filename) ds"
    by (rule lint_check_parts)
  then show ?thesis
    by (auto simp: list_all_iff diag_ok_def diag_for_def tracking_kinds_def)
qed

end
