(* ===== verification/Format.thy ===== *)
theory Format
  imports Parser Cstd
begin

text \<open>
  \<^verbatim>\<open>src/format/format.c\<close>: a program printed back as text. The buffer is the text appended so far, which
  \<open>strbuf_refines_text\<close> justifies; the comments still to be printed are a list. \<open>nested\<close> prints a program
  that stands, already parsed, in a command substitution; \<open>None\<close> is the end of the fuel for that nesting.
\<close>

subsection \<open>The formatter\<close>

record deferred_heredoc =
  dh_body :: "program wordu"
  dh_delim :: "string option"
  dh_delim_word :: "program wordu"
  dh_expand :: bool

record fmt =
  fm_out :: string
  fm_width :: int
  fm_depth :: nat
  fm_comments :: "(string \<times> nat) list"
  fm_pending :: "deferred_heredoc list"

definition MAX_PENDING_HEREDOC_FMT :: nat where
  "MAX_PENDING_HEREDOC_FMT = 8"

type_synonym fmt_step = "fmt \<Rightarrow> fmt option"

definition emit :: "string \<Rightarrow> fmt \<Rightarrow> fmt" where
  "emit s f = f\<lparr>fm_out := fm_out f @ s\<rparr>"

definition emit_newline :: "fmt \<Rightarrow> fmt" where
  "emit_newline f = emit [CHR 0x0A] f"

text \<open>A width of 0 stands for tabs; no blank is printed for a negative one.\<close>

definition indentation :: "fmt \<Rightarrow> string" where
  "indentation f =
     (if fm_width f = 0 then replicate (fm_depth f) CHR 0x09
      else replicate (nat (int (fm_depth f) * fm_width f)) CHR '' '')"

definition emit_indent :: "fmt \<Rightarrow> fmt" where
  "emit_indent f = emit (indentation f) f"

definition emit_comment :: "fmt \<Rightarrow> string \<times> nat \<Rightarrow> fmt" where
  "emit_comment f cm = emit_newline (emit (fst cm) (emit_indent f))"

definition emit_comments_before :: "nat \<Rightarrow> fmt \<Rightarrow> fmt" where
  "emit_comments_before line f =
     (let cms = takeWhile (\<lambda>cm. snd cm < line) (fm_comments f)
      in (foldl emit_comment f cms)\<lparr>fm_comments := drop (length cms) (fm_comments f)\<rparr>)"

definition emit_trailing_comment :: "nat \<Rightarrow> fmt \<Rightarrow> fmt" where
  "emit_trailing_comment line f =
     (case fm_comments f of
        cm # cms \<Rightarrow> if snd cm = line then (emit (CHR '' '' # fst cm) f)\<lparr>fm_comments := cms\<rparr> else f
      | [] \<Rightarrow> f)"

definition emit_remaining_comments :: "fmt \<Rightarrow> fmt" where
  "emit_remaining_comments f = (foldl emit_comment f (fm_comments f))\<lparr>fm_comments := []\<rparr>"

text \<open>The line of the first command of a list, 0 when there is none.\<close>

definition sh_list_lineno :: "program \<Rightarrow> nat" where
  "sh_list_lineno prog =
     (case prog of
        sl # _ \<Rightarrow>
          (case sl_pipelines sl of
             pl # _ \<Rightarrow> (case ao_commands pl of cmd # _ \<Rightarrow> cmd_lineno cmd | [] \<Rightarrow> 0)
           | [] \<Rightarrow> 0)
      | [] \<Rightarrow> 0)"

subsection \<open>Words\<close>

definition is_name_char :: "char \<Rightarrow> bool" where
  "is_name_char c \<longleftrightarrow>
     c \<in> set ''abcdefghijklmnopqrstuvwxyzABCDEFGHIJKLMNOPQRSTUVWXYZ0123456789_''"

text \<open>The names that are printed without braces.\<close>

definition is_plain_param :: "string \<Rightarrow> bool" where
  "is_plain_param name \<longleftrightarrow>
     name \<noteq> [] \<and>
     (list_all is_name_char name \<or> (length name = 1 \<and> hd name \<in> set ''?$!#@*-0123456789''))"

text \<open>The operator of an expansion, as it stands in front of its word.\<close>

definition param_operator :: "param_exp_type \<Rightarrow> u32 \<Rightarrow> string" where
  "param_operator t flags =
     (let colon = (if flags AND PE_COLON \<noteq> 0 then '':'' else []);
          longest = (flags AND PE_LONGEST \<noteq> 0)
      in case t of
           PE_NONE \<Rightarrow> []
         | PE_DEFAULT \<Rightarrow> colon @ ''-''
         | PE_ALTERNATE \<Rightarrow> colon @ ''+''
         | PE_ASSIGN \<Rightarrow> colon @ ''=''
         | PE_ERROR \<Rightarrow> colon @ ''?''
         | PE_TRIM \<Rightarrow>
             if flags AND PE_SUFFIX \<noteq> 0 then (if longest then ''%%'' else ''%'')
             else (if longest then ''##'' else ''#'')
         | PE_REPLACE \<Rightarrow> if flags AND PE_GLOBAL \<noteq> 0 then ''//'' else ''/'')"

text \<open>
  \<open>format_units\<close> is the loop of \<^verbatim>\<open>format_word\<close>, with whether a double quote is open. The text of an
  arithmetic expansion ends with one of its two closing parentheses.
\<close>

function (sequential) format_units :: "(program \<Rightarrow> fmt_step) \<Rightarrow> bool \<Rightarrow> program wordu \<Rightarrow> fmt_step"
and format_word_unit :: "(program \<Rightarrow> fmt_step) \<Rightarrow> program word_part \<Rightarrow> fmt_step"
and format_param_exp :: "(program \<Rightarrow> fmt_step) \<Rightarrow> program param_exp \<Rightarrow> fmt_step"
where
  "format_units nested in_quote [] f = Some (if in_quote then emit [CHR 0x22] f else f)"
| "format_units nested in_quote (w # ws) f =
     do { f \<leftarrow> format_word_unit nested w (if wp_quoted w \<noteq> in_quote then emit [CHR 0x22] f else f);
          format_units nested (wp_quoted w) ws f }"
| "format_word_unit nested (WP_LITERAL q s) f = Some (emit s f)"
| "format_word_unit nested (WP_PARAM q pe) f = format_param_exp nested pe f"
| "format_word_unit nested (WP_CMDSUB q (Preparsed b prog)) f =
     do { f \<leftarrow> nested prog (emit ''$('' f); Some (emit '')'' f) }"
| "format_word_unit nested (WP_CMDSUB q (Unparsed b s)) f = Some (emit ('')'') (emit s (emit ''$('' f)))"
| "format_word_unit nested (WP_ARITH q a) f =
     do { f \<leftarrow> format_units nested False a (emit ''$(('' f); Some (emit '')'' f) }"
| "format_param_exp nested (Param_exp name t flags pat repl index index_all) f =
     (if flags AND PE_STRLEN \<noteq> 0 then Some (emit (''${#'' @ name @ ''}'') f)
      else if t = PE_NONE \<and> pat = [] \<and> repl = []
      then Some (emit (if is_plain_param name then ''$'' @ name else ''${'' @ name @ ''}'') f)
      else
        (let f = emit (''${'' @ name @ param_operator t flags) f in
         do { f \<leftarrow> (if t = PE_NONE \<or> pat = [] then Some f else format_units nested False pat f);
              f \<leftarrow> (if t = PE_REPLACE \<and> repl \<noteq> [] then format_units nested False repl (emit ''/'' f) else Some f);
              Some (emit ''}'' f) }))"
  by pat_completeness auto
termination
  by (relation "measure (\<lambda>x. case x of
        Inl (nested, in_quote, w, f) \<Rightarrow> size_list (size_word_part program_size) w
      | Inr (Inl (nested, w, f)) \<Rightarrow> size_word_part program_size w
      | Inr (Inr (nested, pe, f)) \<Rightarrow> size_param_exp program_size pe)") auto

definition format_word :: "(program \<Rightarrow> fmt_step) \<Rightarrow> program wordu \<Rightarrow> fmt_step" where
  "format_word nested w f = format_units nested False w f"

subsection \<open>Here-documents\<close>

definition escape_body_char :: "char \<Rightarrow> string" where
  "escape_body_char c = (if c \<in> {CHR ''$'', CHR 0x60, CHR 0x5C} then [CHR 0x5C, c] else [c])"

fun format_heredoc_body :: "(program \<Rightarrow> fmt_step) \<Rightarrow> bool \<Rightarrow> program wordu \<Rightarrow> fmt_step" where
  "format_heredoc_body nested expand [] f = Some f"
| "format_heredoc_body nested expand (w # ws) f =
     do { f \<leftarrow> (case w of
                  WP_LITERAL q s \<Rightarrow> Some (emit (if expand then concat (map escape_body_char s) else s) f)
                | _ \<Rightarrow> format_word_unit nested w f);
          format_heredoc_body nested expand ws f }"

definition flush_heredoc :: "(program \<Rightarrow> fmt_step) \<Rightarrow> fmt \<Rightarrow> deferred_heredoc \<Rightarrow> fmt option" where
  "flush_heredoc nested f ph =
     do { f \<leftarrow> format_heredoc_body nested (dh_expand ph) (dh_body ph) (emit [CHR 0x0A] f);
          (case dh_delim ph of
             Some delim \<Rightarrow> Some (emit delim f)
           | None \<Rightarrow> format_word nested (dh_delim_word ph) f) }"

definition flush_heredocs :: "(program \<Rightarrow> fmt_step) \<Rightarrow> fmt_step" where
  "flush_heredocs nested f =
     do { f \<leftarrow> foldM (flush_heredoc nested) f (fm_pending f); Some (f\<lparr>fm_pending := []\<rparr>) }"

subsection \<open>Redirections and conditions\<close>

definition redir_prints_fd :: "io_redir_type \<Rightarrow> int \<Rightarrow> bool" where
  "redir_prints_fd t fd =
     (if t \<in> {REDIR_IN, REDIR_RDWR, REDIR_DUPIN, REDIR_HEREDOC, REDIR_HEREDOC_STRIP, REDIR_HERESTR} then fd \<noteq> 0
      else if t \<in> {REDIR_OUT, REDIR_APPEND, REDIR_CLOBBER, REDIR_DUPOUT} then fd \<noteq> 1
      else True)"

primrec redir_operator :: "io_redir_type \<Rightarrow> int \<Rightarrow> string" where
  "redir_operator REDIR_IN fd = ''< ''"
| "redir_operator REDIR_OUT fd = ''> ''"
| "redir_operator REDIR_APPEND fd = ''>> ''"
| "redir_operator REDIR_CLOBBER fd = ''>| ''"
| "redir_operator REDIR_RDWR fd = ''<> ''"
| "redir_operator REDIR_DUPIN fd = ''<&''"
| "redir_operator REDIR_DUPOUT fd = ''>&''"
| "redir_operator REDIR_CLOSE fd = (if fd = 0 then ''<&-'' else ''>&-'')"
| "redir_operator REDIR_HEREDOC fd = ''<< ''"
| "redir_operator REDIR_HEREDOC_STRIP fd = ''<<- ''"
| "redir_operator REDIR_HERESTR fd = ''<<< ''"

text \<open>The body of a here-document waits for the end of the line; the ninth of a line is dropped.\<close>

definition defer_heredoc :: "program io_redir \<Rightarrow> fmt \<Rightarrow> fmt" where
  "defer_heredoc r f =
     (if rd_type r \<in> {REDIR_HEREDOC, REDIR_HEREDOC_STRIP} \<and> rd_heredoc_body r \<noteq> [] \<and>
         length (fm_pending f) < MAX_PENDING_HEREDOC_FMT
      then f\<lparr>fm_pending := fm_pending f @
               [\<lparr>dh_body = rd_heredoc_body r, dh_delim = rd_heredoc_delim r, dh_delim_word = rd_target r,
                 dh_expand = rd_heredoc_expand r\<rparr>]\<rparr>
      else f)"

fun format_redir :: "(program \<Rightarrow> fmt_step) \<Rightarrow> program io_redir list \<Rightarrow> fmt_step" where
  "format_redir nested [] f = Some f"
| "format_redir nested (r # rs) f =
     (let f = emit '' '' f;
          f = (if redir_prints_fd (rd_type r) (rd_fd r) then emit (show_int (rd_fd r)) f else f);
          f = emit (redir_operator (rd_type r) (rd_fd r)) f
      in do { f \<leftarrow> (if rd_type r = REDIR_CLOSE then Some f else format_word nested (rd_target r) f);
              format_redir nested rs (defer_heredoc r f) })"

fun format_cond_expr :: "(program \<Rightarrow> fmt_step) \<Rightarrow> program cond_expr \<Rightarrow> fmt_step" where
  "format_cond_expr nested (COND_AND l r) f =
     do { f \<leftarrow> format_cond_expr nested l f; format_cond_expr nested r (emit '' && '' f) }"
| "format_cond_expr nested (COND_OR l r) f =
     do { f \<leftarrow> format_cond_expr nested l f; format_cond_expr nested r (emit '' || '' f) }"
| "format_cond_expr nested (COND_NOT d) f = format_cond_expr nested d (emit ''! '' f)"
| "format_cond_expr nested (COND_UNARY opr w) f = format_word nested w (emit '' '' (emit opr f))"
| "format_cond_expr nested (COND_BINARY opr l r) f =
     do { f \<leftarrow> format_word nested l f;
          format_word nested r (emit '' '' (emit opr (emit '' '' f))) }"
| "format_cond_expr nested (COND_STRING w) f = format_word nested w f"

subsection \<open>Commands\<close>

text \<open>Words with a separator in front of all but the first.\<close>

fun format_list :: "(program \<Rightarrow> fmt_step) \<Rightarrow> string \<Rightarrow> bool \<Rightarrow> program wordu list \<Rightarrow> fmt_step" where
  "format_list nested sep first [] f = Some f"
| "format_list nested sep first (w # ws) f =
     do { f \<leftarrow> format_word nested w (if first then f else emit sep f);
          format_list nested sep False ws f }"

definition format_simple_command ::
  "(program \<Rightarrow> fmt_step) \<Rightarrow> program wordu list \<Rightarrow> program wordu list \<Rightarrow> program io_redir list \<Rightarrow> fmt_step"
where
  "format_simple_command nested assigns words redirs f =
     do { f \<leftarrow> format_list nested '' '' True (assigns @ words) f; format_redir nested redirs f }"

primrec terminator_str :: "caseend \<Rightarrow> string" where
  "terminator_str CASE_BREAK = '';;''"
| "terminator_str CASE_FALLTHROUGH = '';&''"
| "terminator_str CASE_CONTINUE = '';|''"

text \<open>The lines of a body, and of a program: a list with the comments around it.\<close>

definition line_start :: "nat \<Rightarrow> bool \<Rightarrow> fmt \<Rightarrow> fmt" where
  "line_start line indented f =
     (let f = (if line > 0 then emit_comments_before line f else f)
      in if indented then emit_indent f else f)"

definition line_end :: "nat \<Rightarrow> fmt \<Rightarrow> fmt" where
  "line_end line f = emit_newline (if line > 0 then emit_trailing_comment line f else f)"

definition deeper :: "fmt \<Rightarrow> fmt" where
  "deeper f = f\<lparr>fm_depth := fm_depth f + 1\<rparr>"

definition shallower :: "fmt \<Rightarrow> fmt" where
  "shallower f = f\<lparr>fm_depth := fm_depth f - 1\<rparr>"

text \<open>
  \<open>format_sh_list\<close> prints the first list only. \<open>format_pipelines\<close>, \<open>format_members\<close>, \<open>format_lines\<close>,
  \<open>format_clauses\<close> and \<open>format_items\<close> are the loops of the functions around them.
\<close>

function (sequential) format_sh_list :: "(program \<Rightarrow> fmt_step) \<Rightarrow> program \<Rightarrow> fmt_step"
and format_pipelines :: "(program \<Rightarrow> fmt_step) \<Rightarrow> program and_or list \<Rightarrow> fmt_step"
and format_members :: "(program \<Rightarrow> fmt_step) \<Rightarrow> bool \<Rightarrow> program command list \<Rightarrow> fmt_step"
and format_lines :: "(program \<Rightarrow> fmt_step) \<Rightarrow> program \<Rightarrow> fmt_step"
and format_clauses :: "(program \<Rightarrow> fmt_step) \<Rightarrow> bool \<Rightarrow> program if_clause list \<Rightarrow> fmt_step"
and format_items :: "(program \<Rightarrow> fmt_step) \<Rightarrow> program case_item list \<Rightarrow> fmt_step"
and format_command :: "(program \<Rightarrow> fmt_step) \<Rightarrow> program command \<Rightarrow> fmt_step"
where
  "format_sh_list nested [] f = Some f"
| "format_sh_list nested (sl # rest) f =
     do { f \<leftarrow> format_pipelines nested (sl_pipelines sl) f;
          Some (if sl_background sl then emit '' &'' f else f) }"
| "format_pipelines nested [] f = Some f"
| "format_pipelines nested (pl # rest) f =
     do { f \<leftarrow> format_members nested True (ao_commands pl) (if ao_negated pl then emit ''! '' f else f);
          f \<leftarrow> flush_heredocs nested f;
          format_pipelines nested rest
            (if rest = [] then f else emit (if ao_connector pl then '' && '' else '' || '') f) }"
| "format_members nested first [] f = Some f"
| "format_members nested first (cmd # cmds) f =
     do { f \<leftarrow> format_command nested cmd (if first then f else emit '' | '' f);
          format_members nested False cmds f }"
| "format_lines nested [] f = Some f"
| "format_lines nested (sl # rest) f =
     do { f \<leftarrow> format_sh_list nested [sl] (line_start (sh_list_lineno [sl]) True f);
          format_lines nested rest (line_end (sh_list_lineno [sl]) f) }"
| "format_clauses nested first [] f = Some f"
| "format_clauses nested first (ic # ics) f =
     do { f \<leftarrow> (case ic_condition ic of
                  Some c \<Rightarrow>
                    do { f \<leftarrow> format_sh_list nested c
                           (if first then emit ''if '' f else emit ''elif '' (emit_indent f));
                         Some (emit ''; then'' f) }
                | None \<Rightarrow> Some (emit ''else'' (emit_indent f)));
          f \<leftarrow> format_lines nested (ic_body ic) (deeper (emit_newline f));
          format_clauses nested (first \<and> ic_condition ic = None) ics (shallower f) }"
| "format_items nested [] f = Some f"
| "format_items nested (ci # cis) f =
     do { f \<leftarrow> format_list nested '' | '' True (ci_patterns ci) (emit ''('' (emit_indent f));
          f \<leftarrow> format_lines nested (ci_body ci) (deeper (emit_newline (emit '')'' f)));
          format_items nested cis
            (emit_newline (emit (terminator_str (ci_terminator ci)) (emit_indent (shallower f)))) }"
| "format_command nested (Command lineno redirs body) f =
     (case body of
        CT_SIMPLE assigns words arrays \<Rightarrow> format_simple_command nested assigns words redirs f
      | CT_GROUP b \<Rightarrow>
          do { f \<leftarrow> format_lines nested b (deeper (emit_newline (emit ''{'' f)));
               format_redir nested redirs (emit ''}'' (emit_indent (shallower f))) }
      | CT_SUBSHELL b \<Rightarrow>
          do { f \<leftarrow> format_lines nested b (deeper (emit_newline (emit ''('' f)));
               format_redir nested redirs (emit '')'' (emit_indent (shallower f))) }
      | CT_IF clauses \<Rightarrow>
          do { f \<leftarrow> format_clauses nested True clauses f;
               format_redir nested redirs (emit ''fi'' (emit_indent f)) }
      | CT_FOR varname words b \<Rightarrow>
          do { f \<leftarrow> format_list nested '' '' False words
                 (emit (if words \<noteq> [] then '' in'' else []) (emit varname (emit ''for '' f)));
               f \<leftarrow> format_lines nested b (deeper (emit_newline (emit ''; do'' f)));
               format_redir nested redirs (emit ''done'' (emit_indent (shallower f))) }
      | CT_WHILE condition b \<Rightarrow>
          do { f \<leftarrow> format_sh_list nested condition (emit ''while '' f);
               f \<leftarrow> format_lines nested b (deeper (emit_newline (emit ''; do'' f)));
               format_redir nested redirs (emit ''done'' (emit_indent (shallower f))) }
      | CT_UNTIL condition b \<Rightarrow>
          do { f \<leftarrow> format_sh_list nested condition (emit ''until '' f);
               f \<leftarrow> format_lines nested b (deeper (emit_newline (emit ''; do'' f)));
               format_redir nested redirs (emit ''done'' (emit_indent (shallower f))) }
      | CT_CASE subject items \<Rightarrow>
          do { f \<leftarrow> format_word nested subject (emit ''case '' f);
               f \<leftarrow> format_items nested items (emit_newline (emit '' in'' f));
               format_redir nested redirs (emit ''esac'' (emit_indent f)) }
      | CT_FUNCDEF name b \<Rightarrow>
          do { f \<leftarrow> format_command nested b (emit ''() '' (emit name f));
               format_redir nested redirs f }
      | CT_BRACKET expr \<Rightarrow>
          do { f \<leftarrow> (case expr of
                       None \<Rightarrow> Some (emit ''[[ '' f)
                     | Some e \<Rightarrow> format_cond_expr nested e (emit ''[[ '' f));
               format_redir nested redirs (emit '' ]]'' f) })"
  by pat_completeness auto
termination
proof (relation "measures [\<lambda>x. case x of
    Inl (Inl (nested, prog, f)) \<Rightarrow> program_size (take 1 prog)
  | Inl (Inr (Inl (nested, pls, f))) \<Rightarrow> size_list (size_and_or program_size) pls
  | Inl (Inr (Inr (nested, first, cmds, f))) \<Rightarrow> size_list (size_command program_size) cmds
  | Inr (Inl (Inl (nested, prog, f))) \<Rightarrow> program_size prog
  | Inr (Inl (Inr (nested, first, clauses, f))) \<Rightarrow> size_list (size_if_clause program_size) clauses
  | Inr (Inr (Inl (nested, items, f))) \<Rightarrow> size_list (size_case_item program_size) items
  | Inr (Inr (Inr (nested, cmd, f))) \<Rightarrow> size_command program_size cmd,
  \<lambda>x. case x of Inr (Inl (Inl _)) \<Rightarrow> 1 | _ \<Rightarrow> 0]", goal_cases)
qed (auto intro!: le_imp_less_Suc intro: le_SucI trans_le_add1 trans_le_add2 less_imp_le node_size program_take_size
       order_trans [OF program_take_size])

text \<open>\<open>n\<close> bounds how deep already parsed programs stand in one another.\<close>

fun format_nested :: "nat \<Rightarrow> program \<Rightarrow> fmt_step" where
  "format_nested 0 prog f = None"
| "format_nested (Suc n) prog f = format_sh_list (format_nested n) prog f"

subsection \<open>Programs\<close>

fun format_top :: "(program \<Rightarrow> fmt_step) \<Rightarrow> program \<Rightarrow> fmt_step" where
  "format_top nested [] f = Some f"
| "format_top nested (sl # rest) f =
     do { f \<leftarrow> format_sh_list nested [sl] (line_start (sh_list_lineno [sl]) False f);
          format_top nested rest (line_end (sh_list_lineno [sl]) f) }"

definition fmt_init :: "int \<Rightarrow> (string \<times> nat) list \<Rightarrow> string \<Rightarrow> fmt" where
  "fmt_init width comments out =
     \<lparr>fm_out = out, fm_width = width, fm_depth = 0, fm_comments = comments, fm_pending = []\<rparr>"

definition format_ast ::
  "nat \<Rightarrow> string \<Rightarrow> program \<Rightarrow> (string \<times> nat) list \<Rightarrow> int \<Rightarrow> string option"
where
  "format_ast n out ast comments width =
     do { f \<leftarrow> format_top (format_nested n) ast (fmt_init width comments out);
          Some (fm_out (emit_remaining_comments f)) }"

text \<open>\<^verbatim>\<open>parser_parse\<close> and \<^verbatim>\<open>parser_take_comments\<close>.\<close>

definition parse_with_comments :: "string \<Rightarrow> string \<Rightarrow> program \<times> (string \<times> nat) list \<times> nat \<times> string" where
  "parse_with_comments source filename =
     (case parser_parse (parser_init source filename) of
        None \<Rightarrow> ([], [], 0, [])
      | Some (prog, p) \<Rightarrow> (prog, lx_comments (ps_lexer p), parser_error_count p, lx_stderr (ps_lexer p)))"

text \<open>
  The text, \<open>None\<close> when it does not parse, and what is printed to the error output. The parser never puts a
  parsed program into a word, so no nesting is needed.
\<close>

definition format_source :: "string \<Rightarrow> string \<Rightarrow> int \<Rightarrow> (string option \<times> string) option" where
  "format_source source filename width =
     (case parse_with_comments source filename of
        (ast, comments, errors, err) \<Rightarrow>
          if errors > 0
          then Some (None, err @ ''opsh format: parse errors in '' @ filename @ [CHR 0x0A])
          else do { out \<leftarrow> format_ast 0 [] ast comments width; Some (Some out, err) })"

subsection \<open>The command\<close>

record format_options =
  fo_write :: bool
  fo_diff :: bool
  fo_list :: bool
  fo_width :: int

datatype format_args =
    Format_files format_options "string list"
  | Format_usage int string

fun parse_format_args :: "format_options \<Rightarrow> string list \<Rightarrow> format_args" where
  "parse_format_args fo [] = Format_files fo []"
| "parse_format_args fo (arg # rest) =
     (if arg = ''-w'' then parse_format_args (fo\<lparr>fo_write := True\<rparr>) rest
      else if arg = ''-d'' then parse_format_args (fo\<lparr>fo_diff := True\<rparr>) rest
      else if arg = ''-l'' then parse_format_args (fo\<lparr>fo_list := True\<rparr>) rest
      else if arg = ''-i'' \<and> rest \<noteq> [] then parse_format_args (fo\<lparr>fo_width := atoi (hd rest)\<rparr>) (tl rest)
      else if arg = ''--help'' \<or> arg = ''-h'' then Format_usage 0 []
      else if peek arg 0 = CHR ''-''
      then Format_usage 1 (''opsh format: unknown option: '' @ arg @ [CHR 0x0A])
      else Format_files fo (arg # rest))"

text \<open>
  The status, what is printed, what to the error output, and the new contents of the file when it is to be
  written. \<open>diff\<close> is the output of the program of that name, \<open>None\<close> when its temporary files cannot be made;
  \<open>writable\<close> tells the paths that can be opened for writing.
\<close>

type_synonym differ = "string \<Rightarrow> string \<Rightarrow> string \<Rightarrow> string option"

definition process_file ::
  "differ \<Rightarrow> (string \<Rightarrow> bool) \<Rightarrow> string \<Rightarrow> string \<Rightarrow> format_options \<Rightarrow>
   (int \<times> string \<times> string \<times> string option) option"
where
  "process_file diff writable path source fo =
     do { (formatted, err) \<leftarrow> format_source source path (fo_width fo);
          (case formatted of
             None \<Rightarrow> Some (2, [], err, None)
           | Some text \<Rightarrow>
               (let changed = (source \<noteq> text);
                    status = (if changed then 1 else 0)
                in if fo_list fo then Some (status, if changed then path @ [CHR 0x0A] else [], err, None)
                   else if fo_diff fo then
                     (if changed
                      then (case diff path source text of
                              None \<Rightarrow> Some (2, [], err @ ''opsh format: cannot create temp files'' @ [CHR 0x0A], None)
                            | Some out \<Rightarrow> Some (status, out, err, None))
                      else Some (status, [], err, None))
                   else if fo_write fo then
                     (if changed \<and> \<not> writable path
                      then Some (2, [], err @ ''opsh format: cannot write '' @ path @ [CHR 0x0A], None)
                      else Some (status, [], err, if changed then Some text else None))
                   else Some (0, text, err, None))) }"

text \<open>The files in order, with those that are written.\<close>

fun format_files ::
  "differ \<Rightarrow> (string \<Rightarrow> bool) \<Rightarrow> (string \<Rightarrow> string option) \<Rightarrow> format_options \<Rightarrow> string list \<Rightarrow>
   int \<times> string \<times> string \<times> (string \<times> string) list \<Rightarrow> (int \<times> string \<times> string \<times> (string \<times> string) list) option"
where
  "format_files diff writable read_file fo [] res = Some res"
| "format_files diff writable read_file fo (path # paths) (code, out, err, written) =
     (case read_file path of
        None \<Rightarrow>
          format_files diff writable read_file fo paths
            (2, out, err @ ''opsh format: cannot read '' @ path @ [CHR 0x0A], written)
      | Some source \<Rightarrow>
          do { (rc, out', err', new) \<leftarrow> process_file diff writable path source fo;
               format_files diff writable (case new of Some text \<Rightarrow> read_file(path \<mapsto> text) | None \<Rightarrow> read_file) fo paths
                 (if rc = 2 then 2 else if rc = 1 \<and> code = 0 then 1 else code, out @ out', err @ err',
                  case new of Some text \<Rightarrow> written @ [(path, text)] | None \<Rightarrow> written) })"

definition format_main ::
  "differ \<Rightarrow> (string \<Rightarrow> bool) \<Rightarrow> (string \<Rightarrow> string option) \<Rightarrow> string \<Rightarrow> string list \<Rightarrow>
   (int \<times> string \<times> string \<times> (string \<times> string) list) option"
where
  "format_main diff writable read_file stdin args =
     (case parse_format_args \<lparr>fo_write = False, fo_diff = False, fo_list = False, fo_width = 4\<rparr> args of
        Format_usage code msg \<Rightarrow> Some (code, [], msg, [])
      | Format_files fo [] \<Rightarrow>
          if fo_write fo then Some (1, [], ''opsh format: -w requires file arguments'' @ [CHR 0x0A], [])
          else do { (rc, out, err, new) \<leftarrow> process_file diff writable ''<stdin>'' stdin (fo\<lparr>fo_write := False\<rparr>);
                    Some (if rc \<ge> 2 then rc else 0, out, err, []) }
      | Format_files fo (path # paths) \<Rightarrow> format_files diff writable read_file fo (path # paths) (0, [], [], []))"

end
