(* ===== verification/FormatProps.thy ===== *)
theory FormatProps
  imports Format
begin

text \<open>
  What the formatter prints: every comment of the source, in order; and, for scripts of plain words, a text
  that is parsed back to the same program.
\<close>

subsection \<open>Comments\<close>

text \<open>A text with pieces in it, in order and apart from one another.\<close>

fun carries :: "string list \<Rightarrow> string \<Rightarrow> bool" where
  "carries [] s = True"
| "carries (t # ts) s = (\<exists>a b. s = a @ t @ b \<and> carries ts b)"

lemma carries_after: "carries ts s \<Longrightarrow> carries ts (a @ s)"
  by (cases ts) (simp, metis append_assoc carries.simps(2))

lemma carries_before: "carries ts s \<Longrightarrow> carries ts (s @ b)"
proof (induction ts arbitrary: s)
  case (Cons t ts)
  then obtain a c where "s = a @ t @ c" "carries ts c" by auto
  then have "s @ b = a @ t @ (c @ b)" "carries ts (c @ b)"
    using Cons.IH [of c] by simp_all
  then show ?case
    by (simp only: carries.simps) blast
qed simp

lemma carries_append: "carries ts s \<Longrightarrow> carries us t \<Longrightarrow> carries (ts @ us) (s @ t)"
proof (induction ts arbitrary: s)
  case (Cons x ts)
  then obtain a b where "s = a @ x @ b" "carries ts b" by auto
  with Cons show ?case by auto
qed (simp add: carries_after)

text \<open>A step that appends to the text, and prints the comments it takes off the list.\<close>

definition prints :: "fmt \<Rightarrow> fmt \<Rightarrow> bool" where
  "prints f f' \<longleftrightarrow>
     (\<exists>s cms. fm_out f' = fm_out f @ s \<and> fm_comments f = cms @ fm_comments f' \<and> carries (map fst cms) s)"

named_theorems prints_intros

lemma prints_refl [prints_intros]: "prints f f"
  by (simp add: prints_def)

lemma prints_trans: "prints a b \<Longrightarrow> prints b c \<Longrightarrow> prints a c"
  unfolding prints_def using carries_append by fastforce

lemma prints_emit [prints_intros]: "prints a f \<Longrightarrow> prints a (emit s f)"
  by (erule prints_trans) (auto simp: prints_def emit_def intro: exI [of _ s])

lemma prints_simple [prints_intros]:
  "prints a f \<Longrightarrow> prints a (emit_newline f)" "prints a f \<Longrightarrow> prints a (emit_indent f)"
  "prints a f \<Longrightarrow> prints a (deeper f)" "prints a f \<Longrightarrow> prints a (shallower f)"
  "prints a f \<Longrightarrow> prints a (defer_heredoc r f)" "prints a f \<Longrightarrow> prints a (f\<lparr>fm_pending := phs\<rparr>)"
  by (simp_all add: emit_newline_def emit_indent_def prints_emit)
     (simp_all add: prints_def deeper_def shallower_def defer_heredoc_def)

lemma prints_if [prints_intros]:
  "(b \<Longrightarrow> prints a f) \<Longrightarrow> (\<not> b \<Longrightarrow> prints a g) \<Longrightarrow> prints a (if b then f else g)"
  by simp

lemma emit_comments_text:
  "\<exists>s. fm_out (foldl emit_comment f cms) = fm_out f @ s \<and> carries (map fst cms) s \<and>
       fm_comments (foldl emit_comment f cms) = fm_comments f"
proof (induction cms arbitrary: f)
  case (Cons cm cms)
  have out: "fm_out (emit_comment f cm) = fm_out f @ indentation f @ fst cm @ [CHR 0x0A]"
    and kept: "fm_comments (emit_comment f cm) = fm_comments f"
    by (simp_all add: emit_comment_def emit_newline_def emit_indent_def emit_def)
  from Cons.IH [of "emit_comment f cm"] obtain s
    where s: "fm_out (foldl emit_comment (emit_comment f cm) cms) = fm_out (emit_comment f cm) @ s"
      "carries (map fst cms) s" "fm_comments (foldl emit_comment (emit_comment f cm) cms) = fm_comments f"
    unfolding kept by blast
  show ?case
    by (rule exI [of _ "indentation f @ fst cm @ [CHR 0x0A] @ s"])
       (use s out carries_after [OF s(2), of "[CHR 0x0A]"] in \<open>auto intro: exI [of _ "indentation f"]\<close>)
qed simp

lemma prints_comments [prints_intros]: "prints a f \<Longrightarrow> prints a (emit_comments_before line f)"
proof (erule prints_trans)
  let ?cms = "takeWhile (\<lambda>cm. snd cm < line) (fm_comments f)"
  obtain s where s: "fm_out (foldl emit_comment f ?cms) = fm_out f @ s" "carries (map fst ?cms) s"
    using emit_comments_text by blast
  have "fm_comments f = ?cms @ drop (length ?cms) (fm_comments f)"
    by (metis append_eq_conv_conj takeWhile_dropWhile_id)
  with s show "prints f (emit_comments_before line f)"
    unfolding prints_def emit_comments_before_def Let_def
    by (intro exI [of _ s] exI [of _ ?cms]) simp
qed

lemma prints_trailing [prints_intros]: "prints a f \<Longrightarrow> prints a (emit_trailing_comment line f)"
proof (erule prints_trans)
  have "carries [t] (CHR '' '' # t)" for t
    by (simp, rule exI [of _ "'' ''"], simp)
  then show "prints f (emit_trailing_comment line f)"
    unfolding prints_def emit_trailing_comment_def
    by (auto simp: emit_def prints_def split: list.splits intro!: exI [of _ "[_]"] exI [of _ "_ # _"])
qed

lemma prints_line [prints_intros]:
  "prints a f \<Longrightarrow> prints a (line_start line ind f)" "prints a f \<Longrightarrow> prints a (line_end line f)"
  unfolding line_start_def line_end_def Let_def by (intro prints_intros; assumption)+

text \<open>Steps that can run out of fuel.\<close>

lemma sat_prints: "prints a f \<Longrightarrow> sat (Some f) (prints a)"
  by (rule sat_Some)

lemma sat_prints_if: "(b \<Longrightarrow> sat x P) \<Longrightarrow> (\<not> b \<Longrightarrow> sat y P) \<Longrightarrow> sat (if b then x else y) P"
  by simp

lemma sat_from: "sat m (prints f) \<Longrightarrow> prints a f \<Longrightarrow> sat m (prints a)"
  by (erule sat_weaken) (rule prints_trans)

lemma sat_prints_bind:
  "sat m (prints f) \<Longrightarrow> prints a f \<Longrightarrow> (\<And>g. m = Some g \<Longrightarrow> prints a g \<Longrightarrow> sat (k g) (prints a)) \<Longrightarrow>
   sat (Option.bind m k) (prints a)"
  by (cases m) (auto simp: sat_def intro: prints_trans)

definition prints_nested :: "(program \<Rightarrow> fmt_step) \<Rightarrow> bool" where
  "prints_nested nested \<longleftrightarrow> (\<forall>prog f. sat (nested prog f) (prints f))"

lemma prints_words:
  assumes "prints_nested nested"
  shows "sat (format_units nested q w f) (prints f)" "sat (format_word_unit nested wp f') (prints f')"
    "sat (format_param_exp nested pe f2) (prints f2)"
  using assms
proof (induction nested q w f and nested wp f' and nested pe f2
    rule: format_units_format_word_unit_format_param_exp.induct)
  case (2 nested q w ws f)
  show ?case
    unfolding format_units.simps
    by (rule sat_prints_bind [OF 2(1) [OF 2(3)]]; (intro prints_intros)?)
       (rule sat_from [OF 2(2) [OF _ 2(3)]])
next
  case (5 nested q b prog f)
  show ?case
    unfolding format_word_unit.simps
    by (rule sat_prints_bind [where f = "emit ''$('' f"]) (use 5 in \<open>auto simp: prints_nested_def intro: prints_intros sat_prints\<close>)
next
  case (7 nested q a f)
  show ?case
    unfolding format_word_unit.simps
    by (rule sat_prints_bind [OF 7(1) [OF 7(2)]]) (intro prints_intros sat_prints; assumption?)+
next
  case (8 nested name t flags pat repl index index_all f)
  let ?f = "emit (''${'' @ name @ param_operator t flags) f"
  let ?pat = "if t = PE_NONE \<or> pat = [] then Some ?f else format_units nested False pat ?f"
  let ?repl = "\<lambda>g. if t = PE_REPLACE \<and> repl \<noteq> [] then format_units nested False repl (emit ''/'' g) else Some g"
  show ?case
  proof (cases "flags AND PE_STRLEN \<noteq> 0 \<or> t = PE_NONE \<and> pat = [] \<and> repl = []")
    case True
    then show ?thesis
      by (auto intro!: sat_prints prints_intros)
  next
    case False
    have pat: "sat ?pat (prints ?f)"
      using 8(1) [OF _ _ refl _ 8(3)] False by (auto intro: sat_prints prints_refl)
    have repl: "sat (?repl g) (prints g)" if "?pat = Some g" for g
      using 8(2) [OF _ _ refl that _ 8(3)] False
      by (auto intro!: sat_prints prints_refl intro: sat_from prints_emit)
    have "sat (do { f \<leftarrow> ?pat; f \<leftarrow> ?repl f; Some (emit ''}'' f) }) (prints f)"
      by (rule sat_prints_bind [OF pat prints_emit [OF prints_refl]], rule sat_prints_bind [OF repl])
         (assumption | intro sat_prints prints_intros)+
    moreover have "(flags AND PE_STRLEN \<noteq> 0) = False" "(t = PE_NONE \<and> pat = [] \<and> repl = []) = False"
      using False by simp_all
    ultimately show ?thesis
      by (simp only: format_param_exp.simps Let_def if_False)
  qed
qed (auto intro!: sat_prints prints_intros)

lemma prints_word: "prints_nested nested \<Longrightarrow> sat (format_word nested w f) (prints f)"
  unfolding format_word_def by (rule prints_words)

lemma prints_heredoc_body:
  "prints_nested nested \<Longrightarrow> sat (format_heredoc_body nested expand w f) (prints f)"
proof (induction w arbitrary: f)
  case (Cons u w)
  show ?case
    unfolding format_heredoc_body.simps
  proof (rule sat_prints_bind)
    show "sat (case u of WP_LITERAL q s \<Rightarrow> Some (emit (if expand then concat (map escape_body_char s) else s) f)
        | _ \<Rightarrow> format_word_unit nested u f) (prints f)"
      using prints_words(2) [OF Cons.prems] by (cases u) (auto simp del: format_word_unit.simps intro!: sat_prints prints_intros)
  qed (auto intro: prints_refl sat_from Cons)
qed (auto intro: sat_prints prints_refl)

lemma prints_foldM:
  assumes "\<And>f x. sat (g f x) (prints f)"
  shows "sat (foldM g f xs) (prints f)"
proof (induction xs arbitrary: f)
  case (Cons x xs)
  show ?case
    using assms [of f x] Cons.IH by (cases "g f x") (auto simp: sat_def intro: prints_trans)
qed (auto intro: sat_prints prints_refl)

lemma prints_flush: "prints_nested nested \<Longrightarrow> sat (flush_heredocs nested f) (prints f)"
proof -
  assume nested: "prints_nested nested"
  have "sat (flush_heredoc nested f ph) (prints f)" for f ph
    unfolding flush_heredoc_def
    by (rule sat_prints_bind [OF prints_heredoc_body [OF nested]])
       (auto intro: prints_intros sat_prints sat_from prints_word nested split: option.split)
  from prints_foldM [OF this] show ?thesis
    unfolding flush_heredocs_def
    by (rule sat_prints_bind) (auto intro: prints_refl sat_prints prints_intros)
qed

lemma prints_redir: "prints_nested nested \<Longrightarrow> sat (format_redir nested rs f) (prints f)"
proof (induction rs arbitrary: f)
  case (Cons r rs)
  show ?case
    unfolding format_redir.simps Let_def
  proof (rule sat_prints_bind)
    let ?f = "emit (redir_operator (rd_type r) (rd_fd r))
      (if redir_prints_fd (rd_type r) (rd_fd r) then emit (show_int (rd_fd r)) (emit '' '' f) else emit '' '' f)"
    show "sat (if rd_type r = REDIR_CLOSE then Some ?f else format_word nested (rd_target r) ?f) (prints ?f)"
      by (auto intro: sat_prints prints_refl prints_word Cons.prems)
    show "prints f ?f"
      by (intro prints_intros)
  qed (auto intro: sat_from Cons prints_intros)
qed (auto intro: sat_prints prints_refl)

lemma prints_cond: "prints_nested nested \<Longrightarrow> sat (format_cond_expr nested e f) (prints f)"
proof (induction e arbitrary: f)
  case (COND_AND l r)
  then show ?case
    by (auto intro!: sat_prints_bind [where f = f] intro: prints_refl sat_from prints_emit)
next
  case (COND_OR l r)
  then show ?case
    by (auto intro!: sat_prints_bind [where f = f] intro: prints_refl sat_from prints_emit)
next
  case (COND_BINARY opr l r)
  then show ?case
    by (auto intro!: sat_prints_bind [OF prints_word] intro: prints_refl sat_from [OF prints_word] prints_emit)
qed (auto intro: sat_from [OF prints_word] sat_from prints_intros prints_word)

lemma prints_list: "prints_nested nested \<Longrightarrow> sat (format_list nested sep first ws f) (prints f)"
proof (induction ws arbitrary: first f)
  case (Cons w ws)
  show ?case
    unfolding format_list.simps
    by (rule sat_prints_bind [OF prints_word [OF Cons.prems]])
       (auto intro: prints_intros sat_from [OF Cons.IH [OF Cons.prems]])
qed (auto intro: sat_prints prints_refl)

lemma prints_command:
  assumes "prints_nested nested"
  shows "sat (format_sh_list nested prog f) (prints f)" "sat (format_pipelines nested pls f1) (prints f1)"
    "sat (format_members nested first cmds f2) (prints f2)" "sat (format_lines nested prog' f3) (prints f3)"
    "sat (format_clauses nested first' ics f4) (prints f4)" "sat (format_items nested cis f5) (prints f5)"
    "sat (format_command nested cmd f6) (prints f6)"
  using assms
proof (induction nested prog f and nested pls f1 and nested first cmds f2 and nested prog' f3
    and nested first' ics f4 and nested cis f5 and nested cmd f6
    rule: format_sh_list_format_pipelines_format_members_format_lines_format_clauses_format_items_format_command.induct)
  case (2 nested sl rest f)
  show ?case
    unfolding format_sh_list.simps
    by (rule sat_prints_bind [OF 2(1) [OF 2(2)]]) (auto intro: sat_prints prints_intros)
next
  case (4 nested pl rest f)
  show ?case
    unfolding format_pipelines.simps
    by (rule sat_prints_bind [OF 4(1) [OF 4(3)]], (intro prints_intros)[1],
        rule sat_prints_bind [OF prints_flush [OF 4(3)]], assumption)
       (rule sat_from [OF 4(2) [OF _ _ 4(3)]]; (assumption | intro prints_intros; assumption))
next
  case (6 nested first cmd cmds f)
  show ?case
    unfolding format_members.simps
    by (rule sat_prints_bind [OF 6(1) [OF 6(3)]], (intro prints_intros)[1])
       (rule sat_from [OF 6(2) [OF _ 6(3)]])
next
  case (8 nested sl rest f)
  show ?case
    unfolding format_lines.simps
    by (rule sat_prints_bind [OF 8(1) [OF 8(3)]], (intro prints_intros)[1])
       (rule sat_from [OF 8(2) [OF _ 8(3)]]; (assumption | intro prints_intros; assumption))
next
  case (10 nested first ic ics f)
  let ?head = "case ic_condition ic of
      Some c \<Rightarrow> do { f \<leftarrow> format_sh_list nested c (if first then emit ''if '' f else emit ''elif '' (emit_indent f));
                   Some (emit ''; then'' f) }
    | None \<Rightarrow> Some (emit ''else'' (emit_indent f))"
  have head: "sat ?head (prints f)"
  proof (cases "ic_condition ic")
    case (Some c)
    have "sat (do { f \<leftarrow> format_sh_list nested c (if first then emit ''if '' f else emit ''elif '' (emit_indent f));
                   Some (emit ''; then'' f) }) (prints f)"
      by (rule sat_prints_bind [OF 10(1) [OF Some 10(4)]]) (auto intro: sat_prints prints_intros)
    with Some show ?thesis by simp
  qed (auto intro: sat_prints prints_intros)
  show ?case
    unfolding format_clauses.simps
    by (rule sat_prints_bind [OF head prints_refl],
        rule sat_prints_bind [OF 10(2) [OF _ 10(4)]], assumption, (intro prints_intros; assumption)[1])
       (rule sat_from [OF 10(3) [OF _ _ 10(4)]]; (assumption | intro prints_intros; assumption))
next
  case (12 nested ci cis f)
  show ?case
    unfolding format_items.simps
    by (rule sat_prints_bind [OF prints_list [OF 12(3)]], (intro prints_intros)[1],
        rule sat_prints_bind [OF 12(1) [OF _ 12(3)]], assumption, (intro prints_intros; assumption)[1])
       (rule sat_from [OF 12(2) [OF _ _ 12(3)]]; (assumption | intro prints_intros; assumption))
next
  case (13 nested lineno redirs body f)
  note nested = 13(11)
  have redirs: "prints a g \<Longrightarrow> sat (format_redir nested redirs g) (prints a)" for a g
    by (rule sat_from [OF prints_redir [OF nested]])
  show ?case
  proof (cases body)
    case (CT_SIMPLE assigns words arrays)
    show ?thesis
      unfolding CT_SIMPLE format_command.simps command_body.case format_simple_command_def
      by (rule sat_prints_bind [OF prints_list [OF nested] prints_refl]) (rule redirs)
  next
    case (CT_GROUP b)
    show ?thesis
      unfolding CT_GROUP format_command.simps command_body.case
      by (rule sat_prints_bind [OF 13(1) [OF CT_GROUP nested]]) (intro redirs prints_intros; assumption?)+
  next
    case (CT_SUBSHELL b)
    show ?thesis
      unfolding CT_SUBSHELL format_command.simps command_body.case
      by (rule sat_prints_bind [OF 13(2) [OF CT_SUBSHELL nested]]) (intro redirs prints_intros; assumption?)+
  next
    case (CT_IF clauses)
    show ?thesis
      unfolding CT_IF format_command.simps command_body.case
      by (rule sat_prints_bind [OF 13(3) [OF CT_IF nested] prints_refl]) (intro redirs prints_intros; assumption)
  next
    case (CT_FOR varname words b)
    show ?thesis
      unfolding CT_FOR format_command.simps command_body.case
      by (rule sat_prints_bind [OF prints_list [OF nested]], (intro prints_intros)[1],
          rule sat_prints_bind [OF 13(4) [OF CT_FOR _ nested]], assumption, (intro prints_intros; assumption)[1])
         (intro redirs prints_intros; assumption)
  next
    case (CT_WHILE condition b)
    show ?thesis
      unfolding CT_WHILE format_command.simps command_body.case
      by (rule sat_prints_bind [OF 13(5) [OF CT_WHILE nested]], (intro prints_intros)[1],
          rule sat_prints_bind [OF 13(6) [OF CT_WHILE _ nested]], assumption, (intro prints_intros; assumption)[1])
         (intro redirs prints_intros; assumption)
  next
    case (CT_UNTIL condition b)
    show ?thesis
      unfolding CT_UNTIL format_command.simps command_body.case
      by (rule sat_prints_bind [OF 13(7) [OF CT_UNTIL nested]], (intro prints_intros)[1],
          rule sat_prints_bind [OF 13(8) [OF CT_UNTIL _ nested]], assumption, (intro prints_intros; assumption)[1])
         (intro redirs prints_intros; assumption)
  next
    case (CT_CASE subject items)
    show ?thesis
      unfolding CT_CASE format_command.simps command_body.case
      by (rule sat_prints_bind [OF prints_word [OF nested]], (intro prints_intros)[1],
          rule sat_prints_bind [OF 13(9) [OF CT_CASE _ nested]], assumption, (intro prints_intros; assumption)[1])
         (intro redirs prints_intros; assumption)
  next
    case (CT_FUNCDEF name b)
    show ?thesis
      unfolding CT_FUNCDEF format_command.simps command_body.case
      by (rule sat_prints_bind [OF 13(10) [OF CT_FUNCDEF nested]], (intro prints_intros)[1]) (rule redirs)
  next
    case (CT_BRACKET expr)
    have "sat (case expr of None \<Rightarrow> Some (emit ''[[ '' f) | Some e \<Rightarrow> format_cond_expr nested e (emit ''[[ '' f))
        (prints (emit ''[[ '' f))"
      by (cases expr) (auto intro: sat_prints prints_refl prints_cond [OF nested])
    then show ?thesis
      unfolding CT_BRACKET format_command.simps command_body.case
      by (rule sat_prints_bind) (intro redirs prints_intros; assumption?)+
  qed
qed (auto intro: sat_prints prints_refl)

lemma prints_nested_n: "prints_nested (format_nested n)"
proof (induction n)
  case (Suc n)
  then show ?case
    by (simp add: prints_nested_def prints_command)
qed (simp add: prints_nested_def)

lemma prints_top: "prints_nested nested \<Longrightarrow> sat (format_top nested prog f) (prints f)"
proof (induction prog arbitrary: f)
  case (Cons sl rest)
  show ?case
    unfolding format_top.simps
    by (rule sat_prints_bind [OF prints_command(1) [OF Cons.prems]], (intro prints_intros)[1])
       (rule sat_from [OF Cons.IH [OF Cons.prems]], intro prints_intros)
qed (auto intro: sat_prints prints_refl)

text \<open>
  C30. The formatter loses no comment: whatever program and comments it is given, the text it prints has the
  text of every comment in it, in order and apart from one another.
\<close>

theorem format_keeps_comments:
  assumes "format_ast n [] ast comments width = Some text"
  shows "carries (map fst comments) text"
proof -
  obtain f where f: "format_top (format_nested n) ast (fmt_init width comments []) = Some f"
    "text = fm_out (emit_remaining_comments f)"
    using assms by (auto simp: format_ast_def bind_eq_Some_conv)
  then have "prints (fmt_init width comments []) f"
    using prints_top [OF prints_nested_n] by (auto simp: sat_def)
  then obtain cms where cms: "comments = cms @ fm_comments f" "carries (map fst cms) (fm_out f)"
    by (auto simp: prints_def fmt_init_def)
  obtain s where "fm_out (emit_remaining_comments f) = fm_out f @ s" "carries (map fst (fm_comments f)) s"
    using emit_comments_text [of f "fm_comments f"] by (auto simp: emit_remaining_comments_def)
  then show ?thesis
    using cms f(2) by (auto simp: carries_append)
qed

theorem format_keeps_comments_witness:
  "\<exists>text. format_ast 0 [] [Sh_list [And_or [Command 2 [] (CT_SIMPLE [] [[WP_LITERAL False ''ls'']] [])] False False] False]
     [(''# a'', 1), (''# b'', 2)] 4 = Some text \<and> carries [''# a'', ''# b''] text"
proof -
  obtain out where out: "format_ast 0 [] [Sh_list [And_or [Command 2 []
      (CT_SIMPLE [] [[WP_LITERAL False ''ls'']] [])] False False] False] [(''# a'', 1), (''# b'', 2)] 4 = Some out"
    by (simp add: format_ast_def line_start_def line_end_def Let_def sh_list_lineno_def format_simple_command_def
        format_word_def flush_heredocs_def fmt_init_def emit_comments_before_def emit_def emit_comment_def
        emit_newline_def emit_indent_def emit_trailing_comment_def)
  with format_keeps_comments [OF out] show ?thesis
    by auto
qed

end
