(* ===== verification/Spec2Isabelle.thy ===== *)
theory Spec2Isabelle
  imports Hashtable Strbuf Plist Value Environ Job Json Arith Image ImageIO Bytecode VmRun VmWords CompilerProps
    ParserTotal Script LintProps FormatProps
begin

text \<open>
  A verification development for opsh, a POSIX-style shell that compiles scripts to bytecode and runs
  them on a stack machine.

  \<^bold>\<open>The program.\<close> \<^verbatim>\<open>src/parser\<close> turns a script into a syntax tree, \<^verbatim>\<open>src/compiler\<close> the tree into a
  bytecode image, \<^verbatim>\<open>src/vm\<close> runs the image; \<^verbatim>\<open>src/exec\<close> holds the variables, the jobs and the signal
  flags the machine works on, \<^verbatim>\<open>src/foundation\<close> the data structures under all of them,
  \<^verbatim>\<open>src/agent\<close> and the JSON of \<^verbatim>\<open>src/foundation\<close> the interface to an agent.

  \<^bold>\<open>The theories.\<close>
  \<^item> \<open>Prelude\<close>: words, lists, the option monad's \<open>foldM\<close>, shared hints.
  \<^item> \<open>Hashtable\<close>: \<^verbatim>\<open>foundation/hashtable.c\<close>. The table is the array of its slots and the count; the
    abstraction is the map a lookup reads off. Probing recurses at most capacity times, which
    suffices because an invariant keeps a slot empty.
  \<^item> \<open>Growable\<close>, \<open>Strbuf\<close>, \<open>Plist\<close>: \<^verbatim>\<open>util.c\<close>'s checked arithmetic, the doubling of a capacity (65
    rounds suffice for a \<^verbatim>\<open>size_t\<close>), \<^verbatim>\<open>strbuf.c\<close>, \<^verbatim>\<open>plist.c\<close> and \<^verbatim>\<open>arena.c\<close>. The locale \<open>growable\<close> states
    what the growing buffers share; the string buffer, the pointer list and the code of an image
    are its interpretations.
  \<^item> \<open>Cstd\<close>: the functions of the C library the sources rely on (decimal printing, \<^verbatim>\<open>strtoll\<close>,
    \<^verbatim>\<open>strstr\<close>).
  \<^item> \<open>Value\<close>: \<^verbatim>\<open>rcstr.c\<close> and \<^verbatim>\<open>value.c\<close> over a heap of reference-counted cells.
  \<^item> \<open>Environ\<close>: \<^verbatim>\<open>exec/variable.c\<close>, the chain of scopes from the innermost to the global one.
  \<^item> \<open>Job\<close>: \<^verbatim>\<open>exec/job.c\<close> and \<^verbatim>\<open>exec/signal.c\<close>; what \<^verbatim>\<open>waitpid\<close> reports is a list given to the operations.
  \<^item> \<open>Json\<close>: \<^verbatim>\<open>json.c\<close>, \<^verbatim>\<open>jsonrpc.c\<close> and \<^verbatim>\<open>agent/event.c\<close>.
  \<^item> \<open>Arith\<close>: \<^verbatim>\<open>vm/arith.c\<close>, the arithmetic evaluator. Its functions call one another through a fuelled
    dispatcher; \<open>arith_fuel\<close> is computed from the lengths of the expression and of the variables'
    texts and proved enough.
  \<^item> \<open>Image\<close>, \<open>ImageIO\<close>: the bytecode image of \<^verbatim>\<open>vm/vm.h\<close> and its file format, \<^verbatim>\<open>vm/image_io.c\<close>. The
    locale \<open>codec\<close> is the contract between a writer and a reader of one field.

  \<^bold>\<open>What the lemmas show.\<close> Each component has an invariant its operations keep and a lemma per
  operation on every branch; the properties marked C1, C2, \<dots> in the theories are the summary of each.

  \<^bold>\<open>Not modelled.\<close> Memory that runs out (the allocators abort), file I/O, and the parts of the program
  above these components that no theory holds: the lexer, the parser, the compiler, the machine's
  instructions, the builtins, the formatter, the linter, the language server and the serve mode.
\<close>

end
